(* ===== verification/Prelude.thy ===== *)
theory Prelude
  imports Main "HOL-Library.Word" "HOL-Library.Monad_Syntax"
begin

text \<open>
  Shared vocabulary of the development.

  \<^item> machine integers: \<open>u8\<close>, \<open>u16\<close>, \<open>u32\<close> and \<open>u64\<close> are the C types
    \<^verbatim>\<open>uint8_t\<close> to \<^verbatim>\<open>uint64_t\<close>;
  \<^item> fallible code: a computation of type \<open>'a option\<close> that is \<open>None\<close> has left the
    behaviour C defines (an array access outside its object, a jump through an unset
    table entry), or has called \<^verbatim>\<open>exit\<close>; \<open>opt_post\<close> is partial correctness of
    such a computation, \<open>opt_total\<close> total correctness, and the two collections
    \<open>post_rules\<close> and \<open>total_rules\<close> hold the rules that take a proof obligation
    through a do-block;
  \<^item> byte tables: \<open>tbl_load\<close> and \<open>tbl_store\<close> are the n-byte accesses
    \<^verbatim>\<open>*(uintN_t*)&tbl[off]\<close> of the taint tables, with the bounds of the table;
  \<^item> \<open>within T b\<close>: the taint tag \<open>b\<close> uses no bit outside the mask \<open>T\<close>.
\<close>

unbundle bit_operations_syntax

type_synonym u8 = "8 word"
type_synonym u16 = "16 word"
type_synonym u32 = "32 word"
type_synonym u64 = "64 word"

named_theorems case_nb_defs \<open>the enum constants as numerals\<close>
named_theorems rt_defs \<open>the handlers of the taint policy\<close>
named_theorems post_rules \<open>partial-correctness rules for do-blocks\<close>
named_theorems total_rules \<open>total-correctness rules for do-blocks\<close>

section \<open>Computations that may fault\<close>

definition opt_post :: "'a option \<Rightarrow> ('a \<Rightarrow> bool) \<Rightarrow> bool" where
  "opt_post m Q \<longleftrightarrow> (\<forall>x. m = Some x \<longrightarrow> Q x)"

definition opt_total :: "'a option \<Rightarrow> ('a \<Rightarrow> bool) \<Rightarrow> bool" where
  "opt_total m Q \<longleftrightarrow> (\<exists>x. m = Some x \<and> Q x)"

section \<open>Byte tables\<close>

definition tbl_load :: "nat \<Rightarrow> (nat \<Rightarrow> u8) \<Rightarrow> nat \<Rightarrow> nat \<Rightarrow> u8 list option" where
  "tbl_load sz t off n = (if off + n \<le> sz then Some (map t [off..<off + n]) else None)"

definition tbl_store :: "nat \<Rightarrow> (nat \<Rightarrow> u8) \<Rightarrow> nat \<Rightarrow> u8 list \<Rightarrow> (nat \<Rightarrow> u8) option" where
  "tbl_store sz t off bs =
     (if off + length bs \<le> sz
      then Some (\<lambda>a. if off \<le> a \<and> a < off + length bs then bs ! (a - off) else t a)
      else None)"

definition or_all :: "u8 list \<Rightarrow> u8" where
  "or_all bs = foldr (OR) bs 0"

definition or_bytes :: "u8 list \<Rightarrow> u8 list \<Rightarrow> u8 list" where
  "or_bytes xs ys = map2 (OR) xs ys"

definition within :: "u8 \<Rightarrow> u8 \<Rightarrow> bool" where
  "within T b \<longleftrightarrow> b AND NOT T = 0"

section \<open>Rules for do-blocks\<close>

lemma opt_postI: "(\<And>x. m = Some x \<Longrightarrow> Q x) \<Longrightarrow> opt_post m Q"
  by (simp add: opt_post_def)

lemma opt_postD: "opt_post m Q \<Longrightarrow> m = Some x \<Longrightarrow> Q x"
  by (simp add: opt_post_def)

lemma opt_totalD: "opt_total m Q \<Longrightarrow> \<exists>x. m = Some x \<and> Q x"
  by (simp add: opt_total_def)

lemma opt_post_simps [simp]:
  "opt_post (Some x) Q = Q x"
  "opt_post None Q = True"
  by (simp_all add: opt_post_def)

lemma opt_total_simps [simp]:
  "opt_total (Some x) Q = Q x"
  "opt_total None Q = False"
  by (simp_all add: opt_total_def)

lemma opt_post_mono: "opt_post m P \<Longrightarrow> (\<And>x. P x \<Longrightarrow> Q x) \<Longrightarrow> opt_post m Q"
  by (simp add: opt_post_def)

lemma opt_total_mono: "opt_total m P \<Longrightarrow> (\<And>x. P x \<Longrightarrow> Q x) \<Longrightarrow> opt_total m Q"
  by (auto simp: opt_total_def)

lemma opt_post_bind:
  "opt_post m P \<Longrightarrow> (\<And>x. P x \<Longrightarrow> opt_post (f x) Q) \<Longrightarrow> opt_post (m \<bind> f) Q"
  by (cases m) simp_all

lemma opt_total_bind:
  "opt_total m P \<Longrightarrow> (\<And>x. P x \<Longrightarrow> opt_total (f x) Q) \<Longrightarrow> opt_total (m \<bind> f) Q"
  by (cases m) simp_all

lemma opt_post_if:
  "(b \<Longrightarrow> opt_post m Q) \<Longrightarrow> (\<not> b \<Longrightarrow> opt_post n Q) \<Longrightarrow> opt_post (if b then m else n) Q"
  by simp

lemma opt_total_if:
  "(b \<Longrightarrow> opt_total m Q) \<Longrightarrow> (\<not> b \<Longrightarrow> opt_total n Q) \<Longrightarrow> opt_total (if b then m else n) Q"
  by simp

section \<open>Tags within a mask\<close>

lemma within_bit: "within T b \<longleftrightarrow> (\<forall>n. bit b n \<longrightarrow> bit T n)"
proof (intro iffI allI impI)
  fix n assume "within T b" and b: "bit b n"
  then have "\<not> bit (b AND NOT T) n"
    by (simp add: within_def)
  with b bit_imp_le_length [OF b] show "bit T n"
    by (simp add: bit_simps)
next
  assume "\<forall>n. bit b n \<longrightarrow> bit T n"
  then show "within T b"
    unfolding within_def by (intro bit_eqI) (auto simp: bit_simps)
qed

lemma within_0 [simp, intro]: "within T 0"
  by (simp add: within_def)

lemma within_self [simp]: "within T T"
  by (simp add: within_bit)

lemma within_or [simp]: "within T (a OR b) \<longleftrightarrow> within T a \<and> within T b"
  by (auto simp: within_bit bit_simps)

lemma within_and1: "within T a \<Longrightarrow> within T (a AND b)"
  by (auto simp: within_bit bit_simps)

lemma within_mono: "within S T \<Longrightarrow> within T b \<Longrightarrow> within S b"
  by (simp add: within_bit)

lemma or_all_simps [simp]:
  "or_all [] = 0"
  "or_all (b # bs) = b OR or_all bs"
  by (simp_all add: or_all_def)

lemma or_all_append [simp]: "or_all (xs @ ys) = or_all xs OR or_all ys"
  by (induction xs) (simp_all add: or.assoc)

lemma within_or_all: "(\<forall>b \<in> set bs. within T b) \<Longrightarrow> within T (or_all bs)"
  by (induction bs) simp_all

lemma length_or_bytes [simp]: "length (or_bytes xs ys) = min (length xs) (length ys)"
  by (simp add: or_bytes_def)

lemma nth_or_bytes [simp]:
  "k < length xs \<Longrightarrow> k < length ys \<Longrightarrow> or_bytes xs ys ! k = (xs ! k OR ys ! k)"
  by (simp add: or_bytes_def)

lemma within_or_bytes:
  "b \<in> set (or_bytes xs ys) \<Longrightarrow> \<forall>b \<in> set xs. within T b \<Longrightarrow> \<forall>b \<in> set ys. within T b \<Longrightarrow>
   within T b"
  by (auto simp: or_bytes_def set_zip)

section \<open>Loads and stores of byte tables\<close>

lemma length_tbl_load: "tbl_load sz t off n = Some bs \<Longrightarrow> length bs = n"
  by (auto simp: tbl_load_def split: if_splits)

lemma nth_tbl_load: "tbl_load sz t off n = Some bs \<Longrightarrow> k < n \<Longrightarrow> bs ! k = t (off + k)"
  by (auto simp: tbl_load_def split: if_splits)

lemma tbl_load_Some_iff: "(\<exists>bs. tbl_load sz t off n = Some bs) \<longleftrightarrow> off + n \<le> sz"
  by (simp add: tbl_load_def)

lemma tbl_store_Some_iff: "(\<exists>t'. tbl_store sz t off bs = Some t') \<longleftrightarrow> off + length bs \<le> sz"
  by (simp add: tbl_store_def)

lemma tbl_store_apply:
  "tbl_store sz t off bs = Some t' \<Longrightarrow>
   t' a = (if off \<le> a \<and> a < off + length bs then bs ! (a - off) else t a)"
  by (auto simp: tbl_store_def split: if_splits)

lemma tbl_load_store_same:
  "tbl_store sz t off bs = Some t' \<Longrightarrow> tbl_load sz t' off (length bs) = Some bs"
  by (auto simp: tbl_load_def tbl_store_def intro: nth_equalityI split: if_splits)

lemma tbl_load_store_other:
  "tbl_store sz t off bs = Some t' \<Longrightarrow> off' + n \<le> off \<or> off + length bs \<le> off' \<Longrightarrow>
   tbl_load sz t' off' n = tbl_load sz t off' n"
  by (auto simp: tbl_load_def tbl_store_def split: if_splits)

end
