(* ===== verification/DiftRecord.thy ===== *)
theory DiftRecord
  imports Prelude
begin

text \<open>
  The records the emulator sends to the taint analysis: the constants and the enum of
  \<^verbatim>\<open>ext/dift/dift.h\<close>, the layout of \<^verbatim>\<open>struct dift_record\<close>, and the table
  \<^verbatim>\<open>case_list\<close> with the routines \<^verbatim>\<open>init_case_mapping\<close> and \<^verbatim>\<open>dift_rec_case_nb\<close> of
  \<^verbatim>\<open>ext/dift/dift.c\<close> that turn an operation (destination type, source type, operand size,
  effect) into the number of its handler.
  \<open>case_spec\<close> is the reading of the enum's names (\<open>DST_SRC_MAPPING_TYPE_BYTES\<close>) that the
  table is proved to follow.
\<close>

section \<open>Constants\<close>

definition EFFECT_CLEAR :: u8 where [case_nb_defs]: "EFFECT_CLEAR = push_bit 0 1"
definition EFFECT_ASSIGN :: u8 where [case_nb_defs]: "EFFECT_ASSIGN = push_bit 1 1"
definition EFFECT_APPEND :: u8 where [case_nb_defs]: "EFFECT_APPEND = push_bit 2 1"
definition EFFECT_ONE_TO_ONE :: u8 where [case_nb_defs]: "EFFECT_ONE_TO_ONE = push_bit 3 1"
definition EFFECT_MIX :: u8 where [case_nb_defs]: "EFFECT_MIX = push_bit 4 1"
definition EFFECT_INSIDE_REG :: u8 where [case_nb_defs]: "EFFECT_INSIDE_REG = push_bit 5 1"
definition XMM_EFFECT_ASSIGN :: u8 where [case_nb_defs]: "XMM_EFFECT_ASSIGN = push_bit 0 0"
definition XMM_EFFECT_APPEND :: u8 where [case_nb_defs]: "XMM_EFFECT_APPEND = push_bit 0 1"
definition XMM_EFFECT_ONE_TO_ONE :: u8 where [case_nb_defs]: "XMM_EFFECT_ONE_TO_ONE = push_bit 1 0"
definition XMM_EFFECT_MIX :: u8 where [case_nb_defs]: "XMM_EFFECT_MIX = push_bit 1 1"
definition XMM_EFFECT_LOW :: u8 where [case_nb_defs]: "XMM_EFFECT_LOW = push_bit 2 0"
definition XMM_EFFECT_HIGH :: u8 where [case_nb_defs]: "XMM_EFFECT_HIGH = push_bit 2 1"
definition XMM_EFFECT_H2L :: u8 where [case_nb_defs]: "XMM_EFFECT_H2L = push_bit 3 1"
definition XMM_EFFECT_L2H :: u8 where [case_nb_defs]: "XMM_EFFECT_L2H = push_bit 4 1"
definition XMM_EFFECT_DUP :: u8 where [case_nb_defs]: "XMM_EFFECT_DUP = push_bit 5 1"
definition XMM_EFFECT_CLEAR :: u8 where [case_nb_defs]: "XMM_EFFECT_CLEAR = push_bit 6 1"
definition XMM_MO_32 :: u8 where [case_nb_defs]: "XMM_MO_32 = 0"
definition XMM_MO_64 :: u8 where [case_nb_defs]: "XMM_MO_64 = 1"
definition XMM_MO_128 :: u8 where [case_nb_defs]: "XMM_MO_128 = 2"
definition OPT_REG :: u8 where [case_nb_defs]: "OPT_REG = 0"
definition OPT_MEM :: u8 where [case_nb_defs]: "OPT_MEM = 1"
definition OPT_IM :: u8 where [case_nb_defs]: "OPT_IM = 2"
definition OPT_XMM :: u8 where [case_nb_defs]: "OPT_XMM = 3"
definition MO_8 :: u8 where [case_nb_defs]: "MO_8 = 0"
definition MO_16 :: u8 where [case_nb_defs]: "MO_16 = 1"
definition MO_32 :: u8 where [case_nb_defs]: "MO_32 = 2"
definition MO_64 :: u8 where [case_nb_defs]: "MO_64 = 3"
definition R_RIP :: nat where [case_nb_defs]: "R_RIP = 16"
definition R_SEG_REG_BASE :: nat where [case_nb_defs]: "R_SEG_REG_BASE = 17"
definition R_DIFT_TMP :: nat where [case_nb_defs]: "R_DIFT_TMP = 23"
definition R_NONE :: nat where [case_nb_defs]: "R_NONE = 24"
definition REC_END_SYMBOL :: u64 where [case_nb_defs]: "REC_END_SYMBOL = 0x9a0a0a0000000000"

section \<open>The enum of record cases\<close>

definition INSIDE_REG_ASSIGN :: u8 where [case_nb_defs]: "INSIDE_REG_ASSIGN = 0"
definition INSIDE_REG_APPEND :: u8 where [case_nb_defs]: "INSIDE_REG_APPEND = 1"
definition REG_REG_OO_ASSIGN_MO8 :: u8 where [case_nb_defs]: "REG_REG_OO_ASSIGN_MO8 = 2"
definition REG_REG_OO_ASSIGN_MO16 :: u8 where [case_nb_defs]: "REG_REG_OO_ASSIGN_MO16 = 3"
definition REG_REG_OO_ASSIGN_MO32 :: u8 where [case_nb_defs]: "REG_REG_OO_ASSIGN_MO32 = 4"
definition REG_REG_OO_ASSIGN_MO64 :: u8 where [case_nb_defs]: "REG_REG_OO_ASSIGN_MO64 = 5"
definition REG_REG_OO_APPEND_MO8 :: u8 where [case_nb_defs]: "REG_REG_OO_APPEND_MO8 = 6"
definition REG_REG_OO_APPEND_MO16 :: u8 where [case_nb_defs]: "REG_REG_OO_APPEND_MO16 = 7"
definition REG_REG_OO_APPEND_MO32 :: u8 where [case_nb_defs]: "REG_REG_OO_APPEND_MO32 = 8"
definition REG_REG_OO_APPEND_MO64 :: u8 where [case_nb_defs]: "REG_REG_OO_APPEND_MO64 = 9"
definition REG_REG_MIX_APPEND_MO8 :: u8 where [case_nb_defs]: "REG_REG_MIX_APPEND_MO8 = 10"
definition REG_REG_MIX_APPEND_MO16 :: u8 where [case_nb_defs]: "REG_REG_MIX_APPEND_MO16 = 11"
definition REG_REG_MIX_APPEND_MO32 :: u8 where [case_nb_defs]: "REG_REG_MIX_APPEND_MO32 = 12"
definition REG_REG_MIX_APPEND_MO64 :: u8 where [case_nb_defs]: "REG_REG_MIX_APPEND_MO64 = 13"
definition REG_MEM_OO_ASSIGN_MO8 :: u8 where [case_nb_defs]: "REG_MEM_OO_ASSIGN_MO8 = 14"
definition REG_MEM_OO_ASSIGN_MO16 :: u8 where [case_nb_defs]: "REG_MEM_OO_ASSIGN_MO16 = 15"
definition REG_MEM_OO_ASSIGN_MO32 :: u8 where [case_nb_defs]: "REG_MEM_OO_ASSIGN_MO32 = 16"
definition REG_MEM_OO_ASSIGN_MO64 :: u8 where [case_nb_defs]: "REG_MEM_OO_ASSIGN_MO64 = 17"
definition REG_MEM_OO_APPEND_MO8 :: u8 where [case_nb_defs]: "REG_MEM_OO_APPEND_MO8 = 18"
definition REG_MEM_OO_APPEND_MO16 :: u8 where [case_nb_defs]: "REG_MEM_OO_APPEND_MO16 = 19"
definition REG_MEM_OO_APPEND_MO32 :: u8 where [case_nb_defs]: "REG_MEM_OO_APPEND_MO32 = 20"
definition REG_MEM_OO_APPEND_MO64 :: u8 where [case_nb_defs]: "REG_MEM_OO_APPEND_MO64 = 21"
definition REG_MEM_MIX_ASSIGN_MO16 :: u8 where [case_nb_defs]: "REG_MEM_MIX_ASSIGN_MO16 = 22"
definition REG_MEM_MIX_ASSIGN_MO32 :: u8 where [case_nb_defs]: "REG_MEM_MIX_ASSIGN_MO32 = 23"
definition REG_MEM_MIX_ASSIGN_MO64 :: u8 where [case_nb_defs]: "REG_MEM_MIX_ASSIGN_MO64 = 24"
definition REG_MEM_MIX_APPEND_MO8 :: u8 where [case_nb_defs]: "REG_MEM_MIX_APPEND_MO8 = 25"
definition REG_MEM_MIX_APPEND_MO16 :: u8 where [case_nb_defs]: "REG_MEM_MIX_APPEND_MO16 = 26"
definition REG_MEM_MIX_APPEND_MO32 :: u8 where [case_nb_defs]: "REG_MEM_MIX_APPEND_MO32 = 27"
definition REG_MEM_MIX_APPEND_MO64 :: u8 where [case_nb_defs]: "REG_MEM_MIX_APPEND_MO64 = 28"
definition MEM_REG_OO_ASSIGN_MO8 :: u8 where [case_nb_defs]: "MEM_REG_OO_ASSIGN_MO8 = 29"
definition MEM_REG_OO_ASSIGN_MO16 :: u8 where [case_nb_defs]: "MEM_REG_OO_ASSIGN_MO16 = 30"
definition MEM_REG_OO_ASSIGN_MO32 :: u8 where [case_nb_defs]: "MEM_REG_OO_ASSIGN_MO32 = 31"
definition MEM_REG_OO_ASSIGN_MO64 :: u8 where [case_nb_defs]: "MEM_REG_OO_ASSIGN_MO64 = 32"
definition MEM_REG_OO_APPEND_MO8 :: u8 where [case_nb_defs]: "MEM_REG_OO_APPEND_MO8 = 33"
definition MEM_REG_OO_APPEND_MO16 :: u8 where [case_nb_defs]: "MEM_REG_OO_APPEND_MO16 = 34"
definition MEM_REG_OO_APPEND_MO32 :: u8 where [case_nb_defs]: "MEM_REG_OO_APPEND_MO32 = 35"
definition MEM_REG_OO_APPEND_MO64 :: u8 where [case_nb_defs]: "MEM_REG_OO_APPEND_MO64 = 36"
definition MEM_REG_MIX_ASSIGN_MO16 :: u8 where [case_nb_defs]: "MEM_REG_MIX_ASSIGN_MO16 = 37"
definition MEM_REG_MIX_ASSIGN_MO32 :: u8 where [case_nb_defs]: "MEM_REG_MIX_ASSIGN_MO32 = 38"
definition MEM_REG_MIX_ASSIGN_MO64 :: u8 where [case_nb_defs]: "MEM_REG_MIX_ASSIGN_MO64 = 39"
definition MEM_REG_MIX_APPEND_MO8 :: u8 where [case_nb_defs]: "MEM_REG_MIX_APPEND_MO8 = 40"
definition MEM_REG_MIX_APPEND_MO16 :: u8 where [case_nb_defs]: "MEM_REG_MIX_APPEND_MO16 = 41"
definition MEM_REG_MIX_APPEND_MO32 :: u8 where [case_nb_defs]: "MEM_REG_MIX_APPEND_MO32 = 42"
definition MEM_REG_MIX_APPEND_MO64 :: u8 where [case_nb_defs]: "MEM_REG_MIX_APPEND_MO64 = 43"
definition MEM_MEM_OO_ASSIGN_MO8 :: u8 where [case_nb_defs]: "MEM_MEM_OO_ASSIGN_MO8 = 44"
definition MEM_MEM_OO_ASSIGN_MO16 :: u8 where [case_nb_defs]: "MEM_MEM_OO_ASSIGN_MO16 = 45"
definition MEM_MEM_OO_ASSIGN_MO32 :: u8 where [case_nb_defs]: "MEM_MEM_OO_ASSIGN_MO32 = 46"
definition MEM_MEM_OO_ASSIGN_MO64 :: u8 where [case_nb_defs]: "MEM_MEM_OO_ASSIGN_MO64 = 47"
definition REG_IM_CLEAR_MO8 :: u8 where [case_nb_defs]: "REG_IM_CLEAR_MO8 = 48"
definition REG_IM_CLEAR_MO16 :: u8 where [case_nb_defs]: "REG_IM_CLEAR_MO16 = 49"
definition REG_IM_CLEAR_MO32 :: u8 where [case_nb_defs]: "REG_IM_CLEAR_MO32 = 50"
definition REG_IM_CLEAR_MO64 :: u8 where [case_nb_defs]: "REG_IM_CLEAR_MO64 = 51"
definition MEM_IM_CLEAR_MO8 :: u8 where [case_nb_defs]: "MEM_IM_CLEAR_MO8 = 52"
definition MEM_IM_CLEAR_MO16 :: u8 where [case_nb_defs]: "MEM_IM_CLEAR_MO16 = 53"
definition MEM_IM_CLEAR_MO32 :: u8 where [case_nb_defs]: "MEM_IM_CLEAR_MO32 = 54"
definition MEM_IM_CLEAR_MO64 :: u8 where [case_nb_defs]: "MEM_IM_CLEAR_MO64 = 55"
definition XMM_XMM_OO_ASSIGN_MO32 :: u8 where [case_nb_defs]: "XMM_XMM_OO_ASSIGN_MO32 = 56"
definition XMM_XMM_OO_ASSIGN_MO64 :: u8 where [case_nb_defs]: "XMM_XMM_OO_ASSIGN_MO64 = 57"
definition XMM_XMM_OO_ASSIGN_MO64LH :: u8 where [case_nb_defs]: "XMM_XMM_OO_ASSIGN_MO64LH = 58"
definition XMM_XMM_OO_ASSIGN_MO64HL :: u8 where [case_nb_defs]: "XMM_XMM_OO_ASSIGN_MO64HL = 59"
definition XMM_XMM_OO_ASSIGN_MO128 :: u8 where [case_nb_defs]: "XMM_XMM_OO_ASSIGN_MO128 = 60"
definition XMM_REG_OO_ASSIGN_MO32 :: u8 where [case_nb_defs]: "XMM_REG_OO_ASSIGN_MO32 = 61"
definition XMM_REG_OO_ASSIGN_MO64 :: u8 where [case_nb_defs]: "XMM_REG_OO_ASSIGN_MO64 = 62"
definition REG_XMM_OO_ASSIGN_MO32 :: u8 where [case_nb_defs]: "REG_XMM_OO_ASSIGN_MO32 = 63"
definition REG_XMM_OO_ASSIGN_MO64 :: u8 where [case_nb_defs]: "REG_XMM_OO_ASSIGN_MO64 = 64"
definition XMM_MEM_OO_ASSIGN_MO32 :: u8 where [case_nb_defs]: "XMM_MEM_OO_ASSIGN_MO32 = 65"
definition XMM_MEM_OO_ASSIGN_MO64 :: u8 where [case_nb_defs]: "XMM_MEM_OO_ASSIGN_MO64 = 66"
definition XMM_MEM_OO_ASSIGN_MO64H :: u8 where [case_nb_defs]: "XMM_MEM_OO_ASSIGN_MO64H = 67"
definition XMM_MEM_OO_ASSIGN_MO128 :: u8 where [case_nb_defs]: "XMM_MEM_OO_ASSIGN_MO128 = 68"
definition MEM_XMM_OO_ASSIGN_MO32 :: u8 where [case_nb_defs]: "MEM_XMM_OO_ASSIGN_MO32 = 69"
definition MEM_XMM_OO_ASSIGN_MO64 :: u8 where [case_nb_defs]: "MEM_XMM_OO_ASSIGN_MO64 = 70"
definition MEM_XMM_OO_ASSIGN_MO64H :: u8 where [case_nb_defs]: "MEM_XMM_OO_ASSIGN_MO64H = 71"
definition MEM_XMM_OO_ASSIGN_MO128 :: u8 where [case_nb_defs]: "MEM_XMM_OO_ASSIGN_MO128 = 72"
definition XMM_XMM_OO_ASSIGN_DUP_MO32L :: u8 where [case_nb_defs]: "XMM_XMM_OO_ASSIGN_DUP_MO32L = 73"
definition XMM_XMM_OO_ASSIGN_DUP_MO32H :: u8 where [case_nb_defs]: "XMM_XMM_OO_ASSIGN_DUP_MO32H = 74"
definition XMM_XMM_OO_ASSIGN_DUP_MO64 :: u8 where [case_nb_defs]: "XMM_XMM_OO_ASSIGN_DUP_MO64 = 75"
definition XMM_MEM_OO_ASSIGN_DUP_MO32L :: u8 where [case_nb_defs]: "XMM_MEM_OO_ASSIGN_DUP_MO32L = 76"
definition XMM_MEM_OO_ASSIGN_DUP_MO32H :: u8 where [case_nb_defs]: "XMM_MEM_OO_ASSIGN_DUP_MO32H = 77"
definition XMM_MEM_OO_ASSIGN_DUP_MO64 :: u8 where [case_nb_defs]: "XMM_MEM_OO_ASSIGN_DUP_MO64 = 78"
definition XMM_IM_CLEAR :: u8 where [case_nb_defs]: "XMM_IM_CLEAR = 79"
definition MEM_HD :: u8 where [case_nb_defs]: "MEM_HD = 80"
definition HD_MEM :: u8 where [case_nb_defs]: "HD_MEM = 81"
definition REC_CONTAMINATE_MEM_OR :: u8 where [case_nb_defs]: "REC_CONTAMINATE_MEM_OR = 82"
definition REC_CONTAMINATE_MEM_AND :: u8 where [case_nb_defs]: "REC_CONTAMINATE_MEM_AND = 83"
definition REC_CONTAMINATE_HD_OR :: u8 where [case_nb_defs]: "REC_CONTAMINATE_HD_OR = 84"
definition REC_CONTAMINATE_HD_AND :: u8 where [case_nb_defs]: "REC_CONTAMINATE_HD_AND = 85"
definition REC_CLEAR_MEM :: u8 where [case_nb_defs]: "REC_CLEAR_MEM = 86"
definition REC_BEFORE_BLOCK_BEGIN :: u8 where [case_nb_defs]: "REC_BEFORE_BLOCK_BEGIN = 87"
definition REC_BLOCK_BEGIN :: u8 where [case_nb_defs]: "REC_BLOCK_BEGIN = 88"
definition REC_SYNC :: u8 where [case_nb_defs]: "REC_SYNC = 89"
definition REC_END :: u8 where [case_nb_defs]: "REC_END = 90"

section \<open>The record\<close>

text \<open>
  \<^verbatim>\<open>struct dift_record\<close> is a case number followed by a union of seven bytes. The record
  below has the bytes of the union's \<^verbatim>\<open>padding\<close> view; every other view of the union reads
  the same bytes under its own names.
\<close>

record dift_record =
  case_nb :: u8
  padding1 :: u8
  padding2 :: u8
  padding3 :: u8
  padding4 :: u8
  padding5 :: u8
  padding6 :: u8
  padding7 :: u8

definition inside_r_reg :: "dift_record \<Rightarrow> nat" where "inside_r_reg r = unat (padding1 r)"
definition inside_r_d_byte :: "dift_record \<Rightarrow> nat" where "inside_r_d_byte r = unat (padding2 r)"
definition inside_r_s_byte :: "dift_record \<Rightarrow> nat" where "inside_r_s_byte r = unat (padding3 r)"

definition r2r_sreg :: "dift_record \<Rightarrow> nat" where "r2r_sreg r = unat (padding1 r)"
definition r2r_dreg :: "dift_record \<Rightarrow> nat" where "r2r_dreg r = unat (padding2 r)"

definition r2r_byte_sreg :: "dift_record \<Rightarrow> nat" where "r2r_byte_sreg r = unat (padding1 r)"
definition r2r_byte_dreg :: "dift_record \<Rightarrow> nat" where "r2r_byte_dreg r = unat (padding2 r)"
definition r2r_byte_sreg_byte :: "dift_record \<Rightarrow> nat" where "r2r_byte_sreg_byte r = unat (padding3 r)"
definition r2r_byte_dreg_byte :: "dift_record \<Rightarrow> nat" where "r2r_byte_dreg_byte r = unat (padding4 r)"

definition r2m_m2r_reg :: "dift_record \<Rightarrow> nat" where "r2m_m2r_reg r = unat (padding1 r)"
definition r2m_m2r_reg_index :: "dift_record \<Rightarrow> nat" where "r2m_m2r_reg_index r = unat (padding2 r)"
definition r2m_m2r_reg_base :: "dift_record \<Rightarrow> nat" where "r2m_m2r_reg_base r = unat (padding3 r)"

definition r2m_m2r_byte_reg :: "dift_record \<Rightarrow> nat" where "r2m_m2r_byte_reg r = unat (padding1 r)"
definition r2m_m2r_byte_hl :: "dift_record \<Rightarrow> nat" where "r2m_m2r_byte_hl r = unat (padding2 r)"
definition r2m_m2r_byte_reg_index :: "dift_record \<Rightarrow> nat" where "r2m_m2r_byte_reg_index r = unat (padding3 r)"
definition r2m_m2r_byte_reg_base :: "dift_record \<Rightarrow> nat" where "r2m_m2r_byte_reg_base r = unat (padding4 r)"

lemmas record_view_defs =
  inside_r_reg_def inside_r_d_byte_def inside_r_s_byte_def r2r_sreg_def r2r_dreg_def
  r2r_byte_sreg_def r2r_byte_dreg_def r2r_byte_sreg_byte_def r2r_byte_dreg_byte_def
  r2m_m2r_reg_def r2m_m2r_reg_index_def r2m_m2r_reg_base_def
  r2m_m2r_byte_reg_def r2m_m2r_byte_hl_def r2m_m2r_byte_reg_index_def r2m_m2r_byte_reg_base_def

text \<open>The packed, little-endian image \<^verbatim>\<open>*(uint64_t*)&rec\<close> of a record, and back.\<close>

definition byte_of :: "nat \<Rightarrow> u64 \<Rightarrow> u8" where
  "byte_of k w = ucast (drop_bit (8 * k) w)"

definition rec_of_u64 :: "u64 \<Rightarrow> dift_record" where
  "rec_of_u64 w = \<lparr>case_nb = byte_of 0 w, padding1 = byte_of 1 w, padding2 = byte_of 2 w,
     padding3 = byte_of 3 w, padding4 = byte_of 4 w, padding5 = byte_of 5 w,
     padding6 = byte_of 6 w, padding7 = byte_of 7 w\<rparr>"

definition u64_of_bytes :: "u8 list \<Rightarrow> u64" where
  "u64_of_bytes bs = foldr (\<lambda>b w. ucast b OR push_bit 8 w) bs 0"

definition u64_of_rec :: "dift_record \<Rightarrow> u64" where
  "u64_of_rec r = u64_of_bytes [case_nb r, padding1 r, padding2 r, padding3 r, padding4 r,
     padding5 r, padding6 r, padding7 r]"

definition DIFT_REC_EMPTY :: dift_record where
  "DIFT_REC_EMPTY = \<lparr>case_nb = 0, padding1 = 0, padding2 = 0, padding3 = 0, padding4 = 0,
     padding5 = 0, padding6 = 0, padding7 = 0\<rparr>"

section \<open>Case numbers of operations\<close>

text \<open>
  The index \<^verbatim>\<open>((0xc0 | src << 4 | dst << 2 | ot) << 8) | effect\<close>, computed in \<^verbatim>\<open>int\<close>
  after the integer promotions.
\<close>

definition case_code :: "u8 \<Rightarrow> u8 \<Rightarrow> u8 \<Rightarrow> u8 \<Rightarrow> u32" where
  "case_code src dst ot effect =
     push_bit 8 (0xc0 OR push_bit 4 (ucast src) OR push_bit 2 (ucast dst) OR ucast ot) OR ucast effect"


definition case_list :: "u16 list" where
  "case_list = map ucast
    [
case_code OPT_REG OPT_REG MO_8 (EFFECT_INSIDE_REG OR EFFECT_ASSIGN),
     case_code OPT_REG OPT_REG MO_8 (EFFECT_INSIDE_REG OR EFFECT_APPEND),
     case_code OPT_REG OPT_REG MO_8 (EFFECT_ONE_TO_ONE OR EFFECT_ASSIGN),
     case_code OPT_REG OPT_REG MO_16 (EFFECT_ONE_TO_ONE OR EFFECT_ASSIGN),
     case_code OPT_REG OPT_REG MO_32 (EFFECT_ONE_TO_ONE OR EFFECT_ASSIGN),
     case_code OPT_REG OPT_REG MO_64 (EFFECT_ONE_TO_ONE OR EFFECT_ASSIGN),
     case_code OPT_REG OPT_REG MO_8 (EFFECT_ONE_TO_ONE OR EFFECT_APPEND),
     case_code OPT_REG OPT_REG MO_16 (EFFECT_ONE_TO_ONE OR EFFECT_APPEND),
     case_code OPT_REG OPT_REG MO_32 (EFFECT_ONE_TO_ONE OR EFFECT_APPEND),
     case_code OPT_REG OPT_REG MO_64 (EFFECT_ONE_TO_ONE OR EFFECT_APPEND),
     case_code OPT_REG OPT_REG MO_8 (EFFECT_MIX OR EFFECT_APPEND),
     case_code OPT_REG OPT_REG MO_16 (EFFECT_MIX OR EFFECT_APPEND),
     case_code OPT_REG OPT_REG MO_32 (EFFECT_MIX OR EFFECT_APPEND),
     case_code OPT_REG OPT_REG MO_64 (EFFECT_MIX OR EFFECT_APPEND),
     case_code OPT_MEM OPT_REG MO_8 (EFFECT_ONE_TO_ONE OR EFFECT_ASSIGN),
     case_code OPT_MEM OPT_REG MO_16 (EFFECT_ONE_TO_ONE OR EFFECT_ASSIGN),
     case_code OPT_MEM OPT_REG MO_32 (EFFECT_ONE_TO_ONE OR EFFECT_ASSIGN),
     case_code OPT_MEM OPT_REG MO_64 (EFFECT_ONE_TO_ONE OR EFFECT_ASSIGN),
     case_code OPT_MEM OPT_REG MO_8 (EFFECT_ONE_TO_ONE OR EFFECT_APPEND),
     case_code OPT_MEM OPT_REG MO_16 (EFFECT_ONE_TO_ONE OR EFFECT_APPEND),
     case_code OPT_MEM OPT_REG MO_32 (EFFECT_ONE_TO_ONE OR EFFECT_APPEND),
     case_code OPT_MEM OPT_REG MO_64 (EFFECT_ONE_TO_ONE OR EFFECT_APPEND),
     case_code OPT_MEM OPT_REG MO_16 (EFFECT_MIX OR EFFECT_ASSIGN),
     case_code OPT_MEM OPT_REG MO_32 (EFFECT_MIX OR EFFECT_ASSIGN),
     case_code OPT_MEM OPT_REG MO_64 (EFFECT_MIX OR EFFECT_ASSIGN),
     case_code OPT_MEM OPT_REG MO_8 (EFFECT_MIX OR EFFECT_APPEND),
     case_code OPT_MEM OPT_REG MO_16 (EFFECT_MIX OR EFFECT_APPEND),
     case_code OPT_MEM OPT_REG MO_32 (EFFECT_MIX OR EFFECT_APPEND),
     case_code OPT_MEM OPT_REG MO_64 (EFFECT_MIX OR EFFECT_APPEND),
     case_code OPT_REG OPT_MEM MO_8 (EFFECT_ONE_TO_ONE OR EFFECT_ASSIGN),
     case_code OPT_REG OPT_MEM MO_16 (EFFECT_ONE_TO_ONE OR EFFECT_ASSIGN),
     case_code OPT_REG OPT_MEM MO_32 (EFFECT_ONE_TO_ONE OR EFFECT_ASSIGN),
     case_code OPT_REG OPT_MEM MO_64 (EFFECT_ONE_TO_ONE OR EFFECT_ASSIGN),
     case_code OPT_REG OPT_MEM MO_8 (EFFECT_ONE_TO_ONE OR EFFECT_APPEND),
     case_code OPT_REG OPT_MEM MO_16 (EFFECT_ONE_TO_ONE OR EFFECT_APPEND),
     case_code OPT_REG OPT_MEM MO_32 (EFFECT_ONE_TO_ONE OR EFFECT_APPEND),
     case_code OPT_REG OPT_MEM MO_64 (EFFECT_ONE_TO_ONE OR EFFECT_APPEND),
     case_code OPT_REG OPT_MEM MO_16 (EFFECT_MIX OR EFFECT_ASSIGN),
     case_code OPT_REG OPT_MEM MO_32 (EFFECT_MIX OR EFFECT_ASSIGN),
     case_code OPT_REG OPT_MEM MO_64 (EFFECT_MIX OR EFFECT_ASSIGN),
     case_code OPT_REG OPT_MEM MO_8 (EFFECT_MIX OR EFFECT_APPEND),
     case_code OPT_REG OPT_MEM MO_16 (EFFECT_MIX OR EFFECT_APPEND),
     case_code OPT_REG OPT_MEM MO_32 (EFFECT_MIX OR EFFECT_APPEND),
     case_code OPT_REG OPT_MEM MO_64 (EFFECT_MIX OR EFFECT_APPEND),
     case_code OPT_MEM OPT_MEM MO_8 (EFFECT_ONE_TO_ONE OR EFFECT_ASSIGN),
     case_code OPT_MEM OPT_MEM MO_16 (EFFECT_ONE_TO_ONE OR EFFECT_ASSIGN),
     case_code OPT_MEM OPT_MEM MO_32 (EFFECT_ONE_TO_ONE OR EFFECT_ASSIGN),
     case_code OPT_MEM OPT_MEM MO_64 (EFFECT_ONE_TO_ONE OR EFFECT_ASSIGN),
     case_code OPT_IM OPT_REG MO_8 (EFFECT_CLEAR),
     case_code OPT_IM OPT_REG MO_16 (EFFECT_CLEAR),
     case_code OPT_IM OPT_REG MO_32 (EFFECT_CLEAR),
     case_code OPT_IM OPT_REG MO_64 (EFFECT_CLEAR),
     case_code OPT_IM OPT_MEM MO_8 (EFFECT_CLEAR),
     case_code OPT_IM OPT_MEM MO_16 (EFFECT_CLEAR),
     case_code OPT_IM OPT_MEM MO_32 (EFFECT_CLEAR),
     case_code OPT_IM OPT_MEM MO_64 (EFFECT_CLEAR),
     case_code OPT_XMM OPT_XMM XMM_MO_32 (XMM_EFFECT_ONE_TO_ONE OR XMM_EFFECT_ASSIGN OR XMM_EFFECT_LOW),
     case_code OPT_XMM OPT_XMM XMM_MO_64 (XMM_EFFECT_ONE_TO_ONE OR XMM_EFFECT_ASSIGN OR XMM_EFFECT_LOW),
     case_code OPT_XMM OPT_XMM XMM_MO_64 (XMM_EFFECT_ONE_TO_ONE OR XMM_EFFECT_ASSIGN OR XMM_EFFECT_L2H),
     case_code OPT_XMM OPT_XMM XMM_MO_64 (XMM_EFFECT_ONE_TO_ONE OR XMM_EFFECT_ASSIGN OR XMM_EFFECT_H2L),
     case_code OPT_XMM OPT_XMM XMM_MO_128 (XMM_EFFECT_ONE_TO_ONE OR XMM_EFFECT_ASSIGN OR XMM_EFFECT_LOW),
     case_code OPT_REG OPT_XMM XMM_MO_32 (XMM_EFFECT_ONE_TO_ONE OR XMM_EFFECT_ASSIGN OR XMM_EFFECT_LOW),
     case_code OPT_REG OPT_XMM XMM_MO_64 (XMM_EFFECT_ONE_TO_ONE OR XMM_EFFECT_ASSIGN OR XMM_EFFECT_LOW),
     case_code OPT_XMM OPT_REG XMM_MO_32 (XMM_EFFECT_ONE_TO_ONE OR XMM_EFFECT_ASSIGN OR XMM_EFFECT_LOW),
     case_code OPT_XMM OPT_REG XMM_MO_64 (XMM_EFFECT_ONE_TO_ONE OR XMM_EFFECT_ASSIGN OR XMM_EFFECT_LOW),
     case_code OPT_MEM OPT_XMM XMM_MO_32 (XMM_EFFECT_ONE_TO_ONE OR XMM_EFFECT_ASSIGN OR XMM_EFFECT_LOW),
     case_code OPT_MEM OPT_XMM XMM_MO_64 (XMM_EFFECT_ONE_TO_ONE OR XMM_EFFECT_ASSIGN OR XMM_EFFECT_LOW),
     case_code OPT_MEM OPT_XMM XMM_MO_64 (XMM_EFFECT_ONE_TO_ONE OR XMM_EFFECT_ASSIGN OR XMM_EFFECT_HIGH),
     case_code OPT_MEM OPT_XMM XMM_MO_128 (XMM_EFFECT_ONE_TO_ONE OR XMM_EFFECT_ASSIGN OR XMM_EFFECT_LOW),
     case_code OPT_XMM OPT_MEM XMM_MO_32 (XMM_EFFECT_ONE_TO_ONE OR XMM_EFFECT_ASSIGN OR XMM_EFFECT_LOW),
     case_code OPT_XMM OPT_MEM XMM_MO_64 (XMM_EFFECT_ONE_TO_ONE OR XMM_EFFECT_ASSIGN OR XMM_EFFECT_LOW),
     case_code OPT_XMM OPT_MEM XMM_MO_64 (XMM_EFFECT_ONE_TO_ONE OR XMM_EFFECT_ASSIGN OR XMM_EFFECT_HIGH),
     case_code OPT_XMM OPT_MEM XMM_MO_128 (XMM_EFFECT_ONE_TO_ONE OR XMM_EFFECT_ASSIGN OR XMM_EFFECT_LOW),
     case_code OPT_XMM OPT_XMM XMM_MO_32 (XMM_EFFECT_ONE_TO_ONE OR XMM_EFFECT_ASSIGN OR XMM_EFFECT_LOW OR XMM_EFFECT_DUP),
     case_code OPT_XMM OPT_XMM XMM_MO_32 (XMM_EFFECT_ONE_TO_ONE OR XMM_EFFECT_ASSIGN OR XMM_EFFECT_HIGH OR XMM_EFFECT_DUP),
     case_code OPT_XMM OPT_XMM XMM_MO_64 (XMM_EFFECT_ONE_TO_ONE OR XMM_EFFECT_ASSIGN OR XMM_EFFECT_LOW OR XMM_EFFECT_DUP),
     case_code OPT_MEM OPT_XMM XMM_MO_32 (XMM_EFFECT_ONE_TO_ONE OR XMM_EFFECT_ASSIGN OR XMM_EFFECT_LOW OR XMM_EFFECT_DUP),
     case_code OPT_MEM OPT_XMM XMM_MO_32 (XMM_EFFECT_ONE_TO_ONE OR XMM_EFFECT_ASSIGN OR XMM_EFFECT_HIGH OR XMM_EFFECT_DUP),
     case_code OPT_MEM OPT_XMM XMM_MO_64 (XMM_EFFECT_ONE_TO_ONE OR XMM_EFFECT_ASSIGN OR XMM_EFFECT_LOW OR XMM_EFFECT_DUP),
     case_code OPT_IM OPT_XMM XMM_MO_128 (XMM_EFFECT_CLEAR)]"

definition init_case_mapping :: "nat \<Rightarrow> u8" where
  "init_case_mapping =
     fold (\<lambda>i m. m(unat (case_list ! i) := of_nat i)) [0..<length case_list] (\<lambda>_. 0xff)"

definition dift_rec_case_nb :: "u8 \<Rightarrow> u8 \<Rightarrow> u8 \<Rightarrow> u8 \<Rightarrow> u8 option" where
  "dift_rec_case_nb dst_type src_type ot effect =
     (let ix = unat (case_code src_type dst_type ot effect)
      in if ix < 2 ^ 16
         then let ret = init_case_mapping ix in if ret = 0xff then None else Some ret
         else None)"

text \<open>The operations the enum's names stand for, as (destination, source, size, effect).\<close>

definition case_spec :: "(u8 \<times> u8 \<times> u8 \<times> u8 \<times> u8) list" where
  "case_spec =
    [
(INSIDE_REG_ASSIGN, OPT_REG, OPT_REG, MO_8, EFFECT_INSIDE_REG OR EFFECT_ASSIGN),
     (INSIDE_REG_APPEND, OPT_REG, OPT_REG, MO_8, EFFECT_INSIDE_REG OR EFFECT_APPEND),
     (REG_REG_OO_ASSIGN_MO8, OPT_REG, OPT_REG, MO_8, EFFECT_ONE_TO_ONE OR EFFECT_ASSIGN),
     (REG_REG_OO_ASSIGN_MO16, OPT_REG, OPT_REG, MO_16, EFFECT_ONE_TO_ONE OR EFFECT_ASSIGN),
     (REG_REG_OO_ASSIGN_MO32, OPT_REG, OPT_REG, MO_32, EFFECT_ONE_TO_ONE OR EFFECT_ASSIGN),
     (REG_REG_OO_ASSIGN_MO64, OPT_REG, OPT_REG, MO_64, EFFECT_ONE_TO_ONE OR EFFECT_ASSIGN),
     (REG_REG_OO_APPEND_MO8, OPT_REG, OPT_REG, MO_8, EFFECT_ONE_TO_ONE OR EFFECT_APPEND),
     (REG_REG_OO_APPEND_MO16, OPT_REG, OPT_REG, MO_16, EFFECT_ONE_TO_ONE OR EFFECT_APPEND),
     (REG_REG_OO_APPEND_MO32, OPT_REG, OPT_REG, MO_32, EFFECT_ONE_TO_ONE OR EFFECT_APPEND),
     (REG_REG_OO_APPEND_MO64, OPT_REG, OPT_REG, MO_64, EFFECT_ONE_TO_ONE OR EFFECT_APPEND),
     (REG_REG_MIX_APPEND_MO8, OPT_REG, OPT_REG, MO_8, EFFECT_MIX OR EFFECT_APPEND),
     (REG_REG_MIX_APPEND_MO16, OPT_REG, OPT_REG, MO_16, EFFECT_MIX OR EFFECT_APPEND),
     (REG_REG_MIX_APPEND_MO32, OPT_REG, OPT_REG, MO_32, EFFECT_MIX OR EFFECT_APPEND),
     (REG_REG_MIX_APPEND_MO64, OPT_REG, OPT_REG, MO_64, EFFECT_MIX OR EFFECT_APPEND),
     (REG_MEM_OO_ASSIGN_MO8, OPT_REG, OPT_MEM, MO_8, EFFECT_ONE_TO_ONE OR EFFECT_ASSIGN),
     (REG_MEM_OO_ASSIGN_MO16, OPT_REG, OPT_MEM, MO_16, EFFECT_ONE_TO_ONE OR EFFECT_ASSIGN),
     (REG_MEM_OO_ASSIGN_MO32, OPT_REG, OPT_MEM, MO_32, EFFECT_ONE_TO_ONE OR EFFECT_ASSIGN),
     (REG_MEM_OO_ASSIGN_MO64, OPT_REG, OPT_MEM, MO_64, EFFECT_ONE_TO_ONE OR EFFECT_ASSIGN),
     (REG_MEM_OO_APPEND_MO8, OPT_REG, OPT_MEM, MO_8, EFFECT_ONE_TO_ONE OR EFFECT_APPEND),
     (REG_MEM_OO_APPEND_MO16, OPT_REG, OPT_MEM, MO_16, EFFECT_ONE_TO_ONE OR EFFECT_APPEND),
     (REG_MEM_OO_APPEND_MO32, OPT_REG, OPT_MEM, MO_32, EFFECT_ONE_TO_ONE OR EFFECT_APPEND),
     (REG_MEM_OO_APPEND_MO64, OPT_REG, OPT_MEM, MO_64, EFFECT_ONE_TO_ONE OR EFFECT_APPEND),
     (REG_MEM_MIX_ASSIGN_MO16, OPT_REG, OPT_MEM, MO_16, EFFECT_MIX OR EFFECT_ASSIGN),
     (REG_MEM_MIX_ASSIGN_MO32, OPT_REG, OPT_MEM, MO_32, EFFECT_MIX OR EFFECT_ASSIGN),
     (REG_MEM_MIX_ASSIGN_MO64, OPT_REG, OPT_MEM, MO_64, EFFECT_MIX OR EFFECT_ASSIGN),
     (REG_MEM_MIX_APPEND_MO8, OPT_REG, OPT_MEM, MO_8, EFFECT_MIX OR EFFECT_APPEND),
     (REG_MEM_MIX_APPEND_MO16, OPT_REG, OPT_MEM, MO_16, EFFECT_MIX OR EFFECT_APPEND),
     (REG_MEM_MIX_APPEND_MO32, OPT_REG, OPT_MEM, MO_32, EFFECT_MIX OR EFFECT_APPEND),
     (REG_MEM_MIX_APPEND_MO64, OPT_REG, OPT_MEM, MO_64, EFFECT_MIX OR EFFECT_APPEND),
     (MEM_REG_OO_ASSIGN_MO8, OPT_MEM, OPT_REG, MO_8, EFFECT_ONE_TO_ONE OR EFFECT_ASSIGN),
     (MEM_REG_OO_ASSIGN_MO16, OPT_MEM, OPT_REG, MO_16, EFFECT_ONE_TO_ONE OR EFFECT_ASSIGN),
     (MEM_REG_OO_ASSIGN_MO32, OPT_MEM, OPT_REG, MO_32, EFFECT_ONE_TO_ONE OR EFFECT_ASSIGN),
     (MEM_REG_OO_ASSIGN_MO64, OPT_MEM, OPT_REG, MO_64, EFFECT_ONE_TO_ONE OR EFFECT_ASSIGN),
     (MEM_REG_OO_APPEND_MO8, OPT_MEM, OPT_REG, MO_8, EFFECT_ONE_TO_ONE OR EFFECT_APPEND),
     (MEM_REG_OO_APPEND_MO16, OPT_MEM, OPT_REG, MO_16, EFFECT_ONE_TO_ONE OR EFFECT_APPEND),
     (MEM_REG_OO_APPEND_MO32, OPT_MEM, OPT_REG, MO_32, EFFECT_ONE_TO_ONE OR EFFECT_APPEND),
     (MEM_REG_OO_APPEND_MO64, OPT_MEM, OPT_REG, MO_64, EFFECT_ONE_TO_ONE OR EFFECT_APPEND),
     (MEM_REG_MIX_ASSIGN_MO16, OPT_MEM, OPT_REG, MO_16, EFFECT_MIX OR EFFECT_ASSIGN),
     (MEM_REG_MIX_ASSIGN_MO32, OPT_MEM, OPT_REG, MO_32, EFFECT_MIX OR EFFECT_ASSIGN),
     (MEM_REG_MIX_ASSIGN_MO64, OPT_MEM, OPT_REG, MO_64, EFFECT_MIX OR EFFECT_ASSIGN),
     (MEM_REG_MIX_APPEND_MO8, OPT_MEM, OPT_REG, MO_8, EFFECT_MIX OR EFFECT_APPEND),
     (MEM_REG_MIX_APPEND_MO16, OPT_MEM, OPT_REG, MO_16, EFFECT_MIX OR EFFECT_APPEND),
     (MEM_REG_MIX_APPEND_MO32, OPT_MEM, OPT_REG, MO_32, EFFECT_MIX OR EFFECT_APPEND),
     (MEM_REG_MIX_APPEND_MO64, OPT_MEM, OPT_REG, MO_64, EFFECT_MIX OR EFFECT_APPEND),
     (MEM_MEM_OO_ASSIGN_MO8, OPT_MEM, OPT_MEM, MO_8, EFFECT_ONE_TO_ONE OR EFFECT_ASSIGN),
     (MEM_MEM_OO_ASSIGN_MO16, OPT_MEM, OPT_MEM, MO_16, EFFECT_ONE_TO_ONE OR EFFECT_ASSIGN),
     (MEM_MEM_OO_ASSIGN_MO32, OPT_MEM, OPT_MEM, MO_32, EFFECT_ONE_TO_ONE OR EFFECT_ASSIGN),
     (MEM_MEM_OO_ASSIGN_MO64, OPT_MEM, OPT_MEM, MO_64, EFFECT_ONE_TO_ONE OR EFFECT_ASSIGN),
     (REG_IM_CLEAR_MO8, OPT_REG, OPT_IM, MO_8, EFFECT_CLEAR),
     (REG_IM_CLEAR_MO16, OPT_REG, OPT_IM, MO_16, EFFECT_CLEAR),
     (REG_IM_CLEAR_MO32, OPT_REG, OPT_IM, MO_32, EFFECT_CLEAR),
     (REG_IM_CLEAR_MO64, OPT_REG, OPT_IM, MO_64, EFFECT_CLEAR),
     (MEM_IM_CLEAR_MO8, OPT_MEM, OPT_IM, MO_8, EFFECT_CLEAR),
     (MEM_IM_CLEAR_MO16, OPT_MEM, OPT_IM, MO_16, EFFECT_CLEAR),
     (MEM_IM_CLEAR_MO32, OPT_MEM, OPT_IM, MO_32, EFFECT_CLEAR),
     (MEM_IM_CLEAR_MO64, OPT_MEM, OPT_IM, MO_64, EFFECT_CLEAR),
     (XMM_XMM_OO_ASSIGN_MO32, OPT_XMM, OPT_XMM, XMM_MO_32, XMM_EFFECT_ONE_TO_ONE OR XMM_EFFECT_ASSIGN OR XMM_EFFECT_LOW),
     (XMM_XMM_OO_ASSIGN_MO64, OPT_XMM, OPT_XMM, XMM_MO_64, XMM_EFFECT_ONE_TO_ONE OR XMM_EFFECT_ASSIGN OR XMM_EFFECT_LOW),
     (XMM_XMM_OO_ASSIGN_MO64LH, OPT_XMM, OPT_XMM, XMM_MO_64, XMM_EFFECT_ONE_TO_ONE OR XMM_EFFECT_ASSIGN OR XMM_EFFECT_L2H),
     (XMM_XMM_OO_ASSIGN_MO64HL, OPT_XMM, OPT_XMM, XMM_MO_64, XMM_EFFECT_ONE_TO_ONE OR XMM_EFFECT_ASSIGN OR XMM_EFFECT_H2L),
     (XMM_XMM_OO_ASSIGN_MO128, OPT_XMM, OPT_XMM, XMM_MO_128, XMM_EFFECT_ONE_TO_ONE OR XMM_EFFECT_ASSIGN OR XMM_EFFECT_LOW),
     (XMM_REG_OO_ASSIGN_MO32, OPT_XMM, OPT_REG, XMM_MO_32, XMM_EFFECT_ONE_TO_ONE OR XMM_EFFECT_ASSIGN OR XMM_EFFECT_LOW),
     (XMM_REG_OO_ASSIGN_MO64, OPT_XMM, OPT_REG, XMM_MO_64, XMM_EFFECT_ONE_TO_ONE OR XMM_EFFECT_ASSIGN OR XMM_EFFECT_LOW),
     (REG_XMM_OO_ASSIGN_MO32, OPT_REG, OPT_XMM, XMM_MO_32, XMM_EFFECT_ONE_TO_ONE OR XMM_EFFECT_ASSIGN OR XMM_EFFECT_LOW),
     (REG_XMM_OO_ASSIGN_MO64, OPT_REG, OPT_XMM, XMM_MO_64, XMM_EFFECT_ONE_TO_ONE OR XMM_EFFECT_ASSIGN OR XMM_EFFECT_LOW),
     (XMM_MEM_OO_ASSIGN_MO32, OPT_XMM, OPT_MEM, XMM_MO_32, XMM_EFFECT_ONE_TO_ONE OR XMM_EFFECT_ASSIGN OR XMM_EFFECT_LOW),
     (XMM_MEM_OO_ASSIGN_MO64, OPT_XMM, OPT_MEM, XMM_MO_64, XMM_EFFECT_ONE_TO_ONE OR XMM_EFFECT_ASSIGN OR XMM_EFFECT_LOW),
     (XMM_MEM_OO_ASSIGN_MO64H, OPT_XMM, OPT_MEM, XMM_MO_64, XMM_EFFECT_ONE_TO_ONE OR XMM_EFFECT_ASSIGN OR XMM_EFFECT_HIGH),
     (XMM_MEM_OO_ASSIGN_MO128, OPT_XMM, OPT_MEM, XMM_MO_128, XMM_EFFECT_ONE_TO_ONE OR XMM_EFFECT_ASSIGN OR XMM_EFFECT_LOW),
     (MEM_XMM_OO_ASSIGN_MO32, OPT_MEM, OPT_XMM, XMM_MO_32, XMM_EFFECT_ONE_TO_ONE OR XMM_EFFECT_ASSIGN OR XMM_EFFECT_LOW),
     (MEM_XMM_OO_ASSIGN_MO64, OPT_MEM, OPT_XMM, XMM_MO_64, XMM_EFFECT_ONE_TO_ONE OR XMM_EFFECT_ASSIGN OR XMM_EFFECT_LOW),
     (MEM_XMM_OO_ASSIGN_MO64H, OPT_MEM, OPT_XMM, XMM_MO_64, XMM_EFFECT_ONE_TO_ONE OR XMM_EFFECT_ASSIGN OR XMM_EFFECT_HIGH),
     (MEM_XMM_OO_ASSIGN_MO128, OPT_MEM, OPT_XMM, XMM_MO_128, XMM_EFFECT_ONE_TO_ONE OR XMM_EFFECT_ASSIGN OR XMM_EFFECT_LOW),
     (XMM_XMM_OO_ASSIGN_DUP_MO32L, OPT_XMM, OPT_XMM, XMM_MO_32, XMM_EFFECT_ONE_TO_ONE OR XMM_EFFECT_ASSIGN OR XMM_EFFECT_LOW OR XMM_EFFECT_DUP),
     (XMM_XMM_OO_ASSIGN_DUP_MO32H, OPT_XMM, OPT_XMM, XMM_MO_32, XMM_EFFECT_ONE_TO_ONE OR XMM_EFFECT_ASSIGN OR XMM_EFFECT_HIGH OR XMM_EFFECT_DUP),
     (XMM_XMM_OO_ASSIGN_DUP_MO64, OPT_XMM, OPT_XMM, XMM_MO_64, XMM_EFFECT_ONE_TO_ONE OR XMM_EFFECT_ASSIGN OR XMM_EFFECT_LOW OR XMM_EFFECT_DUP),
     (XMM_MEM_OO_ASSIGN_DUP_MO32L, OPT_XMM, OPT_MEM, XMM_MO_32, XMM_EFFECT_ONE_TO_ONE OR XMM_EFFECT_ASSIGN OR XMM_EFFECT_LOW OR XMM_EFFECT_DUP),
     (XMM_MEM_OO_ASSIGN_DUP_MO32H, OPT_XMM, OPT_MEM, XMM_MO_32, XMM_EFFECT_ONE_TO_ONE OR XMM_EFFECT_ASSIGN OR XMM_EFFECT_HIGH OR XMM_EFFECT_DUP),
     (XMM_MEM_OO_ASSIGN_DUP_MO64, OPT_XMM, OPT_MEM, XMM_MO_64, XMM_EFFECT_ONE_TO_ONE OR XMM_EFFECT_ASSIGN OR XMM_EFFECT_LOW OR XMM_EFFECT_DUP),
     (XMM_IM_CLEAR, OPT_XMM, OPT_IM, XMM_MO_128, XMM_EFFECT_CLEAR)]"

section \<open>Records and their images\<close>

lemma bit_u64_of_bytes:
  "bit (u64_of_bytes bs) n \<longleftrightarrow> n < 64 \<and> n div 8 < length bs \<and> bit (bs ! (n div 8)) (n mod 8)"
proof (induction bs arbitrary: n)
  case Nil
  then show ?case by (simp add: u64_of_bytes_def)
next
  case (Cons b bs)
  have step: "u64_of_bytes (b # bs) = ucast b OR push_bit 8 (u64_of_bytes bs)"
    by (simp add: u64_of_bytes_def)
  show ?case
  proof (cases "n < 8")
    case True
    then show ?thesis by (auto simp: step bit_simps)
  next
    case False
    then have "n div 8 = Suc ((n - 8) div 8)" "(n - 8) mod 8 = n mod 8"
      by (simp_all add: le_div_geq le_mod_geq)
    with False show ?thesis
      using bit_imp_le_length [of b n] by (auto simp: step bit_simps Cons.IH)
  qed
qed

lemma byte_of_u64_of_bytes:
  assumes "length bs = 8" and "k < 8"
  shows "byte_of k (u64_of_bytes bs) = bs ! k"
proof (rule bit_word_eqI)
  fix n assume "n < LENGTH(8)"
  moreover then have "(8 * k + n) div 8 = k" "(8 * k + n) mod 8 = n" "8 * k + n < 64"
    using assms(2) by simp_all
  ultimately show "bit (byte_of k (u64_of_bytes bs)) n = bit (bs ! k) n"
    using assms by (simp add: byte_of_def bit_simps bit_u64_of_bytes)
qed

lemma bit_byte_of: "bit (byte_of k w) n \<longleftrightarrow> n < 8 \<and> bit w (8 * k + n)"
  by (auto simp: byte_of_def bit_simps)

lemma rec_of_u64_of_rec [simp]: "rec_of_u64 (u64_of_rec r) = r"
  by (cases r) (simp add: rec_of_u64_def u64_of_rec_def byte_of_u64_of_bytes)

lemma u64_of_rec_of_u64 [simp]: "u64_of_rec (rec_of_u64 w) = w"
proof (rule bit_word_eqI)
  fix n assume n: "n < LENGTH(64)"
  define k where "k = n div 8"
  have k: "k < 8" and nk: "8 * k + n mod 8 = n"
    using n by (auto simp: k_def)
  have bytes: "[byte_of 0 w, byte_of 1 w, byte_of 2 w, byte_of 3 w, byte_of 4 w, byte_of 5 w,
      byte_of 6 w, byte_of 7 w] = map (\<lambda>k. byte_of k w) [0..<8]"
    by (simp add: upt_rec eval_nat_numeral)
  have "bit (u64_of_rec (rec_of_u64 w)) n \<longleftrightarrow> bit (map (\<lambda>k. byte_of k w) [0..<8] ! k) (n mod 8)"
    using n k unfolding u64_of_rec_def rec_of_u64_def dift_record.simps bytes bit_u64_of_bytes
    by (simp add: k_def)
  also have "\<dots> \<longleftrightarrow> bit w n"
    using k nk by (simp add: bit_byte_of)
  finally show "bit (u64_of_rec (rec_of_u64 w)) n \<longleftrightarrow> bit w n" .
qed

section \<open>The case table\<close>

lemma case_list_eval:
  "map unat case_list =
    [49186, 49188, 49162, 49418, 49674, 49930, 49164, 49420, 49676, 49932, 49172, 49428,
     49684, 49940, 53258, 53514, 53770, 54026, 53260, 53516, 53772, 54028, 53522, 53778,
     54034, 53268, 53524, 53780, 54036, 50186, 50442, 50698, 50954, 50188, 50444, 50700,
     50956, 50450, 50706, 50962, 50196, 50452, 50708, 50964, 54282, 54538, 54794, 55050,
     57345, 57601, 57857, 58113, 58369, 58625, 58881, 59137, 64512, 64768, 64784, 64776,
     65024, 52224, 52480, 61440, 61696, 56320, 56576, 56580, 56832, 62464, 62720, 62724,
     62976, 64544, 64548, 64800, 56352, 56356, 56608, 60992]"
  by (simp add: case_list_def case_code_def case_nb_defs)
lemma case_list_distinct: "distinct case_list"
proof -
  have "distinct (map unat case_list)"
    unfolding case_list_eval by simp
  then show ?thesis by (simp only: distinct_map)
qed

lemma length_case_list: "length case_list = 80"
  by (simp add: case_list_def)

lemma length_case_spec: "length case_spec = 80"
  by (simp add: case_spec_def)

lemma case_list_spec:
  "case_list = map (\<lambda>(n, dst, src, ot, e). ucast (case_code src dst ot e)) case_spec"
  by (simp add: case_list_def case_spec_def)

lemma case_spec_index: "map fst case_spec = map of_nat [0..<80]"
proof -
  have "map (unat \<circ> fst) case_spec = [0..<80]"
    by (simp add: case_spec_def case_nb_defs upt_rec)
  then have "map of_nat (map (unat \<circ> fst) case_spec) = (map of_nat [0..<80] :: u8 list)"
    by (rule arg_cong)
  then show ?thesis by (simp add: comp_def)
qed

lemma fold_upd_notin:
  "k \<notin> f ` set is \<Longrightarrow> fold (\<lambda>i m. m(f i := g i)) is m k = m k"
  by (induction "is" arbitrary: m) auto

lemma fold_upd_in:
  "inj_on f (set is) \<Longrightarrow> distinct is \<Longrightarrow> i \<in> set is \<Longrightarrow>
   fold (\<lambda>i m. m(f i := g i)) is m (f i) = g i"
proof (induction "is" arbitrary: m)
  case Nil
  then show ?case by simp
next
  case (Cons j js)
  show ?case
  proof (cases "i = j")
    case True
    with Cons.prems have "f i \<notin> f ` set js"
      by (auto simp: inj_on_def)
    then show ?thesis
      using True fold_upd_notin [of "f i" f js g "m(f i := g i)"]
      by (simp only: fold_simps(2) fun_upd_same simp_thms)
  next
    case False
    with Cons show ?thesis by simp
  qed
qed

lemma init_case_mapping_nth:
  assumes "i < 80"
  shows "init_case_mapping (unat (case_list ! i)) = of_nat i"
proof -
  have inj: "inj_on (\<lambda>i. unat (case_list ! i)) (set [0..<length case_list])"
    using case_list_distinct
    by (auto simp: inj_on_def nth_eq_iff_index_eq dest: word_unat_eq_iff [THEN iffD2])
  show ?thesis
    unfolding init_case_mapping_def
    by (rule fold_upd_in [OF inj, where g = of_nat]) (use assms in \<open>simp_all add: length_case_list\<close>)
qed

lemma init_case_mapping_other:
  "k \<notin> (\<lambda>c. unat c) ` set case_list \<Longrightarrow> init_case_mapping k = 0xff"
  unfolding init_case_mapping_def
  by (subst fold_upd_notin) (auto simp: set_conv_nth)

lemma case_spec_nth:
  assumes "i < 80"
  shows "fst (case_spec ! i) = of_nat i"
proof -
  have "map fst case_spec ! i = of_nat i"
    using assms by (simp add: case_spec_index)
  with assms show ?thesis by (simp add: length_case_spec)
qed

lemma lt4_bit:
  assumes "(x :: u8) < 4" and "bit x n"
  shows "n < 2"
proof -
  have "unat (take_bit 2 x) = unat x"
    using assms(1) by (simp add: unsigned_take_bit_eq take_bit_nat_eq_self word_less_nat_alt)
  then have "take_bit 2 x = x" by (simp add: word_unat_eq_iff)
  with assms(2) show ?thesis by (metis bit_take_bit_iff)
qed

lemma bit_case_code:
  "bit (case_code src dst ot e) n \<longleftrightarrow>
     n < 32 \<and> (bit e n \<or> bit (0xc000 :: u32) n \<or> 8 \<le> n \<and> bit ot (n - 8)
       \<or> 10 \<le> n \<and> bit dst (n - 10) \<or> 12 \<le> n \<and> bit src (n - 12))"
  by (auto simp: case_code_def bit_simps push_bit_or)

lemma case_code_16:
  assumes "src < 4" and "dst < 4" and "ot < 4"
  shows "unat (case_code src dst ot e) < 2 ^ 16"
proof -
  note b = assms [THEN lt4_bit]
  have c: "n < 16" if "bit (0xc000 :: u32) n" for n
  proof -
    have "take_bit 16 (0xc000 :: u32) = 0xc000" by simp
    with that show ?thesis by (metis bit_take_bit_iff)
  qed
  have "take_bit 16 (case_code src dst ot e) = case_code src dst ot e"
  proof (rule bit_word_eqI)
    fix n
    have "n < 16" if "bit (case_code src dst ot e) n"
      using that c [of n] b(1) [of "n - 12"] b(2) [of "n - 10"] b(3) [of "n - 8"]
        bit_imp_le_length [of e n]
      unfolding bit_case_code by auto
    then show "bit (take_bit 16 (case_code src dst ot e)) n = bit (case_code src dst ot e) n"
      by (auto simp: bit_take_bit_iff)
  qed
  then have "unat (case_code src dst ot e) = take_bit 16 (unat (case_code src dst ot e))"
    by (metis unsigned_take_bit_eq)
  then show ?thesis by (metis take_bit_nat_less_exp)
qed

lemma case_code_inj:
  assumes lt: "src < 4" "dst < 4" "ot < 4" "src' < 4" "dst' < 4" "ot' < 4"
    and eq: "case_code src dst ot e = case_code src' dst' ot' e'"
  shows "src = src' \<and> dst = dst' \<and> ot = ot' \<and> e = e'"
proof -
  note b = lt [THEN lt4_bit]
  have eqn: "bit (case_code src dst ot e) n = bit (case_code src' dst' ot' e') n" for n
    by (simp add: eq)
  have low: "\<not> bit (0xc000 :: u32) n" if "n < 8" for n
  proof -
    have "take_bit 8 (0xc000 :: u32) = 0" by simp
    with that show ?thesis by (metis bit_0_eq bit_take_bit_iff bot_apply bot_bool_def)
  qed
  have e: "bit e n = bit e' n" for n
    using low [of n] eqn [of n] bit_imp_le_length [of e n] bit_imp_le_length [of e' n]
    by (cases "n < 8") (auto simp: bit_case_code)
  have ot: "bit ot n = bit ot' n" for n
  proof (cases "n < 2")
    case True
    then have "n = 0 \<or> n = 1" by arith
    then show ?thesis
      using eqn [of "n + 8"] bit_imp_le_length [of e "n + 8"] bit_imp_le_length [of e' "n + 8"]
      by (auto simp: bit_case_code bit_simps)
  qed (use b in blast)
  have dst: "bit dst n = bit dst' n" for n
  proof (cases "n < 2")
    case True
    then have "n = 0 \<or> n = 1" by arith
    then show ?thesis
      using eqn [of "n + 10"] b(3) [of "n + 2"] b(6) [of "n + 2"]
        bit_imp_le_length [of e "n + 10"] bit_imp_le_length [of e' "n + 10"]
      by (auto simp: bit_case_code bit_simps)
  qed (use b in blast)
  have src: "bit src n = bit src' n" for n
  proof (cases "n < 2")
    case True
    then have "n = 0 \<or> n = 1" by arith
    then show ?thesis
      using eqn [of "n + 12"] b(3) [of "n + 4"] b(6) [of "n + 4"] b(2) [of "n + 2"] b(5) [of "n + 2"]
        bit_imp_le_length [of e "n + 12"] bit_imp_le_length [of e' "n + 12"]
      by (auto simp: bit_case_code bit_simps)
  qed (use b in blast)
  show ?thesis
    using e ot dst src by (auto intro: bit_word_eqI)
qed
lemma case_spec_operands:
  "\<forall>(n, dst, src, ot, e) \<in> set case_spec. dst < 4 \<and> src < 4 \<and> ot < 4"
  by (simp add: case_spec_def case_nb_defs)

lemma unat_case_code_ucast:
  assumes "src < 4" and "dst < 4" and "ot < 4"
  shows "unat (ucast (case_code src dst ot e) :: u16) = unat (case_code src dst ot e)"
  using case_code_16 [OF assms, of e] by (simp add: unsigned_ucast_eq unsigned_take_bit_eq take_bit_nat_eq_self)

lemma dift_rec_case_nb_complete:
  assumes "(n, dst, src, ot, e) \<in> set case_spec"
  shows "dift_rec_case_nb dst src ot e = Some n"
proof -
  from assms obtain i where i: "i < 80" "case_spec ! i = (n, dst, src, ot, e)"
    by (auto simp: in_set_conv_nth length_case_spec)
  then have n: "n = of_nat i"
    using case_spec_nth [of i] by simp
  from assms case_spec_operands have lt: "src < 4" "dst < 4" "ot < 4" by auto
  have "case_list ! i = ucast (case_code src dst ot e)"
    using i by (simp add: case_list_spec length_case_spec)
  then have "init_case_mapping (unat (case_code src dst ot e)) = n"
    using init_case_mapping_nth [OF i(1)] n unat_case_code_ucast [OF lt, of e] by simp
  moreover have "n \<noteq> 0xff"
    using i(1) unfolding n by (simp add: word_unat_eq_iff unat_of_nat)
  ultimately show ?thesis
    using case_code_16 [OF lt, of e] by (simp add: dift_rec_case_nb_def)
qed

lemma dift_rec_case_nb_sound:
  assumes lt: "src < 4" "dst < 4" "ot < 4"
    and nb: "dift_rec_case_nb dst src ot e = Some n"
  shows "(n, dst, src, ot, e) \<in> set case_spec"
proof -
  let ?k = "unat (case_code src dst ot e)"
  have "init_case_mapping ?k = n" and "n \<noteq> 0xff"
    using nb by (auto simp: dift_rec_case_nb_def Let_def split: if_splits)
  then have "?k \<in> unat ` set case_list"
    using init_case_mapping_other [of ?k] by auto
  then obtain i where i: "i < 80" "?k = unat (case_list ! i)"
    by (auto simp: in_set_conv_nth length_case_list)
  obtain m dst' src' ot' e' where sp: "case_spec ! i = (m, dst', src', ot', e')"
    by (metis prod_cases5)
  with i(1) have mem: "(m, dst', src', ot', e') \<in> set case_spec"
    by (metis length_case_spec nth_mem)
  with case_spec_operands have lt': "src' < 4" "dst' < 4" "ot' < 4" by auto
  have "case_list ! i = ucast (case_code src' dst' ot' e')"
    using i sp by (simp add: case_list_spec length_case_spec)
  then have "case_code src dst ot e = case_code src' dst' ot' e'"
    using i unat_case_code_ucast [OF lt', of e'] by (simp add: word_unat_eq_iff)
  from case_code_inj [OF lt lt' this]
  have eq: "src = src'" "dst = dst'" "ot = ot'" "e = e'" by auto
  from dift_rec_case_nb_complete [OF mem] nb eq have "m = n" by simp
  with mem eq show ?thesis by simp
qed

section \<open>Properties\<close>

text \<open>C28: the lookup table the translator queries is right: for operand types and sizes in their
  two-bit ranges, \<^verbatim>\<open>dift_rec_case_nb\<close> returns a case number exactly when the enum has a case for
  the operation, and then returns the number of that case; on every other operation it exits.\<close>

theorem dift_rec_case_nb_iff:
  assumes "src < 4" "dst < 4" "ot < 4"
  shows "dift_rec_case_nb dst src ot e = Some n \<longleftrightarrow> (n, dst, src, ot, e) \<in> set case_spec"
  using dift_rec_case_nb_sound [OF assms] dift_rec_case_nb_complete by blast

theorem dift_rec_case_nb_iff_witness:
  "dift_rec_case_nb OPT_MEM OPT_REG MO_32 (EFFECT_MIX OR EFFECT_APPEND) = Some MEM_REG_MIX_APPEND_MO32 \<and>
   dift_rec_case_nb OPT_MEM OPT_MEM MO_32 (EFFECT_MIX OR EFFECT_APPEND) \<noteq> Some MEM_REG_MIX_APPEND_MO32"
  using dift_rec_case_nb_iff [of OPT_REG OPT_MEM MO_32 "EFFECT_MIX OR EFFECT_APPEND" MEM_REG_MIX_APPEND_MO32]
    dift_rec_case_nb_iff [of OPT_MEM OPT_MEM MO_32 "EFFECT_MIX OR EFFECT_APPEND" MEM_REG_MIX_APPEND_MO32]
  by (simp add: case_spec_def case_nb_defs)

end
