(* ===== verification/DiftContext.thy ===== *)
theory DiftContext
  imports DiftRecord
begin

text \<open>
  The analysis context of \<^verbatim>\<open>ext/dift/dift.c\<close>: \<^verbatim>\<open>struct dift_context\<close> with its taint
  tables for the 24 general registers, the 16 SSE registers, the guest's physical memory
  and the hard disk (a two-level page table), the validity checks, the taint operations on
  memory and disk, and the copies between the two.

  A table is a function from indices to tags together with the bound of the array the code
  allocates for it; an access outside that bound is \<open>None\<close>. \<open>dift_globals\<close> holds the
  global variables the context operations read. The theory \<open>DiftStore\<close> shows what the
  operations do.
\<close>

section \<open>State\<close>

definition SIZE_OF_CHUNK :: nat where "SIZE_OF_CHUNK = 2 ^ 12"
definition CONFIG_SIZE_OF_QUEUE :: nat where "CONFIG_SIZE_OF_QUEUE = 16 * 1024 * 1024"
definition Q_CHUNKS_SIZE :: nat where "Q_CHUNKS_SIZE = CONFIG_SIZE_OF_QUEUE div SIZE_OF_CHUNK"

definition HD_L1_SIZE :: nat where "HD_L1_SIZE = 2 ^ 24"
definition HD_L2_SIZE :: nat where "HD_L2_SIZE = 2 ^ 12"
definition HD_MAX_SIZE :: u64 where "HD_MAX_SIZE = 0x0000001000000000"

datatype DIFT_STATUS = DIFT_SUCCESS | DIFT_ERR_OUTOFRANGE | DIFT_ERR_INVALIDTAG | DIFT_ERR_FAIL

record dift_globals =
  phys_ram_base :: u64
  phys_ram_size :: u64
  clean_source :: u64
  null_sink :: u64
  mem_tbl_size :: nat

record dift_context =
  deqptr :: "nat option"
  tail :: u32
  prev_tail :: u32
  reg_dirty_tbl :: "nat \<Rightarrow> nat \<Rightarrow> u8"
  xmm_dirty_tbl :: "nat \<Rightarrow> nat \<Rightarrow> u8"
  mem_dirty_tbl :: "nat \<Rightarrow> u8"
  hd_l1_dirty_tbl :: "nat \<Rightarrow> (nat \<Rightarrow> u8) option"

text \<open>
  \<^verbatim>\<open>init_dift_context\<close> zeroes the context and allocates the tables. The results of the two
  \<^verbatim>\<open>calloc\<close> calls and of \<^verbatim>\<open>getpagesize\<close> are arguments; a failed allocation exits.
\<close>

definition init_dift_context ::
  "nat \<Rightarrow> bool \<Rightarrow> bool \<Rightarrow> dift_globals \<Rightarrow> (dift_globals \<times> dift_context) option" where
  "init_dift_context pagesize mem_ok hd_ok g =
     (if mem_ok \<and> hd_ok
      then Some
        (g\<lparr>clean_source := phys_ram_size g + 0, null_sink := phys_ram_size g + 1,
           mem_tbl_size := unat (phys_ram_size g) + pagesize\<rparr>,
         \<lparr>deqptr = None, tail = 0, prev_tail = of_nat (Q_CHUNKS_SIZE - 1),
          reg_dirty_tbl = (\<lambda>_ _. 0), xmm_dirty_tbl = (\<lambda>_ _. 0), mem_dirty_tbl = (\<lambda>_. 0),
          hd_l1_dirty_tbl = (\<lambda>_. None)\<rparr>)
      else None)"

text \<open>
  The shape of the globals after initialisation on a machine whose pages have at least
  4096 bytes and whose tables fit the address space.
\<close>

definition wf_globals :: "dift_globals \<Rightarrow> bool" where
  "wf_globals g \<longleftrightarrow>
     clean_source g = phys_ram_size g \<and> null_sink g = phys_ram_size g + 1 \<and>
     unat (phys_ram_size g) + 4096 \<le> mem_tbl_size g \<and> mem_tbl_size g < 2 ^ 64"

section \<open>Table accesses\<close>

definition reg_load :: "dift_context \<Rightarrow> nat \<Rightarrow> nat \<Rightarrow> nat \<Rightarrow> u8 list option" where
  "reg_load dc i off n = (if i < 24 then tbl_load 8 (reg_dirty_tbl dc i) off n else None)"

definition reg_store :: "dift_context \<Rightarrow> nat \<Rightarrow> nat \<Rightarrow> u8 list \<Rightarrow> dift_context option" where
  "reg_store dc i off bs =
     (if i < 24
      then do { t \<leftarrow> tbl_store 8 (reg_dirty_tbl dc i) off bs;
                Some (dc\<lparr>reg_dirty_tbl := (reg_dirty_tbl dc)(i := t)\<rparr>) }
      else None)"

definition xmm_load :: "dift_context \<Rightarrow> nat \<Rightarrow> nat \<Rightarrow> nat \<Rightarrow> u8 list option" where
  "xmm_load dc i off n = (if i < 16 then tbl_load 16 (xmm_dirty_tbl dc i) off n else None)"

definition xmm_store :: "dift_context \<Rightarrow> nat \<Rightarrow> nat \<Rightarrow> u8 list \<Rightarrow> dift_context option" where
  "xmm_store dc i off bs =
     (if i < 16
      then do { t \<leftarrow> tbl_store 16 (xmm_dirty_tbl dc i) off bs;
                Some (dc\<lparr>xmm_dirty_tbl := (xmm_dirty_tbl dc)(i := t)\<rparr>) }
      else None)"

definition mem_load :: "dift_globals \<Rightarrow> dift_context \<Rightarrow> u64 \<Rightarrow> nat \<Rightarrow> u8 list option" where
  "mem_load g dc a n = tbl_load (mem_tbl_size g) (mem_dirty_tbl dc) (unat a) n"

definition mem_store :: "dift_globals \<Rightarrow> dift_context \<Rightarrow> u64 \<Rightarrow> u8 list \<Rightarrow> dift_context option" where
  "mem_store g dc a bs =
     do { t \<leftarrow> tbl_store (mem_tbl_size g) (mem_dirty_tbl dc) (unat a) bs;
          Some (dc\<lparr>mem_dirty_tbl := t\<rparr>) }"

definition reg_get :: "dift_context \<Rightarrow> nat \<Rightarrow> nat \<Rightarrow> u8 option" where
  "reg_get dc i k = (if i < 24 \<and> k < 8 then Some (reg_dirty_tbl dc i k) else None)"

definition reg_put :: "dift_context \<Rightarrow> nat \<Rightarrow> nat \<Rightarrow> u8 \<Rightarrow> dift_context option" where
  "reg_put dc i k v =
     (if i < 24 \<and> k < 8
      then Some (dc\<lparr>reg_dirty_tbl := (reg_dirty_tbl dc)(i := (reg_dirty_tbl dc i)(k := v))\<rparr>)
      else None)"

definition mem_get :: "dift_globals \<Rightarrow> dift_context \<Rightarrow> u64 \<Rightarrow> u8 option" where
  "mem_get g dc a = (if unat a < mem_tbl_size g then Some (mem_dirty_tbl dc (unat a)) else None)"

definition mem_put :: "dift_globals \<Rightarrow> dift_context \<Rightarrow> u64 \<Rightarrow> u8 \<Rightarrow> dift_context option" where
  "mem_put g dc a v =
     (if unat a < mem_tbl_size g
      then Some (dc\<lparr>mem_dirty_tbl := (mem_dirty_tbl dc)(unat a := v)\<rparr>)
      else None)"

section \<open>Validity checks\<close>

definition is_valid_tag :: "u8 \<Rightarrow> bool" where
  "is_valid_tag tag = (let mask = 0x7f in \<not> (tag AND NOT mask \<noteq> 0))"

definition is_valid_mem_range :: "dift_globals \<Rightarrow> u64 \<Rightarrow> u64 \<Rightarrow> bool" where
  "is_valid_mem_range g addr len =
     (if (phys_ram_size g < addr \<or> phys_ram_size g - addr < len)
         \<and> addr \<noteq> clean_source g \<and> addr \<noteq> null_sink g
      then False else True)"

definition is_valid_disk_range :: "u64 \<Rightarrow> u64 \<Rightarrow> bool" where
  "is_valid_disk_range haddr len =
     (if HD_MAX_SIZE < haddr \<or> HD_MAX_SIZE - haddr < len then False else True)"

section \<open>Memory taint\<close>

primrec set_mem_dirty_loop ::
  "dift_globals \<Rightarrow> u8 \<Rightarrow> bool \<Rightarrow> nat \<Rightarrow> u64 \<Rightarrow> dift_context \<Rightarrow> dift_context option" where
  "set_mem_dirty_loop g tag is_append 0 addr dc = Some dc"
| "set_mem_dirty_loop g tag is_append (Suc len) addr dc =
     do { old \<leftarrow> mem_get g dc addr;
          dc' \<leftarrow> mem_put g dc addr (if is_append then old OR tag else tag);
          set_mem_dirty_loop g tag is_append len (addr + 1) dc' }"

definition set_mem_dirty ::
  "dift_globals \<Rightarrow> dift_context \<Rightarrow> u64 \<Rightarrow> u64 \<Rightarrow> u8 \<Rightarrow> bool \<Rightarrow> (DIFT_STATUS \<times> dift_context) option" where
  "set_mem_dirty g dc addr len tag is_append =
     (if \<not> is_valid_mem_range g addr len then Some (DIFT_ERR_OUTOFRANGE, dc)
      else if \<not> is_valid_tag tag then Some (DIFT_ERR_INVALIDTAG, dc)
      else do { dc' \<leftarrow> set_mem_dirty_loop g tag is_append (unat len) addr dc;
                Some (DIFT_SUCCESS, dc') })"

primrec and_mem_dirty_loop ::
  "dift_globals \<Rightarrow> u8 \<Rightarrow> nat \<Rightarrow> u64 \<Rightarrow> dift_context \<Rightarrow> dift_context option" where
  "and_mem_dirty_loop g tag 0 addr dc = Some dc"
| "and_mem_dirty_loop g tag (Suc len) addr dc =
     do { old \<leftarrow> mem_get g dc addr;
          dc' \<leftarrow> mem_put g dc addr (old AND tag);
          and_mem_dirty_loop g tag len (addr + 1) dc' }"

definition and_mem_dirty ::
  "dift_globals \<Rightarrow> dift_context \<Rightarrow> u64 \<Rightarrow> u64 \<Rightarrow> u8 \<Rightarrow> (DIFT_STATUS \<times> dift_context) option" where
  "and_mem_dirty g dc addr len tag =
     (if \<not> is_valid_mem_range g addr len then Some (DIFT_ERR_OUTOFRANGE, dc)
      else if \<not> is_valid_tag tag then Some (DIFT_ERR_INVALIDTAG, dc)
      else do { dc' \<leftarrow> and_mem_dirty_loop g tag (unat len) addr dc;
                Some (DIFT_SUCCESS, dc') })"

definition get_mem_dirty :: "dift_globals \<Rightarrow> dift_context \<Rightarrow> u64 \<Rightarrow> u8 option" where
  "get_mem_dirty g dc addr =
     (if \<not> is_valid_mem_range g addr 1 then Some 0 else mem_get g dc addr)"

section \<open>Disk taint\<close>

text \<open>
  The index macros compute their masks in \<^verbatim>\<open>int\<close>: \<^verbatim>\<open>((1 << 24) - 1) << 12\<close> does not fit
  32 bits, and the value is sign-extended where it meets a 64-bit address.
\<close>

definition HD_L1_INDEX_MASK :: u32 where
  "HD_L1_INDEX_MASK = NOT (push_bit 12 (push_bit 24 1 - 1))"

definition HD_L2_INDEX_MASK :: u32 where
  "HD_L2_INDEX_MASK = NOT (push_bit 12 1 - 1)"

definition HD_L1_INDEX :: "u64 \<Rightarrow> nat" where
  "HD_L1_INDEX addr = unat (drop_bit 12 (addr AND scast (NOT HD_L1_INDEX_MASK)))"

definition HD_L2_INDEX :: "u64 \<Rightarrow> nat" where
  "HD_L2_INDEX addr = unat (addr AND scast (NOT HD_L2_INDEX_MASK))"

definition alloc_hd_dirty_page :: "nat \<Rightarrow> u8" where
  "alloc_hd_dirty_page = (\<lambda>_. 0)"

definition hd_entry :: "dift_context \<Rightarrow> u64 \<Rightarrow> (nat \<Rightarrow> u8) option option" where
  "hd_entry dc hdaddr =
     (if HD_L1_INDEX hdaddr < HD_L1_SIZE
      then Some (hd_l1_dirty_tbl dc (HD_L1_INDEX hdaddr)) else None)"

definition hd_set_page :: "dift_context \<Rightarrow> u64 \<Rightarrow> (nat \<Rightarrow> u8) \<Rightarrow> dift_context" where
  "hd_set_page dc hdaddr page =
     dc\<lparr>hd_l1_dirty_tbl := (hd_l1_dirty_tbl dc)(HD_L1_INDEX hdaddr := Some page)\<rparr>"

definition page_or_new :: "(nat \<Rightarrow> u8) option \<Rightarrow> nat \<Rightarrow> u8" where
  "page_or_new p = (case p of None \<Rightarrow> alloc_hd_dirty_page | Some t \<Rightarrow> t)"

primrec set_hd_dirty_or_loop ::
  "u8 \<Rightarrow> nat \<Rightarrow> u64 \<Rightarrow> dift_context \<Rightarrow> dift_context option" where
  "set_hd_dirty_or_loop tag 0 hdaddr dc = Some dc"
| "set_hd_dirty_or_loop tag (Suc len) hdaddr dc =
     do { p \<leftarrow> hd_entry dc hdaddr;
          let page = page_or_new p;
          let page' = page(HD_L2_INDEX hdaddr := page (HD_L2_INDEX hdaddr) OR tag);
          set_hd_dirty_or_loop tag len (hdaddr + 1) (hd_set_page dc hdaddr page') }"

definition set_hd_dirty_or ::
  "dift_context \<Rightarrow> u64 \<Rightarrow> u64 \<Rightarrow> u8 \<Rightarrow> (DIFT_STATUS \<times> dift_context) option" where
  "set_hd_dirty_or dc hdaddr len tag =
     (if \<not> is_valid_disk_range hdaddr len then Some (DIFT_ERR_OUTOFRANGE, dc)
      else if \<not> is_valid_tag tag then Some (DIFT_ERR_INVALIDTAG, dc)
      else if tag = 0 then Some (DIFT_SUCCESS, dc)
      else do { dc' \<leftarrow> set_hd_dirty_or_loop tag (unat len) hdaddr dc;
                Some (DIFT_SUCCESS, dc') })"

primrec set_hd_dirty_and_loop ::
  "u8 \<Rightarrow> nat \<Rightarrow> u64 \<Rightarrow> dift_context \<Rightarrow> dift_context option" where
  "set_hd_dirty_and_loop tag 0 hdaddr dc = Some dc"
| "set_hd_dirty_and_loop tag (Suc len) hdaddr dc =
     do { p \<leftarrow> hd_entry dc hdaddr;
          let dc' = (case p of None \<Rightarrow> dc
             | Some page \<Rightarrow> hd_set_page dc hdaddr
                 (page(HD_L2_INDEX hdaddr := page (HD_L2_INDEX hdaddr) AND tag)));
          set_hd_dirty_and_loop tag len (hdaddr + 1) dc' }"

definition set_hd_dirty_and ::
  "dift_context \<Rightarrow> u64 \<Rightarrow> u64 \<Rightarrow> u8 \<Rightarrow> (DIFT_STATUS \<times> dift_context) option" where
  "set_hd_dirty_and dc hdaddr len tag =
     (if \<not> is_valid_disk_range hdaddr len then Some (DIFT_ERR_OUTOFRANGE, dc)
      else if \<not> is_valid_tag tag then Some (DIFT_ERR_INVALIDTAG, dc)
      else if tag = 0 then Some (DIFT_SUCCESS, dc)
      else do { dc' \<leftarrow> set_hd_dirty_and_loop tag (unat len) hdaddr dc;
                Some (DIFT_SUCCESS, dc') })"

definition get_hd_dirty :: "dift_context \<Rightarrow> u64 \<Rightarrow> u8 option" where
  "get_hd_dirty dc hdaddr =
     (if \<not> is_valid_disk_range hdaddr 1 then Some 0
      else do { p \<leftarrow> hd_entry dc hdaddr;
                Some (case p of None \<Rightarrow> 0 | Some page \<Rightarrow> page (HD_L2_INDEX hdaddr)) })"

section \<open>Copies between memory and disk\<close>

definition hd_progress :: "u64 \<Rightarrow> u64" where
  "hd_progress hdaddr = ((hdaddr + 0x1000) AND scast HD_L2_INDEX_MASK) - hdaddr"

lemma hd_masks:
  "scast (NOT HD_L1_INDEX_MASK) = (NOT (mask 12) :: u64)"
  "scast (NOT HD_L2_INDEX_MASK) = (mask 12 :: u64)"
  "scast HD_L2_INDEX_MASK = (NOT (mask 12) :: u64)"
  by (simp_all add: HD_L1_INDEX_MASK_def HD_L2_INDEX_MASK_def mask_eq_exp_minus_1)

lemma unat_and_mask: "unat (a AND mask n) = unat a mod 2 ^ n"
  by (simp only: unsigned_take_bit_eq flip: take_bit_eq_mask) (simp add: take_bit_eq_mod)

lemma hd_progress_eq: "hd_progress a = 0x1000 - (a AND mask 12)"
proof -
  have split: "x AND NOT (mask 12) = x - (x AND mask 12)" for x :: u64
  proof -
    have "x AND NOT (mask 12) = push_bit 12 (drop_bit 12 x)"
      by (rule bit_word_eqI) (auto simp: bit_simps dest: bit_imp_le_length)
    then show ?thesis
      using bits_ident [of 12 x] by (simp add: take_bit_eq_mask algebra_simps)
  qed
  have "unat ((a + 0x1000) AND mask 12) = unat (a AND mask 12)"
    unfolding unat_and_mask by (simp add: unat_word_ariths mod_mod_cancel)
  then have "(a + 0x1000) AND mask 12 = a AND mask 12"
    by (simp only: word_unat_eq_iff)
  then show ?thesis by (simp add: hd_progress_def hd_masks split)
qed

lemma unat_hd_progress: "unat (hd_progress a) = 4096 - unat a mod 4096"
proof -
  have "unat (a AND mask 12) < 2 ^ 12"
    unfolding unat_and_mask by simp
  then have "a AND mask 12 \<le> 0x1000"
    by (simp add: word_le_nat_alt)
  then show ?thesis
    unfolding hd_progress_eq by (simp only: unat_sub unat_and_mask) simp
qed

lemma unat_min: "unat (min a b) = min (unat a) (unat b)"
  by (simp add: min_def word_le_nat_alt)

lemma copy_measure:
  assumes "len \<noteq> 0"
  shows "unat (len - min (hd_progress a) len) < unat len"
proof -
  have "min (hd_progress a) len \<le> len" by simp
  then have "unat (len - min (hd_progress a) len) = unat len - min (unat (hd_progress a)) (unat len)"
    by (simp only: unat_sub unat_min)
  moreover have "0 < unat (hd_progress a)"
    unfolding unat_hd_progress by simp
  ultimately show ?thesis using assms by (simp add: unat_gt_0)
qed

function copy_hd_mem_loop ::
  "dift_globals \<Rightarrow> u64 \<Rightarrow> u64 \<Rightarrow> u64 \<Rightarrow> dift_context \<Rightarrow> dift_context option" where
  "copy_hd_mem_loop g hdaddr ra len dc =
     (if len = 0 then Some dc
      else let progress = min (hd_progress hdaddr) len in
        do { p \<leftarrow> hd_entry dc hdaddr;
             bs \<leftarrow> mem_load g dc ra (unat progress);
             page \<leftarrow> tbl_store HD_L2_SIZE (page_or_new p) (HD_L2_INDEX hdaddr) bs;
             copy_hd_mem_loop g (hdaddr + progress) (ra + progress) (len - progress)
               (hd_set_page dc hdaddr page) })"
  by pat_completeness auto
termination
  by (relation "measure (\<lambda>(g, hdaddr, ra, len, dc). unat len)") (auto simp: copy_measure)

definition copy_contamination_hd_mem ::
  "dift_globals \<Rightarrow> dift_context \<Rightarrow> u64 \<Rightarrow> u64 \<Rightarrow> u64 \<Rightarrow> dift_context option" where
  "copy_contamination_hd_mem g dc hdaddr ra len =
     (if \<not> is_valid_mem_range g ra len \<or> \<not> is_valid_disk_range hdaddr len then Some dc
      else copy_hd_mem_loop g hdaddr ra len dc)"

function copy_mem_hd_loop ::
  "dift_globals \<Rightarrow> u64 \<Rightarrow> u64 \<Rightarrow> u64 \<Rightarrow> dift_context \<Rightarrow> dift_context option" where
  "copy_mem_hd_loop g wa hdaddr len dc =
     (if len = 0 then Some dc
      else let progress = min (hd_progress hdaddr) len in
        do { p \<leftarrow> hd_entry dc hdaddr;
             bs \<leftarrow> (case p of None \<Rightarrow> Some (replicate (unat progress) 0)
                | Some page \<Rightarrow> tbl_load HD_L2_SIZE page (HD_L2_INDEX hdaddr) (unat progress));
             dc' \<leftarrow> mem_store g dc wa bs;
             copy_mem_hd_loop g (wa + progress) (hdaddr + progress) (len - progress) dc' })"
  by pat_completeness auto
termination
  by (relation "measure (\<lambda>(g, wa, hdaddr, len, dc). unat len)") (auto simp: copy_measure)

definition copy_contamination_mem_hd ::
  "dift_globals \<Rightarrow> dift_context \<Rightarrow> u64 \<Rightarrow> u64 \<Rightarrow> u64 \<Rightarrow> dift_context option" where
  "copy_contamination_mem_hd g dc wa hdaddr len =
     (if \<not> is_valid_mem_range g wa len \<or> \<not> is_valid_disk_range hdaddr len then Some dc
      else copy_mem_hd_loop g wa hdaddr len dc)"

declare copy_hd_mem_loop.simps [simp del] copy_mem_hd_loop.simps [simp del]

section \<open>Contents of memory and disk\<close>

text \<open>
  What a byte of the disk is tainted with, whatever pages the two-level table has, and the
  update of one byte. A \<open>taint_medium\<close> is a store of tags with a size; \<open>range_op\<close> applies a
  tag operation to a range of it byte by byte, as the loops of \<^verbatim>\<open>dift.c\<close> do.
\<close>

definition hd_tag :: "dift_context \<Rightarrow> nat \<Rightarrow> u8" where
  "hd_tag dc a = page_or_new (hd_l1_dirty_tbl dc (a div 4096)) (a mod 4096)"

definition hd_set_tag :: "dift_context \<Rightarrow> nat \<Rightarrow> u8 \<Rightarrow> dift_context" where
  "hd_set_tag dc a v =
     dc\<lparr>hd_l1_dirty_tbl := (hd_l1_dirty_tbl dc)(a div 4096 :=
          Some ((page_or_new (hd_l1_dirty_tbl dc (a div 4096)))(a mod 4096 := v)))\<rparr>"

definition mem_set_tag :: "dift_context \<Rightarrow> nat \<Rightarrow> u8 \<Rightarrow> dift_context" where
  "mem_set_tag dc a v = dc\<lparr>mem_dirty_tbl := (mem_dirty_tbl dc)(a := v)\<rparr>"

primrec range_op ::
  "('s \<Rightarrow> nat \<Rightarrow> u8) \<Rightarrow> ('s \<Rightarrow> nat \<Rightarrow> u8 \<Rightarrow> 's) \<Rightarrow> (u8 \<Rightarrow> u8) \<Rightarrow> nat \<Rightarrow> nat \<Rightarrow> 's \<Rightarrow> 's" where
  "range_op rd wr f 0 a s = s"
| "range_op rd wr f (Suc n) a s = range_op rd wr f n (Suc a) (wr s a (f (rd s a)))"

locale taint_medium =
  fixes tag_at :: "'s \<Rightarrow> nat \<Rightarrow> u8"
    and set_tag :: "'s \<Rightarrow> nat \<Rightarrow> u8 \<Rightarrow> 's"
  assumes tag_set_tag: "tag_at (set_tag s a v) b = (if b = a then v else tag_at s b)"
begin

lemma range_op_tag:
  "tag_at (range_op tag_at set_tag f n a s) b =
     (if a \<le> b \<and> b < a + n then f (tag_at s b) else tag_at s b)"
  by (induction n arbitrary: a s) (auto simp: tag_set_tag)

lemma range_op_within:
  assumes "\<And>b. within T (tag_at s b)" and "\<And>v. within T v \<Longrightarrow> within T (f v)"
  shows "within T (tag_at (range_op tag_at set_tag f n a s) b)"
  using assms by (simp add: range_op_tag)

end

interpretation mem_medium: taint_medium mem_dirty_tbl mem_set_tag
  by unfold_locales (simp add: mem_set_tag_def)

interpretation hd_medium: taint_medium hd_tag hd_set_tag
proof
  fix s :: dift_context and a b :: nat and v
  have "a div 4096 = b div 4096 \<and> a mod 4096 = b mod 4096 \<longleftrightarrow> a = b"
    by (metis div_mult_mod_eq)
  then show "hd_tag (hd_set_tag s a v) b = (if b = a then v else hd_tag s b)"
    by (auto simp: hd_tag_def hd_set_tag_def page_or_new_def)
qed

end
