(* ===== verification/DiftStore.thy ===== *)
theory DiftStore
  imports DiftContext
begin

text \<open>
  What the memory and disk operations of \<open>DiftContext\<close> return and leave behind, on every
  branch: the validity checks do not wrap around, the loops change exactly the bytes of
  their range, the page-wise copies move exactly the bytes a byte-wise copy would, and the
  two reserved addresses are where the checks let a range out of the tables.
\<close>

section \<open>Addresses\<close>

lemma HD_L1_INDEX_eq: "HD_L1_INDEX a = unat a div 4096"
proof -
  have "drop_bit 12 (a AND NOT (mask 12)) = drop_bit 12 a"
    by (rule bit_word_eqI) (auto simp: bit_simps dest: bit_imp_le_length)
  then show ?thesis
    by (simp add: HD_L1_INDEX_def hd_masks drop_bit_eq_div unat_div)
qed

lemma HD_L2_INDEX_eq: "HD_L2_INDEX a = unat a mod 4096"
  by (simp only: HD_L2_INDEX_def hd_masks unat_and_mask) simp

lemma hd_entry_eq:
  "hd_entry dc a = (if unat a < 2 ^ 36 then Some (hd_l1_dirty_tbl dc (unat a div 4096)) else None)"
  by (simp add: hd_entry_def HD_L1_INDEX_eq HD_L1_SIZE_def div_less_iff_less_mult)

lemma unat_Suc: "Suc (unat (a :: u64)) < 2 ^ 64 \<Longrightarrow> unat (a + 1) = Suc (unat a)"
  by (simp add: unat_word_ariths)

lemma unat_add_no_wrap: "unat (a :: u64) + unat b < 2 ^ 64 \<Longrightarrow> unat (a + b) = unat a + unat b"
  by (simp add: unat_word_ariths)

lemma is_valid_tag_within: "is_valid_tag t \<longleftrightarrow> within 0x7f t"
  by (simp add: is_valid_tag_def within_def)

lemma is_valid_mem_range_iff:
  assumes "addr \<noteq> clean_source g" and "addr \<noteq> null_sink g"
  shows "is_valid_mem_range g addr len \<longleftrightarrow> unat addr + unat len \<le> unat (phys_ram_size g)"
proof (cases "phys_ram_size g < addr")
  case True
  with assms show ?thesis by (simp add: is_valid_mem_range_def word_less_nat_alt)
next
  case False
  then have le: "addr \<le> phys_ram_size g" by simp
  then have "unat (phys_ram_size g - addr) = unat (phys_ram_size g) - unat addr"
    by (simp only: unat_sub)
  with False le assms show ?thesis
    by (auto simp: is_valid_mem_range_def word_less_nat_alt word_le_nat_alt)
qed

lemma is_valid_mem_range_inside:
  "unat addr + unat len \<le> unat (phys_ram_size g) \<Longrightarrow> is_valid_mem_range g addr len"
  using is_valid_mem_range_iff [of addr g len] by (auto simp: is_valid_mem_range_def)

lemma is_valid_disk_range_iff:
  "is_valid_disk_range addr len \<longleftrightarrow> unat addr + unat len \<le> 2 ^ 36"
proof (cases "HD_MAX_SIZE < addr")
  case True
  then show ?thesis by (simp add: is_valid_disk_range_def word_less_nat_alt HD_MAX_SIZE_def)
next
  case False
  then have le: "addr \<le> HD_MAX_SIZE" by simp
  then have "unat (HD_MAX_SIZE - addr) = unat HD_MAX_SIZE - unat addr"
    by (simp only: unat_sub)
  with False le show ?thesis
    by (auto simp: is_valid_disk_range_def word_less_nat_alt word_le_nat_alt HD_MAX_SIZE_def)
qed

section \<open>The loops over a range\<close>

lemma set_mem_dirty_loop_eq:
  "unat addr + n \<le> mem_tbl_size g \<Longrightarrow> mem_tbl_size g < 2 ^ 64 \<Longrightarrow>
   set_mem_dirty_loop g tag app n addr dc =
     Some (range_op mem_dirty_tbl mem_set_tag (\<lambda>v. if app then v OR tag else tag) n (unat addr) dc)"
proof (induction n arbitrary: addr dc)
  case 0
  then show ?case by simp
next
  case (Suc n)
  then show ?case
    by (cases "n = 0") (simp_all add: mem_get_def mem_put_def mem_set_tag_def unat_Suc)
qed

lemma set_mem_dirty_loop_overrun:
  "mem_tbl_size g < unat addr + n \<Longrightarrow> 0 < n \<Longrightarrow> mem_tbl_size g < 2 ^ 64 \<Longrightarrow>
   set_mem_dirty_loop g tag app n addr dc = None"
proof (induction n arbitrary: addr dc)
  case 0
  then show ?case by simp
next
  case (Suc n)
  show ?case
  proof (cases "unat addr < mem_tbl_size g")
    case True
    with Suc.prems have "0 < n" and "unat (addr + 1) = Suc (unat addr)"
      by (auto simp: unat_Suc)
    with Suc True show ?thesis by (simp add: mem_get_def mem_put_def)
  qed (simp add: mem_get_def)
qed

lemma and_mem_dirty_loop_eq:
  "unat addr + n \<le> mem_tbl_size g \<Longrightarrow> mem_tbl_size g < 2 ^ 64 \<Longrightarrow>
   and_mem_dirty_loop g tag n addr dc =
     Some (range_op mem_dirty_tbl mem_set_tag (\<lambda>v. v AND tag) n (unat addr) dc)"
proof (induction n arbitrary: addr dc)
  case 0
  then show ?case by simp
next
  case (Suc n)
  then show ?case
    by (cases "n = 0") (simp_all add: mem_get_def mem_put_def mem_set_tag_def unat_Suc)
qed

lemma set_hd_dirty_or_loop_eq:
  "unat addr + n \<le> 2 ^ 36 \<Longrightarrow>
   set_hd_dirty_or_loop tag n addr dc =
     Some (range_op hd_tag hd_set_tag (\<lambda>v. v OR tag) n (unat addr) dc)"
proof (induction n arbitrary: addr dc)
  case 0
  then show ?case by simp
next
  case (Suc n)
  have "hd_set_page dc addr (\<lambda>a. if a = unat addr mod 4096
        then page_or_new (hd_l1_dirty_tbl dc (unat addr div 4096)) (unat addr mod 4096) OR tag
        else page_or_new (hd_l1_dirty_tbl dc (unat addr div 4096)) a) =
      hd_set_tag dc (unat addr) (hd_tag dc (unat addr) OR tag)"
    by (simp add: hd_set_page_def hd_set_tag_def hd_tag_def HD_L1_INDEX_eq fun_upd_def)
  moreover have "unat (addr + 1) = Suc (unat addr)"
    using Suc.prems by (intro unat_Suc) simp
  ultimately show ?case
    using Suc by (simp add: hd_entry_eq HD_L2_INDEX_eq fun_upd_def)
qed

lemma set_hd_dirty_and_loop_tag:
  "unat addr + n \<le> 2 ^ 36 \<Longrightarrow>
   \<exists>dc'. set_hd_dirty_and_loop tag n addr dc = Some dc' \<and>
     dc' = dc\<lparr>hd_l1_dirty_tbl := hd_l1_dirty_tbl dc'\<rparr> \<and>
     (\<forall>b. hd_tag dc' b =
        (if unat addr \<le> b \<and> b < unat addr + n then hd_tag dc b AND tag else hd_tag dc b))"
proof (induction n arbitrary: addr dc)
  case 0
  then show ?case by auto
next
  case (Suc n)
  let ?a = "unat addr"
  define dc1 where "dc1 = (case hd_l1_dirty_tbl dc (?a div 4096) of None \<Rightarrow> dc
     | Some page \<Rightarrow> hd_set_page dc addr
         (page(HD_L2_INDEX addr := page (HD_L2_INDEX addr) AND tag)))"
  have frame: "dc1 = dc\<lparr>hd_l1_dirty_tbl := hd_l1_dirty_tbl dc1\<rparr>"
    by (simp add: dc1_def hd_set_page_def split: option.split)
  have tag1: "hd_tag dc1 b = (if b = ?a then hd_tag dc b AND tag else hd_tag dc b)" for b
  proof (cases "hd_l1_dirty_tbl dc (?a div 4096)")
    case None
    then show ?thesis
      by (simp add: dc1_def hd_tag_def page_or_new_def alloc_hd_dirty_page_def)
  next
    case (Some page)
    then have "dc1 = hd_set_tag dc ?a (hd_tag dc ?a AND tag)"
      by (simp add: dc1_def hd_set_page_def hd_set_tag_def hd_tag_def page_or_new_def HD_L1_INDEX_eq
          HD_L2_INDEX_eq)
    then show ?thesis by (simp add: hd_medium.tag_set_tag)
  qed
  have suc: "unat (addr + 1) = Suc ?a"
    using Suc.prems by (intro unat_Suc) simp
  then have "unat (addr + 1) + n \<le> 2 ^ 36"
    using Suc.prems by simp
  from Suc.IH [OF this, of dc1] obtain dc' where
    run: "set_hd_dirty_and_loop tag n (addr + 1) dc1 = Some dc'"
    and fr: "dc' = dc1\<lparr>hd_l1_dirty_tbl := hd_l1_dirty_tbl dc'\<rparr>"
    and tg: "\<forall>b. hd_tag dc' b =
        (if Suc ?a \<le> b \<and> b < Suc ?a + n then hd_tag dc1 b AND tag else hd_tag dc1 b)"
    by (auto simp: suc)
  have "set_hd_dirty_and_loop tag (Suc n) addr dc = Some dc'"
    using Suc.prems run by (simp add: hd_entry_eq dc1_def)
  moreover have "dc' = dc\<lparr>hd_l1_dirty_tbl := hd_l1_dirty_tbl dc'\<rparr>"
    by (subst fr, subst frame) simp
  ultimately show ?case
    using tg tag1 by auto
qed

lemma range_op_mem_frame:
  "range_op mem_dirty_tbl mem_set_tag f n a dc =
     dc\<lparr>mem_dirty_tbl := mem_dirty_tbl (range_op mem_dirty_tbl mem_set_tag f n a dc)\<rparr>"
proof (induction n arbitrary: a dc)
  case (Suc n)
  show ?case
    by (simp, subst Suc.IH) (simp add: mem_set_tag_def)
qed simp

lemma range_op_hd_frame:
  "range_op hd_tag hd_set_tag f n a dc =
     dc\<lparr>hd_l1_dirty_tbl := hd_l1_dirty_tbl (range_op hd_tag hd_set_tag f n a dc)\<rparr>"
proof (induction n arbitrary: a dc)
  case (Suc n)
  show ?case
    by (simp, subst Suc.IH) (simp add: hd_set_tag_def)
qed simp

section \<open>The page-wise copies\<close>

lemma hd_tag_set_page:
  "hd_tag (hd_set_page dc a page) b =
     (if b div 4096 = unat a div 4096 then page (b mod 4096) else hd_tag dc b)"
  by (simp add: hd_tag_def hd_set_page_def page_or_new_def HD_L1_INDEX_eq)

lemma in_page_iff:
  fixes a b p :: nat
  assumes "p \<le> 4096 - a mod 4096" and "b div 4096 = a div 4096"
  shows "a mod 4096 \<le> b mod 4096 \<and> b mod 4096 < a mod 4096 + p \<longleftrightarrow> a \<le> b \<and> b < a + p"
    and "b mod 4096 - a mod 4096 = b - a"
proof -
  have "a = 4096 * (a div 4096) + a mod 4096" and "b = 4096 * (a div 4096) + b mod 4096"
    using mult_div_mod_eq [of 4096 a] mult_div_mod_eq [of 4096 b] assms(2) by simp_all
  then show "a mod 4096 \<le> b mod 4096 \<and> b mod 4096 < a mod 4096 + p \<longleftrightarrow> a \<le> b \<and> b < a + p"
    and "b mod 4096 - a mod 4096 = b - a"
    by linarith+
qed

lemma not_in_page:
  fixes a b p :: nat
  assumes "p \<le> 4096 - a mod 4096" and "b div 4096 \<noteq> a div 4096"
  shows "\<not> (a \<le> b \<and> b < a + p)"
proof
  assume ab: "a \<le> b \<and> b < a + p"
  then have "b < 4096 * Suc (a div 4096)"
    using assms(1) mult_div_mod_eq [of 4096 a] mod_less_divisor [of 4096 a]
    unfolding mult_Suc_right by linarith
  then have "b div 4096 < Suc (a div 4096)"
    by (simp add: less_mult_imp_div_less mult.commute)
  moreover have "a div 4096 \<le> b div 4096"
    using ab by (simp add: div_le_mono)
  ultimately show False using assms(2) by simp
qed

lemma page_offset:
  fixes a k :: nat
  assumes "k < 4096 - a mod 4096"
  shows "(a + k) div 4096 = a div 4096" and "(a + k) mod 4096 = a mod 4096 + k"
proof -
  define q r where "q = a div 4096" and "r = a mod 4096"
  have e: "a + k = r + k + 4096 * q" and lt: "r + k < 4096"
    using assms by (simp_all add: q_def r_def)
  show "(a + k) div 4096 = a div 4096" and "(a + k) mod 4096 = a mod 4096 + k"
    unfolding e q_def [symmetric] r_def [symmetric] using lt by simp_all
qed

lemma hd_tag_page_store:
  assumes p: "length bs \<le> 4096 - unat a mod 4096"
    and st: "tbl_store HD_L2_SIZE (page_or_new (hd_l1_dirty_tbl dc (unat a div 4096)))
       (HD_L2_INDEX a) bs = Some page"
  shows "hd_tag (hd_set_page dc a page) b =
    (if unat a \<le> b \<and> b < unat a + length bs then bs ! (b - unat a) else hd_tag dc b)"
proof (cases "b div 4096 = unat a div 4096")
  case True
  with in_page_iff [OF p True] show ?thesis
    by (simp add: hd_tag_set_page tbl_store_apply [OF st] HD_L2_INDEX_eq) (simp add: hd_tag_def)
next
  case False
  with not_in_page [OF p False] show ?thesis by (auto simp: hd_tag_set_page)
qed

lemma copy_progress:
  fixes a len :: u64
  assumes "len \<noteq> 0"
  defines "p \<equiv> min (hd_progress a) len"
  shows "unat p = min (4096 - unat a mod 4096) (unat len)"
    and "0 < unat p" and "unat (len - p) = unat len - unat p"
proof -
  show p: "unat p = min (4096 - unat a mod 4096) (unat len)"
    by (simp only: p_def unat_min unat_hd_progress)
  show "0 < unat p"
    using assms(1) by (simp add: p unat_gt_0)
  have "p \<le> len" by (simp add: p_def)
  then show "unat (len - p) = unat len - unat p"
    by (simp only: unat_sub)
qed

lemma copy_advance:
  assumes "len \<noteq> 0" and "unat a + unat len < 2 ^ 64"
  shows "unat (a + min (hd_progress h) len) = unat a + unat (min (hd_progress h) len)"
    and "unat (a + min (hd_progress h) len) + unat (len - min (hd_progress h) len) = unat a + unat len"
proof -
  have le: "unat (min (hd_progress h) len) \<le> unat len"
    by (simp only: unat_min)
  with assms show *: "unat (a + min (hd_progress h) len) = unat a + unat (min (hd_progress h) len)"
    by (intro unat_add_no_wrap) simp
  show "unat (a + min (hd_progress h) len) + unat (len - min (hd_progress h) len) = unat a + unat len"
    unfolding * copy_progress(3) [OF assms(1)] using le by simp
qed

text \<open>One turn of the copy to disk: the bytes up to the end of the disk page.\<close>

lemma copy_hd_mem_turn:
  assumes "len \<noteq> 0" and mem: "unat ra + unat len \<le> mem_tbl_size g"
    and disk: "unat hdaddr + unat len \<le> 2 ^ 36"
  defines "p \<equiv> min (hd_progress hdaddr) len"
  obtains dc1 where
    "copy_hd_mem_loop g hdaddr ra len dc = copy_hd_mem_loop g (hdaddr + p) (ra + p) (len - p) dc1"
    and "dc1 = dc\<lparr>hd_l1_dirty_tbl := hd_l1_dirty_tbl dc1\<rparr>"
    and "\<And>b. hd_tag dc1 b = (if unat hdaddr \<le> b \<and> b < unat hdaddr + unat p
        then mem_dirty_tbl dc (unat ra + (b - unat hdaddr)) else hd_tag dc b)"
proof -
  note prog = copy_progress [OF assms(1), of hdaddr, folded p_def]
  let ?h = "unat hdaddr" and ?r = "unat ra" and ?old = "hd_l1_dirty_tbl dc (unat hdaddr div 4096)"
  define bs where "bs = map (mem_dirty_tbl dc) [?r..<?r + unat p]"
  have len: "length bs = unat p" and pl: "length bs \<le> 4096 - ?h mod 4096"
    by (simp_all add: bs_def prog(1))
  have ld: "mem_load g dc ra (unat p) = Some bs"
    using mem prog(1) by (simp add: mem_load_def tbl_load_def bs_def)
  have ent: "hd_entry dc hdaddr = Some ?old"
    using disk prog(2) by (simp add: hd_entry_eq prog(1))
  have "HD_L2_INDEX hdaddr + length bs \<le> HD_L2_SIZE"
    using pl mod_less_divisor [of 4096 ?h] by (simp add: HD_L2_INDEX_eq HD_L2_SIZE_def)
  then obtain page where
    st: "tbl_store HD_L2_SIZE (page_or_new ?old) (HD_L2_INDEX hdaddr) bs = Some page"
    using tbl_store_Some_iff by blast
  show ?thesis
  proof (rule that [of "hd_set_page dc hdaddr page"])
    show "copy_hd_mem_loop g hdaddr ra len dc =
        copy_hd_mem_loop g (hdaddr + p) (ra + p) (len - p) (hd_set_page dc hdaddr page)"
      using assms(1) by (subst copy_hd_mem_loop.simps) (simp add: ent ld st flip: p_def)
    show "hd_tag (hd_set_page dc hdaddr page) b = (if ?h \<le> b \<and> b < ?h + unat p
        then mem_dirty_tbl dc (?r + (b - ?h)) else hd_tag dc b)" for b
      unfolding hd_tag_page_store [OF pl st] len by (auto simp: bs_def)
  qed (simp add: hd_set_page_def)
qed

lemma copy_hd_mem_loop_copies:
  assumes "mem_tbl_size g < 2 ^ 64"
  shows "unat ra + unat len \<le> mem_tbl_size g \<Longrightarrow> unat hdaddr + unat len \<le> 2 ^ 36 \<Longrightarrow>
   \<exists>dc'. copy_hd_mem_loop g hdaddr ra len dc = Some dc' \<and>
     dc' = dc\<lparr>hd_l1_dirty_tbl := hd_l1_dirty_tbl dc'\<rparr> \<and>
     (\<forall>b. hd_tag dc' b =
        (if unat hdaddr \<le> b \<and> b < unat hdaddr + unat len
         then mem_dirty_tbl dc (unat ra + (b - unat hdaddr)) else hd_tag dc b))"
proof (induction "unat len" arbitrary: len ra hdaddr dc rule: less_induct)
  case less
  show ?case
  proof (cases "len = 0")
    case True
    then show ?thesis by (auto simp: copy_hd_mem_loop.simps)
  next
    case False
    define p where "p = min (hd_progress hdaddr) len"
    obtain dc1 where turn: "copy_hd_mem_loop g hdaddr ra len dc =
          copy_hd_mem_loop g (hdaddr + p) (ra + p) (len - p) dc1"
      and fr1: "dc1 = dc\<lparr>hd_l1_dirty_tbl := hd_l1_dirty_tbl dc1\<rparr>"
      and tag1: "\<And>b. hd_tag dc1 b = (if unat hdaddr \<le> b \<and> b < unat hdaddr + unat p
        then mem_dirty_tbl dc (unat ra + (b - unat hdaddr)) else hd_tag dc b)"
      unfolding p_def by (rule copy_hd_mem_turn [OF False less.prems]) blast
    have mem1: "mem_dirty_tbl dc1 = mem_dirty_tbl dc"
      by (subst fr1) simp
    have h: "unat (hdaddr + p) = unat hdaddr + unat p"
        "unat (hdaddr + p) + unat (len - p) = unat hdaddr + unat len"
      and r: "unat (ra + p) = unat ra + unat p" "unat (ra + p) + unat (len - p) = unat ra + unat len"
      unfolding p_def using less.prems assms by (auto intro!: copy_advance [OF False])
    obtain dc' where run: "copy_hd_mem_loop g (hdaddr + p) (ra + p) (len - p) dc1 = Some dc'"
      and fr: "dc' = dc1\<lparr>hd_l1_dirty_tbl := hd_l1_dirty_tbl dc'\<rparr>"
      and tg: "\<And>b. hd_tag dc' b =
          (if unat (hdaddr + p) \<le> b \<and> b < unat (hdaddr + p) + unat (len - p)
           then mem_dirty_tbl dc1 (unat (ra + p) + (b - unat (hdaddr + p))) else hd_tag dc1 b)"
      using less.hyps [of "len - p" "ra + p" "hdaddr + p" dc1] less.prems
        copy_measure [OF False, of hdaddr, folded p_def] h r by auto
    have "dc' = dc\<lparr>hd_l1_dirty_tbl := hd_l1_dirty_tbl dc'\<rparr>"
      by (subst fr, subst fr1) simp
    moreover have "hd_tag dc' b = (if unat hdaddr \<le> b \<and> b < unat hdaddr + unat len
        then mem_dirty_tbl dc (unat ra + (b - unat hdaddr)) else hd_tag dc b)" for b
      using h(2) r(2) by (auto simp: tg mem1 tag1 h(1) r(1))
    ultimately show ?thesis using turn run by auto
  qed
qed

text \<open>One turn of the copy from disk, and the turn that would leave the memory table.\<close>

lemma copy_mem_hd_turn:
  assumes "len \<noteq> 0" and disk: "unat hdaddr + unat len \<le> 2 ^ 36"
  defines "p \<equiv> min (hd_progress hdaddr) len"
  shows "copy_mem_hd_loop g wa hdaddr len dc =
    do { dc1 \<leftarrow> mem_store g dc wa (map (hd_tag dc) [unat hdaddr..<unat hdaddr + unat p]);
         copy_mem_hd_loop g (wa + p) (hdaddr + p) (len - p) dc1 }"
proof -
  note prog = copy_progress [OF assms(1), of hdaddr, folded p_def]
  let ?h = "unat hdaddr"
  have ent: "hd_entry dc hdaddr = Some (hd_l1_dirty_tbl dc (?h div 4096))"
    using disk prog(2) by (simp add: hd_entry_eq prog(1))
  have pl: "unat p \<le> 4096 - ?h mod 4096"
    by (simp add: prog(1))
  have page: "(?h + k) div 4096 = ?h div 4096" "(?h + k) mod 4096 = ?h mod 4096 + k"
    if "k < unat p" for k
    using page_offset [OF less_le_trans [OF that pl]] by simp_all
  have "(case hd_l1_dirty_tbl dc (?h div 4096) of None \<Rightarrow> Some (replicate (unat p) 0)
      | Some page \<Rightarrow> tbl_load HD_L2_SIZE page (HD_L2_INDEX hdaddr) (unat p)) =
    Some (map (hd_tag dc) [?h..<?h + unat p])"
    using pl
    by (auto simp: tbl_load_def HD_L2_SIZE_def HD_L2_INDEX_eq hd_tag_def page page_or_new_def
        alloc_hd_dirty_page_def intro!: nth_equalityI split: option.split)
  then show ?thesis
    using assms(1) by (subst copy_mem_hd_loop.simps) (simp add: ent flip: p_def)
qed

lemma mem_store_eq:
  "unat a + length bs \<le> mem_tbl_size g \<Longrightarrow>
   mem_store g dc a bs = Some (dc\<lparr>mem_dirty_tbl :=
     (\<lambda>x. if unat a \<le> x \<and> x < unat a + length bs then bs ! (x - unat a) else mem_dirty_tbl dc x)\<rparr>)"
  by (simp add: mem_store_def tbl_store_def)

lemma mem_store_None: "mem_tbl_size g < unat a + length bs \<Longrightarrow> mem_store g dc a bs = None"
  by (simp add: mem_store_def tbl_store_def)

lemma copy_mem_hd_loop_copies:
  assumes "mem_tbl_size g < 2 ^ 64"
  shows "unat wa + unat len \<le> mem_tbl_size g \<Longrightarrow> unat hdaddr + unat len \<le> 2 ^ 36 \<Longrightarrow>
   copy_mem_hd_loop g wa hdaddr len dc = Some (dc\<lparr>mem_dirty_tbl :=
     (\<lambda>x. if unat wa \<le> x \<and> x < unat wa + unat len
          then hd_tag dc (unat hdaddr + (x - unat wa)) else mem_dirty_tbl dc x)\<rparr>)"
proof (induction "unat len" arbitrary: len wa hdaddr dc rule: less_induct)
  case less
  show ?case
  proof (cases "len = 0")
    case True
    then have "(\<lambda>x. if unat wa \<le> x \<and> x < unat wa + unat len
        then hd_tag dc (unat hdaddr + (x - unat wa)) else mem_dirty_tbl dc x) = mem_dirty_tbl dc"
      by (auto simp: fun_eq_iff)
    with True show ?thesis by (simp add: copy_mem_hd_loop.simps)
  next
    case False
    define p where "p = min (hd_progress hdaddr) len"
    define t1 where "t1 = (\<lambda>x. if unat wa \<le> x \<and> x < unat wa + unat p
        then hd_tag dc (unat hdaddr + (x - unat wa)) else mem_dirty_tbl dc x)"
    define dc1 where "dc1 = dc\<lparr>mem_dirty_tbl := t1\<rparr>"
    have h: "unat (hdaddr + p) = unat hdaddr + unat p"
        "unat (hdaddr + p) + unat (len - p) = unat hdaddr + unat len"
      and w: "unat (wa + p) = unat wa + unat p" "unat (wa + p) + unat (len - p) = unat wa + unat len"
      unfolding p_def using less.prems assms by (auto intro!: copy_advance [OF False])
    have "(\<lambda>x. if unat wa \<le> x \<and> x < unat wa + unat p
        then map (hd_tag dc) [unat hdaddr..<unat hdaddr + unat p] ! (x - unat wa)
        else mem_dirty_tbl dc x) = t1"
      by (auto simp: t1_def fun_eq_iff)
    then have "mem_store g dc wa (map (hd_tag dc) [unat hdaddr..<unat hdaddr + unat p]) = Some dc1"
      using less.prems(1) w by (subst mem_store_eq) (auto simp: dc1_def)
    then have turn: "copy_mem_hd_loop g wa hdaddr len dc =
        copy_mem_hd_loop g (wa + p) (hdaddr + p) (len - p) dc1"
      using copy_mem_hd_turn [OF False less.prems(2), of g wa dc] by (simp flip: p_def)
    have "hd_tag dc1 = hd_tag dc" and mem1: "mem_dirty_tbl dc1 = t1"
      by (simp_all add: fun_eq_iff hd_tag_def dc1_def)
    moreover have "copy_mem_hd_loop g (wa + p) (hdaddr + p) (len - p) dc1 =
        Some (dc1\<lparr>mem_dirty_tbl :=
          (\<lambda>x. if unat (wa + p) \<le> x \<and> x < unat (wa + p) + unat (len - p)
               then hd_tag dc1 (unat (hdaddr + p) + (x - unat (wa + p))) else mem_dirty_tbl dc1 x)\<rparr>)"
      using less.hyps [of "len - p" "wa + p" "hdaddr + p" dc1] less.prems
        copy_measure [OF False, of hdaddr, folded p_def] h(2) w(2) by simp
    moreover have "(\<lambda>x. if unat (wa + p) \<le> x \<and> x < unat (wa + p) + unat (len - p)
          then hd_tag dc (unat (hdaddr + p) + (x - unat (wa + p))) else t1 x) =
        (\<lambda>x. if unat wa \<le> x \<and> x < unat wa + unat len
          then hd_tag dc (unat hdaddr + (x - unat wa)) else mem_dirty_tbl dc x)"
      using h(2) w(2) by (auto simp: t1_def h(1) w(1))
    ultimately show ?thesis by (simp add: turn cong: if_cong) (simp add: dc1_def)
  qed
qed

lemma copy_mem_hd_loop_overrun:
  assumes "mem_tbl_size g < 2 ^ 64"
  shows "mem_tbl_size g < unat wa + unat len \<Longrightarrow> len \<noteq> 0 \<Longrightarrow> unat hdaddr + unat len \<le> 2 ^ 36 \<Longrightarrow>
   copy_mem_hd_loop g wa hdaddr len dc = None"
proof (induction "unat len" arbitrary: len wa hdaddr dc rule: less_induct)
  case less
  note nz = less.prems(2)
  define p where "p = min (hd_progress hdaddr) len"
  let ?bs = "map (hd_tag dc) [unat hdaddr..<unat hdaddr + unat p]"
  have turn: "copy_mem_hd_loop g wa hdaddr len dc =
      do { dc1 \<leftarrow> mem_store g dc wa ?bs; copy_mem_hd_loop g (wa + p) (hdaddr + p) (len - p) dc1 }"
    unfolding p_def by (rule copy_mem_hd_turn [OF nz less.prems(3)])
  show ?case
  proof (cases "mem_tbl_size g < unat wa + unat p")
    case True
    then show ?thesis unfolding turn by (simp add: mem_store_None)
  next
    case False
    have "unat (hdaddr + p) + unat (len - p) = unat hdaddr + unat len"
      unfolding p_def using less.prems by (intro copy_advance [OF nz]) auto
    moreover have w: "unat (wa + p) = unat wa + unat p"
      using False assms by (intro unat_add_no_wrap) simp
    moreover have l: "unat (len - p) = unat len - unat p"
      unfolding p_def by (rule copy_progress(3) [OF nz])
    moreover have "len - p \<noteq> 0"
    proof
      assume "len - p = 0"
      then have "p = len" by simp
      with False less.prems(1) show False by simp
    qed
    ultimately show ?thesis
      unfolding turn using less.hyps [of "len - p" "wa + p" "hdaddr + p"] less.prems False
        copy_measure [OF nz, of hdaddr, folded p_def] by (simp add: mem_store_eq)
  qed
qed

section \<open>What the operations do\<close>

definition demo_globals :: dift_globals where
  "demo_globals = \<lparr>phys_ram_base = 0, phys_ram_size = 0x10000, clean_source = 0x10000,
     null_sink = 0x10001, mem_tbl_size = 0x11000\<rparr>"

definition demo_context :: dift_context where
  "demo_context = \<lparr>deqptr = None, tail = 0, prev_tail = 4095, reg_dirty_tbl = (\<lambda>_ _. 0),
     xmm_dirty_tbl = (\<lambda>_ _. 0), mem_dirty_tbl = (\<lambda>_. 0), hd_l1_dirty_tbl = (\<lambda>_. None)\<rparr>"

lemma wf_demo_globals: "wf_globals demo_globals"
  by (simp add: wf_globals_def demo_globals_def)

lemma init_dift_context_wf:
  assumes "init_dift_context pagesize mem_ok hd_ok g = Some (g', dc)"
    and "4096 \<le> pagesize" and "unat (phys_ram_size g) + pagesize < 2 ^ 64"
  shows "wf_globals g'"
  using assms by (auto simp: init_dift_context_def wf_globals_def split: if_splits)

lemma init_demo_context:
  "init_dift_context 4096 True True
     \<lparr>phys_ram_base = 0, phys_ram_size = 0x10000, clean_source = 0, null_sink = 0, mem_tbl_size = 0\<rparr> =
   Some (demo_globals, demo_context)"
  by (simp add: init_dift_context_def demo_globals_def demo_context_def Q_CHUNKS_SIZE_def
      CONFIG_SIZE_OF_QUEUE_def SIZE_OF_CHUNK_def)

lemma range_in_table:
  assumes "wf_globals g" and "unat addr + unat len \<le> unat (phys_ram_size g)"
  shows "unat addr + unat len \<le> mem_tbl_size g" and "mem_tbl_size g < 2 ^ 64"
  using assms by (auto simp: wf_globals_def)

text \<open>Marking a range of guest memory. Outside the two reserved addresses the call returns
  \<^verbatim>\<open>DIFT_ERR_OUTOFRANGE\<close> exactly when the range leaves RAM (with no wrap-around of the check),
  then \<^verbatim>\<open>DIFT_ERR_INVALIDTAG\<close> exactly when the tag uses the reserved top bit, both without
  touching the context, and otherwise changes exactly the bytes of the range, or-ing or
  overwriting their tags.\<close>

lemma set_mem_dirty_spec:
  assumes "wf_globals g" and "addr \<noteq> clean_source g" and "addr \<noteq> null_sink g"
  shows "set_mem_dirty g dc addr len tag is_append = Some
    (if unat (phys_ram_size g) < unat addr + unat len then (DIFT_ERR_OUTOFRANGE, dc)
     else if \<not> within 0x7f tag then (DIFT_ERR_INVALIDTAG, dc)
     else (DIFT_SUCCESS, dc\<lparr>mem_dirty_tbl := (\<lambda>x.
       if unat addr \<le> x \<and> x < unat addr + unat len
       then if is_append then mem_dirty_tbl dc x OR tag else tag else mem_dirty_tbl dc x)\<rparr>))"
proof (cases "unat (phys_ram_size g) < unat addr + unat len \<or> \<not> within 0x7f tag")
  case True
  with is_valid_mem_range_iff [OF assms(2,3), of len] show ?thesis
    by (auto simp: set_mem_dirty_def is_valid_tag_within)
next
  case False
  let ?f = "\<lambda>v. if is_append then v OR tag else tag"
  have "set_mem_dirty_loop g tag is_append (unat len) addr dc =
      Some (range_op mem_dirty_tbl mem_set_tag ?f (unat len) (unat addr) dc)"
    using False range_in_table [OF assms(1), of addr len] by (intro set_mem_dirty_loop_eq) auto
  moreover have "range_op mem_dirty_tbl mem_set_tag ?f (unat len) (unat addr) dc =
      dc\<lparr>mem_dirty_tbl := (\<lambda>x. if unat addr \<le> x \<and> x < unat addr + unat len
        then ?f (mem_dirty_tbl dc x) else mem_dirty_tbl dc x)\<rparr>"
    by (subst range_op_mem_frame) (simp add: mem_medium.range_op_tag fun_eq_iff)
  ultimately show ?thesis
    using False is_valid_mem_range_iff [OF assms(2,3), of len]
    by (simp add: set_mem_dirty_def is_valid_tag_within)
qed

lemma set_mem_dirty_spec_example:
  "set_mem_dirty demo_globals demo_context 0xfffe 2 5 True = Some (DIFT_SUCCESS,
     demo_context\<lparr>mem_dirty_tbl := (\<lambda>x. if 0xfffe \<le> x \<and> x < 0x10000 then 5 else 0)\<rparr>) \<and>
   set_mem_dirty demo_globals demo_context 0xffff 2 5 True = Some (DIFT_ERR_OUTOFRANGE, demo_context) \<and>
   set_mem_dirty demo_globals demo_context 0xfffe 2 0x80 True = Some (DIFT_ERR_INVALIDTAG, demo_context)"
  using set_mem_dirty_spec [of demo_globals "0xfffe" demo_context 2 5 True]
    set_mem_dirty_spec [of demo_globals "0xffff" demo_context 2 5 True]
    set_mem_dirty_spec [of demo_globals "0xfffe" demo_context 2 "0x80" True] wf_demo_globals
  by (simp add: demo_globals_def demo_context_def within_def cong: if_cong)

text \<open>Keeping only the tag bits of a mask in a range of guest memory, on every branch.\<close>

lemma and_mem_dirty_spec:
  assumes "wf_globals g" and "addr \<noteq> clean_source g" and "addr \<noteq> null_sink g"
  shows "and_mem_dirty g dc addr len tag = Some
    (if unat (phys_ram_size g) < unat addr + unat len then (DIFT_ERR_OUTOFRANGE, dc)
     else if \<not> within 0x7f tag then (DIFT_ERR_INVALIDTAG, dc)
     else (DIFT_SUCCESS, dc\<lparr>mem_dirty_tbl := (\<lambda>x.
       if unat addr \<le> x \<and> x < unat addr + unat len
       then mem_dirty_tbl dc x AND tag else mem_dirty_tbl dc x)\<rparr>))"
proof (cases "unat (phys_ram_size g) < unat addr + unat len \<or> \<not> within 0x7f tag")
  case True
  with is_valid_mem_range_iff [OF assms(2,3), of len] show ?thesis
    by (auto simp: and_mem_dirty_def is_valid_tag_within)
next
  case False
  let ?f = "\<lambda>v. v AND tag"
  have "and_mem_dirty_loop g tag (unat len) addr dc =
      Some (range_op mem_dirty_tbl mem_set_tag ?f (unat len) (unat addr) dc)"
    using False range_in_table [OF assms(1), of addr len] by (intro and_mem_dirty_loop_eq) auto
  moreover have "range_op mem_dirty_tbl mem_set_tag ?f (unat len) (unat addr) dc =
      dc\<lparr>mem_dirty_tbl := (\<lambda>x. if unat addr \<le> x \<and> x < unat addr + unat len
        then ?f (mem_dirty_tbl dc x) else mem_dirty_tbl dc x)\<rparr>"
    by (subst range_op_mem_frame) (simp add: mem_medium.range_op_tag fun_eq_iff)
  ultimately show ?thesis
    using False is_valid_mem_range_iff [OF assms(2,3), of len]
    by (simp add: and_mem_dirty_def is_valid_tag_within)
qed

lemma and_mem_dirty_spec_example:
  "and_mem_dirty demo_globals (demo_context\<lparr>mem_dirty_tbl := (\<lambda>_. 7)\<rparr>) 0x20 2 5 = Some (DIFT_SUCCESS,
     demo_context\<lparr>mem_dirty_tbl := (\<lambda>x. if 0x20 \<le> x \<and> x < 0x22 then 5 else 7)\<rparr>)"
  using and_mem_dirty_spec [of demo_globals "0x20" "demo_context\<lparr>mem_dirty_tbl := (\<lambda>_. 7)\<rparr>" 2 5]
    wf_demo_globals
  by (simp add: demo_globals_def demo_context_def within_def cong: if_cong)

text \<open>Marking a range of the disk, on every branch: the table gains the tag's bits on
  exactly the bytes of the range, whatever pages were allocated before, and nothing else of
  the context changes.\<close>

lemma set_hd_dirty_or_spec:
  "\<exists>st dc'. set_hd_dirty_or dc hdaddr len tag = Some (st, dc') \<and>
     st = (if 2 ^ 36 < unat hdaddr + unat len then DIFT_ERR_OUTOFRANGE
           else if \<not> within 0x7f tag then DIFT_ERR_INVALIDTAG else DIFT_SUCCESS) \<and>
     dc' = dc\<lparr>hd_l1_dirty_tbl := hd_l1_dirty_tbl dc'\<rparr> \<and>
     (\<forall>b. hd_tag dc' b =
        (if st = DIFT_SUCCESS \<and> unat hdaddr \<le> b \<and> b < unat hdaddr + unat len
         then hd_tag dc b OR tag else hd_tag dc b))"
proof (cases "2 ^ 36 < unat hdaddr + unat len \<or> \<not> within 0x7f tag \<or> tag = 0")
  case True
  then show ?thesis
    by (auto simp: set_hd_dirty_or_def is_valid_tag_within is_valid_disk_range_iff)
next
  case False
  let ?dc' = "range_op hd_tag hd_set_tag (\<lambda>v. v OR tag) (unat len) (unat hdaddr) dc"
  have "set_hd_dirty_or_loop tag (unat len) hdaddr dc = Some ?dc'"
    using False by (intro set_hd_dirty_or_loop_eq) simp
  with False have "set_hd_dirty_or dc hdaddr len tag = Some (DIFT_SUCCESS, ?dc')"
    by (simp add: set_hd_dirty_or_def is_valid_tag_within is_valid_disk_range_iff)
  moreover have "?dc' = dc\<lparr>hd_l1_dirty_tbl := hd_l1_dirty_tbl ?dc'\<rparr>"
    by (rule range_op_hd_frame)
  ultimately show ?thesis
    using False by (auto simp: hd_medium.range_op_tag)
qed

text \<open>Masking a range of the disk with a tag other than 0, on every branch.\<close>

lemma set_hd_dirty_and_spec:
  assumes "tag \<noteq> 0"
  shows "\<exists>st dc'. set_hd_dirty_and dc hdaddr len tag = Some (st, dc') \<and>
     st = (if 2 ^ 36 < unat hdaddr + unat len then DIFT_ERR_OUTOFRANGE
           else if \<not> within 0x7f tag then DIFT_ERR_INVALIDTAG else DIFT_SUCCESS) \<and>
     dc' = dc\<lparr>hd_l1_dirty_tbl := hd_l1_dirty_tbl dc'\<rparr> \<and>
     (\<forall>b. hd_tag dc' b =
        (if st = DIFT_SUCCESS \<and> unat hdaddr \<le> b \<and> b < unat hdaddr + unat len
         then hd_tag dc b AND tag else hd_tag dc b))"
proof (cases "2 ^ 36 < unat hdaddr + unat len \<or> \<not> within 0x7f tag")
  case True
  then show ?thesis
    by (auto simp: set_hd_dirty_and_def is_valid_tag_within is_valid_disk_range_iff)
next
  case False
  then obtain dc' where "set_hd_dirty_and_loop tag (unat len) hdaddr dc = Some dc'"
    and "dc' = dc\<lparr>hd_l1_dirty_tbl := hd_l1_dirty_tbl dc'\<rparr>"
    and "\<forall>b. hd_tag dc' b = (if unat hdaddr \<le> b \<and> b < unat hdaddr + unat len
        then hd_tag dc b AND tag else hd_tag dc b)"
    using set_hd_dirty_and_loop_tag [of hdaddr "unat len" tag dc] by auto
  with False assms show ?thesis
    by (auto simp: set_hd_dirty_and_def is_valid_tag_within is_valid_disk_range_iff)
qed

lemma set_hd_dirty_and_spec_example:
  "(5 :: u8) \<noteq> 0 \<and>
   (\<exists>st dc'. set_hd_dirty_and demo_context 0x1ffe 4 5 = Some (st, dc') \<and> st = DIFT_SUCCESS \<and>
      hd_tag dc' 0x1fff = hd_tag demo_context 0x1fff AND 5)"
  using set_hd_dirty_and_spec [of 5 demo_context "0x1ffe" 4] by (auto simp: within_def)

text \<open>Masking a range of the disk with tag 0, which would clear it, returns
  \<^verbatim>\<open>DIFT_SUCCESS\<close> and leaves every tag as it was: the early return copied from
  \<^verbatim>\<open>set_hd_dirty_or\<close> is taken.\<close>

lemma set_hd_dirty_and_zero_keeps_taint:
  assumes "unat hdaddr + unat len \<le> 2 ^ 36"
  shows "set_hd_dirty_and dc hdaddr len 0 = Some (DIFT_SUCCESS, dc)"
  using assms by (simp add: set_hd_dirty_and_def is_valid_tag_within is_valid_disk_range_iff)

lemma set_hd_dirty_and_zero_keeps_taint_example:
  "\<exists>dc. hd_tag dc 7 = 3 \<and> set_hd_dirty_and dc 7 1 0 = Some (DIFT_SUCCESS, dc)"
proof -
  have "hd_tag (hd_set_tag demo_context 7 3) 7 = 3"
    by (simp add: hd_medium.tag_set_tag)
  moreover have "set_hd_dirty_and (hd_set_tag demo_context 7 3) 7 1 0 =
      Some (DIFT_SUCCESS, hd_set_tag demo_context 7 3)"
    by (rule set_hd_dirty_and_zero_keeps_taint) simp
  ultimately show ?thesis by blast
qed

text \<open>A transfer from memory to disk copies the tags of the memory range to the disk range
  byte by byte and touches nothing else, for ranges that both lie inside RAM and disk.\<close>

lemma copy_contamination_hd_mem_spec:
  assumes "wf_globals g" and "unat ra + unat len \<le> unat (phys_ram_size g)"
    and "unat hdaddr + unat len \<le> 2 ^ 36"
  shows "\<exists>dc'. copy_contamination_hd_mem g dc hdaddr ra len = Some dc' \<and>
     dc' = dc\<lparr>hd_l1_dirty_tbl := hd_l1_dirty_tbl dc'\<rparr> \<and>
     (\<forall>b. hd_tag dc' b =
        (if unat hdaddr \<le> b \<and> b < unat hdaddr + unat len
         then mem_dirty_tbl dc (unat ra + (b - unat hdaddr)) else hd_tag dc b))"
proof -
  have "copy_contamination_hd_mem g dc hdaddr ra len = copy_hd_mem_loop g hdaddr ra len dc"
    using assms(2,3) by (simp add: copy_contamination_hd_mem_def is_valid_disk_range_iff
        is_valid_mem_range_inside)
  then show ?thesis
    using copy_hd_mem_loop_copies [of g ra len hdaddr dc] range_in_table [OF assms(1,2)] assms(3)
    by simp
qed

lemma copy_contamination_hd_mem_spec_example:
  "\<exists>dc'. copy_contamination_hd_mem demo_globals (demo_context\<lparr>mem_dirty_tbl := (\<lambda>a. of_nat a)\<rparr>)
       0xffe 3 4 = Some dc' \<and> hd_tag dc' 0x1000 = 5 \<and> hd_tag dc' 0x1002 = 0"
proof -
  let ?dc = "demo_context\<lparr>mem_dirty_tbl := (\<lambda>a. of_nat a)\<rparr>"
  obtain dc' where "copy_contamination_hd_mem demo_globals ?dc 0xffe 3 4 = Some dc'"
    and tg: "\<forall>b. hd_tag dc' b = (if unat (0xffe :: u64) \<le> b \<and> b < unat (0xffe :: u64) + unat (4 :: u64)
         then mem_dirty_tbl ?dc (unat (3 :: u64) + (b - unat (0xffe :: u64))) else hd_tag ?dc b)"
    using copy_contamination_hd_mem_spec [OF wf_demo_globals, of 3 4 "0xffe" ?dc]
    by (auto simp: demo_globals_def)
  moreover have "hd_tag ?dc 0x1002 = 0"
    by (simp add: hd_tag_def demo_context_def page_or_new_def alloc_hd_dirty_page_def)
  ultimately show ?thesis
    by (intro exI [of _ dc']) simp
qed

text \<open>A transfer from disk to memory copies the tags of the disk range to the memory range
  byte by byte, taking pages never written as clean, and touches nothing else.\<close>

lemma copy_contamination_mem_hd_spec:
  assumes "wf_globals g" and "unat wa + unat len \<le> unat (phys_ram_size g)"
    and "unat hdaddr + unat len \<le> 2 ^ 36"
  shows "copy_contamination_mem_hd g dc wa hdaddr len = Some (dc\<lparr>mem_dirty_tbl :=
     (\<lambda>x. if unat wa \<le> x \<and> x < unat wa + unat len
          then hd_tag dc (unat hdaddr + (x - unat wa)) else mem_dirty_tbl dc x)\<rparr>)"
proof -
  have "copy_contamination_mem_hd g dc wa hdaddr len = copy_mem_hd_loop g wa hdaddr len dc"
    using assms(2,3) by (simp add: copy_contamination_mem_hd_def is_valid_disk_range_iff
        is_valid_mem_range_inside)
  then show ?thesis
    using copy_mem_hd_loop_copies range_in_table [OF assms(1,2)] assms(3) by simp
qed

lemma copy_contamination_mem_hd_spec_example:
  "copy_contamination_mem_hd demo_globals (hd_set_tag demo_context 0x1000 9) 0x20 0xfff 2 =
     Some ((hd_set_tag demo_context 0x1000 9)\<lparr>mem_dirty_tbl := (\<lambda>x. if x = 0x21 then 9 else 0)\<rparr>)"
proof -
  have "(\<lambda>x. if unat (0x20 :: u64) \<le> x \<and> x < unat (0x20 :: u64) + unat (2 :: u64)
      then hd_tag (hd_set_tag demo_context 0x1000 9) (unat (0xfff :: u64) + (x - unat (0x20 :: u64)))
      else mem_dirty_tbl (hd_set_tag demo_context 0x1000 9) x) = (\<lambda>x. if x = 0x21 then 9 else 0)"
    by (auto simp: fun_eq_iff hd_medium.tag_set_tag)
      (auto simp: hd_set_tag_def hd_tag_def demo_context_def page_or_new_def alloc_hd_dirty_page_def)
  then show ?thesis
    using copy_contamination_mem_hd_spec [OF wf_demo_globals, of "0x20" 2 "0xfff"
        "hd_set_tag demo_context 0x1000 9"]
    by (simp add: demo_globals_def)
qed

text \<open>C29: taint survives a round trip through the disk: writing a memory range out and reading
  the same disk range back, at any address, reproduces the tags.\<close>

theorem disk_round_trip:
  assumes "wf_globals g" and "unat ra + unat len \<le> unat (phys_ram_size g)"
    and "unat wa + unat len \<le> unat (phys_ram_size g)" and "unat hdaddr + unat len \<le> 2 ^ 36"
    and "k < unat len"
  shows "\<exists>dc1 dc2. copy_contamination_hd_mem g dc hdaddr ra len = Some dc1 \<and>
     copy_contamination_mem_hd g dc1 wa hdaddr len = Some dc2 \<and>
     mem_dirty_tbl dc2 (unat wa + k) = mem_dirty_tbl dc (unat ra + k)"
proof -
  obtain dc1 where dc1: "copy_hd_mem_loop g hdaddr ra len dc = Some dc1"
    and tg: "\<forall>b. hd_tag dc1 b = (if unat hdaddr \<le> b \<and> b < unat hdaddr + unat len
         then mem_dirty_tbl dc (unat ra + (b - unat hdaddr)) else hd_tag dc b)"
    using copy_hd_mem_loop_copies [of g ra len hdaddr dc] range_in_table [OF assms(1,2)] assms(4)
    by auto
  have "copy_contamination_hd_mem g dc hdaddr ra len = Some dc1"
    using assms(2,4) dc1 by (simp add: copy_contamination_hd_mem_def is_valid_disk_range_iff
        is_valid_mem_range_inside)
  moreover have "copy_contamination_mem_hd g dc1 wa hdaddr len = copy_mem_hd_loop g wa hdaddr len dc1"
    using assms(3,4) by (simp add: copy_contamination_mem_hd_def is_valid_disk_range_iff
        is_valid_mem_range_inside)
  ultimately show ?thesis
    using copy_mem_hd_loop_copies [of g wa len hdaddr dc1] range_in_table [OF assms(1,3)]
      assms(4,5) tg by simp
qed

theorem disk_round_trip_witness:
  "\<exists>dc1 dc2. copy_contamination_hd_mem demo_globals (demo_context\<lparr>mem_dirty_tbl := (\<lambda>a. of_nat a)\<rparr>)
       0xfff 3 2 = Some dc1 \<and>
     copy_contamination_mem_hd demo_globals dc1 0x100 0xfff 2 = Some dc2 \<and>
     mem_dirty_tbl dc2 0x101 = 4"
  using disk_round_trip [OF wf_demo_globals, of 3 2 "0x100" "0xfff" 1
      "demo_context\<lparr>mem_dirty_tbl := (\<lambda>a. of_nat a)\<rparr>"]
  by (simp add: demo_globals_def)

text \<open>The range checks let every length through at the reserved address \<^verbatim>\<open>null_sink\<close>, so a
  disk transfer whose memory address was redirected there, and that is longer than what is
  left of the table's last page, writes past the end of the table.\<close>

lemma null_sink_transfer_overruns:
  assumes "wf_globals g" and "mem_tbl_size g < unat (null_sink g) + unat len"
    and "unat hdaddr + unat len \<le> 2 ^ 36"
  shows "copy_contamination_mem_hd g dc (null_sink g) hdaddr len = None"
proof -
  have "unat (null_sink g) = Suc (unat (phys_ram_size g))"
    using assms(1) by (auto simp: wf_globals_def intro!: unat_Suc)
  then have "len \<noteq> 0"
    using assms(1,2) by (auto simp: wf_globals_def)
  then show ?thesis
    using assms copy_mem_hd_loop_overrun [of g "null_sink g" len hdaddr dc]
    by (simp add: copy_contamination_mem_hd_def is_valid_mem_range_def is_valid_disk_range_iff
        wf_globals_def)
qed

lemma null_sink_transfer_overruns_example:
  "copy_contamination_mem_hd demo_globals demo_context (null_sink demo_globals) 0 0x1000 = None"
  using null_sink_transfer_overruns [OF wf_demo_globals, of "0x1000" 0 demo_context]
  by (simp add: demo_globals_def)

end
