(* ===== verification/DiftPolicy.thy ===== *)
theory DiftPolicy
  imports DiftContext
begin

text \<open>
  The taint propagation policy, \<^verbatim>\<open>ext/dift/dift-policy.h\<close>: one definition per label, under the
  label's name, in the order of the file, built with \<^verbatim>\<open>CONFIG_INDIRECT_TAINT\<close> as
  \<^verbatim>\<open>dift.h\<close> defines it and without the \<^verbatim>\<open>CONFIG_DIFT_DEBUG\<close> logging, which only reads the
  tables. A handler gets the globals, the record, the context and the stream of addresses
  that \<^verbatim>\<open>DEQ_FROM_ADDR\<close> reads, and returns the context and the rest of the stream.
  An n-byte access \<^verbatim>\<open>*(uintN_t*)&tbl[k]\<close> moves the n bytes from \<open>k\<close> on, all read before any
  is written; the bitwise or of two such words is the or of their bytes.
\<close>

type_synonym handler =
  "dift_globals \<Rightarrow> dift_record \<Rightarrow> dift_context \<Rightarrow> u64 list \<Rightarrow> (dift_context \<times> u64 list) option"

section \<open>Operands\<close>

definition deq_addr :: "u64 list \<Rightarrow> (u64 \<times> u64 list) option" where
  "deq_addr as = (case as of [] \<Rightarrow> None | a # as' \<Rightarrow> Some (a, as'))"

text \<open>A 64-bit value stored in an \<^verbatim>\<open>int\<close> variable and passed on as \<^verbatim>\<open>uint64_t\<close>.\<close>

definition int_arg :: "u64 \<Rightarrow> u64" where
  "int_arg w = scast (ucast w :: u32)"

definition rec_tag :: "dift_record \<Rightarrow> u8" where
  "rec_tag rec = ucast (drop_bit 8 (u64_of_rec rec AND 0x000000000000ff00))"

definition rec_len :: "dift_record \<Rightarrow> u64" where
  "rec_len rec = int_arg (drop_bit 16 (u64_of_rec rec AND 0x0000ffffffff0000))"

primrec reg_bytes :: "dift_context \<Rightarrow> nat \<Rightarrow> nat list \<Rightarrow> u8 list option" where
  "reg_bytes dc i [] = Some []"
| "reg_bytes dc i (k # ks) = do { b \<leftarrow> reg_get dc i k; bs \<leftarrow> reg_bytes dc i ks; Some (b # bs) }"

primrec reg_set_each :: "dift_context \<Rightarrow> nat \<Rightarrow> nat list \<Rightarrow> u8 \<Rightarrow> dift_context option" where
  "reg_set_each dc i [] v = Some dc"
| "reg_set_each dc i (k # ks) v = do { dc' \<leftarrow> reg_put dc i k v; reg_set_each dc' i ks v }"

primrec reg_or_each :: "dift_context \<Rightarrow> nat \<Rightarrow> nat list \<Rightarrow> u8 \<Rightarrow> dift_context option" where
  "reg_or_each dc i [] v = Some dc"
| "reg_or_each dc i (k # ks) v =
     do { b \<leftarrow> reg_get dc i k; dc' \<leftarrow> reg_put dc i k (b OR v); reg_or_each dc' i ks v }"

primrec mem_bytes :: "dift_globals \<Rightarrow> dift_context \<Rightarrow> u64 \<Rightarrow> nat list \<Rightarrow> u8 list option" where
  "mem_bytes g dc a [] = Some []"
| "mem_bytes g dc a (k # ks) =
     do { b \<leftarrow> get_mem_dirty g dc (a + of_nat k); bs \<leftarrow> mem_bytes g dc a ks; Some (b # bs) }"

text \<open>\<^verbatim>\<open>(j == R_NONE)? 0 : reg[j][k0] | reg[j][k1] ...\<close>\<close>

definition indirect_taint :: "dift_context \<Rightarrow> nat \<Rightarrow> nat list \<Rightarrow> u8 option" where
  "indirect_taint dc j ks =
     (if j = R_NONE then Some 0 else do { bs \<leftarrow> reg_bytes dc j ks; Some (or_all bs) })"

section \<open>Inside a register\<close>

definition rt_inside_reg_assign :: handler where [rt_defs]:
  "rt_inside_reg_assign g rec dc as =
     do { let i = inside_r_reg rec;
          let j = inside_r_d_byte rec;
          let l = inside_r_s_byte rec;
          s \<leftarrow> reg_get dc i l;
          dc' \<leftarrow> reg_put dc i j s;
          Some (dc', as) }"

definition rt_inside_reg_append :: handler where [rt_defs]:
  "rt_inside_reg_append g rec dc as =
     do { let i = inside_r_reg rec;
          let j = inside_r_d_byte rec;
          let l = inside_r_s_byte rec;
          d \<leftarrow> reg_get dc i j;
          s \<leftarrow> reg_get dc i l;
          dc' \<leftarrow> reg_put dc i j (d OR s);
          Some (dc', as) }"

section \<open>Register to register\<close>

definition rt_reg_reg_oo_assign_mo8 :: handler where [rt_defs]:
  "rt_reg_reg_oo_assign_mo8 g rec dc as =
     do { let i = r2r_byte_dreg rec;
          let k = r2r_byte_dreg_byte rec;
          let j = r2r_byte_sreg rec;
          let l = r2r_byte_sreg_byte rec;
          s \<leftarrow> reg_get dc j l;
          dc' \<leftarrow> reg_put dc i k s;
          Some (dc', as) }"

definition rt_reg_reg_oo_assign_mo16 :: handler where [rt_defs]:
  "rt_reg_reg_oo_assign_mo16 g rec dc as =
     do { let i = r2r_dreg rec;
          let j = r2r_sreg rec;
          s \<leftarrow> reg_load dc j 0 2;
          dc' \<leftarrow> reg_store dc i 0 s;
          Some (dc', as) }"

definition rt_reg_reg_oo_assign_mo32 :: handler where [rt_defs]:
  "rt_reg_reg_oo_assign_mo32 g rec dc as =
     do { let i = r2r_dreg rec;
          let j = r2r_sreg rec;
          s \<leftarrow> reg_load dc j 0 4;
          dc' \<leftarrow> reg_store dc i 0 s;
          Some (dc', as) }"

definition rt_reg_reg_oo_assign_mo64 :: handler where [rt_defs]:
  "rt_reg_reg_oo_assign_mo64 g rec dc as =
     do { let i = r2r_dreg rec;
          let j = r2r_sreg rec;
          s \<leftarrow> reg_load dc j 0 8;
          dc' \<leftarrow> reg_store dc i 0 s;
          Some (dc', as) }"

definition rt_reg_reg_oo_append_mo8 :: handler where [rt_defs]:
  "rt_reg_reg_oo_append_mo8 g rec dc as =
     do { let i = r2r_byte_dreg rec;
          let k = r2r_byte_dreg_byte rec;
          let j = r2r_byte_sreg rec;
          let l = r2r_byte_sreg_byte rec;
          d \<leftarrow> reg_get dc i k;
          s \<leftarrow> reg_get dc j l;
          dc' \<leftarrow> reg_put dc i k (d OR s);
          Some (dc', as) }"

definition rt_reg_reg_oo_append_mo16 :: handler where [rt_defs]:
  "rt_reg_reg_oo_append_mo16 g rec dc as =
     do { let i = r2r_dreg rec;
          let j = r2r_sreg rec;
          d \<leftarrow> reg_load dc i 0 2;
          s \<leftarrow> reg_load dc j 0 2;
          dc' \<leftarrow> reg_store dc i 0 (or_bytes d s);
          Some (dc', as) }"

definition rt_reg_reg_oo_append_mo32 :: handler where [rt_defs]:
  "rt_reg_reg_oo_append_mo32 g rec dc as =
     do { let i = r2r_dreg rec;
          let j = r2r_sreg rec;
          d \<leftarrow> reg_load dc i 0 4;
          s \<leftarrow> reg_load dc j 0 4;
          dc' \<leftarrow> reg_store dc i 0 (or_bytes d s);
          Some (dc', as) }"

definition rt_reg_reg_oo_append_mo64 :: handler where [rt_defs]:
  "rt_reg_reg_oo_append_mo64 g rec dc as =
     do { let i = r2r_dreg rec;
          let j = r2r_sreg rec;
          d \<leftarrow> reg_load dc i 0 8;
          s \<leftarrow> reg_load dc j 0 8;
          dc' \<leftarrow> reg_store dc i 0 (or_bytes d s);
          Some (dc', as) }"

definition rt_reg_reg_mix_append_mo16 :: handler where [rt_defs]:
  "rt_reg_reg_mix_append_mo16 g rec dc as =
     do { let i = r2r_dreg rec;
          let j = r2r_sreg rec;
          d \<leftarrow> reg_bytes dc i [0, 1];
          s \<leftarrow> reg_bytes dc j [0, 1];
          let t = or_all (d @ s);
          dc' \<leftarrow> reg_or_each dc i [0, 1] t;
          Some (dc', as) }"

definition rt_reg_reg_mix_append_mo32 :: handler where [rt_defs]:
  "rt_reg_reg_mix_append_mo32 g rec dc as =
     do { let i = r2r_dreg rec;
          let j = r2r_sreg rec;
          d \<leftarrow> reg_get dc i 0;
          s \<leftarrow> reg_bytes dc j [0, 1, 2, 3];
          r \<leftarrow> reg_bytes dc i [1, 2, 3];
          dc0 \<leftarrow> reg_put dc i 0 (d OR or_all (s @ r));
          v \<leftarrow> reg_get dc0 i 0;
          dc' \<leftarrow> reg_set_each dc0 i [1, 2, 3] v;
          Some (dc', as) }"

definition rt_reg_reg_mix_append_mo64 :: handler where [rt_defs]:
  "rt_reg_reg_mix_append_mo64 g rec dc as =
     do { let i = r2r_dreg rec;
          let j = r2r_sreg rec;
          d \<leftarrow> reg_get dc i 0;
          s \<leftarrow> reg_bytes dc j [0, 1, 2, 3, 4, 5, 6, 7];
          r \<leftarrow> reg_bytes dc i [1, 2, 3, 4, 5, 6, 7];
          dc0 \<leftarrow> reg_put dc i 0 (d OR or_all (s @ r));
          v \<leftarrow> reg_get dc0 i 0;
          dc' \<leftarrow> reg_set_each dc0 i [1, 2, 3, 4, 5, 6, 7] v;
          Some (dc', as) }"

section \<open>Memory to register\<close>

definition rt_reg_mem_oo_assign_mo8 :: handler where [rt_defs]:
  "rt_reg_mem_oo_assign_mo8 g rec dc as =
     do { (ra, as) \<leftarrow> deq_addr as;
          let ra = (if ra < phys_ram_size g then ra else clean_source g);
          let i = r2m_m2r_byte_reg rec;
          let k = r2m_m2r_byte_hl rec;
          let j = r2m_m2r_byte_reg_base rec;
          let l = r2m_m2r_byte_reg_index rec;
          tb \<leftarrow> indirect_taint dc j [0];
          tx \<leftarrow> indirect_taint dc l [0];
          let t = tb OR tx;
          m \<leftarrow> mem_get g dc ra;
          dc' \<leftarrow> reg_put dc i k (m OR t);
          Some (dc', as) }"

definition rt_reg_mem_oo_assign_mo16 :: handler where [rt_defs]:
  "rt_reg_mem_oo_assign_mo16 g rec dc as =
     do { (ra, as) \<leftarrow> deq_addr as;
          let ra = (if ra < phys_ram_size g then ra else clean_source g);
          let i = r2m_m2r_reg rec;
          let j = r2m_m2r_reg_base rec;
          let l = r2m_m2r_reg_index rec;
          tb \<leftarrow> indirect_taint dc j [0, 1];
          tx \<leftarrow> indirect_taint dc l [0, 1];
          let t = tb OR tx;
          m0 \<leftarrow> get_mem_dirty g dc ra;
          dc0 \<leftarrow> reg_put dc i 0 (m0 OR t);
          m1 \<leftarrow> get_mem_dirty g dc0 (ra + 1);
          dc' \<leftarrow> reg_put dc0 i 1 (m1 OR t);
          Some (dc', as) }"

definition rt_reg_mem_oo_assign_mo32 :: handler where [rt_defs]:
  "rt_reg_mem_oo_assign_mo32 g rec dc as =
     do { (ra, as) \<leftarrow> deq_addr as;
          let ra = (if ra < phys_ram_size g then ra else clean_source g);
          let i = r2m_m2r_reg rec;
          s \<leftarrow> mem_load g dc ra 4;
          dc' \<leftarrow> reg_store dc i 0 s;
          Some (dc', as) }"

definition rt_reg_mem_oo_assign_mo64 :: handler where [rt_defs]:
  "rt_reg_mem_oo_assign_mo64 g rec dc as =
     do { (ra, as) \<leftarrow> deq_addr as;
          let ra = (if ra < phys_ram_size g then ra else clean_source g);
          let i = r2m_m2r_reg rec;
          s \<leftarrow> mem_load g dc ra 8;
          dc' \<leftarrow> reg_store dc i 0 s;
          Some (dc', as) }"

definition rt_reg_mem_oo_append_mo8 :: handler where [rt_defs]:
  "rt_reg_mem_oo_append_mo8 g rec dc as =
     do { (ra, as) \<leftarrow> deq_addr as;
          let ra = (if ra < phys_ram_size g then ra else clean_source g);
          let i = r2m_m2r_byte_reg rec;
          let k = r2m_m2r_byte_hl rec;
          t \<leftarrow> get_mem_dirty g dc ra;
          d \<leftarrow> reg_get dc i k;
          dc' \<leftarrow> reg_put dc i k (d OR t);
          Some (dc', as) }"

definition rt_reg_mem_oo_append_mo16 :: handler where [rt_defs]:
  "rt_reg_mem_oo_append_mo16 g rec dc as =
     do { (ra, as) \<leftarrow> deq_addr as;
          let ra = (if ra < phys_ram_size g then ra else clean_source g);
          let i = r2m_m2r_reg rec;
          d \<leftarrow> reg_load dc i 0 2;
          s \<leftarrow> mem_load g dc ra 2;
          dc' \<leftarrow> reg_store dc i 0 (or_bytes d s);
          Some (dc', as) }"

definition rt_reg_mem_oo_append_mo32 :: handler where [rt_defs]:
  "rt_reg_mem_oo_append_mo32 g rec dc as =
     do { (ra, as) \<leftarrow> deq_addr as;
          let ra = (if ra < phys_ram_size g then ra else clean_source g);
          let i = r2m_m2r_reg rec;
          d \<leftarrow> reg_load dc i 0 4;
          s \<leftarrow> mem_load g dc ra 4;
          dc' \<leftarrow> reg_store dc i 0 (or_bytes d s);
          Some (dc', as) }"

definition rt_reg_mem_oo_append_mo64 :: handler where [rt_defs]:
  "rt_reg_mem_oo_append_mo64 g rec dc as =
     do { (ra, as) \<leftarrow> deq_addr as;
          let ra = (if ra < phys_ram_size g then ra else clean_source g);
          let i = r2m_m2r_reg rec;
          d \<leftarrow> reg_load dc i 0 8;
          s \<leftarrow> mem_load g dc ra 8;
          dc' \<leftarrow> reg_store dc i 0 (or_bytes d s);
          Some (dc', as) }"

definition rt_reg_mem_mix_assign_mo16 :: handler where [rt_defs]:
  "rt_reg_mem_mix_assign_mo16 g rec dc as =
     do { (ra, as) \<leftarrow> deq_addr as;
          let ra = (if ra < phys_ram_size g then ra else clean_source g);
          let i = r2m_m2r_reg rec;
          s \<leftarrow> mem_bytes g dc ra [0, 1];
          let t = or_all s;
          dc' \<leftarrow> reg_set_each dc i [0, 1] t;
          Some (dc', as) }"

definition rt_reg_mem_mix_assign_mo32 :: handler where [rt_defs]:
  "rt_reg_mem_mix_assign_mo32 g rec dc as =
     do { (ra, as) \<leftarrow> deq_addr as;
          let ra = (if ra < phys_ram_size g then ra else clean_source g);
          let i = r2m_m2r_reg rec;
          s \<leftarrow> mem_bytes g dc ra [0, 1, 2, 3];
          let t = or_all s;
          dc' \<leftarrow> reg_set_each dc i [0, 1, 2, 3] t;
          Some (dc', as) }"

definition rt_reg_mem_mix_assign_mo64 :: handler where [rt_defs]:
  "rt_reg_mem_mix_assign_mo64 g rec dc as =
     do { (ra, as) \<leftarrow> deq_addr as;
          let ra = (if ra < phys_ram_size g then ra else clean_source g);
          let i = r2m_m2r_reg rec;
          s \<leftarrow> mem_bytes g dc ra [0, 1, 2, 3, 4, 5, 6, 7];
          let t = or_all s;
          dc' \<leftarrow> reg_set_each dc i [0, 1, 2, 3, 4, 5, 6, 7] t;
          Some (dc', as) }"

definition rt_reg_mem_mix_append_mo16 :: handler where [rt_defs]:
  "rt_reg_mem_mix_append_mo16 g rec dc as =
     do { (ra, as) \<leftarrow> deq_addr as;
          let ra = (if ra < phys_ram_size g then ra else clean_source g);
          let i = r2m_m2r_reg rec;
          s \<leftarrow> mem_bytes g dc ra [0, 1];
          d \<leftarrow> reg_bytes dc i [0, 1];
          let t = or_all (s @ d);
          dc' \<leftarrow> reg_or_each dc i [0, 1] t;
          Some (dc', as) }"

definition rt_reg_mem_mix_append_mo32 :: handler where [rt_defs]:
  "rt_reg_mem_mix_append_mo32 g rec dc as =
     do { (ra, as) \<leftarrow> deq_addr as;
          let ra = (if ra < phys_ram_size g then ra else clean_source g);
          let i = r2m_m2r_reg rec;
          m \<leftarrow> mem_load g dc ra 4;
          d \<leftarrow> reg_load dc i 0 4;
          let s = or_bytes m d;
          let t = or_all s;
          dc' \<leftarrow> reg_or_each dc i [0, 1, 2, 3] t;
          Some (dc', as) }"

definition rt_reg_mem_mix_append_mo64 :: handler where [rt_defs]:
  "rt_reg_mem_mix_append_mo64 g rec dc as =
     do { (ra, as) \<leftarrow> deq_addr as;
          let ra = (if ra < phys_ram_size g then ra else clean_source g);
          let i = r2m_m2r_reg rec;
          m \<leftarrow> mem_load g dc ra 8;
          d \<leftarrow> reg_load dc i 0 8;
          let s = or_bytes m d;
          let t = or_all s;
          dc' \<leftarrow> reg_or_each dc i [0, 1, 2, 3, 4, 5, 6, 7] t;
          Some (dc', as) }"

section \<open>Register to memory\<close>

definition rt_mem_reg_oo_assign_mo8 :: handler where [rt_defs]:
  "rt_mem_reg_oo_assign_mo8 g rec dc as =
     do { (wa, as) \<leftarrow> deq_addr as;
          let wa = (if wa < phys_ram_size g then wa else null_sink g);
          let i = r2m_m2r_byte_reg rec;
          let k = r2m_m2r_byte_hl rec;
          s \<leftarrow> reg_get dc i k;
          (_, dc') \<leftarrow> set_mem_dirty g dc wa 1 s False;
          Some (dc', as) }"

definition rt_mem_reg_oo_assign_mo16 :: handler where [rt_defs]:
  "rt_mem_reg_oo_assign_mo16 g rec dc as =
     do { (wa, as) \<leftarrow> deq_addr as;
          let wa = (if wa < phys_ram_size g then wa else null_sink g);
          let i = r2m_m2r_reg rec;
          s \<leftarrow> reg_load dc i 0 2;
          dc' \<leftarrow> mem_store g dc wa s;
          Some (dc', as) }"

definition rt_mem_reg_oo_assign_mo32 :: handler where [rt_defs]:
  "rt_mem_reg_oo_assign_mo32 g rec dc as =
     do { (wa, as) \<leftarrow> deq_addr as;
          let wa = (if wa < phys_ram_size g then wa else null_sink g);
          let i = r2m_m2r_reg rec;
          s \<leftarrow> reg_load dc i 0 4;
          dc' \<leftarrow> mem_store g dc wa s;
          Some (dc', as) }"

definition rt_mem_reg_oo_assign_mo64 :: handler where [rt_defs]:
  "rt_mem_reg_oo_assign_mo64 g rec dc as =
     do { (wa, as) \<leftarrow> deq_addr as;
          let wa = (if wa < phys_ram_size g then wa else null_sink g);
          let i = r2m_m2r_reg rec;
          s \<leftarrow> reg_load dc i 0 8;
          dc' \<leftarrow> mem_store g dc wa s;
          Some (dc', as) }"

definition rt_mem_reg_oo_append_mo8 :: handler where [rt_defs]:
  "rt_mem_reg_oo_append_mo8 g rec dc as =
     do { (wa, as) \<leftarrow> deq_addr as;
          let wa = (if wa < phys_ram_size g then wa else null_sink g);
          let i = r2m_m2r_byte_reg rec;
          let k = r2m_m2r_byte_hl rec;
          s \<leftarrow> reg_get dc i k;
          (_, dc') \<leftarrow> set_mem_dirty g dc wa 1 s True;
          Some (dc', as) }"

definition rt_mem_reg_oo_append_mo16 :: handler where [rt_defs]:
  "rt_mem_reg_oo_append_mo16 g rec dc as =
     do { (wa, as) \<leftarrow> deq_addr as;
          let wa = (if wa < phys_ram_size g then wa else null_sink g);
          let i = r2m_m2r_reg rec;
          d \<leftarrow> mem_load g dc wa 2;
          s \<leftarrow> reg_load dc i 0 2;
          dc' \<leftarrow> mem_store g dc wa (or_bytes d s);
          Some (dc', as) }"

definition rt_mem_reg_oo_append_mo32 :: handler where [rt_defs]:
  "rt_mem_reg_oo_append_mo32 g rec dc as =
     do { (wa, as) \<leftarrow> deq_addr as;
          let wa = (if wa < phys_ram_size g then wa else null_sink g);
          let i = r2m_m2r_reg rec;
          d \<leftarrow> mem_load g dc wa 4;
          s \<leftarrow> reg_load dc i 0 4;
          dc' \<leftarrow> mem_store g dc wa (or_bytes d s);
          Some (dc', as) }"

definition rt_mem_reg_oo_append_mo64 :: handler where [rt_defs]:
  "rt_mem_reg_oo_append_mo64 g rec dc as =
     do { (wa, as) \<leftarrow> deq_addr as;
          let wa = (if wa < phys_ram_size g then wa else null_sink g);
          let i = r2m_m2r_reg rec;
          d \<leftarrow> mem_load g dc wa 8;
          s \<leftarrow> reg_load dc i 0 8;
          dc' \<leftarrow> mem_store g dc wa (or_bytes d s);
          Some (dc', as) }"

definition rt_mem_reg_mix_assign_mo16 :: handler where [rt_defs]:
  "rt_mem_reg_mix_assign_mo16 g rec dc as =
     do { (wa, as) \<leftarrow> deq_addr as;
          let wa = (if wa < phys_ram_size g then wa else null_sink g);
          let i = r2m_m2r_reg rec;
          s \<leftarrow> reg_bytes dc i [0, 1];
          let t = or_all s;
          (_, dc') \<leftarrow> set_mem_dirty g dc wa 2 t False;
          Some (dc', as) }"

definition rt_mem_reg_mix_assign_mo32 :: handler where [rt_defs]:
  "rt_mem_reg_mix_assign_mo32 g rec dc as =
     do { (wa, as) \<leftarrow> deq_addr as;
          let wa = (if wa < phys_ram_size g then wa else null_sink g);
          let i = r2m_m2r_reg rec;
          s \<leftarrow> reg_bytes dc i [0, 1, 2, 3];
          let t = or_all s;
          (_, dc') \<leftarrow> set_mem_dirty g dc wa 4 t False;
          Some (dc', as) }"

definition rt_mem_reg_mix_assign_mo64 :: handler where [rt_defs]:
  "rt_mem_reg_mix_assign_mo64 g rec dc as =
     do { (wa, as) \<leftarrow> deq_addr as;
          let wa = (if wa < phys_ram_size g then wa else null_sink g);
          let i = r2m_m2r_reg rec;
          s \<leftarrow> reg_bytes dc i [0, 1, 2, 3, 4, 5, 6, 7];
          let t = or_all s;
          (_, dc') \<leftarrow> set_mem_dirty g dc wa 8 t False;
          Some (dc', as) }"

definition rt_mem_reg_mix_append_mo16 :: handler where [rt_defs]:
  "rt_mem_reg_mix_append_mo16 g rec dc as =
     do { (wa, as) \<leftarrow> deq_addr as;
          let wa = (if wa < phys_ram_size g then wa else null_sink g);
          let i = r2m_m2r_reg rec;
          s \<leftarrow> reg_bytes dc i [0, 1];
          d \<leftarrow> mem_bytes g dc wa [0, 1];
          let t = or_all (s @ d);
          (_, dc') \<leftarrow> set_mem_dirty g dc wa 2 t True;
          Some (dc', as) }"

definition rt_mem_reg_mix_append_mo32 :: handler where [rt_defs]:
  "rt_mem_reg_mix_append_mo32 g rec dc as =
     do { (wa, as) \<leftarrow> deq_addr as;
          let wa = (if wa < phys_ram_size g then wa else null_sink g);
          let i = r2m_m2r_reg rec;
          s \<leftarrow> reg_bytes dc i [0, 1, 2, 3];
          d \<leftarrow> mem_bytes g dc wa [0, 1, 2, 3];
          let t = or_all (s @ d);
          (_, dc') \<leftarrow> set_mem_dirty g dc wa 4 t True;
          Some (dc', as) }"

definition rt_mem_reg_mix_append_mo64 :: handler where [rt_defs]:
  "rt_mem_reg_mix_append_mo64 g rec dc as =
     do { (wa, as) \<leftarrow> deq_addr as;
          let wa = (if wa < phys_ram_size g then wa else null_sink g);
          let i = r2m_m2r_reg rec;
          s \<leftarrow> reg_bytes dc i [0, 1, 2, 3, 4, 5, 6, 7];
          d \<leftarrow> mem_bytes g dc wa [0, 1, 2, 3, 4, 5, 6, 7];
          let t = or_all (s @ d);
          (_, dc') \<leftarrow> set_mem_dirty g dc wa 8 t True;
          Some (dc', as) }"

section \<open>Memory to memory\<close>

definition rt_mem_mem_oo_assign_mo8 :: handler where [rt_defs]:
  "rt_mem_mem_oo_assign_mo8 g rec dc as =
     do { (wa, as) \<leftarrow> deq_addr as;
          let wa = (if wa < phys_ram_size g then wa else null_sink g);
          (ra, as) \<leftarrow> deq_addr as;
          let ra = (if ra < phys_ram_size g then ra else clean_source g);
          s \<leftarrow> mem_get g dc ra;
          dc' \<leftarrow> mem_put g dc wa s;
          Some (dc', as) }"

definition rt_mem_mem_oo_assign_mo16 :: handler where [rt_defs]:
  "rt_mem_mem_oo_assign_mo16 g rec dc as =
     do { (wa, as) \<leftarrow> deq_addr as;
          let wa = (if wa < phys_ram_size g then wa else null_sink g);
          (ra, as) \<leftarrow> deq_addr as;
          let ra = (if ra < phys_ram_size g then ra else clean_source g);
          s \<leftarrow> mem_load g dc ra 2;
          dc' \<leftarrow> mem_store g dc wa s;
          Some (dc', as) }"

definition rt_mem_mem_oo_assign_mo32 :: handler where [rt_defs]:
  "rt_mem_mem_oo_assign_mo32 g rec dc as =
     do { (wa, as) \<leftarrow> deq_addr as;
          let wa = (if wa < phys_ram_size g then wa else null_sink g);
          (ra, as) \<leftarrow> deq_addr as;
          let ra = (if ra < phys_ram_size g then ra else clean_source g);
          s \<leftarrow> mem_load g dc ra 4;
          dc' \<leftarrow> mem_store g dc wa s;
          Some (dc', as) }"

definition rt_mem_mem_oo_assign_mo64 :: handler where [rt_defs]:
  "rt_mem_mem_oo_assign_mo64 g rec dc as =
     do { (wa, as) \<leftarrow> deq_addr as;
          let wa = (if wa < phys_ram_size g then wa else null_sink g);
          (ra, as) \<leftarrow> deq_addr as;
          let ra = (if ra < phys_ram_size g then ra else clean_source g);
          s \<leftarrow> mem_load g dc ra 8;
          dc' \<leftarrow> mem_store g dc wa s;
          Some (dc', as) }"

section \<open>Clearing\<close>

definition rt_reg_im_clear_mo8 :: handler where [rt_defs]:
  "rt_reg_im_clear_mo8 g rec dc as =
     do { let i = r2m_m2r_byte_reg rec;
          let k = r2m_m2r_byte_hl rec;
          dc' \<leftarrow> reg_put dc i k 0;
          Some (dc', as) }"

definition rt_reg_im_clear_mo16 :: handler where [rt_defs]:
  "rt_reg_im_clear_mo16 g rec dc as =
     do { let i = r2m_m2r_reg rec;
          dc' \<leftarrow> reg_store dc i 0 (replicate 2 0);
          Some (dc', as) }"

definition rt_reg_im_clear_mo32 :: handler where [rt_defs]:
  "rt_reg_im_clear_mo32 g rec dc as =
     do { let i = r2m_m2r_reg rec;
          dc' \<leftarrow> reg_store dc i 0 (replicate 4 0);
          Some (dc', as) }"

definition rt_reg_im_clear_mo64 :: handler where [rt_defs]:
  "rt_reg_im_clear_mo64 g rec dc as =
     do { let i = r2m_m2r_reg rec;
          dc' \<leftarrow> reg_store dc i 0 (replicate 8 0);
          Some (dc', as) }"

definition rt_mem_im_clear_mo8 :: handler where [rt_defs]:
  "rt_mem_im_clear_mo8 g rec dc as =
     do { (wa, as) \<leftarrow> deq_addr as;
          let wa = (if wa < phys_ram_size g then wa else null_sink g);
          dc' \<leftarrow> mem_put g dc wa 0;
          Some (dc', as) }"

definition rt_mem_im_clear_mo16 :: handler where [rt_defs]:
  "rt_mem_im_clear_mo16 g rec dc as =
     do { (wa, as) \<leftarrow> deq_addr as;
          let wa = (if wa < phys_ram_size g then wa else null_sink g);
          dc' \<leftarrow> mem_store g dc wa (replicate 2 0);
          Some (dc', as) }"

definition rt_mem_im_clear_mo32 :: handler where [rt_defs]:
  "rt_mem_im_clear_mo32 g rec dc as =
     do { (wa, as) \<leftarrow> deq_addr as;
          let wa = (if wa < phys_ram_size g then wa else null_sink g);
          dc' \<leftarrow> mem_store g dc wa (replicate 4 0);
          Some (dc', as) }"

definition rt_mem_im_clear_mo64 :: handler where [rt_defs]:
  "rt_mem_im_clear_mo64 g rec dc as =
     do { (wa, as) \<leftarrow> deq_addr as;
          let wa = (if wa < phys_ram_size g then wa else null_sink g);
          dc' \<leftarrow> mem_store g dc wa (replicate 8 0);
          Some (dc', as) }"

section \<open>SSE registers\<close>

definition rt_xmm_xmm_oo_assign_mo32 :: handler where [rt_defs]:
  "rt_xmm_xmm_oo_assign_mo32 g rec dc as =
     do { let i = r2r_dreg rec;
          let j = r2r_sreg rec;
          s \<leftarrow> xmm_load dc j 0 4;
          dc' \<leftarrow> xmm_store dc i 0 s;
          Some (dc', as) }"

definition rt_xmm_xmm_oo_assign_mo64 :: handler where [rt_defs]:
  "rt_xmm_xmm_oo_assign_mo64 g rec dc as =
     do { let i = r2r_dreg rec;
          let j = r2r_sreg rec;
          s \<leftarrow> xmm_load dc j 0 8;
          dc' \<leftarrow> xmm_store dc i 0 s;
          Some (dc', as) }"

definition rt_xmm_xmm_oo_assign_mo64lh :: handler where [rt_defs]:
  "rt_xmm_xmm_oo_assign_mo64lh g rec dc as =
     do { let i = r2r_dreg rec;
          let j = r2r_sreg rec;
          s \<leftarrow> xmm_load dc j 0 8;
          dc' \<leftarrow> xmm_store dc i 8 s;
          Some (dc', as) }"

definition rt_xmm_xmm_oo_assign_mo64hl :: handler where [rt_defs]:
  "rt_xmm_xmm_oo_assign_mo64hl g rec dc as =
     do { let i = r2r_dreg rec;
          let j = r2r_sreg rec;
          s \<leftarrow> xmm_load dc j 8 8;
          dc' \<leftarrow> xmm_store dc i 0 s;
          Some (dc', as) }"

definition rt_xmm_xmm_oo_assign_mo128 :: handler where [rt_defs]:
  "rt_xmm_xmm_oo_assign_mo128 g rec dc as =
     do { let i = r2r_dreg rec;
          let j = r2r_sreg rec;
          s \<leftarrow> xmm_load dc j 0 8;
          dc0 \<leftarrow> xmm_store dc i 0 s;
          s \<leftarrow> xmm_load dc0 j 8 8;
          dc' \<leftarrow> xmm_store dc0 i 8 s;
          Some (dc', as) }"

definition rt_xmm_reg_oo_assign_mo32 :: handler where [rt_defs]:
  "rt_xmm_reg_oo_assign_mo32 g rec dc as =
     do { let i = r2r_dreg rec;
          let j = r2r_sreg rec;
          s \<leftarrow> reg_load dc j 0 4;
          dc' \<leftarrow> xmm_store dc i 0 s;
          Some (dc', as) }"

definition rt_xmm_reg_oo_assign_mo64 :: handler where [rt_defs]:
  "rt_xmm_reg_oo_assign_mo64 g rec dc as =
     do { let i = r2r_dreg rec;
          let j = r2r_sreg rec;
          s \<leftarrow> reg_load dc j 0 8;
          dc' \<leftarrow> xmm_store dc i 0 s;
          Some (dc', as) }"

definition rt_reg_xmm_oo_assign_mo32 :: handler where [rt_defs]:
  "rt_reg_xmm_oo_assign_mo32 g rec dc as =
     do { let i = r2r_dreg rec;
          let j = r2r_sreg rec;
          s \<leftarrow> xmm_load dc j 0 4;
          dc' \<leftarrow> reg_store dc i 0 s;
          Some (dc', as) }"

definition rt_reg_xmm_oo_assign_mo64 :: handler where [rt_defs]:
  "rt_reg_xmm_oo_assign_mo64 g rec dc as =
     do { let i = r2r_dreg rec;
          let j = r2r_sreg rec;
          s \<leftarrow> xmm_load dc j 0 8;
          dc' \<leftarrow> reg_store dc i 0 s;
          Some (dc', as) }"

definition rt_xmm_mem_oo_assign_mo32 :: handler where [rt_defs]:
  "rt_xmm_mem_oo_assign_mo32 g rec dc as =
     do { (ra, as) \<leftarrow> deq_addr as;
          let ra = (if ra < phys_ram_size g then ra else clean_source g);
          let i = r2m_m2r_reg rec;
          s \<leftarrow> mem_load g dc ra 4;
          dc' \<leftarrow> xmm_store dc i 0 s;
          Some (dc', as) }"

definition rt_xmm_mem_oo_assign_mo64 :: handler where [rt_defs]:
  "rt_xmm_mem_oo_assign_mo64 g rec dc as =
     do { (ra, as) \<leftarrow> deq_addr as;
          let ra = (if ra < phys_ram_size g then ra else clean_source g);
          let i = r2m_m2r_reg rec;
          s \<leftarrow> mem_load g dc ra 8;
          dc' \<leftarrow> xmm_store dc i 0 s;
          Some (dc', as) }"

definition rt_xmm_mem_oo_assign_mo64h :: handler where [rt_defs]:
  "rt_xmm_mem_oo_assign_mo64h g rec dc as =
     do { (ra, as) \<leftarrow> deq_addr as;
          let ra = (if ra < phys_ram_size g then ra else clean_source g);
          let i = r2m_m2r_reg rec;
          s \<leftarrow> mem_load g dc ra 8;
          dc' \<leftarrow> xmm_store dc i 8 s;
          Some (dc', as) }"

definition rt_xmm_mem_oo_assign_mo128 :: handler where [rt_defs]:
  "rt_xmm_mem_oo_assign_mo128 g rec dc as =
     do { (ra, as) \<leftarrow> deq_addr as;
          let ra = (if ra < phys_ram_size g then ra else clean_source g);
          let i = r2m_m2r_reg rec;
          s \<leftarrow> mem_load g dc ra 8;
          dc0 \<leftarrow> xmm_store dc i 0 s;
          s \<leftarrow> mem_load g dc0 (ra + 8) 8;
          dc' \<leftarrow> xmm_store dc0 i 8 s;
          Some (dc', as) }"

definition rt_mem_xmm_oo_assign_mo32 :: handler where [rt_defs]:
  "rt_mem_xmm_oo_assign_mo32 g rec dc as =
     do { (wa, as) \<leftarrow> deq_addr as;
          let wa = (if wa < phys_ram_size g then wa else null_sink g);
          let i = r2m_m2r_reg rec;
          s \<leftarrow> xmm_load dc i 0 4;
          dc' \<leftarrow> mem_store g dc wa s;
          Some (dc', as) }"

definition rt_mem_xmm_oo_assign_mo64 :: handler where [rt_defs]:
  "rt_mem_xmm_oo_assign_mo64 g rec dc as =
     do { (wa, as) \<leftarrow> deq_addr as;
          let wa = (if wa < phys_ram_size g then wa else null_sink g);
          let i = r2m_m2r_reg rec;
          s \<leftarrow> xmm_load dc i 0 8;
          dc' \<leftarrow> mem_store g dc wa s;
          Some (dc', as) }"

definition rt_mem_xmm_oo_assign_mo64h :: handler where [rt_defs]:
  "rt_mem_xmm_oo_assign_mo64h g rec dc as =
     do { (wa, as) \<leftarrow> deq_addr as;
          let wa = (if wa < phys_ram_size g then wa else null_sink g);
          let i = r2m_m2r_reg rec;
          s \<leftarrow> xmm_load dc i 8 8;
          dc' \<leftarrow> mem_store g dc wa s;
          Some (dc', as) }"

definition rt_mem_xmm_oo_assign_mo128 :: handler where [rt_defs]:
  "rt_mem_xmm_oo_assign_mo128 g rec dc as =
     do { (wa, as) \<leftarrow> deq_addr as;
          let wa = (if wa < phys_ram_size g then wa else null_sink g);
          let i = r2m_m2r_reg rec;
          s \<leftarrow> xmm_load dc i 0 8;
          dc0 \<leftarrow> mem_store g dc wa s;
          s \<leftarrow> xmm_load dc0 i 8 8;
          dc' \<leftarrow> mem_store g dc0 (wa + 8) s;
          Some (dc', as) }"

definition rt_xmm_xmm_oo_assign_dup_mo32l :: handler where [rt_defs]:
  "rt_xmm_xmm_oo_assign_dup_mo32l g rec dc as =
     do { let i = r2r_dreg rec;
          let j = r2r_sreg rec;
          s \<leftarrow> xmm_load dc j 0 4;
          dc0 \<leftarrow> xmm_store dc i 0 s;
          s \<leftarrow> xmm_load dc0 j 0 4;
          dc1 \<leftarrow> xmm_store dc0 i 4 s;
          s \<leftarrow> xmm_load dc1 j 8 4;
          dc2 \<leftarrow> xmm_store dc1 i 8 s;
          s \<leftarrow> xmm_load dc2 j 8 4;
          dc' \<leftarrow> xmm_store dc2 i 12 s;
          Some (dc', as) }"

definition rt_xmm_xmm_oo_assign_dup_mo32h :: handler where [rt_defs]:
  "rt_xmm_xmm_oo_assign_dup_mo32h g rec dc as =
     do { let i = r2r_dreg rec;
          let j = r2r_sreg rec;
          s \<leftarrow> xmm_load dc j 4 4;
          dc0 \<leftarrow> xmm_store dc i 0 s;
          s \<leftarrow> xmm_load dc0 j 4 4;
          dc1 \<leftarrow> xmm_store dc0 i 4 s;
          s \<leftarrow> xmm_load dc1 j 12 4;
          dc2 \<leftarrow> xmm_store dc1 i 8 s;
          s \<leftarrow> xmm_load dc2 j 12 4;
          dc' \<leftarrow> xmm_store dc2 i 12 s;
          Some (dc', as) }"

definition rt_xmm_xmm_oo_assign_dup_mo64 :: handler where [rt_defs]:
  "rt_xmm_xmm_oo_assign_dup_mo64 g rec dc as =
     do { let i = r2r_dreg rec;
          let j = r2r_sreg rec;
          s \<leftarrow> xmm_load dc j 0 8;
          dc0 \<leftarrow> xmm_store dc i 0 s;
          s \<leftarrow> xmm_load dc0 j 0 8;
          dc' \<leftarrow> xmm_store dc0 i 8 s;
          Some (dc', as) }"

definition rt_xmm_mem_oo_assign_dup_mo32l :: handler where [rt_defs]:
  "rt_xmm_mem_oo_assign_dup_mo32l g rec dc as =
     do { (ra, as) \<leftarrow> deq_addr as;
          let ra = (if ra < phys_ram_size g then ra else clean_source g);
          let i = r2m_m2r_reg rec;
          s \<leftarrow> mem_load g dc ra 4;
          dc0 \<leftarrow> xmm_store dc i 0 s;
          s \<leftarrow> mem_load g dc0 ra 4;
          dc1 \<leftarrow> xmm_store dc0 i 4 s;
          s \<leftarrow> mem_load g dc1 (ra + 8) 4;
          dc2 \<leftarrow> xmm_store dc1 i 8 s;
          s \<leftarrow> mem_load g dc2 (ra + 8) 4;
          dc' \<leftarrow> xmm_store dc2 i 12 s;
          Some (dc', as) }"

definition rt_xmm_mem_oo_assign_dup_mo32h :: handler where [rt_defs]:
  "rt_xmm_mem_oo_assign_dup_mo32h g rec dc as =
     do { (ra, as) \<leftarrow> deq_addr as;
          let ra = (if ra < phys_ram_size g then ra else clean_source g);
          let i = r2m_m2r_reg rec;
          s \<leftarrow> mem_load g dc (ra + 4) 4;
          dc0 \<leftarrow> xmm_store dc i 0 s;
          s \<leftarrow> mem_load g dc0 (ra + 4) 4;
          dc1 \<leftarrow> xmm_store dc0 i 4 s;
          s \<leftarrow> mem_load g dc1 (ra + 12) 4;
          dc2 \<leftarrow> xmm_store dc1 i 8 s;
          s \<leftarrow> mem_load g dc2 (ra + 12) 4;
          dc' \<leftarrow> xmm_store dc2 i 12 s;
          Some (dc', as) }"

definition rt_xmm_mem_oo_assign_dup_mo64 :: handler where [rt_defs]:
  "rt_xmm_mem_oo_assign_dup_mo64 g rec dc as =
     do { (ra, as) \<leftarrow> deq_addr as;
          let ra = (if ra < phys_ram_size g then ra else clean_source g);
          let i = r2m_m2r_reg rec;
          s \<leftarrow> mem_load g dc ra 8;
          dc0 \<leftarrow> xmm_store dc i 0 s;
          s \<leftarrow> mem_load g dc0 (ra + 8) 8;
          dc' \<leftarrow> xmm_store dc0 i 8 s;
          Some (dc', as) }"

definition rt_xmm_im_clear :: handler where [rt_defs]:
  "rt_xmm_im_clear g rec dc as =
     do { let i = r2m_m2r_reg rec;
          dc0 \<leftarrow> xmm_store dc i 0 (replicate 8 0);
          dc' \<leftarrow> xmm_store dc0 i 8 (replicate 8 0);
          Some (dc', as) }"

section \<open>Disk transfers and direct contamination\<close>

definition rt_mem_hd :: handler where [rt_defs]:
  "rt_mem_hd g rec dc as =
     do { (wa, as) \<leftarrow> deq_addr as;
          let wa = (if wa < phys_ram_size g then wa else null_sink g);
          (hdaddr, as) \<leftarrow> deq_addr as;
          (l, as) \<leftarrow> deq_addr as;
          dc' \<leftarrow> copy_contamination_mem_hd g dc wa hdaddr (int_arg l);
          Some (dc', as) }"

definition rt_hd_mem :: handler where [rt_defs]:
  "rt_hd_mem g rec dc as =
     do { (ra, as) \<leftarrow> deq_addr as;
          let ra = (if ra < phys_ram_size g then ra else clean_source g);
          (hdaddr, as) \<leftarrow> deq_addr as;
          (l, as) \<leftarrow> deq_addr as;
          dc' \<leftarrow> copy_contamination_hd_mem g dc hdaddr ra (int_arg l);
          Some (dc', as) }"

definition rt_rec_contaminate_mem_or :: handler where [rt_defs]:
  "rt_rec_contaminate_mem_or g rec dc as =
     do { (wa, as) \<leftarrow> deq_addr as;
          let wa = (if wa < phys_ram_size g then wa else null_sink g);
          let j = rec_tag rec;
          let l = rec_len rec;
          (_, dc') \<leftarrow> set_mem_dirty g dc wa l j True;
          Some (dc', as) }"

definition rt_rec_contaminate_mem_and :: handler where [rt_defs]:
  "rt_rec_contaminate_mem_and g rec dc as =
     do { (wa, as) \<leftarrow> deq_addr as;
          let wa = (if wa < phys_ram_size g then wa else null_sink g);
          let j = rec_tag rec;
          let l = rec_len rec;
          (_, dc') \<leftarrow> and_mem_dirty g dc wa l j;
          Some (dc', as) }"

definition rt_rec_contaminate_hd_or :: handler where [rt_defs]:
  "rt_rec_contaminate_hd_or g rec dc as =
     do { (hdaddr, as) \<leftarrow> deq_addr as;
          (l, as) \<leftarrow> deq_addr as;
          let j = rec_tag rec;
          (_, dc') \<leftarrow> set_hd_dirty_or dc hdaddr (int_arg l) j;
          Some (dc', as) }"

definition rt_rec_contaminate_hd_and :: handler where [rt_defs]:
  "rt_rec_contaminate_hd_and g rec dc as =
     do { (hdaddr, as) \<leftarrow> deq_addr as;
          (l, as) \<leftarrow> deq_addr as;
          let j = rec_tag rec;
          (_, dc') \<leftarrow> set_hd_dirty_and dc hdaddr (int_arg l) j;
          Some (dc', as) }"

definition rt_rec_clear_mem :: handler where [rt_defs]:
  "rt_rec_clear_mem g rec dc as =
     do { (wa, as) \<leftarrow> deq_addr as;
          let wa = (if wa < phys_ram_size g then wa else null_sink g);
          (l, as) \<leftarrow> deq_addr as;
          (_, dc') \<leftarrow> set_mem_dirty g dc wa (int_arg l) 0 False;
          Some (dc', as) }"

definition rt_rec_block_begin :: handler where [rt_defs]:
  "rt_rec_block_begin g rec dc as =
     do { Some (dc, as) }"

section \<open>Dispatch\<close>

text \<open>
  The jump table of \<^verbatim>\<open>dift-policy-head.h\<close>, without \<^verbatim>\<open>REC_END\<close>, whose label leaves the
  interpreter. Entries that are never set stay null: a record with such a case number, or
  with one past the end of the table, is not a defined jump.
\<close>

definition dispatch_tbl :: "(u8 \<times> handler) list" where
  "dispatch_tbl =
    [(INSIDE_REG_ASSIGN, rt_inside_reg_assign),
     (INSIDE_REG_APPEND, rt_inside_reg_append),
     (REG_REG_OO_ASSIGN_MO8, rt_reg_reg_oo_assign_mo8),
     (REG_REG_OO_ASSIGN_MO16, rt_reg_reg_oo_assign_mo16),
     (REG_REG_OO_ASSIGN_MO32, rt_reg_reg_oo_assign_mo32),
     (REG_REG_OO_ASSIGN_MO64, rt_reg_reg_oo_assign_mo64),
     (REG_REG_OO_APPEND_MO8, rt_reg_reg_oo_append_mo8),
     (REG_REG_OO_APPEND_MO16, rt_reg_reg_oo_append_mo16),
     (REG_REG_OO_APPEND_MO32, rt_reg_reg_oo_append_mo32),
     (REG_REG_OO_APPEND_MO64, rt_reg_reg_oo_append_mo64),
     (REG_REG_MIX_APPEND_MO8, rt_reg_reg_oo_append_mo8),
     (REG_REG_MIX_APPEND_MO16, rt_reg_reg_mix_append_mo16),
     (REG_REG_MIX_APPEND_MO32, rt_reg_reg_mix_append_mo32),
     (REG_REG_MIX_APPEND_MO64, rt_reg_reg_mix_append_mo64),
     (REG_MEM_OO_ASSIGN_MO8, rt_reg_mem_oo_assign_mo8),
     (REG_MEM_OO_ASSIGN_MO16, rt_reg_mem_oo_assign_mo16),
     (REG_MEM_OO_ASSIGN_MO32, rt_reg_mem_oo_assign_mo32),
     (REG_MEM_OO_ASSIGN_MO64, rt_reg_mem_oo_assign_mo64),
     (REG_MEM_OO_APPEND_MO8, rt_reg_mem_oo_append_mo8),
     (REG_MEM_OO_APPEND_MO16, rt_reg_mem_oo_append_mo16),
     (REG_MEM_OO_APPEND_MO32, rt_reg_mem_oo_append_mo32),
     (REG_MEM_OO_APPEND_MO64, rt_reg_mem_oo_append_mo64),
     (REG_MEM_MIX_ASSIGN_MO16, rt_reg_mem_mix_assign_mo16),
     (REG_MEM_MIX_ASSIGN_MO32, rt_reg_mem_mix_assign_mo32),
     (REG_MEM_MIX_ASSIGN_MO64, rt_reg_mem_mix_assign_mo64),
     (REG_MEM_MIX_APPEND_MO8, rt_reg_mem_oo_append_mo8),
     (REG_MEM_MIX_APPEND_MO16, rt_reg_mem_mix_append_mo16),
     (REG_MEM_MIX_APPEND_MO32, rt_reg_mem_mix_append_mo32),
     (REG_MEM_MIX_APPEND_MO64, rt_reg_mem_mix_append_mo64),
     (MEM_REG_OO_ASSIGN_MO8, rt_mem_reg_oo_assign_mo8),
     (MEM_REG_OO_ASSIGN_MO16, rt_mem_reg_oo_assign_mo16),
     (MEM_REG_OO_ASSIGN_MO32, rt_mem_reg_oo_assign_mo32),
     (MEM_REG_OO_ASSIGN_MO64, rt_mem_reg_oo_assign_mo64),
     (MEM_REG_OO_APPEND_MO8, rt_mem_reg_oo_append_mo8),
     (MEM_REG_OO_APPEND_MO16, rt_mem_reg_oo_append_mo16),
     (MEM_REG_OO_APPEND_MO32, rt_mem_reg_oo_append_mo32),
     (MEM_REG_OO_APPEND_MO64, rt_mem_reg_oo_append_mo64),
     (MEM_REG_MIX_ASSIGN_MO16, rt_mem_reg_mix_assign_mo16),
     (MEM_REG_MIX_ASSIGN_MO32, rt_mem_reg_mix_assign_mo32),
     (MEM_REG_MIX_ASSIGN_MO64, rt_mem_reg_mix_assign_mo64),
     (MEM_REG_MIX_APPEND_MO8, rt_mem_reg_oo_append_mo8),
     (MEM_REG_MIX_APPEND_MO16, rt_mem_reg_mix_append_mo16),
     (MEM_REG_MIX_APPEND_MO32, rt_mem_reg_mix_append_mo32),
     (MEM_REG_MIX_APPEND_MO64, rt_mem_reg_mix_append_mo64),
     (MEM_MEM_OO_ASSIGN_MO8, rt_mem_mem_oo_assign_mo8),
     (MEM_MEM_OO_ASSIGN_MO16, rt_mem_mem_oo_assign_mo16),
     (MEM_MEM_OO_ASSIGN_MO32, rt_mem_mem_oo_assign_mo32),
     (MEM_MEM_OO_ASSIGN_MO64, rt_mem_mem_oo_assign_mo64),
     (REG_IM_CLEAR_MO8, rt_reg_im_clear_mo8),
     (REG_IM_CLEAR_MO16, rt_reg_im_clear_mo16),
     (REG_IM_CLEAR_MO32, rt_reg_im_clear_mo32),
     (REG_IM_CLEAR_MO64, rt_reg_im_clear_mo64),
     (MEM_IM_CLEAR_MO8, rt_mem_im_clear_mo8),
     (MEM_IM_CLEAR_MO16, rt_mem_im_clear_mo16),
     (MEM_IM_CLEAR_MO32, rt_mem_im_clear_mo32),
     (MEM_IM_CLEAR_MO64, rt_mem_im_clear_mo64),
     (XMM_XMM_OO_ASSIGN_MO32, rt_xmm_xmm_oo_assign_mo32),
     (XMM_XMM_OO_ASSIGN_MO64, rt_xmm_xmm_oo_assign_mo64),
     (XMM_XMM_OO_ASSIGN_MO64LH, rt_xmm_xmm_oo_assign_mo64lh),
     (XMM_XMM_OO_ASSIGN_MO64HL, rt_xmm_xmm_oo_assign_mo64hl),
     (XMM_XMM_OO_ASSIGN_MO128, rt_xmm_xmm_oo_assign_mo128),
     (XMM_REG_OO_ASSIGN_MO32, rt_xmm_reg_oo_assign_mo32),
     (XMM_REG_OO_ASSIGN_MO64, rt_xmm_reg_oo_assign_mo64),
     (REG_XMM_OO_ASSIGN_MO32, rt_reg_xmm_oo_assign_mo32),
     (REG_XMM_OO_ASSIGN_MO64, rt_reg_xmm_oo_assign_mo64),
     (XMM_MEM_OO_ASSIGN_MO32, rt_xmm_mem_oo_assign_mo32),
     (XMM_MEM_OO_ASSIGN_MO64, rt_xmm_mem_oo_assign_mo64),
     (XMM_MEM_OO_ASSIGN_MO64H, rt_xmm_mem_oo_assign_mo64h),
     (XMM_MEM_OO_ASSIGN_MO128, rt_xmm_mem_oo_assign_mo128),
     (MEM_XMM_OO_ASSIGN_MO32, rt_mem_xmm_oo_assign_mo32),
     (MEM_XMM_OO_ASSIGN_MO64, rt_mem_xmm_oo_assign_mo64),
     (MEM_XMM_OO_ASSIGN_MO64H, rt_mem_xmm_oo_assign_mo64h),
     (MEM_XMM_OO_ASSIGN_MO128, rt_mem_xmm_oo_assign_mo128),
     (XMM_XMM_OO_ASSIGN_DUP_MO32L, rt_xmm_xmm_oo_assign_dup_mo32l),
     (XMM_XMM_OO_ASSIGN_DUP_MO32H, rt_xmm_xmm_oo_assign_dup_mo32h),
     (XMM_XMM_OO_ASSIGN_DUP_MO64, rt_xmm_xmm_oo_assign_dup_mo64),
     (XMM_MEM_OO_ASSIGN_DUP_MO32L, rt_xmm_mem_oo_assign_dup_mo32l),
     (XMM_MEM_OO_ASSIGN_DUP_MO32H, rt_xmm_mem_oo_assign_dup_mo32h),
     (XMM_MEM_OO_ASSIGN_DUP_MO64, rt_xmm_mem_oo_assign_dup_mo64),
     (XMM_IM_CLEAR, rt_xmm_im_clear),
     (MEM_HD, rt_mem_hd),
     (HD_MEM, rt_hd_mem),
     (REC_CONTAMINATE_MEM_OR, rt_rec_contaminate_mem_or),
     (REC_CONTAMINATE_MEM_AND, rt_rec_contaminate_mem_and),
     (REC_CONTAMINATE_HD_OR, rt_rec_contaminate_hd_or),
     (REC_CONTAMINATE_HD_AND, rt_rec_contaminate_hd_and),
     (REC_CLEAR_MEM, rt_rec_clear_mem),
     (REC_BLOCK_BEGIN, rt_rec_block_begin)]"

definition dispatch :: handler where
  "dispatch g rec dc as =
     do { h \<leftarrow> map_of dispatch_tbl (case_nb rec); h g rec dc as }"

end
