(* ===== verification/DiftTaint.thy ===== *)
theory DiftTaint
  imports DiftStore DiftPolicy
begin

text \<open>
  What every handler of the policy keeps. The locale \<open>tag_domain\<close> states what a property of the
  context must promise about reads and writes of the four tables, and shows once that the table
  operations and all handlers then keep it. It is used twice. \<open>ctx_within T\<close>: no tag in the
  context has a bit outside the mask \<open>T\<close>; no record but a contamination creates a tag bit.
  \<open>place\<close>: where in the queue the analysis thread reads, which no handler touches.
\<close>

section \<open>Properties of the context\<close>

definition carries :: "(u8 \<Rightarrow> bool) \<Rightarrow> dift_record \<Rightarrow> bool" where
  "carries V rec \<longleftrightarrow>
     (case_nb rec = REC_CONTAMINATE_MEM_OR \<or> case_nb rec = REC_CONTAMINATE_HD_OR \<longrightarrow> V (rec_tag rec))"

definition handler_keeps :: "(u8 \<Rightarrow> bool) \<Rightarrow> (dift_context \<Rightarrow> bool) \<Rightarrow> u8 \<Rightarrow> handler \<Rightarrow> bool" where
  "handler_keeps V P c h \<longleftrightarrow>
     (\<forall>g rec dc as. case_nb rec = c \<longrightarrow> carries V rec \<longrightarrow> P dc \<longrightarrow>
        opt_post (h g rec dc as) (\<lambda>(dc', as'). P dc' \<and> length as' \<le> length as))"

lemma opt_post_prod [post_rules]:
  "(\<And>a b. x = (a, b) \<Longrightarrow> opt_post (f a b) Q) \<Longrightarrow> opt_post (case x of (a, b) \<Rightarrow> f a b) Q"
  by (cases x) simp

lemma hd_tag_update [simp]:
  "hd_tag (dc\<lparr>reg_dirty_tbl := r\<rparr>) = hd_tag dc"
  "hd_tag (dc\<lparr>xmm_dirty_tbl := x\<rparr>) = hd_tag dc"
  "hd_tag (dc\<lparr>mem_dirty_tbl := m\<rparr>) = hd_tag dc"
  by (simp_all add: fun_eq_iff hd_tag_def)

text \<open>\<open>V\<close>: the tags that occur; \<open>P\<close>: the property of the context.\<close>

locale tag_domain =
  fixes V :: "u8 \<Rightarrow> bool" and P :: "dift_context \<Rightarrow> bool"
  assumes V_zero [simp]: "V 0"
    and V_or [intro!]: "V x \<Longrightarrow> V y \<Longrightarrow> V (x OR y)"
    and V_and: "V x \<Longrightarrow> V (x AND z)"
    and tags: "P dc \<Longrightarrow> V (reg_dirty_tbl dc i k)" "P dc \<Longrightarrow> V (xmm_dirty_tbl dc i k)"
      "P dc \<Longrightarrow> V (mem_dirty_tbl dc a)" "P dc \<Longrightarrow> V (hd_tag dc a)"
    and reg_keeps: "P dc \<Longrightarrow> \<forall>k. V (t k) \<Longrightarrow> P (dc\<lparr>reg_dirty_tbl := (reg_dirty_tbl dc)(i := t)\<rparr>)"
    and xmm_tbl_keeps: "P dc \<Longrightarrow> \<forall>k. V (t k) \<Longrightarrow> P (dc\<lparr>xmm_dirty_tbl := (xmm_dirty_tbl dc)(i := t)\<rparr>)"
    and mem_keeps: "P dc \<Longrightarrow> \<forall>k. V (t k) \<Longrightarrow> P (dc\<lparr>mem_dirty_tbl := t\<rparr>)"
    and page_keeps: "P dc \<Longrightarrow> \<forall>k < 4096. V (page k) \<Longrightarrow> P (hd_set_page dc hdaddr page)"
begin

lemma V_or_all: "(\<forall>b \<in> set bs. V b) \<Longrightarrow> V (or_all bs)"
  by (induction bs) (simp_all add: V_or)

lemma V_or_bytes:
  "b \<in> set (or_bytes xs ys) \<Longrightarrow> \<forall>b \<in> set xs. V b \<Longrightarrow> \<forall>b \<in> set ys. V b \<Longrightarrow> V b"
  by (auto simp: or_bytes_def intro!: V_or dest: set_zip_leftD set_zip_rightD)

lemma tbl_load_post:
  "\<forall>k < sz. V (t k) \<Longrightarrow> opt_post (tbl_load sz t off n) (\<lambda>bs. \<forall>b \<in> set bs. V b)"
  by (simp add: tbl_load_def)

lemma tbl_store_V:
  "\<forall>a. V (t a) \<Longrightarrow> \<forall>b \<in> set bs. V b \<Longrightarrow> opt_post (tbl_store sz t off bs) (\<lambda>t'. \<forall>a. V (t' a))"
  by (auto simp: tbl_store_def)

lemma reg_get_post: "P dc \<Longrightarrow> opt_post (reg_get dc i k) V"
  by (simp add: reg_get_def tags)

lemma reg_put_post: "P dc \<Longrightarrow> V v \<Longrightarrow> opt_post (reg_put dc i k v) P"
  by (simp add: reg_put_def reg_keeps tags)

lemma mem_get_post: "P dc \<Longrightarrow> opt_post (mem_get g dc a) V"
  by (simp add: mem_get_def tags)

lemma mem_put_post: "P dc \<Longrightarrow> V v \<Longrightarrow> opt_post (mem_put g dc a v) P"
  by (simp add: mem_put_def mem_keeps tags)

lemma reg_load_post: "P dc \<Longrightarrow> opt_post (reg_load dc i off n) (\<lambda>bs. \<forall>b \<in> set bs. V b)"
  by (simp add: reg_load_def tags tbl_load_post)

lemma xmm_load_post: "P dc \<Longrightarrow> opt_post (xmm_load dc i off n) (\<lambda>bs. \<forall>b \<in> set bs. V b)"
  by (simp add: xmm_load_def tags tbl_load_post)

lemma mem_load_post: "P dc \<Longrightarrow> opt_post (mem_load g dc a n) (\<lambda>bs. \<forall>b \<in> set bs. V b)"
  by (simp add: mem_load_def tags tbl_load_post)

lemma reg_store_post: "P dc \<Longrightarrow> \<forall>b \<in> set bs. V b \<Longrightarrow> opt_post (reg_store dc i off bs) P"
  by (auto simp: reg_store_def tags reg_keeps intro!: opt_post_bind [OF tbl_store_V])

lemma xmm_store_post: "P dc \<Longrightarrow> \<forall>b \<in> set bs. V b \<Longrightarrow> opt_post (xmm_store dc i off bs) P"
  by (auto simp: xmm_store_def tags xmm_tbl_keeps intro!: opt_post_bind [OF tbl_store_V])

lemma mem_store_post: "P dc \<Longrightarrow> \<forall>b \<in> set bs. V b \<Longrightarrow> opt_post (mem_store g dc a bs) P"
  by (auto simp: mem_store_def tags mem_keeps intro!: opt_post_bind [OF tbl_store_V])

lemma hd_entry_post:
  "P dc \<Longrightarrow> opt_post (hd_entry dc a) (\<lambda>p. \<forall>k < 4096. V (page_or_new p k))"
proof (rule opt_postI, intro allI impI)
  fix p and k :: nat
  assume w: "P dc" and p: "hd_entry dc a = Some p" and "k < 4096"
  then have "page_or_new p k = hd_tag dc (4096 * (unat a div 4096) + k)"
    by (auto simp: hd_entry_eq hd_tag_def split: if_splits)
  with tags(4) [OF w] show "V (page_or_new p k)" by simp
qed

lemma set_mem_dirty_loop_post:
  "P dc \<Longrightarrow> V tag \<Longrightarrow> opt_post (set_mem_dirty_loop g tag app n a dc) (P)"
  by (induction n arbitrary: a dc)
    (auto intro!: opt_post_bind [OF mem_get_post] opt_post_bind [OF mem_put_post])

lemma set_mem_dirty_post:
  "P dc \<Longrightarrow> V tag \<Longrightarrow>
   opt_post (set_mem_dirty g dc a len tag app) (\<lambda>(st, dc'). P dc')"
  by (auto simp: set_mem_dirty_def intro!: opt_post_bind [OF set_mem_dirty_loop_post])

lemma and_mem_dirty_loop_post:
  "P dc \<Longrightarrow> opt_post (and_mem_dirty_loop g tag n a dc) (P)"
  by (induction n arbitrary: a dc)
    (auto intro!: opt_post_bind [OF mem_get_post] opt_post_bind [OF mem_put_post] V_and)

lemma and_mem_dirty_post:
  "P dc \<Longrightarrow> opt_post (and_mem_dirty g dc a len tag) (\<lambda>(st, dc'). P dc')"
  by (auto simp: and_mem_dirty_def intro!: opt_post_bind [OF and_mem_dirty_loop_post])

lemma get_mem_dirty_post:
  "P dc \<Longrightarrow> opt_post (get_mem_dirty g dc a) (V)"
  by (simp add: get_mem_dirty_def mem_get_post)

lemma set_hd_dirty_or_loop_post:
  "P dc \<Longrightarrow> V tag \<Longrightarrow> opt_post (set_hd_dirty_or_loop tag n a dc) (P)"
proof (induction n arbitrary: a dc)
  case (Suc n)
  then show ?case
    by (auto simp: Let_def HD_L2_INDEX_eq
        intro!: opt_post_bind [OF hd_entry_post] Suc.IH page_keeps)
qed simp

lemma set_hd_dirty_or_post:
  "P dc \<Longrightarrow> V tag \<Longrightarrow>
   opt_post (set_hd_dirty_or dc a len tag) (\<lambda>(st, dc'). P dc')"
  by (auto simp: set_hd_dirty_or_def intro!: opt_post_bind [OF set_hd_dirty_or_loop_post])

lemma set_hd_dirty_and_loop_post:
  "P dc \<Longrightarrow> opt_post (set_hd_dirty_and_loop tag n a dc) (P)"
proof (induction n arbitrary: a dc)
  case (Suc n)
  then show ?case
    by (auto simp: Let_def HD_L2_INDEX_eq page_or_new_def split: option.splits
        intro!: opt_post_bind [OF hd_entry_post] Suc.IH page_keeps V_and)
qed simp

lemma set_hd_dirty_and_post:
  "P dc \<Longrightarrow> opt_post (set_hd_dirty_and dc a len tag) (\<lambda>(st, dc'). P dc')"
  by (auto simp: set_hd_dirty_and_def intro!: opt_post_bind [OF set_hd_dirty_and_loop_post])

lemma tbl_store_post:
  "\<forall>k < sz. V (t k) \<Longrightarrow> \<forall>b \<in> set bs. V b \<Longrightarrow>
   opt_post (tbl_store sz t off bs) (\<lambda>t'. \<forall>k < sz. V (t' k))"
  by (auto simp: tbl_store_def)

lemma copy_hd_mem_loop_post:
  "P dc \<Longrightarrow> opt_post (copy_hd_mem_loop g h a len dc) (P)"
proof (induction "unat len" arbitrary: h a len dc rule: less_induct)
  case less
  then show ?case
    by (subst copy_hd_mem_loop.simps)
      (auto simp: Let_def HD_L2_SIZE_def copy_measure
        intro!: opt_post_bind [OF hd_entry_post] opt_post_bind [OF mem_load_post]
          opt_post_bind [OF tbl_store_post] less.hyps page_keeps)
qed

lemma copy_contamination_hd_mem_post:
  "P dc \<Longrightarrow> opt_post (copy_contamination_hd_mem g dc h a len) (P)"
  by (simp add: copy_contamination_hd_mem_def copy_hd_mem_loop_post)

lemma hd_bytes_post:
  "\<forall>k < 4096. V (page_or_new p k) \<Longrightarrow>
   opt_post (case p of None \<Rightarrow> Some (replicate n 0) | Some page \<Rightarrow> tbl_load HD_L2_SIZE page off n)
     (\<lambda>bs. \<forall>b \<in> set bs. V b)"
  by (cases p) (auto simp: page_or_new_def HD_L2_SIZE_def intro!: tbl_load_post)

lemma copy_mem_hd_loop_post:
  "P dc \<Longrightarrow> opt_post (copy_mem_hd_loop g a h len dc) (P)"
proof (induction "unat len" arbitrary: h a len dc rule: less_induct)
  case less
  then show ?case
    by (subst copy_mem_hd_loop.simps)
      (auto simp: Let_def copy_measure
        intro!: opt_post_bind [OF hd_entry_post] opt_post_bind [OF hd_bytes_post]
          opt_post_bind [OF mem_store_post] less.hyps)
qed

lemma copy_contamination_mem_hd_post:
  "P dc \<Longrightarrow> opt_post (copy_contamination_mem_hd g dc a h len) (P)"
  by (simp add: copy_contamination_mem_hd_def copy_mem_hd_loop_post)

lemma reg_bytes_post:
  "P dc \<Longrightarrow> opt_post (reg_bytes dc i ks) (\<lambda>bs. \<forall>b \<in> set bs. V b)"
proof (induction ks)
  case (Cons k ks)
  then show ?case
    by (auto intro!: opt_post_bind [OF reg_get_post] opt_post_bind [OF Cons.IH])
qed simp

lemma mem_bytes_post:
  "P dc \<Longrightarrow> opt_post (mem_bytes g dc a ks) (\<lambda>bs. \<forall>b \<in> set bs. V b)"
proof (induction ks)
  case (Cons k ks)
  then show ?case
    by (auto intro!: opt_post_bind [OF get_mem_dirty_post] opt_post_bind [OF Cons.IH])
qed simp

lemma reg_set_each_post:
  "P dc \<Longrightarrow> V v \<Longrightarrow> opt_post (reg_set_each dc i ks v) (P)"
  by (induction ks arbitrary: dc) (auto intro!: opt_post_bind [OF reg_put_post])

lemma reg_or_each_post:
  "P dc \<Longrightarrow> V v \<Longrightarrow> opt_post (reg_or_each dc i ks v) (P)"
  by (induction ks arbitrary: dc)
    (auto intro!: opt_post_bind [OF reg_get_post] opt_post_bind [OF reg_put_post])

lemma indirect_taint_post:
  "P dc \<Longrightarrow> opt_post (indirect_taint dc j ks) (V)"
  by (auto simp: indirect_taint_def intro!: opt_post_bind [OF reg_bytes_post] V_or_all)

lemma deq_addr_post:
  "opt_post (deq_addr as) (\<lambda>(a, as'). length as = Suc (length as'))"
  by (simp add: deq_addr_def split: list.split)

lemmas access_posts =
  reg_get_post reg_put_post mem_get_post mem_put_post reg_load_post reg_store_post xmm_load_post
  xmm_store_post mem_load_post mem_store_post get_mem_dirty_post set_mem_dirty_post
  and_mem_dirty_post set_hd_dirty_or_post set_hd_dirty_and_post copy_contamination_hd_mem_post
  copy_contamination_mem_hd_post reg_bytes_post mem_bytes_post reg_set_each_post
  reg_or_each_post indirect_taint_post deq_addr_post

lemmas bind_posts = access_posts [THEN opt_post_bind]

lemma inside_keeps:
  "handler_keeps V P c rt_inside_reg_assign"
  "handler_keeps V P c rt_inside_reg_append"
  by (auto simp: handler_keeps_def Let_def rt_defs
      intro!: bind_posts opt_post_prod V_or V_or_all intro: V_or_bytes)

lemma reg_reg_keeps:
  "handler_keeps V P c rt_reg_reg_oo_assign_mo8"
  "handler_keeps V P c rt_reg_reg_oo_assign_mo16"
  "handler_keeps V P c rt_reg_reg_oo_assign_mo32"
  "handler_keeps V P c rt_reg_reg_oo_assign_mo64"
  "handler_keeps V P c rt_reg_reg_oo_append_mo8"
  "handler_keeps V P c rt_reg_reg_oo_append_mo16"
  "handler_keeps V P c rt_reg_reg_oo_append_mo32"
  "handler_keeps V P c rt_reg_reg_oo_append_mo64"
  "handler_keeps V P c rt_reg_reg_mix_append_mo16"
  "handler_keeps V P c rt_reg_reg_mix_append_mo32"
  "handler_keeps V P c rt_reg_reg_mix_append_mo64"
  by (auto simp: handler_keeps_def Let_def rt_defs
      intro!: bind_posts opt_post_prod V_or V_or_all intro: V_or_bytes)

lemma reg_mem_keeps:
  "handler_keeps V P c rt_reg_mem_oo_assign_mo8"
  "handler_keeps V P c rt_reg_mem_oo_assign_mo16"
  "handler_keeps V P c rt_reg_mem_oo_assign_mo32"
  "handler_keeps V P c rt_reg_mem_oo_assign_mo64"
  "handler_keeps V P c rt_reg_mem_oo_append_mo8"
  "handler_keeps V P c rt_reg_mem_oo_append_mo16"
  "handler_keeps V P c rt_reg_mem_oo_append_mo32"
  "handler_keeps V P c rt_reg_mem_oo_append_mo64"
  "handler_keeps V P c rt_reg_mem_mix_assign_mo16"
  "handler_keeps V P c rt_reg_mem_mix_assign_mo32"
  "handler_keeps V P c rt_reg_mem_mix_assign_mo64"
  "handler_keeps V P c rt_reg_mem_mix_append_mo16"
  "handler_keeps V P c rt_reg_mem_mix_append_mo32"
  "handler_keeps V P c rt_reg_mem_mix_append_mo64"
  by (auto simp: handler_keeps_def Let_def rt_defs
      intro!: bind_posts opt_post_prod V_or V_or_all intro: V_or_bytes)

lemma mem_reg_keeps:
  "handler_keeps V P c rt_mem_reg_oo_assign_mo8"
  "handler_keeps V P c rt_mem_reg_oo_assign_mo16"
  "handler_keeps V P c rt_mem_reg_oo_assign_mo32"
  "handler_keeps V P c rt_mem_reg_oo_assign_mo64"
  "handler_keeps V P c rt_mem_reg_oo_append_mo8"
  "handler_keeps V P c rt_mem_reg_oo_append_mo16"
  "handler_keeps V P c rt_mem_reg_oo_append_mo32"
  "handler_keeps V P c rt_mem_reg_oo_append_mo64"
  "handler_keeps V P c rt_mem_reg_mix_assign_mo16"
  "handler_keeps V P c rt_mem_reg_mix_assign_mo32"
  "handler_keeps V P c rt_mem_reg_mix_assign_mo64"
  "handler_keeps V P c rt_mem_reg_mix_append_mo16"
  "handler_keeps V P c rt_mem_reg_mix_append_mo32"
  "handler_keeps V P c rt_mem_reg_mix_append_mo64"
  by (auto simp: handler_keeps_def Let_def rt_defs
      intro!: bind_posts opt_post_prod V_or V_or_all intro: V_or_bytes)

lemma mem_mem_keeps:
  "handler_keeps V P c rt_mem_mem_oo_assign_mo8"
  "handler_keeps V P c rt_mem_mem_oo_assign_mo16"
  "handler_keeps V P c rt_mem_mem_oo_assign_mo32"
  "handler_keeps V P c rt_mem_mem_oo_assign_mo64"
  by (auto simp: handler_keeps_def Let_def rt_defs
      intro!: bind_posts opt_post_prod V_or V_or_all intro: V_or_bytes)

lemma clear_keeps:
  "handler_keeps V P c rt_reg_im_clear_mo8"
  "handler_keeps V P c rt_reg_im_clear_mo16"
  "handler_keeps V P c rt_reg_im_clear_mo32"
  "handler_keeps V P c rt_reg_im_clear_mo64"
  "handler_keeps V P c rt_mem_im_clear_mo8"
  "handler_keeps V P c rt_mem_im_clear_mo16"
  "handler_keeps V P c rt_mem_im_clear_mo32"
  "handler_keeps V P c rt_mem_im_clear_mo64"
  by (auto simp: handler_keeps_def Let_def rt_defs
      intro!: bind_posts opt_post_prod V_or V_or_all intro: V_or_bytes)

lemma xmm_keeps:
  "handler_keeps V P c rt_xmm_xmm_oo_assign_mo32"
  "handler_keeps V P c rt_xmm_xmm_oo_assign_mo64"
  "handler_keeps V P c rt_xmm_xmm_oo_assign_mo64lh"
  "handler_keeps V P c rt_xmm_xmm_oo_assign_mo64hl"
  "handler_keeps V P c rt_xmm_xmm_oo_assign_mo128"
  "handler_keeps V P c rt_xmm_reg_oo_assign_mo32"
  "handler_keeps V P c rt_xmm_reg_oo_assign_mo64"
  "handler_keeps V P c rt_reg_xmm_oo_assign_mo32"
  "handler_keeps V P c rt_reg_xmm_oo_assign_mo64"
  "handler_keeps V P c rt_xmm_mem_oo_assign_mo32"
  "handler_keeps V P c rt_xmm_mem_oo_assign_mo64"
  "handler_keeps V P c rt_xmm_mem_oo_assign_mo64h"
  "handler_keeps V P c rt_xmm_mem_oo_assign_mo128"
  "handler_keeps V P c rt_mem_xmm_oo_assign_mo32"
  "handler_keeps V P c rt_mem_xmm_oo_assign_mo64"
  "handler_keeps V P c rt_mem_xmm_oo_assign_mo64h"
  "handler_keeps V P c rt_mem_xmm_oo_assign_mo128"
  "handler_keeps V P c rt_xmm_xmm_oo_assign_dup_mo32l"
  "handler_keeps V P c rt_xmm_xmm_oo_assign_dup_mo32h"
  "handler_keeps V P c rt_xmm_xmm_oo_assign_dup_mo64"
  "handler_keeps V P c rt_xmm_mem_oo_assign_dup_mo32l"
  "handler_keeps V P c rt_xmm_mem_oo_assign_dup_mo32h"
  "handler_keeps V P c rt_xmm_mem_oo_assign_dup_mo64"
  "handler_keeps V P c rt_xmm_im_clear"
  by (auto simp: handler_keeps_def Let_def rt_defs
      intro!: bind_posts opt_post_prod V_or V_or_all intro: V_or_bytes)

lemma direct_keeps:
  "handler_keeps V P c rt_mem_hd"
  "handler_keeps V P c rt_hd_mem"
  "handler_keeps V P REC_CONTAMINATE_MEM_OR rt_rec_contaminate_mem_or"
  "handler_keeps V P c rt_rec_contaminate_mem_and"
  "handler_keeps V P REC_CONTAMINATE_HD_OR rt_rec_contaminate_hd_or"
  "handler_keeps V P c rt_rec_contaminate_hd_and"
  "handler_keeps V P c rt_rec_clear_mem"
  "handler_keeps V P c rt_rec_block_begin"
  by (auto simp: handler_keeps_def Let_def rt_defs carries_def
      intro!: bind_posts opt_post_prod V_or V_or_all intro: V_or_bytes)

lemmas handlers_keep = inside_keeps reg_reg_keeps reg_mem_keeps mem_reg_keeps mem_mem_keeps clear_keeps xmm_keeps direct_keeps

lemma dispatch_tbl_keeps: "list_all (\<lambda>(c, h). handler_keeps V P c h) dispatch_tbl"
  by (simp add: dispatch_tbl_def handlers_keep)

lemma dispatch_post:
  assumes "carries V rec" and "P dc"
  shows "opt_post (dispatch g rec dc as) (\<lambda>(dc', as'). P dc' \<and> length as' \<le> length as)"
proof (cases "map_of dispatch_tbl (case_nb rec)")
  case (Some h)
  then have "handler_keeps V P (case_nb rec) h"
    using dispatch_tbl_keeps map_of_SomeD [OF Some] by (auto simp: list_all_iff)
  with Some assms show ?thesis
    by (simp add: dispatch_def handler_keeps_def)
qed (simp add: dispatch_def)

end

section \<open>Tags within a mask\<close>

definition ctx_within :: "u8 \<Rightarrow> dift_context \<Rightarrow> bool" where
  "ctx_within T dc \<longleftrightarrow>
     (\<forall>i k. within T (reg_dirty_tbl dc i k)) \<and> (\<forall>i k. within T (xmm_dirty_tbl dc i k)) \<and>
     (\<forall>a. within T (mem_dirty_tbl dc a)) \<and> (\<forall>a. within T (hd_tag dc a))"

definition tag_ok :: "u8 \<Rightarrow> dift_record \<Rightarrow> bool" where
  "tag_ok T rec \<longleftrightarrow>
     (case_nb rec = REC_CONTAMINATE_MEM_OR \<or> case_nb rec = REC_CONTAMINATE_HD_OR
      \<longrightarrow> within T (rec_tag rec))"

interpretation mask: tag_domain "within T" "ctx_within T" for T
proof
  show "ctx_within T (hd_set_page dc a page)" if "ctx_within T dc" "\<forall>k < 4096. within T (page k)" for dc a page
    using that by (auto simp: ctx_within_def hd_tag_set_page) (simp_all add: hd_set_page_def)
qed (simp_all add: ctx_within_def within_and1)

lemma dispatch_keeps:
  "tag_ok T rec \<Longrightarrow> ctx_within T dc \<Longrightarrow>
   opt_post (dispatch g rec dc as) (\<lambda>(dc', as'). ctx_within T dc' \<and> length as' \<le> length as)"
  by (rule mask.dispatch_post) (simp_all add: carries_def tag_ok_def)

section \<open>The reading position\<close>

definition place :: "dift_context \<Rightarrow> nat option \<times> u32 \<times> u32" where
  "place dc = (deqptr dc, tail dc, prev_tail dc)"

interpretation position: tag_domain "\<lambda>_. True" "\<lambda>dc. place dc = p" for p
  by unfold_locales (simp_all add: place_def hd_set_page_def)

lemma dispatch_place: "dispatch g rec dc as = Some (dc', as') \<Longrightarrow> place dc' = place dc"
  using position.dispatch_post [of rec dc "place dc" g as] by (auto simp: carries_def dest: opt_postD)

text \<open>C7: taint is never invented. For every mask \<open>T\<close>, if no tag of the registers, the SSE
  registers, memory or the disk has a bit outside \<open>T\<close>, then none has after a record was
  handled, unless the record is a contamination request that itself carries such a bit; and no
  handler gives addresses back to the stream. With \<open>T = 0\<close>: a clean machine stays clean.\<close>

theorem policy_keeps_mask:
  assumes "ctx_within T dc" and "tag_ok T rec" and "dispatch g rec dc as = Some (dc', as')"
  shows "ctx_within T dc' \<and> length as' \<le> length as"
  using opt_postD [OF dispatch_keeps [OF assms(2,1)] assms(3)] by simp

lemma demo_context_clean: "ctx_within T demo_context"
  by (simp add: ctx_within_def demo_context_def hd_tag_def page_or_new_def alloc_hd_dirty_page_def)

theorem policy_keeps_mask_witness:
  "\<exists>dc'. dispatch demo_globals (DIFT_REC_EMPTY\<lparr>case_nb := REC_CONTAMINATE_MEM_OR, padding1 := 2,
       padding2 := 1\<rparr>) demo_context [0x20] = Some (dc', []) \<and>
     mem_dirty_tbl dc' 0x20 = 2 \<and> ctx_within 2 dc'"
proof -
  let ?rec = "DIFT_REC_EMPTY\<lparr>case_nb := REC_CONTAMINATE_MEM_OR, padding1 := 2, padding2 := 1\<rparr>"
  let ?dc = "mem_set_tag demo_context 0x20 2"
  have tag: "rec_tag ?rec = 2" and len: "rec_len ?rec = 1"
    by (simp_all add: rec_tag_def rec_len_def int_arg_def u64_of_rec_def u64_of_bytes_def
        DIFT_REC_EMPTY_def case_nb_defs)
  have "map_of dispatch_tbl REC_CONTAMINATE_MEM_OR = Some rt_rec_contaminate_mem_or"
    by (simp add: dispatch_tbl_def case_nb_defs)
  then have d: "dispatch demo_globals ?rec demo_context [0x20] = Some (?dc, [])"
    by (simp add: dispatch_def rt_rec_contaminate_mem_or_def tag len deq_addr_def set_mem_dirty_def
        is_valid_mem_range_def is_valid_tag_within within_def demo_globals_def mem_get_def
        mem_put_def mem_set_tag_def Let_def demo_context_def)
  then show ?thesis
    using policy_keeps_mask [OF demo_context_clean [of 2] _ d]
    by (simp add: tag_ok_def tag mem_set_tag_def)
qed

end
