(* ===== verification/DiftSafe.thy ===== *)
theory DiftSafe
  imports DiftTaint
begin

text \<open>
  No handler leaves its tables. \<open>shape_tbl\<close> lists for every case number which operands its
  record carries and how many entries of the address stream it takes; \<open>args_ok\<close> says when
  such operands exist and, for the records that name a range of memory, that a range outside RAM
  is shorter than a page. Whatever the addresses are, a handler called with them returns, having
  taken exactly its own addresses: an address outside RAM is replaced by one of the two
  reserved addresses, and the page behind RAM is wide enough for the longest access there.
\<close>

section \<open>Operand shapes\<close>

datatype shape =
    Inside | RegReg nat nat | RegRegByte | OneReg nat | OneRegByte | IndReg | IndRegByte
  | NoReg | DiskMem | MemTag | MemLen

definition base_ok :: "nat \<Rightarrow> bool" where
  "base_ok j \<longleftrightarrow> j < 24 \<or> j = R_NONE"

text \<open>A range that starts at a redirected address has to end in the page behind RAM.\<close>

definition sink_room :: "dift_globals \<Rightarrow> u64 \<Rightarrow> u64 \<Rightarrow> bool" where
  "sink_room g a len \<longleftrightarrow> a < phys_ram_size g \<or> unat len < 4096"

fun args_ok :: "shape \<Rightarrow> dift_globals \<Rightarrow> dift_record \<Rightarrow> u64 list \<Rightarrow> bool" where
  "args_ok Inside g rec as =
     (inside_r_reg rec < 24 \<and> inside_r_d_byte rec < 8 \<and> inside_r_s_byte rec < 8)"
| "args_ok (RegReg m n) g rec as = (r2r_dreg rec < m \<and> r2r_sreg rec < n)"
| "args_ok RegRegByte g rec as =
     (r2r_byte_dreg rec < 24 \<and> r2r_byte_dreg_byte rec < 8 \<and>
      r2r_byte_sreg rec < 24 \<and> r2r_byte_sreg_byte rec < 8)"
| "args_ok (OneReg m) g rec as = (r2m_m2r_reg rec < m)"
| "args_ok OneRegByte g rec as = (r2m_m2r_byte_reg rec < 24 \<and> r2m_m2r_byte_hl rec < 8)"
| "args_ok IndReg g rec as =
     (r2m_m2r_reg rec < 24 \<and> base_ok (r2m_m2r_reg_base rec) \<and> base_ok (r2m_m2r_reg_index rec))"
| "args_ok IndRegByte g rec as =
     (r2m_m2r_byte_reg rec < 24 \<and> r2m_m2r_byte_hl rec < 8 \<and>
      base_ok (r2m_m2r_byte_reg_base rec) \<and> base_ok (r2m_m2r_byte_reg_index rec))"
| "args_ok NoReg g rec as = True"
| "args_ok DiskMem g rec as = sink_room g (as ! 0) (int_arg (as ! 2))"
| "args_ok MemTag g rec as = sink_room g (as ! 0) (rec_len rec)"
| "args_ok MemLen g rec as = sink_room g (as ! 0) (int_arg (as ! 1))"

text \<open>The two halves of \<open>args_ok\<close>: the registers and bytes a record names exist, and a range of memory fits.\<close>

fun operands_in :: "shape \<Rightarrow> dift_record \<Rightarrow> bool" where
  "operands_in Inside rec = (inside_r_reg rec < 24 \<and> inside_r_d_byte rec < 8 \<and> inside_r_s_byte rec < 8)"
| "operands_in (RegReg m n) rec = (r2r_dreg rec < m \<and> r2r_sreg rec < n)"
| "operands_in RegRegByte rec =
     (r2r_byte_dreg rec < 24 \<and> r2r_byte_dreg_byte rec < 8 \<and> r2r_byte_sreg rec < 24 \<and> r2r_byte_sreg_byte rec < 8)"
| "operands_in (OneReg m) rec = (r2m_m2r_reg rec < m)"
| "operands_in OneRegByte rec = (r2m_m2r_byte_reg rec < 24 \<and> r2m_m2r_byte_hl rec < 8)"
| "operands_in IndReg rec = (r2m_m2r_reg rec < 24 \<and> base_ok (r2m_m2r_reg_base rec) \<and> base_ok (r2m_m2r_reg_index rec))"
| "operands_in IndRegByte rec = (r2m_m2r_byte_reg rec < 24 \<and> r2m_m2r_byte_hl rec < 8 \<and>
     base_ok (r2m_m2r_byte_reg_base rec) \<and> base_ok (r2m_m2r_byte_reg_index rec))"
| "operands_in sh rec = True"

fun range_length :: "shape \<Rightarrow> dift_record \<Rightarrow> u64 list \<Rightarrow> u64 option" where
  "range_length DiskMem rec as = Some (int_arg (as ! 2))"
| "range_length MemTag rec as = Some (rec_len rec)"
| "range_length MemLen rec as = Some (int_arg (as ! 1))"
| "range_length sh rec as = None"

lemma args_okI:
  "operands_in sh rec \<Longrightarrow> (\<And>len. range_length sh rec as = Some len \<Longrightarrow> as ! 0 < phys_ram_size g \<or> unat len < 4096) \<Longrightarrow> args_ok sh g rec as"
  by (cases sh) (simp_all add: sink_room_def)

definition shape_tbl :: "(u8 \<times> shape \<times> nat) list" where
  "shape_tbl =
     map (\<lambda>c. (c, Inside, 0))
         [INSIDE_REG_ASSIGN, INSIDE_REG_APPEND] @
     map (\<lambda>c. (c, RegRegByte, 0))
         [REG_REG_OO_ASSIGN_MO8, REG_REG_OO_APPEND_MO8, REG_REG_MIX_APPEND_MO8] @
     map (\<lambda>c. (c, RegReg 24 24, 0))
         [REG_REG_OO_ASSIGN_MO16, REG_REG_OO_ASSIGN_MO32, REG_REG_OO_ASSIGN_MO64,
         REG_REG_OO_APPEND_MO16, REG_REG_OO_APPEND_MO32, REG_REG_OO_APPEND_MO64,
         REG_REG_MIX_APPEND_MO16, REG_REG_MIX_APPEND_MO32, REG_REG_MIX_APPEND_MO64] @
     map (\<lambda>c. (c, IndRegByte, 1))
         [REG_MEM_OO_ASSIGN_MO8] @
     map (\<lambda>c. (c, IndReg, 1))
         [REG_MEM_OO_ASSIGN_MO16] @
     map (\<lambda>c. (c, OneReg 24, 1))
         [REG_MEM_OO_ASSIGN_MO32, REG_MEM_OO_ASSIGN_MO64, REG_MEM_OO_APPEND_MO16,
         REG_MEM_OO_APPEND_MO32, REG_MEM_OO_APPEND_MO64, REG_MEM_MIX_ASSIGN_MO16,
         REG_MEM_MIX_ASSIGN_MO32, REG_MEM_MIX_ASSIGN_MO64, REG_MEM_MIX_APPEND_MO16,
         REG_MEM_MIX_APPEND_MO32, REG_MEM_MIX_APPEND_MO64, MEM_REG_OO_ASSIGN_MO16,
         MEM_REG_OO_ASSIGN_MO32, MEM_REG_OO_ASSIGN_MO64, MEM_REG_OO_APPEND_MO16,
         MEM_REG_OO_APPEND_MO32, MEM_REG_OO_APPEND_MO64, MEM_REG_MIX_ASSIGN_MO16,
         MEM_REG_MIX_ASSIGN_MO32, MEM_REG_MIX_ASSIGN_MO64, MEM_REG_MIX_APPEND_MO16,
         MEM_REG_MIX_APPEND_MO32, MEM_REG_MIX_APPEND_MO64] @
     map (\<lambda>c. (c, OneRegByte, 1))
         [REG_MEM_OO_APPEND_MO8, REG_MEM_MIX_APPEND_MO8, MEM_REG_OO_ASSIGN_MO8,
         MEM_REG_OO_APPEND_MO8, MEM_REG_MIX_APPEND_MO8] @
     map (\<lambda>c. (c, NoReg, 2))
         [MEM_MEM_OO_ASSIGN_MO8, MEM_MEM_OO_ASSIGN_MO16, MEM_MEM_OO_ASSIGN_MO32,
         MEM_MEM_OO_ASSIGN_MO64, REC_CONTAMINATE_HD_OR, REC_CONTAMINATE_HD_AND] @
     map (\<lambda>c. (c, OneRegByte, 0))
         [REG_IM_CLEAR_MO8] @
     map (\<lambda>c. (c, OneReg 24, 0))
         [REG_IM_CLEAR_MO16, REG_IM_CLEAR_MO32, REG_IM_CLEAR_MO64] @
     map (\<lambda>c. (c, NoReg, 1))
         [MEM_IM_CLEAR_MO8, MEM_IM_CLEAR_MO16, MEM_IM_CLEAR_MO32, MEM_IM_CLEAR_MO64] @
     map (\<lambda>c. (c, RegReg 16 16, 0))
         [XMM_XMM_OO_ASSIGN_MO32, XMM_XMM_OO_ASSIGN_MO64, XMM_XMM_OO_ASSIGN_MO64LH,
         XMM_XMM_OO_ASSIGN_MO64HL, XMM_XMM_OO_ASSIGN_MO128, XMM_XMM_OO_ASSIGN_DUP_MO32L,
         XMM_XMM_OO_ASSIGN_DUP_MO32H, XMM_XMM_OO_ASSIGN_DUP_MO64] @
     map (\<lambda>c. (c, RegReg 16 24, 0))
         [XMM_REG_OO_ASSIGN_MO32, XMM_REG_OO_ASSIGN_MO64] @
     map (\<lambda>c. (c, RegReg 24 16, 0))
         [REG_XMM_OO_ASSIGN_MO32, REG_XMM_OO_ASSIGN_MO64] @
     map (\<lambda>c. (c, OneReg 16, 1))
         [XMM_MEM_OO_ASSIGN_MO32, XMM_MEM_OO_ASSIGN_MO64, XMM_MEM_OO_ASSIGN_MO64H,
         XMM_MEM_OO_ASSIGN_MO128, MEM_XMM_OO_ASSIGN_MO32, MEM_XMM_OO_ASSIGN_MO64,
         MEM_XMM_OO_ASSIGN_MO64H, MEM_XMM_OO_ASSIGN_MO128, XMM_MEM_OO_ASSIGN_DUP_MO32L,
         XMM_MEM_OO_ASSIGN_DUP_MO32H, XMM_MEM_OO_ASSIGN_DUP_MO64] @
     map (\<lambda>c. (c, OneReg 16, 0))
         [XMM_IM_CLEAR] @
     map (\<lambda>c. (c, DiskMem, 3))
         [MEM_HD, HD_MEM] @
     map (\<lambda>c. (c, MemTag, 1))
         [REC_CONTAMINATE_MEM_OR, REC_CONTAMINATE_MEM_AND] @
     map (\<lambda>c. (c, MemLen, 2))
         [REC_CLEAR_MEM] @
     map (\<lambda>c. (c, NoReg, 0))
         [REC_BLOCK_BEGIN]"

definition handler_safe :: "shape \<Rightarrow> nat \<Rightarrow> handler \<Rightarrow> bool" where
  "handler_safe sh n h \<longleftrightarrow>
     (\<forall>g rec dc as rest. wf_globals g \<longrightarrow> length as = n \<longrightarrow> args_ok sh g rec (as @ rest) \<longrightarrow>
        opt_total (h g rec dc (as @ rest)) (\<lambda>(dc', rest'). rest' = rest))"

section \<open>Accesses inside the tables\<close>

lemma opt_total_prod [total_rules]:
  "(\<And>a b. x = (a, b) \<Longrightarrow> opt_total (f a b) Q) \<Longrightarrow> opt_total (case x of (a, b) \<Rightarrow> f a b) Q"
  by (cases x) simp

lemma reg_get_total: "i < 24 \<Longrightarrow> k < 8 \<Longrightarrow> opt_total (reg_get dc i k) (\<lambda>_. True)"
  by (simp add: reg_get_def)

lemma reg_put_total: "i < 24 \<Longrightarrow> k < 8 \<Longrightarrow> opt_total (reg_put dc i k v) (\<lambda>_. True)"
  by (simp add: reg_put_def)

lemma reg_load_total: "i < 24 \<Longrightarrow> off + n \<le> 8 \<Longrightarrow> opt_total (reg_load dc i off n) (\<lambda>bs. length bs = n)"
  by (simp add: reg_load_def tbl_load_def)

lemma reg_store_total: "i < 24 \<Longrightarrow> off + length bs \<le> 8 \<Longrightarrow> opt_total (reg_store dc i off bs) (\<lambda>_. True)"
  by (simp add: reg_store_def tbl_store_def)

lemma xmm_load_total: "i < 16 \<Longrightarrow> off + n \<le> 16 \<Longrightarrow> opt_total (xmm_load dc i off n) (\<lambda>bs. length bs = n)"
  by (simp add: xmm_load_def tbl_load_def)

lemma xmm_store_total:
  "i < 16 \<Longrightarrow> off + length bs \<le> 16 \<Longrightarrow> opt_total (xmm_store dc i off bs) (\<lambda>_. True)"
  by (simp add: xmm_store_def tbl_store_def)

text \<open>\<open>near_ram g a n\<close>: the n bytes from \<open>a\<close> on end in the page behind RAM.\<close>

definition near_ram :: "dift_globals \<Rightarrow> u64 \<Rightarrow> nat \<Rightarrow> bool" where
  "near_ram g a n \<longleftrightarrow> unat a + n \<le> unat (phys_ram_size g) + 4096"

lemma near_ram_tbl: "wf_globals g \<Longrightarrow> near_ram g a n \<Longrightarrow> unat a + n \<le> mem_tbl_size g"
  by (simp add: near_ram_def wf_globals_def)

lemma unat_null_sink: "wf_globals g \<Longrightarrow> unat (null_sink g) = Suc (unat (phys_ram_size g))"
  by (auto simp: wf_globals_def intro!: unat_Suc)

lemma near_ram_low: "a < phys_ram_size g \<Longrightarrow> n < 4096 \<Longrightarrow> near_ram g a n"
  by (simp add: near_ram_def word_less_nat_alt)

lemma near_ram_reserved:
  assumes "wf_globals g" and "n < 4096"
  shows "near_ram g (clean_source g) n" and "near_ram g (null_sink g) n"
  using assms unat_null_sink [OF assms(1)] by (auto simp: near_ram_def wf_globals_def)

lemma near_ram_plus: "near_ram g a (unat k + n) \<Longrightarrow> near_ram g (a + k) n"
  using unat_plus_if' [of a k] by (auto simp: near_ram_def split: if_splits)

lemma mem_get_total: "wf_globals g \<Longrightarrow> near_ram g a 1 \<Longrightarrow> opt_total (mem_get g dc a) (\<lambda>_. True)"
  using near_ram_tbl [of g a 1] by (simp add: mem_get_def)

lemma mem_put_total: "wf_globals g \<Longrightarrow> near_ram g a 1 \<Longrightarrow> opt_total (mem_put g dc a v) (\<lambda>_. True)"
  using near_ram_tbl [of g a 1] by (simp add: mem_put_def)

lemma mem_load_total:
  "wf_globals g \<Longrightarrow> near_ram g a n \<Longrightarrow> opt_total (mem_load g dc a n) (\<lambda>bs. length bs = n)"
  using near_ram_tbl [of g a n] by (simp add: mem_load_def tbl_load_def)

lemma mem_store_total:
  "wf_globals g \<Longrightarrow> near_ram g a (length bs) \<Longrightarrow> opt_total (mem_store g dc a bs) (\<lambda>_. True)"
  using near_ram_tbl [of g a "length bs"] by (simp add: mem_store_def tbl_store_def)

lemma get_mem_dirty_total:
  "wf_globals g \<Longrightarrow> near_ram g a 1 \<Longrightarrow> opt_total (get_mem_dirty g dc a) (\<lambda>_. True)"
  by (simp add: get_mem_dirty_def mem_get_total)

text \<open>A range the checks accept lies in the table, if a redirected one has room.\<close>

lemma valid_range_tbl:
  assumes "wf_globals g" and "is_valid_mem_range g a len" and "a < phys_ram_size g \<or> near_ram g a (unat len)"
  shows "unat a + unat len \<le> mem_tbl_size g"
proof (cases "near_ram g a (unat len)")
  case True
  then show ?thesis using near_ram_tbl [OF assms(1)] by simp
next
  case False
  then have lt: "a < phys_ram_size g" using assms(3) by simp
  then have "a \<noteq> clean_source g" and "a \<noteq> null_sink g"
    using assms(1) unat_null_sink [OF assms(1)]
    by (auto simp: wf_globals_def word_less_nat_alt)
  then show ?thesis
    using assms(1,2) is_valid_mem_range_iff [of a g len] by (simp add: wf_globals_def)
qed

lemma set_mem_dirty_total:
  assumes "wf_globals g" and "a < phys_ram_size g \<or> near_ram g a (unat len)"
  shows "opt_total (set_mem_dirty g dc a len tag app) (\<lambda>_. True)"
  using valid_range_tbl [OF assms(1) _ assms(2)] assms(1) set_mem_dirty_loop_eq [of a "unat len" g]
  by (auto simp: set_mem_dirty_def wf_globals_def)

lemma and_mem_dirty_total:
  assumes "wf_globals g" and "a < phys_ram_size g \<or> near_ram g a (unat len)"
  shows "opt_total (and_mem_dirty g dc a len tag) (\<lambda>_. True)"
  using valid_range_tbl [OF assms(1) _ assms(2)] assms(1) and_mem_dirty_loop_eq [of a "unat len" g]
  by (auto simp: and_mem_dirty_def wf_globals_def)

lemma set_hd_dirty_or_total: "opt_total (set_hd_dirty_or dc h len tag) (\<lambda>_. True)"
  using set_hd_dirty_or_loop_eq [of h "unat len" tag dc]
  by (auto simp: set_hd_dirty_or_def is_valid_disk_range_iff)

lemma set_hd_dirty_and_total: "opt_total (set_hd_dirty_and dc h len tag) (\<lambda>_. True)"
  using set_hd_dirty_and_loop_tag [of h "unat len" tag dc]
  by (auto simp: set_hd_dirty_and_def is_valid_disk_range_iff)

lemma copy_contamination_hd_mem_total:
  assumes "wf_globals g" and "a < phys_ram_size g \<or> near_ram g a (unat len)"
  shows "opt_total (copy_contamination_hd_mem g dc h a len) (\<lambda>_. True)"
  using valid_range_tbl [OF assms(1) _ assms(2)] assms(1) copy_hd_mem_loop_copies [of g a len h dc]
  by (auto simp: copy_contamination_hd_mem_def is_valid_disk_range_iff wf_globals_def)

lemma copy_contamination_mem_hd_total:
  assumes "wf_globals g" and "a < phys_ram_size g \<or> near_ram g a (unat len)"
  shows "opt_total (copy_contamination_mem_hd g dc a h len) (\<lambda>_. True)"
  using valid_range_tbl [OF assms(1) _ assms(2)] assms(1) copy_mem_hd_loop_copies [of g a len h dc]
  by (auto simp: copy_contamination_mem_hd_def is_valid_disk_range_iff wf_globals_def)

lemma reg_bytes_total: "i < 24 \<Longrightarrow> \<forall>k \<in> set ks. k < 8 \<Longrightarrow> opt_total (reg_bytes dc i ks) (\<lambda>_. True)"
proof (induction ks)
  case (Cons k ks)
  then show ?case
    by (auto intro!: opt_total_bind [OF reg_get_total] opt_total_bind [OF Cons.IH])
qed simp

lemma mem_bytes_total:
  "wf_globals g \<Longrightarrow> \<forall>k \<in> set ks. near_ram g (a + of_nat k) 1 \<Longrightarrow> opt_total (mem_bytes g dc a ks) (\<lambda>_. True)"
proof (induction ks)
  case (Cons k ks)
  then show ?case
    by (auto intro!: opt_total_bind [OF get_mem_dirty_total] opt_total_bind [OF Cons.IH])
qed simp

lemma reg_set_each_total:
  "i < 24 \<Longrightarrow> \<forall>k \<in> set ks. k < 8 \<Longrightarrow> opt_total (reg_set_each dc i ks v) (\<lambda>_. True)"
  by (induction ks arbitrary: dc) (auto intro!: opt_total_bind [OF reg_put_total])

lemma reg_or_each_total:
  "i < 24 \<Longrightarrow> \<forall>k \<in> set ks. k < 8 \<Longrightarrow> opt_total (reg_or_each dc i ks v) (\<lambda>_. True)"
  by (induction ks arbitrary: dc)
    (auto intro!: opt_total_bind [OF reg_get_total] opt_total_bind [OF reg_put_total])

lemma indirect_taint_total:
  "base_ok j \<Longrightarrow> \<forall>k \<in> set ks. k < 8 \<Longrightarrow> opt_total (indirect_taint dc j ks) (\<lambda>_. True)"
  by (auto simp: indirect_taint_def base_ok_def intro!: opt_total_bind [OF reg_bytes_total])

lemmas bind_totals =
  reg_get_total [THEN opt_total_bind] reg_put_total [THEN opt_total_bind]
  mem_get_total [THEN opt_total_bind] mem_put_total [THEN opt_total_bind]
  reg_load_total [THEN opt_total_bind] reg_store_total [THEN opt_total_bind]
  xmm_load_total [THEN opt_total_bind] xmm_store_total [THEN opt_total_bind]
  mem_load_total [THEN opt_total_bind] mem_store_total [THEN opt_total_bind]
  get_mem_dirty_total [THEN opt_total_bind] set_mem_dirty_total [THEN opt_total_bind]
  and_mem_dirty_total [THEN opt_total_bind] set_hd_dirty_or_total [THEN opt_total_bind]
  set_hd_dirty_and_total [THEN opt_total_bind] copy_contamination_hd_mem_total [THEN opt_total_bind]
  copy_contamination_mem_hd_total [THEN opt_total_bind] reg_bytes_total [THEN opt_total_bind]
  mem_bytes_total [THEN opt_total_bind] reg_set_each_total [THEN opt_total_bind]
  reg_or_each_total [THEN opt_total_bind] indirect_taint_total [THEN opt_total_bind]

section \<open>The handlers\<close>

lemma length_2_3:
  "length xs = 2 \<longleftrightarrow> (\<exists>a b. xs = [a, b])"
  "length xs = 3 \<longleftrightarrow> (\<exists>a b c. xs = [a, b, c])"
  by (auto simp: eval_nat_numeral length_Suc_conv)

lemma inside_safe:
  "handler_safe Inside 0 rt_inside_reg_assign"
  "handler_safe Inside 0 rt_inside_reg_append"
  by (auto simp: handler_safe_def Let_def rt_defs deq_addr_def length_Suc_conv length_2_3
      intro!: bind_totals opt_total_prod near_ram_low near_ram_reserved near_ram_plus)

lemma reg_reg_safe:
  "handler_safe RegRegByte 0 rt_reg_reg_oo_assign_mo8"
  "handler_safe (RegReg 24 24) 0 rt_reg_reg_oo_assign_mo16"
  "handler_safe (RegReg 24 24) 0 rt_reg_reg_oo_assign_mo32"
  "handler_safe (RegReg 24 24) 0 rt_reg_reg_oo_assign_mo64"
  "handler_safe RegRegByte 0 rt_reg_reg_oo_append_mo8"
  "handler_safe (RegReg 24 24) 0 rt_reg_reg_oo_append_mo16"
  "handler_safe (RegReg 24 24) 0 rt_reg_reg_oo_append_mo32"
  "handler_safe (RegReg 24 24) 0 rt_reg_reg_oo_append_mo64"
  "handler_safe (RegReg 24 24) 0 rt_reg_reg_mix_append_mo16"
  "handler_safe (RegReg 24 24) 0 rt_reg_reg_mix_append_mo32"
  "handler_safe (RegReg 24 24) 0 rt_reg_reg_mix_append_mo64"
  by (auto simp: handler_safe_def Let_def rt_defs deq_addr_def length_Suc_conv length_2_3
      intro!: bind_totals opt_total_prod near_ram_low near_ram_reserved near_ram_plus)

lemma reg_mem_safe:
  "handler_safe IndRegByte 1 rt_reg_mem_oo_assign_mo8"
  "handler_safe IndReg 1 rt_reg_mem_oo_assign_mo16"
  "handler_safe (OneReg 24) 1 rt_reg_mem_oo_assign_mo32"
  "handler_safe (OneReg 24) 1 rt_reg_mem_oo_assign_mo64"
  "handler_safe OneRegByte 1 rt_reg_mem_oo_append_mo8"
  "handler_safe (OneReg 24) 1 rt_reg_mem_oo_append_mo16"
  "handler_safe (OneReg 24) 1 rt_reg_mem_oo_append_mo32"
  "handler_safe (OneReg 24) 1 rt_reg_mem_oo_append_mo64"
  "handler_safe (OneReg 24) 1 rt_reg_mem_mix_assign_mo16"
  "handler_safe (OneReg 24) 1 rt_reg_mem_mix_assign_mo32"
  "handler_safe (OneReg 24) 1 rt_reg_mem_mix_assign_mo64"
  "handler_safe (OneReg 24) 1 rt_reg_mem_mix_append_mo16"
  "handler_safe (OneReg 24) 1 rt_reg_mem_mix_append_mo32"
  "handler_safe (OneReg 24) 1 rt_reg_mem_mix_append_mo64"
  by (auto simp: handler_safe_def Let_def rt_defs deq_addr_def length_Suc_conv length_2_3
      intro!: bind_totals opt_total_prod near_ram_low near_ram_reserved near_ram_plus)

lemma mem_reg_safe:
  "handler_safe OneRegByte 1 rt_mem_reg_oo_assign_mo8"
  "handler_safe (OneReg 24) 1 rt_mem_reg_oo_assign_mo16"
  "handler_safe (OneReg 24) 1 rt_mem_reg_oo_assign_mo32"
  "handler_safe (OneReg 24) 1 rt_mem_reg_oo_assign_mo64"
  "handler_safe OneRegByte 1 rt_mem_reg_oo_append_mo8"
  "handler_safe (OneReg 24) 1 rt_mem_reg_oo_append_mo16"
  "handler_safe (OneReg 24) 1 rt_mem_reg_oo_append_mo32"
  "handler_safe (OneReg 24) 1 rt_mem_reg_oo_append_mo64"
  "handler_safe (OneReg 24) 1 rt_mem_reg_mix_assign_mo16"
  "handler_safe (OneReg 24) 1 rt_mem_reg_mix_assign_mo32"
  "handler_safe (OneReg 24) 1 rt_mem_reg_mix_assign_mo64"
  "handler_safe (OneReg 24) 1 rt_mem_reg_mix_append_mo16"
  "handler_safe (OneReg 24) 1 rt_mem_reg_mix_append_mo32"
  "handler_safe (OneReg 24) 1 rt_mem_reg_mix_append_mo64"
  by (auto simp: handler_safe_def Let_def rt_defs deq_addr_def length_Suc_conv length_2_3
      intro!: bind_totals opt_total_prod near_ram_low near_ram_reserved near_ram_plus)

lemma mem_mem_safe:
  "handler_safe NoReg 2 rt_mem_mem_oo_assign_mo8"
  "handler_safe NoReg 2 rt_mem_mem_oo_assign_mo16"
  "handler_safe NoReg 2 rt_mem_mem_oo_assign_mo32"
  "handler_safe NoReg 2 rt_mem_mem_oo_assign_mo64"
  by (auto simp: handler_safe_def Let_def rt_defs deq_addr_def length_Suc_conv length_2_3
      intro!: bind_totals opt_total_prod near_ram_low near_ram_reserved near_ram_plus)

lemma clear_safe:
  "handler_safe OneRegByte 0 rt_reg_im_clear_mo8"
  "handler_safe (OneReg 24) 0 rt_reg_im_clear_mo16"
  "handler_safe (OneReg 24) 0 rt_reg_im_clear_mo32"
  "handler_safe (OneReg 24) 0 rt_reg_im_clear_mo64"
  "handler_safe NoReg 1 rt_mem_im_clear_mo8"
  "handler_safe NoReg 1 rt_mem_im_clear_mo16"
  "handler_safe NoReg 1 rt_mem_im_clear_mo32"
  "handler_safe NoReg 1 rt_mem_im_clear_mo64"
  by (auto simp: handler_safe_def Let_def rt_defs deq_addr_def length_Suc_conv length_2_3
      intro!: bind_totals opt_total_prod near_ram_low near_ram_reserved near_ram_plus)

lemma xmm_safe:
  "handler_safe (RegReg 16 16) 0 rt_xmm_xmm_oo_assign_mo32"
  "handler_safe (RegReg 16 16) 0 rt_xmm_xmm_oo_assign_mo64"
  "handler_safe (RegReg 16 16) 0 rt_xmm_xmm_oo_assign_mo64lh"
  "handler_safe (RegReg 16 16) 0 rt_xmm_xmm_oo_assign_mo64hl"
  "handler_safe (RegReg 16 16) 0 rt_xmm_xmm_oo_assign_mo128"
  "handler_safe (RegReg 16 24) 0 rt_xmm_reg_oo_assign_mo32"
  "handler_safe (RegReg 16 24) 0 rt_xmm_reg_oo_assign_mo64"
  "handler_safe (RegReg 24 16) 0 rt_reg_xmm_oo_assign_mo32"
  "handler_safe (RegReg 24 16) 0 rt_reg_xmm_oo_assign_mo64"
  "handler_safe (OneReg 16) 1 rt_xmm_mem_oo_assign_mo32"
  "handler_safe (OneReg 16) 1 rt_xmm_mem_oo_assign_mo64"
  "handler_safe (OneReg 16) 1 rt_xmm_mem_oo_assign_mo64h"
  "handler_safe (OneReg 16) 1 rt_xmm_mem_oo_assign_mo128"
  "handler_safe (OneReg 16) 1 rt_mem_xmm_oo_assign_mo32"
  "handler_safe (OneReg 16) 1 rt_mem_xmm_oo_assign_mo64"
  "handler_safe (OneReg 16) 1 rt_mem_xmm_oo_assign_mo64h"
  "handler_safe (OneReg 16) 1 rt_mem_xmm_oo_assign_mo128"
  "handler_safe (RegReg 16 16) 0 rt_xmm_xmm_oo_assign_dup_mo32l"
  "handler_safe (RegReg 16 16) 0 rt_xmm_xmm_oo_assign_dup_mo32h"
  "handler_safe (RegReg 16 16) 0 rt_xmm_xmm_oo_assign_dup_mo64"
  "handler_safe (OneReg 16) 1 rt_xmm_mem_oo_assign_dup_mo32l"
  "handler_safe (OneReg 16) 1 rt_xmm_mem_oo_assign_dup_mo32h"
  "handler_safe (OneReg 16) 1 rt_xmm_mem_oo_assign_dup_mo64"
  "handler_safe (OneReg 16) 0 rt_xmm_im_clear"
  by (auto simp: handler_safe_def Let_def rt_defs deq_addr_def length_Suc_conv length_2_3
      intro!: bind_totals opt_total_prod near_ram_low near_ram_reserved near_ram_plus)

lemma direct_safe:
  "handler_safe DiskMem 3 rt_mem_hd"
  "handler_safe DiskMem 3 rt_hd_mem"
  "handler_safe MemTag 1 rt_rec_contaminate_mem_or"
  "handler_safe MemTag 1 rt_rec_contaminate_mem_and"
  "handler_safe NoReg 2 rt_rec_contaminate_hd_or"
  "handler_safe NoReg 2 rt_rec_contaminate_hd_and"
  "handler_safe MemLen 2 rt_rec_clear_mem"
  "handler_safe NoReg 0 rt_rec_block_begin"
  by (auto simp: handler_safe_def Let_def rt_defs deq_addr_def length_Suc_conv length_2_3 sink_room_def
      intro!: bind_totals opt_total_prod near_ram_low near_ram_reserved near_ram_plus)

lemmas handlers_safe = inside_safe reg_reg_safe reg_mem_safe mem_reg_safe mem_mem_safe clear_safe xmm_safe direct_safe

section \<open>The dispatcher\<close>

lemma dispatch_tbl_distinct: "distinct (map fst dispatch_tbl)"
proof -
  have "distinct (map unat (map fst dispatch_tbl))"
    by (simp add: dispatch_tbl_def case_nb_defs)
  then show ?thesis by (rule distinct_map [THEN iffD1, THEN conjunct1])
qed

lemma shape_tbl_distinct: "distinct (map fst shape_tbl)"
proof -
  have "distinct (map unat (map fst shape_tbl))"
    by (simp add: shape_tbl_def case_nb_defs)
  then show ?thesis by (rule distinct_map [THEN iffD1, THEN conjunct1])
qed

lemma dispatch_eq: "(case_nb rec, h) \<in> set dispatch_tbl \<Longrightarrow> dispatch g rec dc as = h g rec dc as"
  by (simp add: dispatch_def map_of_is_SomeI [OF dispatch_tbl_distinct])

lemma dispatch_tbl_shapes:
  "list_all (\<lambda>(c, h). \<exists>sh n. handler_safe sh n h \<and> (c, sh, n) \<in> set shape_tbl) dispatch_tbl"
  unfolding dispatch_tbl_def list.pred_inject prod.case
  by (intro conjI list.pred_inject(1); (rule exI)+, rule conjI, rule handlers_safe, simp add: shape_tbl_def)

lemma dispatch_safe:
  assumes "wf_globals g" and "map_of shape_tbl (case_nb rec) = Some (sh, n)" and "n \<le> length as"
    and "args_ok sh g rec as"
  shows "\<exists>dc'. dispatch g rec dc as = Some (dc', drop n as)"
proof -
  have "case_nb rec \<in> fst ` set shape_tbl"
    using map_of_SomeD [OF assms(2)] by force
  also have "fst ` set shape_tbl = fst ` set dispatch_tbl"
    by (simp add: shape_tbl_def dispatch_tbl_def insert_commute)
  finally obtain h where h: "(case_nb rec, h) \<in> set dispatch_tbl" by auto
  then obtain sh' n' where safe: "handler_safe sh' n' h" and "(case_nb rec, sh', n') \<in> set shape_tbl"
    using dispatch_tbl_shapes by (fastforce simp: list_all_iff)
  then have "map_of shape_tbl (case_nb rec) = Some (sh', n')"
    by (intro map_of_is_SomeI [OF shape_tbl_distinct])
  with safe assms(2) have safe: "handler_safe sh n h" by simp
  have "opt_total (h g rec dc (take n as @ drop n as)) (\<lambda>(dc', rest'). rest' = drop n as)"
    using safe assms(1,3,4) unfolding handler_safe_def by (metis append_take_drop_id length_take min.absorb2)
  then show ?thesis
    using dispatch_eq [OF h, of g dc as] by (auto simp: opt_total_def)
qed

text \<open>C8: No record handler leaves its tables. Take a record with a known case number, register and byte operands that
  exist, and enough entries in the address stream; if it names a range of memory by address and length (a transfer
  between disk and memory, or the marking or clearing of a range), let the address be in RAM or the length be less than
  4096. Then the record is handled, whatever its addresses are, in RAM or not, and takes exactly the number of addresses
  its case has, so that the record behind it finds its own. (The range condition is needed: a range outside RAM is
  redirected to the null sink, behind which the table has 4095 entries; a longer transfer overruns the table.)
\<close>

theorem policy_safe:
  assumes "wf_globals g" and "map_of shape_tbl (case_nb rec) = Some (sh, n)" and "n \<le> length as"
    and "operands_in sh rec"
    and "\<forall>len. range_length sh rec as = Some len \<longrightarrow> as ! 0 < phys_ram_size g \<or> unat len < 4096"
  shows "\<exists>dc'. dispatch g rec dc as = Some (dc', drop n as)"
  by (rule dispatch_safe [OF assms(1-3) args_okI [OF assms(4)]]) (use assms(5) in blast)

theorem policy_safe_witness:
  "(\<exists>dc'. dispatch demo_globals (DIFT_REC_EMPTY\<lparr>case_nb := MEM_XMM_OO_ASSIGN_MO128, padding1 := 15\<rparr>)
     demo_context [0xffff, 7] = Some (dc', [7])) \<and>
   (\<exists>dc'. dispatch demo_globals (DIFT_REC_EMPTY\<lparr>case_nb := HD_MEM\<rparr>) demo_context [0x20, 0x200, 512, 7] = Some (dc', [7]))"
  using policy_safe [OF wf_demo_globals, of "DIFT_REC_EMPTY\<lparr>case_nb := MEM_XMM_OO_ASSIGN_MO128, padding1 := 15\<rparr>"
      "OneReg 16" 1 "[0xffff, 7]" demo_context]
    policy_safe [OF wf_demo_globals, of "DIFT_REC_EMPTY\<lparr>case_nb := HD_MEM\<rparr>" DiskMem 3 "[0x20, 0x200, 512, 7]" demo_context]
  by (simp add: shape_tbl_def case_nb_defs record_view_defs demo_globals_def)

end
