(* ===== verification/DiftRefine.thy ===== *)
theory DiftRefine
  imports DiftSafe
begin

text \<open>
  What the policy is meant to do, as one specification, and that the handlers implement it.
  A case of \<open>case_spec\<close> is an operation (destination type, source type, operand size,
  effect). \<open>dst_locs\<close> and \<open>src_locs\<close> read the bytes it works on off the record and the
  addresses; \<open>effect_tags\<close> computes the new tags of the destination from the old tags of
  both sides, all read before any is written; \<open>write_tags\<close> puts them in place. The handler the
  dispatcher picks for the case number does exactly that, on accesses inside RAM.
\<close>

section \<open>Byte locations\<close>

datatype loc = LReg nat nat | LXmm nat nat | LMem nat

fun tag_of :: "dift_context \<Rightarrow> loc \<Rightarrow> u8" where
  "tag_of dc (LReg i k) = reg_dirty_tbl dc i k"
| "tag_of dc (LXmm i k) = xmm_dirty_tbl dc i k"
| "tag_of dc (LMem a) = mem_dirty_tbl dc a"

fun set_loc :: "loc \<Rightarrow> u8 \<Rightarrow> dift_context \<Rightarrow> dift_context" where
  "set_loc (LReg i k) v dc =
     dc\<lparr>reg_dirty_tbl := (reg_dirty_tbl dc)(i := (reg_dirty_tbl dc i)(k := v))\<rparr>"
| "set_loc (LXmm i k) v dc =
     dc\<lparr>xmm_dirty_tbl := (xmm_dirty_tbl dc)(i := (xmm_dirty_tbl dc i)(k := v))\<rparr>"
| "set_loc (LMem a) v dc = dc\<lparr>mem_dirty_tbl := (mem_dirty_tbl dc)(a := v)\<rparr>"

fun loc_ok :: "dift_globals \<Rightarrow> loc \<Rightarrow> bool" where
  "loc_ok g (LReg i k) \<longleftrightarrow> i < 24 \<and> k < 8"
| "loc_ok g (LXmm i k) \<longleftrightarrow> i < 16 \<and> k < 16"
| "loc_ok g (LMem a) \<longleftrightarrow> a < unat (phys_ram_size g)"

primrec write_tags :: "(loc \<times> u8) list \<Rightarrow> dift_context \<Rightarrow> dift_context" where
  "write_tags [] dc = dc"
| "write_tags (w # ws) dc = write_tags ws (set_loc (fst w) (snd w) dc)"

primrec locs_from :: "(nat \<Rightarrow> loc) \<Rightarrow> nat \<Rightarrow> nat \<Rightarrow> loc list" where
  "locs_from f k 0 = []"
| "locs_from f k (Suc n) = f k # locs_from f (Suc k) n"

section \<open>Operations\<close>

definition has :: "u8 \<Rightarrow> u8 \<Rightarrow> bool" where
  "has e flag \<longleftrightarrow> e AND flag \<noteq> 0"

text \<open>The bytes of an SSE register and of the other operand that a case moves.\<close>

definition xmm_width :: "u8 \<Rightarrow> nat" where
  "xmm_width ot = (if ot = XMM_MO_32 then 4 else if ot = XMM_MO_64 then 8 else 16)"

definition xmm_dst_from :: "u8 \<Rightarrow> nat" where
  "xmm_dst_from e = (if has e XMM_EFFECT_L2H \<or> has e XMM_EFFECT_HIGH then 8 else 0)"

definition xmm_src_from :: "u8 \<Rightarrow> nat" where
  "xmm_src_from e = (if has e XMM_EFFECT_H2L \<or> has e XMM_EFFECT_HIGH then 8 else 0)"

definition dup_from :: "u8 \<Rightarrow> u8 \<Rightarrow> nat list" where
  "dup_from ot e =
     (if ot = XMM_MO_64 then [0, 0] else if has e XMM_EFFECT_HIGH then [4, 4, 12, 12] else [0, 0, 8, 8])"

definition dup_locs :: "(nat \<Rightarrow> loc) \<Rightarrow> u8 \<Rightarrow> u8 \<Rightarrow> loc list" where
  "dup_locs f ot e = concat (map (\<lambda>k. locs_from f k (xmm_width ot)) (dup_from ot e))"

type_synonym operation = "u8 \<times> u8 \<times> u8 \<times> u8"

fun dst_locs :: "operation \<Rightarrow> dift_record \<Rightarrow> u64 list \<Rightarrow> loc list" where
  "dst_locs (dst, src, ot, e) rec as =
     (if dst = OPT_XMM then
        (let r = (if src = OPT_XMM \<or> src = OPT_REG then r2r_dreg rec else r2m_m2r_reg rec) in
         if has e XMM_EFFECT_DUP \<or> has e XMM_EFFECT_CLEAR then locs_from (LXmm r) 0 16
         else locs_from (LXmm r) (xmm_dst_from e) (xmm_width ot))
      else if dst = OPT_MEM then
        locs_from LMem (unat (as ! 0)) (if src = OPT_XMM then xmm_width ot else 2 ^ unat ot)
      else if src = OPT_XMM then locs_from (LReg (r2r_dreg rec)) 0 (xmm_width ot)
      else if has e EFFECT_INSIDE_REG then [LReg (inside_r_reg rec) (inside_r_d_byte rec)]
      else if ot = MO_8 then
        (if src = OPT_REG then [LReg (r2r_byte_dreg rec) (r2r_byte_dreg_byte rec)]
         else [LReg (r2m_m2r_byte_reg rec) (r2m_m2r_byte_hl rec)])
      else locs_from (LReg (if src = OPT_REG then r2r_dreg rec else r2m_m2r_reg rec)) 0 (2 ^ unat ot))"

fun src_locs :: "operation \<Rightarrow> dift_record \<Rightarrow> u64 list \<Rightarrow> loc list" where
  "src_locs (dst, src, ot, e) rec as =
     (if src = OPT_IM then []
      else if src = OPT_XMM then
        (let r = (if dst = OPT_MEM then r2m_m2r_reg rec else r2r_sreg rec) in
         if has e XMM_EFFECT_DUP then dup_locs (LXmm r) ot e
         else locs_from (LXmm r) (xmm_src_from e) (xmm_width ot))
      else if src = OPT_MEM then
        (let a = unat (if dst = OPT_MEM then as ! 1 else as ! 0) in
         if dst = OPT_XMM then
           (if has e XMM_EFFECT_DUP then dup_locs (\<lambda>k. LMem (a + k)) ot e
            else locs_from LMem a (xmm_width ot))
         else locs_from LMem a (2 ^ unat ot))
      else if dst = OPT_XMM then locs_from (LReg (r2r_sreg rec)) 0 (xmm_width ot)
      else if has e EFFECT_INSIDE_REG then [LReg (inside_r_reg rec) (inside_r_s_byte rec)]
      else if ot = MO_8 then
        (if dst = OPT_REG then [LReg (r2r_byte_sreg rec) (r2r_byte_sreg_byte rec)]
         else [LReg (r2m_m2r_byte_reg rec) (r2m_m2r_byte_hl rec)])
      else locs_from (LReg (if dst = OPT_REG then r2r_sreg rec else r2m_m2r_reg rec)) 0 (2 ^ unat ot))"

text \<open>
  The tag of the address itself: a byte or word load also takes the tags of its base and
  index registers. Wider loads do not.
\<close>

definition reg_tag :: "dift_context \<Rightarrow> nat \<Rightarrow> nat \<Rightarrow> u8" where
  "reg_tag dc j n = (if j = R_NONE then 0 else or_all (map (tag_of dc) (locs_from (LReg j) 0 n)))"

fun indirect_tag :: "operation \<Rightarrow> dift_record \<Rightarrow> dift_context \<Rightarrow> u8" where
  "indirect_tag (dst, src, ot, e) rec dc =
     (if (dst, src, e) = (OPT_REG, OPT_MEM, EFFECT_ONE_TO_ONE OR EFFECT_ASSIGN) then
        (if ot = MO_8 then reg_tag dc (r2m_m2r_byte_reg_base rec) 1 OR reg_tag dc (r2m_m2r_byte_reg_index rec) 1
         else if ot = MO_16 then reg_tag dc (r2m_m2r_reg_base rec) 2 OR reg_tag dc (r2m_m2r_reg_index rec) 2
         else 0)
      else 0)"

fun bases_ok :: "operation \<Rightarrow> dift_record \<Rightarrow> bool" where
  "bases_ok (dst, src, ot, e) rec =
     (if (dst, src, e) = (OPT_REG, OPT_MEM, EFFECT_ONE_TO_ONE OR EFFECT_ASSIGN) then
        (if ot = MO_8 then base_ok (r2m_m2r_byte_reg_base rec) \<and> base_ok (r2m_m2r_byte_reg_index rec)
         else if ot = MO_16 then base_ok (r2m_m2r_reg_base rec) \<and> base_ok (r2m_m2r_reg_index rec)
         else True)
      else True)"

fun effect_tags :: "operation \<Rightarrow> u8 list \<Rightarrow> u8 list \<Rightarrow> u8 list" where
  "effect_tags (dst, src, ot, e) ds ss =
     (if src = OPT_IM then map (\<lambda>_. 0) ds
      else if dst = OPT_XMM \<or> src = OPT_XMM then ss
      else if has e EFFECT_MIX then
        (let t = or_all (ss @ (if has e EFFECT_APPEND then ds else [])) in map (\<lambda>_. t) ds)
      else if has e EFFECT_APPEND then or_bytes ds ss else ss)"

fun addresses :: "operation \<Rightarrow> nat" where
  "addresses (dst, src, ot, e) = (if dst = OPT_MEM then 1 else 0) + (if src = OPT_MEM then 1 else 0)"

definition apply_op :: "operation \<Rightarrow> dift_record \<Rightarrow> u64 list \<Rightarrow> dift_context \<Rightarrow> dift_context" where
  "apply_op op rec as dc =
     (let ds = dst_locs op rec as;
          ss = map (\<lambda>l. tag_of dc l OR indirect_tag op rec dc) (src_locs op rec as)
      in write_tags (zip ds (effect_tags op (map (tag_of dc) ds) ss)) dc)"

definition op_ok :: "operation \<Rightarrow> dift_globals \<Rightarrow> dift_record \<Rightarrow> u64 list \<Rightarrow> bool" where
  "op_ok op g rec as \<longleftrightarrow>
     addresses op \<le> length as \<and> bases_ok op rec \<and>
     list_all (loc_ok g) (dst_locs op rec as) \<and> list_all (loc_ok g) (src_locs op rec as)"

definition implements :: "handler \<Rightarrow> operation \<Rightarrow> bool" where
  "implements h op \<longleftrightarrow>
     (\<forall>g rec dc as rest. wf_globals g \<longrightarrow> ctx_within 0x7f dc \<longrightarrow> length as = addresses op \<longrightarrow>
        op_ok op g rec as \<longrightarrow> h g rec dc (as @ rest) = Some (apply_op op rec as dc, rest))"

section \<open>Evaluation of accesses\<close>

primrec load_list :: "(nat \<Rightarrow> u8) \<Rightarrow> nat \<Rightarrow> nat \<Rightarrow> u8 list" where
  "load_list t off 0 = []"
| "load_list t off (Suc n) = t off # load_list t (Suc off) n"

primrec store_list :: "(nat \<Rightarrow> u8) \<Rightarrow> nat \<Rightarrow> u8 list \<Rightarrow> nat \<Rightarrow> u8" where
  "store_list t off [] = t"
| "store_list t off (b # bs) = store_list (t(off := b)) (Suc off) bs"

lemma load_list_eq: "load_list t off n = map t [off..<off + n]"
proof (induction n arbitrary: off)
  case (Suc n)
  have "[off..<off + Suc n] = off # [Suc off..<Suc off + n]"
    by (simp add: upt_conv_Cons del: upt_Suc)
  then show ?case by (simp add: Suc.IH del: upt_Suc)
qed simp

lemma store_list_apply:
  "store_list t off bs a = (if off \<le> a \<and> a < off + length bs then bs ! (a - off) else t a)"
proof (induction bs arbitrary: t off)
  case (Cons b bs)
  show ?case
    by (auto simp: Cons.IH nth_Cons' Suc_diff_Suc)
qed auto

lemma tbl_load_eval: "tbl_load sz t off n = (if off + n \<le> sz then Some (load_list t off n) else None)"
  by (simp add: tbl_load_def load_list_eq)

lemma tbl_store_eval:
  "tbl_store sz t off bs = (if off + length bs \<le> sz then Some (store_list t off bs) else None)"
  by (auto simp: tbl_store_def fun_eq_iff store_list_apply)

lemma numeral_unrolls:
  "load_list t off (numeral k) = t off # load_list t (Suc off) (pred_numeral k)"
  "locs_from f off (numeral k) = f off # locs_from f (Suc off) (pred_numeral k)"
  "replicate (numeral k) x = x # replicate (pred_numeral k) x"
  by (simp_all add: numeral_eq_Suc)

lemma Suc_norm: "Suc (Suc 0) = 2" "Suc (numeral n) = numeral (n + Num.One)"
  by simp_all

lemma ram_access:
  assumes "wf_globals g"
  shows "unat a < unat (phys_ram_size g) \<Longrightarrow> a < phys_ram_size g"
    and "b < unat (phys_ram_size g) \<Longrightarrow> b < mem_tbl_size g"
    and "b \<le> unat (phys_ram_size g) \<Longrightarrow> b \<le> mem_tbl_size g"
  using assms by (simp_all add: wf_globals_def word_less_nat_alt)

lemma unat_ram_add:
  assumes "wf_globals g" and "unat (a :: u64) + unat k < unat (phys_ram_size g)"
  shows "unat (a + k) = unat a + unat k"
proof -
  have "unat (phys_ram_size g) < 2 ^ 64"
    using assms(1) by (simp add: wf_globals_def)
  with assms(2) show ?thesis by (intro unat_add_no_wrap) linarith
qed

lemma get_mem_dirty_ram:
  assumes "wf_globals g" and "unat a < unat (phys_ram_size g)"
  shows "get_mem_dirty g dc a = Some (mem_dirty_tbl dc (unat a))"
  using assms ram_access [OF assms(1)] is_valid_mem_range_inside [of a 1 g]
  by (simp add: get_mem_dirty_def mem_get_def)

lemma set_mem_dirty_ram:
  assumes "wf_globals g" and "unat a + unat n \<le> unat (phys_ram_size g)" and "within 0x7f tag"
  shows "set_mem_dirty g dc a n tag app = Some (DIFT_SUCCESS,
     range_op mem_dirty_tbl mem_set_tag (\<lambda>v. if app then v OR tag else tag) (unat n) (unat a) dc)"
  using assms range_in_table [OF assms(1,2)]
  by (simp add: set_mem_dirty_def is_valid_mem_range_inside is_valid_tag_within set_mem_dirty_loop_eq)

lemma ctx_within_tags:
  assumes "ctx_within T dc"
  shows "within T (reg_dirty_tbl dc i k)" and "within T (mem_dirty_tbl dc a)"
  using assms by (simp_all add: ctx_within_def)

lemma range_op_numeral:
  "range_op rd wr f (numeral k) a s = range_op rd wr f (pred_numeral k) (Suc a) (wr s a (f (rd s a)))"
  by (simp add: numeral_eq_Suc)

lemma add_numeral_Suc: "(a :: nat) + numeral k = Suc (a + pred_numeral k)"
  by (simp add: numeral_eq_Suc)

lemmas or_ac = or.assoc or.commute or.left_commute or.left_idem

lemmas access_evals =
  reg_get_def reg_put_def reg_load_def reg_store_def xmm_load_def xmm_store_def mem_get_def
  mem_put_def mem_load_def mem_store_def tbl_load_eval tbl_store_eval numeral_unrolls Suc_norm
  indirect_taint_def reg_tag_def or_bytes_def ram_access unat_ram_add get_mem_dirty_ram
  set_mem_dirty_ram ctx_within_tags range_op_numeral mem_set_tag_def

lemmas op_evals =
  implements_def op_ok_def apply_op_def Let_def deq_addr_def length_Suc_conv length_2_3
  xmm_width_def xmm_dst_from_def xmm_src_from_def dup_from_def dup_locs_def has_def
  base_ok_def case_nb_defs

section \<open>The handlers\<close>

lemma inside_implements:
  "implements rt_inside_reg_assign
     (OPT_REG, OPT_REG, MO_8, EFFECT_INSIDE_REG OR EFFECT_ASSIGN)"
  "implements rt_inside_reg_append
     (OPT_REG, OPT_REG, MO_8, EFFECT_INSIDE_REG OR EFFECT_APPEND)"
  by (auto simp: op_evals rt_defs access_evals)

lemma reg_reg_oo_implements:
  "implements rt_reg_reg_oo_assign_mo8
     (OPT_REG, OPT_REG, MO_8, EFFECT_ONE_TO_ONE OR EFFECT_ASSIGN)"
  "implements rt_reg_reg_oo_assign_mo16
     (OPT_REG, OPT_REG, MO_16, EFFECT_ONE_TO_ONE OR EFFECT_ASSIGN)"
  "implements rt_reg_reg_oo_assign_mo32
     (OPT_REG, OPT_REG, MO_32, EFFECT_ONE_TO_ONE OR EFFECT_ASSIGN)"
  "implements rt_reg_reg_oo_assign_mo64
     (OPT_REG, OPT_REG, MO_64, EFFECT_ONE_TO_ONE OR EFFECT_ASSIGN)"
  "implements rt_reg_reg_oo_append_mo8
     (OPT_REG, OPT_REG, MO_8, EFFECT_ONE_TO_ONE OR EFFECT_APPEND)"
  "implements rt_reg_reg_oo_append_mo16
     (OPT_REG, OPT_REG, MO_16, EFFECT_ONE_TO_ONE OR EFFECT_APPEND)"
  "implements rt_reg_reg_oo_append_mo32
     (OPT_REG, OPT_REG, MO_32, EFFECT_ONE_TO_ONE OR EFFECT_APPEND)"
  "implements rt_reg_reg_oo_append_mo64
     (OPT_REG, OPT_REG, MO_64, EFFECT_ONE_TO_ONE OR EFFECT_APPEND)"
  by (auto simp: op_evals rt_defs access_evals)

lemma reg_reg_mix_implements:
  "implements rt_reg_reg_oo_append_mo8
     (OPT_REG, OPT_REG, MO_8, EFFECT_MIX OR EFFECT_APPEND)"
  "implements rt_reg_reg_mix_append_mo16
     (OPT_REG, OPT_REG, MO_16, EFFECT_MIX OR EFFECT_APPEND)"
  "implements rt_reg_reg_mix_append_mo32
     (OPT_REG, OPT_REG, MO_32, EFFECT_MIX OR EFFECT_APPEND)"
  "implements rt_reg_reg_mix_append_mo64
     (OPT_REG, OPT_REG, MO_64, EFFECT_MIX OR EFFECT_APPEND)"
  by (auto simp: op_evals rt_defs access_evals or_ac)

lemma reg_mem_oo_implements:
  "implements rt_reg_mem_oo_assign_mo8
     (OPT_REG, OPT_MEM, MO_8, EFFECT_ONE_TO_ONE OR EFFECT_ASSIGN)"
  "implements rt_reg_mem_oo_assign_mo16
     (OPT_REG, OPT_MEM, MO_16, EFFECT_ONE_TO_ONE OR EFFECT_ASSIGN)"
  "implements rt_reg_mem_oo_assign_mo32
     (OPT_REG, OPT_MEM, MO_32, EFFECT_ONE_TO_ONE OR EFFECT_ASSIGN)"
  "implements rt_reg_mem_oo_assign_mo64
     (OPT_REG, OPT_MEM, MO_64, EFFECT_ONE_TO_ONE OR EFFECT_ASSIGN)"
  "implements rt_reg_mem_oo_append_mo8
     (OPT_REG, OPT_MEM, MO_8, EFFECT_ONE_TO_ONE OR EFFECT_APPEND)"
  "implements rt_reg_mem_oo_append_mo16
     (OPT_REG, OPT_MEM, MO_16, EFFECT_ONE_TO_ONE OR EFFECT_APPEND)"
  "implements rt_reg_mem_oo_append_mo32
     (OPT_REG, OPT_MEM, MO_32, EFFECT_ONE_TO_ONE OR EFFECT_APPEND)"
  "implements rt_reg_mem_oo_append_mo64
     (OPT_REG, OPT_MEM, MO_64, EFFECT_ONE_TO_ONE OR EFFECT_APPEND)"
  by (auto simp: op_evals rt_defs access_evals add_numeral_Suc or_ac)

lemma reg_mem_mix_implements:
  "implements rt_reg_mem_mix_assign_mo16
     (OPT_REG, OPT_MEM, MO_16, EFFECT_MIX OR EFFECT_ASSIGN)"
  "implements rt_reg_mem_mix_assign_mo32
     (OPT_REG, OPT_MEM, MO_32, EFFECT_MIX OR EFFECT_ASSIGN)"
  "implements rt_reg_mem_mix_assign_mo64
     (OPT_REG, OPT_MEM, MO_64, EFFECT_MIX OR EFFECT_ASSIGN)"
  "implements rt_reg_mem_oo_append_mo8
     (OPT_REG, OPT_MEM, MO_8, EFFECT_MIX OR EFFECT_APPEND)"
  "implements rt_reg_mem_mix_append_mo16
     (OPT_REG, OPT_MEM, MO_16, EFFECT_MIX OR EFFECT_APPEND)"
  "implements rt_reg_mem_mix_append_mo32
     (OPT_REG, OPT_MEM, MO_32, EFFECT_MIX OR EFFECT_APPEND)"
  "implements rt_reg_mem_mix_append_mo64
     (OPT_REG, OPT_MEM, MO_64, EFFECT_MIX OR EFFECT_APPEND)"
  by (auto simp: op_evals rt_defs access_evals add_numeral_Suc or_ac)

lemma mem_reg_oo_implements:
  "implements rt_mem_reg_oo_assign_mo8
     (OPT_MEM, OPT_REG, MO_8, EFFECT_ONE_TO_ONE OR EFFECT_ASSIGN)"
  "implements rt_mem_reg_oo_assign_mo16
     (OPT_MEM, OPT_REG, MO_16, EFFECT_ONE_TO_ONE OR EFFECT_ASSIGN)"
  "implements rt_mem_reg_oo_assign_mo32
     (OPT_MEM, OPT_REG, MO_32, EFFECT_ONE_TO_ONE OR EFFECT_ASSIGN)"
  "implements rt_mem_reg_oo_assign_mo64
     (OPT_MEM, OPT_REG, MO_64, EFFECT_ONE_TO_ONE OR EFFECT_ASSIGN)"
  "implements rt_mem_reg_oo_append_mo8
     (OPT_MEM, OPT_REG, MO_8, EFFECT_ONE_TO_ONE OR EFFECT_APPEND)"
  "implements rt_mem_reg_oo_append_mo16
     (OPT_MEM, OPT_REG, MO_16, EFFECT_ONE_TO_ONE OR EFFECT_APPEND)"
  "implements rt_mem_reg_oo_append_mo32
     (OPT_MEM, OPT_REG, MO_32, EFFECT_ONE_TO_ONE OR EFFECT_APPEND)"
  "implements rt_mem_reg_oo_append_mo64
     (OPT_MEM, OPT_REG, MO_64, EFFECT_ONE_TO_ONE OR EFFECT_APPEND)"
  by (auto simp: op_evals rt_defs access_evals add_numeral_Suc or_ac)

lemma mem_reg_mix_implements:
  "implements rt_mem_reg_mix_assign_mo16
     (OPT_MEM, OPT_REG, MO_16, EFFECT_MIX OR EFFECT_ASSIGN)"
  "implements rt_mem_reg_mix_assign_mo32
     (OPT_MEM, OPT_REG, MO_32, EFFECT_MIX OR EFFECT_ASSIGN)"
  "implements rt_mem_reg_mix_assign_mo64
     (OPT_MEM, OPT_REG, MO_64, EFFECT_MIX OR EFFECT_ASSIGN)"
  "implements rt_mem_reg_oo_append_mo8
     (OPT_MEM, OPT_REG, MO_8, EFFECT_MIX OR EFFECT_APPEND)"
  "implements rt_mem_reg_mix_append_mo16
     (OPT_MEM, OPT_REG, MO_16, EFFECT_MIX OR EFFECT_APPEND)"
  "implements rt_mem_reg_mix_append_mo32
     (OPT_MEM, OPT_REG, MO_32, EFFECT_MIX OR EFFECT_APPEND)"
  "implements rt_mem_reg_mix_append_mo64
     (OPT_MEM, OPT_REG, MO_64, EFFECT_MIX OR EFFECT_APPEND)"
  by (auto simp: op_evals rt_defs access_evals add_numeral_Suc or_ac)

lemma mem_mem_oo_implements:
  "implements rt_mem_mem_oo_assign_mo8
     (OPT_MEM, OPT_MEM, MO_8, EFFECT_ONE_TO_ONE OR EFFECT_ASSIGN)"
  "implements rt_mem_mem_oo_assign_mo16
     (OPT_MEM, OPT_MEM, MO_16, EFFECT_ONE_TO_ONE OR EFFECT_ASSIGN)"
  "implements rt_mem_mem_oo_assign_mo32
     (OPT_MEM, OPT_MEM, MO_32, EFFECT_ONE_TO_ONE OR EFFECT_ASSIGN)"
  "implements rt_mem_mem_oo_assign_mo64
     (OPT_MEM, OPT_MEM, MO_64, EFFECT_ONE_TO_ONE OR EFFECT_ASSIGN)"
  by (auto simp: op_evals rt_defs access_evals)

lemma clear_implements:
  "implements rt_reg_im_clear_mo8
     (OPT_REG, OPT_IM, MO_8, EFFECT_CLEAR)"
  "implements rt_reg_im_clear_mo16
     (OPT_REG, OPT_IM, MO_16, EFFECT_CLEAR)"
  "implements rt_reg_im_clear_mo32
     (OPT_REG, OPT_IM, MO_32, EFFECT_CLEAR)"
  "implements rt_reg_im_clear_mo64
     (OPT_REG, OPT_IM, MO_64, EFFECT_CLEAR)"
  "implements rt_mem_im_clear_mo8
     (OPT_MEM, OPT_IM, MO_8, EFFECT_CLEAR)"
  "implements rt_mem_im_clear_mo16
     (OPT_MEM, OPT_IM, MO_16, EFFECT_CLEAR)"
  "implements rt_mem_im_clear_mo32
     (OPT_MEM, OPT_IM, MO_32, EFFECT_CLEAR)"
  "implements rt_mem_im_clear_mo64
     (OPT_MEM, OPT_IM, MO_64, EFFECT_CLEAR)"
  "implements rt_xmm_im_clear
     (OPT_XMM, OPT_IM, XMM_MO_128, XMM_EFFECT_CLEAR)"
  by (auto simp: op_evals rt_defs access_evals)

lemma xmm_xmm_implements:
  "implements rt_xmm_xmm_oo_assign_mo32
     (OPT_XMM, OPT_XMM, XMM_MO_32, XMM_EFFECT_ONE_TO_ONE OR XMM_EFFECT_ASSIGN OR XMM_EFFECT_LOW)"
  "implements rt_xmm_xmm_oo_assign_mo64
     (OPT_XMM, OPT_XMM, XMM_MO_64, XMM_EFFECT_ONE_TO_ONE OR XMM_EFFECT_ASSIGN OR XMM_EFFECT_LOW)"
  "implements rt_xmm_xmm_oo_assign_mo64lh
     (OPT_XMM, OPT_XMM, XMM_MO_64, XMM_EFFECT_ONE_TO_ONE OR XMM_EFFECT_ASSIGN OR XMM_EFFECT_L2H)"
  "implements rt_xmm_xmm_oo_assign_mo64hl
     (OPT_XMM, OPT_XMM, XMM_MO_64, XMM_EFFECT_ONE_TO_ONE OR XMM_EFFECT_ASSIGN OR XMM_EFFECT_H2L)"
  "implements rt_xmm_xmm_oo_assign_mo128
     (OPT_XMM, OPT_XMM, XMM_MO_128, XMM_EFFECT_ONE_TO_ONE OR XMM_EFFECT_ASSIGN OR XMM_EFFECT_LOW)"
  "implements rt_xmm_reg_oo_assign_mo32
     (OPT_XMM, OPT_REG, XMM_MO_32, XMM_EFFECT_ONE_TO_ONE OR XMM_EFFECT_ASSIGN OR XMM_EFFECT_LOW)"
  "implements rt_xmm_reg_oo_assign_mo64
     (OPT_XMM, OPT_REG, XMM_MO_64, XMM_EFFECT_ONE_TO_ONE OR XMM_EFFECT_ASSIGN OR XMM_EFFECT_LOW)"
  "implements rt_reg_xmm_oo_assign_mo32
     (OPT_REG, OPT_XMM, XMM_MO_32, XMM_EFFECT_ONE_TO_ONE OR XMM_EFFECT_ASSIGN OR XMM_EFFECT_LOW)"
  "implements rt_reg_xmm_oo_assign_mo64
     (OPT_REG, OPT_XMM, XMM_MO_64, XMM_EFFECT_ONE_TO_ONE OR XMM_EFFECT_ASSIGN OR XMM_EFFECT_LOW)"
  "implements rt_xmm_xmm_oo_assign_dup_mo32l
     (OPT_XMM, OPT_XMM, XMM_MO_32, XMM_EFFECT_ONE_TO_ONE OR XMM_EFFECT_ASSIGN OR XMM_EFFECT_LOW OR XMM_EFFECT_DUP)"
  "implements rt_xmm_xmm_oo_assign_dup_mo32h
     (OPT_XMM, OPT_XMM, XMM_MO_32, XMM_EFFECT_ONE_TO_ONE OR XMM_EFFECT_ASSIGN OR XMM_EFFECT_HIGH OR XMM_EFFECT_DUP)"
  "implements rt_xmm_xmm_oo_assign_dup_mo64
     (OPT_XMM, OPT_XMM, XMM_MO_64, XMM_EFFECT_ONE_TO_ONE OR XMM_EFFECT_ASSIGN OR XMM_EFFECT_LOW OR XMM_EFFECT_DUP)"
  by (auto simp: op_evals rt_defs access_evals)

lemma xmm_mem_implements:
  "implements rt_xmm_mem_oo_assign_mo32
     (OPT_XMM, OPT_MEM, XMM_MO_32, XMM_EFFECT_ONE_TO_ONE OR XMM_EFFECT_ASSIGN OR XMM_EFFECT_LOW)"
  "implements rt_xmm_mem_oo_assign_mo64
     (OPT_XMM, OPT_MEM, XMM_MO_64, XMM_EFFECT_ONE_TO_ONE OR XMM_EFFECT_ASSIGN OR XMM_EFFECT_LOW)"
  "implements rt_xmm_mem_oo_assign_mo64h
     (OPT_XMM, OPT_MEM, XMM_MO_64, XMM_EFFECT_ONE_TO_ONE OR XMM_EFFECT_ASSIGN OR XMM_EFFECT_HIGH)"
  "implements rt_xmm_mem_oo_assign_mo128
     (OPT_XMM, OPT_MEM, XMM_MO_128, XMM_EFFECT_ONE_TO_ONE OR XMM_EFFECT_ASSIGN OR XMM_EFFECT_LOW)"
  "implements rt_mem_xmm_oo_assign_mo32
     (OPT_MEM, OPT_XMM, XMM_MO_32, XMM_EFFECT_ONE_TO_ONE OR XMM_EFFECT_ASSIGN OR XMM_EFFECT_LOW)"
  "implements rt_mem_xmm_oo_assign_mo64
     (OPT_MEM, OPT_XMM, XMM_MO_64, XMM_EFFECT_ONE_TO_ONE OR XMM_EFFECT_ASSIGN OR XMM_EFFECT_LOW)"
  "implements rt_mem_xmm_oo_assign_mo64h
     (OPT_MEM, OPT_XMM, XMM_MO_64, XMM_EFFECT_ONE_TO_ONE OR XMM_EFFECT_ASSIGN OR XMM_EFFECT_HIGH)"
  "implements rt_mem_xmm_oo_assign_mo128
     (OPT_MEM, OPT_XMM, XMM_MO_128, XMM_EFFECT_ONE_TO_ONE OR XMM_EFFECT_ASSIGN OR XMM_EFFECT_LOW)"
  "implements rt_xmm_mem_oo_assign_dup_mo32l
     (OPT_XMM, OPT_MEM, XMM_MO_32, XMM_EFFECT_ONE_TO_ONE OR XMM_EFFECT_ASSIGN OR XMM_EFFECT_LOW OR XMM_EFFECT_DUP)"
  "implements rt_xmm_mem_oo_assign_dup_mo32h
     (OPT_XMM, OPT_MEM, XMM_MO_32, XMM_EFFECT_ONE_TO_ONE OR XMM_EFFECT_ASSIGN OR XMM_EFFECT_HIGH OR XMM_EFFECT_DUP)"
  by (auto simp: op_evals rt_defs access_evals add_numeral_Suc)

lemmas handlers_implement =
  inside_implements reg_reg_oo_implements reg_reg_mix_implements reg_mem_oo_implements reg_mem_mix_implements mem_reg_oo_implements mem_reg_mix_implements mem_mem_oo_implements clear_implements xmm_xmm_implements xmm_mem_implements

section \<open>The policy\<close>

lemma case_spec_implemented:
  "list_all (\<lambda>(c, op). c = XMM_MEM_OO_ASSIGN_DUP_MO64 \<or>
     (\<exists>h. implements h op \<and> (c, h) \<in> set dispatch_tbl)) case_spec"
  unfolding case_spec_def list.pred_inject prod.case
  by (intro conjI list.pred_inject(1);
      ((rule disjI1, rule refl) | (rule disjI2, rule exI, rule conjI, rule handlers_implement,
        simp add: dispatch_tbl_def)))

lemma dispatch_implements:
  assumes "(case_nb rec, op) \<in> set case_spec" and "case_nb rec \<noteq> XMM_MEM_OO_ASSIGN_DUP_MO64"
    and "wf_globals g" and "ctx_within 0x7f dc" and "op_ok op g rec as"
  shows "dispatch g rec dc as = Some (apply_op op rec as dc, drop (addresses op) as)"
proof -
  obtain h where h: "implements h op" and "(case_nb rec, h) \<in> set dispatch_tbl"
    using case_spec_implemented assms(1,2) by (auto simp: list_all_iff)
  then have d: "dispatch g rec dc as = h g rec dc as"
    using dispatch_eq by blast
  let ?bs = "take (addresses op) as"
  have locs: "dst_locs op rec ?bs = dst_locs op rec as" "src_locs op rec ?bs = src_locs op rec as"
    by (cases op; simp)+
  have "length ?bs = addresses op" and ok: "op_ok op g rec ?bs"
    using assms(5) by (auto simp: op_ok_def locs)
  then have "h g rec dc (?bs @ drop (addresses op) as) =
      Some (apply_op op rec ?bs dc, drop (addresses op) as)"
    using h assms(3,4) unfolding implements_def by blast
  then show ?thesis
    by (simp add: d apply_op_def locs)
qed

section \<open>Monotonicity\<close>

definition ctx_le :: "dift_context \<Rightarrow> dift_context \<Rightarrow> bool" where
  "ctx_le dc1 dc2 \<longleftrightarrow>
     (\<forall>l. within (tag_of dc2 l) (tag_of dc1 l)) \<and> (\<forall>a. within (hd_tag dc2 a) (hd_tag dc1 a))"

lemma within_or_left: "within T a \<Longrightarrow> within (T OR S) a"
  and within_or_right: "within S a \<Longrightarrow> within (T OR S) a"
  by (auto simp: within_bit bit_simps)

lemma tag_of_set_loc: "tag_of (set_loc l v dc) l' = (if l' = l then v else tag_of dc l')"
  by (cases l; cases l'; auto)

lemma hd_tag_set_loc [simp]: "hd_tag (set_loc l v dc) = hd_tag dc"
  by (cases l) simp_all

lemma write_tags_mono:
  assumes "ctx_le dc1 dc2" and "list_all2 (\<lambda>v w. within w v) vs ws"
  shows "ctx_le (write_tags (zip ls vs) dc1) (write_tags (zip ls ws) dc2)"
  using assms(2,1)
proof (induction arbitrary: ls dc1 dc2 rule: list_all2_induct)
  case step: (Cons v vs w ws)
  show ?case
  proof (cases ls)
    case (Cons l ls')
    have "ctx_le (set_loc l v dc1) (set_loc l w dc2)"
      using step.prems step.hyps(1) by (simp add: ctx_le_def tag_of_set_loc)
    then show ?thesis
      using step.IH Cons by simp
  qed (use step.prems in simp)
qed simp

lemma or_all_mono: "list_all2 (\<lambda>v w. within w v) vs ws \<Longrightarrow> within (or_all ws) (or_all vs)"
  by (induction rule: list_all2_induct) (auto intro: within_or_left within_or_right)

lemma or_bytes_mono:
  assumes "list_all2 (\<lambda>v w. within w v) vs ws" and "list_all2 (\<lambda>v w. within w v) xs ys"
  shows "list_all2 (\<lambda>v w. within w v) (or_bytes vs xs) (or_bytes ws ys)"
  using assms by (auto simp: list_all2_conv_all_nth intro: within_or_left within_or_right)

lemma effect_tags_mono:
  assumes "list_all2 (\<lambda>v w. within w v) ds1 ds2" and "list_all2 (\<lambda>v w. within w v) ss1 ss2"
  shows "list_all2 (\<lambda>v w. within w v) (effect_tags op ds1 ss1) (effect_tags op ds2 ss2)"
proof -
  obtain dst src ot e where op: "op = (dst, src, ot, e)" by (cases op)
  have const: "within w v \<Longrightarrow> list_all2 (\<lambda>v w. within w v) (map (\<lambda>_. v) ds1) (map (\<lambda>_. w) ds2)" for v w
    using assms(1) by (simp add: list_all2_conv_all_nth)
  have "within (or_all (ss2 @ ds2)) (or_all (ss1 @ ds1))"
    using assms by (intro or_all_mono list_all2_appendI)
  then show ?thesis
    unfolding op using assms const or_all_mono [OF assms(2)] or_bytes_mono [OF assms]
    by (simp add: Let_def)
qed

lemma indirect_tag_mono:
  assumes "ctx_le dc1 dc2"
  shows "within (indirect_tag op rec dc2) (indirect_tag op rec dc1)"
proof -
  have "within (reg_tag dc2 j n) (reg_tag dc1 j n)" for j n
    using assms by (auto simp: reg_tag_def ctx_le_def list_all2_conv_all_nth intro!: or_all_mono)
  then show ?thesis
    by (cases op) (auto intro: within_or_left within_or_right)
qed

lemma apply_op_mono:
  assumes "ctx_le dc1 dc2"
  shows "ctx_le (apply_op op rec as dc1) (apply_op op rec as dc2)"
proof -
  have "list_all2 (\<lambda>v w. within w v) (map (tag_of dc1) ls) (map (tag_of dc2) ls)" for ls
    using assms by (simp add: ctx_le_def list_all2_conv_all_nth)
  moreover have "list_all2 (\<lambda>v w. within w v) (map (\<lambda>l. tag_of dc1 l OR indirect_tag op rec dc1) ls)
      (map (\<lambda>l. tag_of dc2 l OR indirect_tag op rec dc2) ls)" for ls
    using assms indirect_tag_mono [OF assms, of op rec]
    by (auto simp: ctx_le_def list_all2_conv_all_nth intro: within_or_left within_or_right)
  ultimately show ?thesis
    unfolding apply_op_def Let_def by (intro write_tags_mono [OF assms] effect_tags_mono)
qed

lemma ctx_le_within:
  assumes "ctx_le dc1 dc2" and "ctx_within T dc2"
  shows "ctx_within T dc1"
proof -
  have "within T (tag_of dc2 l)" for l
    using assms(2) by (cases l) (simp_all add: ctx_within_def)
  then have "within T (tag_of dc1 l)" for l
    using assms(1) within_mono unfolding ctx_le_def by blast
  from this [of "LReg i k" for i k] this [of "LXmm i k" for i k] this [of "LMem a" for a]
  show ?thesis
    using assms by (auto simp: ctx_within_def ctx_le_def intro: within_mono)
qed

section \<open>Properties\<close>

text \<open>C6: the case number the translator looks up for an operation selects a handler with exactly
  the effect of that operation. For a record with that number whose operands exist and whose
  memory operands lie in RAM, the dispatcher reads the tags of the source bytes (and, for byte
  and word loads, of the base and index registers), combines them with the destination as the
  effect says, changes no other tag, and takes exactly the addresses the operation has. The one
  exception is \<^verbatim>\<open>XMM_MEM_OO_ASSIGN_DUP_MO64\<close>.\<close>

theorem policy_implements_operations:
  assumes "dift_rec_case_nb dst src ot e = Some (case_nb rec)" and "src < 4" "dst < 4" "ot < 4"
    and "case_nb rec \<noteq> XMM_MEM_OO_ASSIGN_DUP_MO64"
    and "wf_globals g" and "ctx_within 0x7f dc" and "op_ok (dst, src, ot, e) g rec as"
  shows "dispatch g rec dc as =
    Some (apply_op (dst, src, ot, e) rec as dc, drop (addresses (dst, src, ot, e)) as)"
  using dispatch_implements [OF _ assms(5-8)] dift_rec_case_nb_sound [OF assms(2-4,1)] by simp

definition demo_load_rec :: dift_record where
  "demo_load_rec = DIFT_REC_EMPTY\<lparr>case_nb := REG_MEM_OO_ASSIGN_MO16, padding1 := 3,
     padding2 := 24, padding3 := 5\<rparr>"

definition demo_tainted :: dift_context where
  "demo_tainted = demo_context\<lparr>mem_dirty_tbl := (\<lambda>a. if a = 0x101 then 2 else 0),
     reg_dirty_tbl := (\<lambda>i k. if i = 5 \<and> k = 0 then 4 else 0)\<rparr>"

lemma demo_tainted_within: "ctx_within 0x7f demo_tainted"
  by (auto simp: ctx_within_def demo_tainted_def demo_context_def hd_tag_def page_or_new_def
      alloc_hd_dirty_page_def within_def)

theorem policy_implements_operations_witness:
  "\<exists>dc'. dispatch demo_globals demo_load_rec demo_tainted [0x100] = Some (dc', []) \<and>
     reg_dirty_tbl dc' 3 0 = 4 \<and> reg_dirty_tbl dc' 3 1 = 6"
proof -
  let ?op = "(OPT_REG, OPT_MEM, MO_16, EFFECT_ONE_TO_ONE OR EFFECT_ASSIGN)"
  have "(REG_MEM_OO_ASSIGN_MO16, ?op) \<in> set case_spec"
    by (simp add: case_spec_def)
  then have nb: "dift_rec_case_nb OPT_REG OPT_MEM MO_16 (EFFECT_ONE_TO_ONE OR EFFECT_ASSIGN) =
      Some (case_nb demo_load_rec)"
    using dift_rec_case_nb_complete by (simp add: demo_load_rec_def)
  have "op_ok ?op demo_globals demo_load_rec [0x100]"
    by (simp add: op_evals access_evals record_view_defs demo_load_rec_def DIFT_REC_EMPTY_def
        demo_globals_def)
  then have "dispatch demo_globals demo_load_rec demo_tainted [0x100] =
      Some (apply_op ?op demo_load_rec [0x100] demo_tainted, drop (addresses ?op) [0x100])"
    using policy_implements_operations [OF nb _ _ _ _ wf_demo_globals demo_tainted_within]
    by (simp add: case_nb_defs demo_load_rec_def)
  then show ?thesis
    by (simp add: op_evals access_evals record_view_defs demo_load_rec_def DIFT_REC_EMPTY_def
        demo_tainted_def demo_context_def)
qed

text \<open>Propagation is monotone: running the same operation record with more taint in the
  context leaves more taint, so an over-approximation of the taint stays one.\<close>

lemma policy_monotone:
  assumes "(case_nb rec, op) \<in> set case_spec" and "case_nb rec \<noteq> XMM_MEM_OO_ASSIGN_DUP_MO64"
    and "wf_globals g" and "op_ok op g rec as" and "ctx_within 0x7f dc2" and "ctx_le dc1 dc2"
  shows "\<exists>dc1' dc2'. dispatch g rec dc1 as = Some (dc1', drop (addresses op) as) \<and>
     dispatch g rec dc2 as = Some (dc2', drop (addresses op) as) \<and> ctx_le dc1' dc2'"
  using dispatch_implements [OF assms(1-3,5,4)] apply_op_mono [OF assms(6)]
    dispatch_implements [OF assms(1-3) ctx_le_within [OF assms(6,5)] assms(4)] by simp

lemma policy_monotone_example:
  "\<exists>dc1' dc2'. dispatch demo_globals demo_load_rec demo_context [0x100] = Some (dc1', []) \<and>
     dispatch demo_globals demo_load_rec demo_tainted [0x100] = Some (dc2', []) \<and> ctx_le dc1' dc2'"
proof -
  let ?op = "(OPT_REG, OPT_MEM, MO_16, EFFECT_ONE_TO_ONE OR EFFECT_ASSIGN)"
  have "(case_nb demo_load_rec, ?op) \<in> set case_spec"
    by (simp add: case_spec_def demo_load_rec_def)
  moreover have "op_ok ?op demo_globals demo_load_rec [0x100]"
    by (simp add: op_evals access_evals record_view_defs demo_load_rec_def DIFT_REC_EMPTY_def
        demo_globals_def)
  moreover have "within (tag_of demo_tainted l) (tag_of demo_context l)" for l
    by (cases l) (simp_all add: demo_context_def)
  then have "ctx_le demo_context demo_tainted"
    by (simp add: ctx_le_def hd_tag_def demo_context_def page_or_new_def alloc_hd_dirty_page_def)
  ultimately show ?thesis
    using policy_monotone [OF _ _ wf_demo_globals _ demo_tainted_within,
        of demo_load_rec ?op "[0x100]" demo_context]
    by (simp add: demo_load_rec_def case_nb_defs)
qed

text \<open>The remaining case, a load that duplicates the low eight bytes of memory into both halves of
  an SSE register, is handled as a plain 16-byte load: the upper half gets the tags of the eight
  bytes behind the operand and not those of the operand.\<close>

lemma xmm_mem_dup_mo64_is_a_load:
  assumes "case_nb rec = XMM_MEM_OO_ASSIGN_DUP_MO64" and "wf_globals g"
    and "r2m_m2r_reg rec < 16" and "unat a + 16 \<le> unat (phys_ram_size g)"
  shows "\<exists>dc'. dispatch g rec dc (a # as) = Some (dc', as) \<and>
     dc' = dc\<lparr>xmm_dirty_tbl := xmm_dirty_tbl dc'\<rparr> \<and>
     (\<forall>i k. xmm_dirty_tbl dc' i k =
        (if i = r2m_m2r_reg rec \<and> k < 16 then mem_dirty_tbl dc (unat a + k) else xmm_dirty_tbl dc i k))"
proof -
  have h: "dispatch g rec dc (a # as) = rt_xmm_mem_oo_assign_dup_mo64 g rec dc (a # as)"
    by (rule dispatch_eq) (simp add: dispatch_tbl_def assms(1))
  have "unat (a + 8) = unat a + 8"
    using assms(2,4) by (subst unat_ram_add [OF assms(2)]) simp_all
  then show ?thesis
    unfolding h using assms(2-4) unat_ram_add [OF assms(2), of a 8]
    by (auto simp: rt_xmm_mem_oo_assign_dup_mo64_def Let_def deq_addr_def ram_access xmm_store_def
        mem_load_def tbl_load_def tbl_store_def)
qed

lemma xmm_mem_dup_mo64_is_a_load_example:
  "\<exists>dc'. dispatch demo_globals (DIFT_REC_EMPTY\<lparr>case_nb := XMM_MEM_OO_ASSIGN_DUP_MO64\<rparr>)
       (demo_context\<lparr>mem_dirty_tbl := (\<lambda>a. if a < 8 then 1 else 0)\<rparr>) [0] = Some (dc', []) \<and>
     xmm_dirty_tbl dc' 0 0 = 1 \<and> xmm_dirty_tbl dc' 0 8 = 0"
  using xmm_mem_dup_mo64_is_a_load [of "DIFT_REC_EMPTY\<lparr>case_nb := XMM_MEM_OO_ASSIGN_DUP_MO64\<rparr>"
      demo_globals 0 "demo_context\<lparr>mem_dirty_tbl := (\<lambda>a. if a < 8 then 1 else 0)\<rparr>" "[]"]
    wf_demo_globals
  by (auto simp: demo_globals_def record_view_defs DIFT_REC_EMPTY_def)

end
