(* ===== verification/DiftInterp.thy ===== *)
theory DiftInterp
  imports DiftRefine
begin

text \<open>
  The analysis thread of \<^verbatim>\<open>ext/dift/dift.c\<close>. \<open>run_codes\<close> is the threaded dispatch over the code
  buffer that the translator fills, \<open>interpret_dift_codes_rest\<close> the same policy over a stream in
  which records and addresses are mixed, \<open>interpret_dift_codes\<close> the interpretation of one
  translated block: it unpacks which part of the buffer the block executed, plants
  \<^verbatim>\<open>REC_END\<close> behind that part, runs it, takes the mark away again, and goes on with what the
  block pushed directly. \<open>analysis_iter\<close> is one turn of the loop in \<^verbatim>\<open>analysis_mainloop\<close> over the
  words that \<^verbatim>\<open>rec_dequeue\<close> delivers.
\<close>

section \<open>Interpreting a block\<close>

definition CONFIG_MAX_TB_ESTI :: nat where "CONFIG_MAX_TB_ESTI = 500000"
definition CONFIG_IF_CODES_PER_TB :: nat where "CONFIG_IF_CODES_PER_TB = 160"

text \<open>\<^verbatim>\<open>DEQ_FROM_CODE\<close>: the buffer is an array of fixed size.\<close>

definition deq_code :: "u64 list \<Rightarrow> nat \<Rightarrow> u64 option" where
  "deq_code buf pc = (if pc < length buf then Some (buf ! pc) else None)"

lemma dispatch_length: "dispatch g rec dc as = Some (dc', as') \<Longrightarrow> length as' \<le> length as"
proof -
  have "within (- 1) b" for b
    by (simp add: within_def)
  then have "ctx_within (- 1) dc" and "tag_ok (- 1) rec"
    by (simp_all add: ctx_within_def tag_ok_def)
  then show "dispatch g rec dc as = Some (dc', as') \<Longrightarrow> length as' \<le> length as"
    using dispatch_keeps [of "- 1" rec dc g as] by (auto dest: opt_postD)
qed

function run_codes ::
  "dift_globals \<Rightarrow> u64 list \<Rightarrow> nat \<Rightarrow> dift_context \<Rightarrow> u64 list \<Rightarrow> (dift_context \<times> u64 list) option" where
  "run_codes g buf pc dc as =
     do { w \<leftarrow> deq_code buf pc;
          if case_nb (rec_of_u64 w) = REC_END then Some (dc, as)
          else do { (dc', as') \<leftarrow> dispatch g (rec_of_u64 w) dc as;
                    run_codes g buf (Suc pc) dc' as' } }"
  by pat_completeness auto
termination
  by (relation "measure (\<lambda>(g, buf, pc, dc, as). length buf - pc)")
    (auto simp: deq_code_def split: if_splits)

function interpret_dift_codes_rest ::
  "dift_globals \<Rightarrow> dift_context \<Rightarrow> u64 list \<Rightarrow> dift_context option" where
  "interpret_dift_codes_rest g dc [] = None"
| "interpret_dift_codes_rest g dc (w # ws) =
     (if case_nb (rec_of_u64 w) = REC_END then Some dc
      else do { (dc', ws') \<leftarrow> dispatch g (rec_of_u64 w) dc ws;
                interpret_dift_codes_rest g dc' ws' })"
  by pat_completeness auto
termination
  by (relation "measure (\<lambda>(g, dc, ws). length ws)") (auto dest: dispatch_length)

declare run_codes.simps [simp del]

definition code_loc :: "u64 \<Rightarrow> u64" where
  "code_loc w = drop_bit 32 (w AND 0xffffffff00000000)"

definition code_cntr :: "u64 \<Rightarrow> u64" where
  "code_cntr w = drop_bit 16 (w AND 0x00000000ffff0000)"

definition code_off :: "u64 \<Rightarrow> u64" where
  "code_off w = (let off = w AND 0x000000000000ffff in if code_cntr w < off then 0 else off)"

definition code_begin :: "u64 \<Rightarrow> nat" where
  "code_begin w = unat (code_loc w * of_nat CONFIG_IF_CODES_PER_TB + code_off w)"

definition code_end :: "u64 \<Rightarrow> nat" where
  "code_end w = code_begin w + unat (code_cntr w - code_off w)"

definition interpret_dift_codes ::
  "dift_globals \<Rightarrow> u64 list \<Rightarrow> dift_context \<Rightarrow> u64 \<Rightarrow> u64 list \<Rightarrow> (dift_context \<times> u64 list) option" where
  "interpret_dift_codes g buf dc loc_cntr_off as =
     do { let ptr_code = code_begin loc_cntr_off;
          let ptr_code_end = code_end loc_cntr_off;
          end_backup \<leftarrow> deq_code buf ptr_code_end;
          let buf1 = buf[ptr_code_end := ucast REC_END];
          (dc1, as1) \<leftarrow> run_codes g buf1 ptr_code dc as;
          let buf2 = buf1[ptr_code_end := end_backup];
          dc2 \<leftarrow> interpret_dift_codes_rest g dc1 as1;
          Some (dc2, buf2) }"

section \<open>The main loop\<close>

record analysis_state =
  an_dc :: dift_context
  an_buf :: "u64 list"
  q_addrs :: "u64 list"
  dift_thread_ok_signal :: bool

datatype outcome = Blocked | Fault | Turn analysis_state "u64 list"

definition Q_ADDRS_SIZE :: nat where "Q_ADDRS_SIZE = 4096"

text \<open>
  \<open>ws\<close> are the words the queue delivers next; without one the thread waits in
  \<^verbatim>\<open>rec_dequeue\<close>. \<^verbatim>\<open>q_addrs\<close> is an array of 4096 words that nothing checks.
\<close>

fun analysis_iter :: "dift_globals \<Rightarrow> analysis_state \<Rightarrow> u64 list \<Rightarrow> outcome" where
  "analysis_iter g st [] = Blocked"
| "analysis_iter g st (data # ws) =
     (if data = REC_END_SYMBOL OR ucast REC_SYNC
      then Turn (st\<lparr>dift_thread_ok_signal := True, an_dc := (an_dc st)\<lparr>deqptr := None\<rparr>\<rparr>) ws
      else if data = REC_END_SYMBOL OR ucast REC_BEFORE_BLOCK_BEGIN
      then (if length (q_addrs st) < Q_ADDRS_SIZE
            then (case ws of [] \<Rightarrow> Blocked
              | w # ws' \<Rightarrow>
                (case interpret_dift_codes g (an_buf st) (an_dc st) w (q_addrs st @ [ucast REC_END]) of
                   None \<Rightarrow> Fault
                 | Some (dc, buf) \<Rightarrow> Turn (st\<lparr>an_dc := dc, an_buf := buf, q_addrs := []\<rparr>) ws'))
            else Fault)
      else if length (q_addrs st) < Q_ADDRS_SIZE
      then Turn (st\<lparr>q_addrs := q_addrs st @ [data]\<rparr>) ws
      else Fault)"

lemma analysis_iter_length: "analysis_iter g st ws = Turn st' ws' \<Longrightarrow> length ws' < length ws"
  by (cases ws) (auto split: if_splits list.splits option.splits prod.splits)

text \<open>The loop, run until it waits for a word; \<open>None\<close> is a run that leaves an array.\<close>

function analysis_mainloop ::
  "dift_globals \<Rightarrow> analysis_state \<Rightarrow> u64 list \<Rightarrow> (analysis_state \<times> u64 list) option" where
  "analysis_mainloop g st ws =
     (case analysis_iter g st ws of
        Blocked \<Rightarrow> Some (st, ws)
      | Fault \<Rightarrow> None
      | Turn st' ws' \<Rightarrow> analysis_mainloop g st' ws')"
  by pat_completeness auto
termination
  by (relation "measure (\<lambda>(g, st, ws). length ws)") (auto dest: analysis_iter_length)

declare analysis_mainloop.simps [simp del]

section \<open>Records in a row\<close>

text \<open>The meaning of a list of records: the dispatcher on each in turn.\<close>

fun exec_records ::
  "dift_globals \<Rightarrow> dift_record list \<Rightarrow> dift_context \<Rightarrow> u64 list \<Rightarrow> (dift_context \<times> u64 list) option" where
  "exec_records g [] dc as = Some (dc, as)"
| "exec_records g (r # rs) dc as =
     do { (dc', as') \<leftarrow> dispatch g r dc as; exec_records g rs dc' as' }"

lemma exec_records_append:
  "exec_records g (rs @ ss) dc as =
     do { (dc', as') \<leftarrow> exec_records g rs dc as; exec_records g ss dc' as' }"
  by (induction rs arbitrary: dc as) (auto simp: bind_assoc split: prod.splits bind_splits)

lemma run_codes_segment:
  assumes "pc + n < length buf" and "buf ! (pc + n) = ucast REC_END"
    and "\<forall>k < n. case_nb (rec_of_u64 (buf ! (pc + k))) \<noteq> REC_END"
  shows "run_codes g buf pc dc as = exec_records g (map rec_of_u64 (take n (drop pc buf))) dc as"
  using assms
proof (induction n arbitrary: pc dc as)
  case 0
  have "case_nb (rec_of_u64 (ucast REC_END)) = REC_END"
    by (simp add: rec_of_u64_def byte_of_def case_nb_defs)
  with 0 show ?case
    by (subst run_codes.simps) (simp add: deq_code_def)
next
  case (Suc n)
  have "take (Suc n) (drop pc buf) = buf ! pc # take n (drop (Suc pc) buf)"
    using Suc.prems(1) by (simp add: Cons_nth_drop_Suc [symmetric])
  moreover have "run_codes g buf (Suc pc) = exec_records g (map rec_of_u64 (take n (drop (Suc pc) buf)))"
    using Suc.prems by (intro ext Suc.IH) (auto dest: spec [of _ "Suc k" for k])
  moreover have "case_nb (rec_of_u64 (buf ! pc)) \<noteq> REC_END"
    using Suc.prems(3) by (auto dest: spec [of _ 0])
  ultimately show ?case
    using Suc.prems(1) by (subst run_codes.simps) (simp add: deq_code_def)
qed

section \<open>Items: a record with its own addresses\<close>

definition item_ok :: "dift_globals \<Rightarrow> dift_record \<times> u64 list \<Rightarrow> bool" where
  "item_ok g it \<longleftrightarrow>
     (case map_of shape_tbl (case_nb (fst it)) of
        None \<Rightarrow> False
      | Some (sh, n) \<Rightarrow> n = length (snd it) \<and> args_ok sh g (fst it) (snd it))"

fun exec_items :: "dift_globals \<Rightarrow> (dift_record \<times> u64 list) list \<Rightarrow> dift_context \<Rightarrow> dift_context option" where
  "exec_items g [] dc = Some dc"
| "exec_items g ((r, as) # its) dc =
     do { (dc', _) \<leftarrow> dispatch g r dc as; exec_items g its dc' }"

definition handler_frame :: "handler \<Rightarrow> bool" where
  "handler_frame h \<longleftrightarrow>
     (\<forall>g rec dc as dc' as' rest. h g rec dc as = Some (dc', as') \<longrightarrow>
        h g rec dc (as @ rest) = Some (dc', as' @ rest))"

lemma inside_frame:
  "handler_frame rt_inside_reg_assign"
  "handler_frame rt_inside_reg_append"
  by (auto simp: handler_frame_def rt_defs Let_def deq_addr_def bind_eq_Some_conv split: list.splits)

lemma reg_reg_frame:
  "handler_frame rt_reg_reg_oo_assign_mo8"
  "handler_frame rt_reg_reg_oo_assign_mo16"
  "handler_frame rt_reg_reg_oo_assign_mo32"
  "handler_frame rt_reg_reg_oo_assign_mo64"
  "handler_frame rt_reg_reg_oo_append_mo8"
  "handler_frame rt_reg_reg_oo_append_mo16"
  "handler_frame rt_reg_reg_oo_append_mo32"
  "handler_frame rt_reg_reg_oo_append_mo64"
  "handler_frame rt_reg_reg_mix_append_mo16"
  "handler_frame rt_reg_reg_mix_append_mo32"
  "handler_frame rt_reg_reg_mix_append_mo64"
  by (auto simp: handler_frame_def rt_defs Let_def deq_addr_def bind_eq_Some_conv split: list.splits)

lemma reg_mem_frame:
  "handler_frame rt_reg_mem_oo_assign_mo8"
  "handler_frame rt_reg_mem_oo_assign_mo16"
  "handler_frame rt_reg_mem_oo_assign_mo32"
  "handler_frame rt_reg_mem_oo_assign_mo64"
  "handler_frame rt_reg_mem_oo_append_mo8"
  "handler_frame rt_reg_mem_oo_append_mo16"
  "handler_frame rt_reg_mem_oo_append_mo32"
  "handler_frame rt_reg_mem_oo_append_mo64"
  "handler_frame rt_reg_mem_mix_assign_mo16"
  "handler_frame rt_reg_mem_mix_assign_mo32"
  "handler_frame rt_reg_mem_mix_assign_mo64"
  "handler_frame rt_reg_mem_mix_append_mo16"
  "handler_frame rt_reg_mem_mix_append_mo32"
  "handler_frame rt_reg_mem_mix_append_mo64"
  by (auto simp: handler_frame_def rt_defs Let_def deq_addr_def bind_eq_Some_conv split: list.splits)

lemma mem_reg_frame:
  "handler_frame rt_mem_reg_oo_assign_mo8"
  "handler_frame rt_mem_reg_oo_assign_mo16"
  "handler_frame rt_mem_reg_oo_assign_mo32"
  "handler_frame rt_mem_reg_oo_assign_mo64"
  "handler_frame rt_mem_reg_oo_append_mo8"
  "handler_frame rt_mem_reg_oo_append_mo16"
  "handler_frame rt_mem_reg_oo_append_mo32"
  "handler_frame rt_mem_reg_oo_append_mo64"
  "handler_frame rt_mem_reg_mix_assign_mo16"
  "handler_frame rt_mem_reg_mix_assign_mo32"
  "handler_frame rt_mem_reg_mix_assign_mo64"
  "handler_frame rt_mem_reg_mix_append_mo16"
  "handler_frame rt_mem_reg_mix_append_mo32"
  "handler_frame rt_mem_reg_mix_append_mo64"
  by (auto simp: handler_frame_def rt_defs Let_def deq_addr_def bind_eq_Some_conv split: list.splits)

lemma mem_mem_frame:
  "handler_frame rt_mem_mem_oo_assign_mo8"
  "handler_frame rt_mem_mem_oo_assign_mo16"
  "handler_frame rt_mem_mem_oo_assign_mo32"
  "handler_frame rt_mem_mem_oo_assign_mo64"
  by (auto simp: handler_frame_def rt_defs Let_def deq_addr_def bind_eq_Some_conv split: list.splits)

lemma clear_frame:
  "handler_frame rt_reg_im_clear_mo8"
  "handler_frame rt_reg_im_clear_mo16"
  "handler_frame rt_reg_im_clear_mo32"
  "handler_frame rt_reg_im_clear_mo64"
  "handler_frame rt_mem_im_clear_mo8"
  "handler_frame rt_mem_im_clear_mo16"
  "handler_frame rt_mem_im_clear_mo32"
  "handler_frame rt_mem_im_clear_mo64"
  by (auto simp: handler_frame_def rt_defs Let_def deq_addr_def bind_eq_Some_conv split: list.splits)

lemma xmm_frame:
  "handler_frame rt_xmm_xmm_oo_assign_mo32"
  "handler_frame rt_xmm_xmm_oo_assign_mo64"
  "handler_frame rt_xmm_xmm_oo_assign_mo64lh"
  "handler_frame rt_xmm_xmm_oo_assign_mo64hl"
  "handler_frame rt_xmm_xmm_oo_assign_mo128"
  "handler_frame rt_xmm_reg_oo_assign_mo32"
  "handler_frame rt_xmm_reg_oo_assign_mo64"
  "handler_frame rt_reg_xmm_oo_assign_mo32"
  "handler_frame rt_reg_xmm_oo_assign_mo64"
  "handler_frame rt_xmm_mem_oo_assign_mo32"
  "handler_frame rt_xmm_mem_oo_assign_mo64"
  "handler_frame rt_xmm_mem_oo_assign_mo64h"
  "handler_frame rt_xmm_mem_oo_assign_mo128"
  "handler_frame rt_mem_xmm_oo_assign_mo32"
  "handler_frame rt_mem_xmm_oo_assign_mo64"
  "handler_frame rt_mem_xmm_oo_assign_mo64h"
  "handler_frame rt_mem_xmm_oo_assign_mo128"
  "handler_frame rt_xmm_xmm_oo_assign_dup_mo32l"
  "handler_frame rt_xmm_xmm_oo_assign_dup_mo32h"
  "handler_frame rt_xmm_xmm_oo_assign_dup_mo64"
  "handler_frame rt_xmm_mem_oo_assign_dup_mo32l"
  "handler_frame rt_xmm_mem_oo_assign_dup_mo32h"
  "handler_frame rt_xmm_mem_oo_assign_dup_mo64"
  "handler_frame rt_xmm_im_clear"
  by (auto simp: handler_frame_def rt_defs Let_def deq_addr_def bind_eq_Some_conv split: list.splits)

lemma direct_frame:
  "handler_frame rt_mem_hd"
  "handler_frame rt_hd_mem"
  "handler_frame rt_rec_contaminate_mem_or"
  "handler_frame rt_rec_contaminate_mem_and"
  "handler_frame rt_rec_contaminate_hd_or"
  "handler_frame rt_rec_contaminate_hd_and"
  "handler_frame rt_rec_clear_mem"
  "handler_frame rt_rec_block_begin"
  by (auto simp: handler_frame_def rt_defs Let_def deq_addr_def bind_eq_Some_conv split: list.splits)

lemma dispatch_tbl_frame: "list_all (\<lambda>(c, h). handler_frame h) dispatch_tbl"
  by (simp add: dispatch_tbl_def inside_frame reg_reg_frame reg_mem_frame mem_reg_frame mem_mem_frame clear_frame xmm_frame direct_frame)

lemma dispatch_frame:
  assumes "dispatch g rec dc as = Some (dc', as')"
  shows "dispatch g rec dc (as @ rest) = Some (dc', as' @ rest)"
proof -
  obtain h where h: "map_of dispatch_tbl (case_nb rec) = Some h" and "h g rec dc as = Some (dc', as')"
    using assms by (auto simp: dispatch_def bind_eq_Some_conv)
  moreover have "handler_frame h"
    using dispatch_tbl_frame map_of_SomeD [OF h] by (auto simp: list_all_iff)
  ultimately have "h g rec dc (as @ rest) = Some (dc', as' @ rest)"
    unfolding handler_frame_def by blast
  then show ?thesis by (simp add: dispatch_def h)
qed

lemma dispatch_item:
  assumes "wf_globals g" and "item_ok g (r, as)"
  obtains dc' where "dispatch g r dc as = Some (dc', [])"
    and "\<And>rest. dispatch g r dc (as @ rest) = Some (dc', rest)"
proof -
  obtain sh where "map_of shape_tbl (case_nb r) = Some (sh, length as)" and "args_ok sh g r as"
    using assms(2) by (auto simp: item_ok_def split: option.splits)
  then obtain dc' where d: "dispatch g r dc as = Some (dc', [])"
    using dispatch_safe [OF assms(1), of r sh "length as" as dc] by auto
  from dispatch_frame [OF d] show ?thesis by (intro that [OF d]) simp
qed

lemma exec_items_total:
  "wf_globals g \<Longrightarrow> list_all (item_ok g) its \<Longrightarrow> \<exists>dc'. exec_items g its dc = Some dc'"
proof (induction its arbitrary: dc)
  case (Cons it its)
  obtain r as where it: "it = (r, as)" by (cases it)
  obtain dc' where "dispatch g r dc as = Some (dc', [])"
    using Cons.prems it dispatch_item [of g r as dc] by auto
  with Cons it show ?case by auto
qed simp

lemma exec_records_items:
  assumes "wf_globals g"
  shows "list_all (item_ok g) its \<Longrightarrow> exec_items g its dc = Some dc' \<Longrightarrow>
   exec_records g (map fst its) dc (concat (map snd its) @ rest) = Some (dc', rest)"
proof (induction its arbitrary: dc)
  case (Cons it its)
  obtain r as where it: "it = (r, as)" by (cases it)
  obtain dc1 where d: "dispatch g r dc as = Some (dc1, [])"
    and f: "\<And>rest. dispatch g r dc (as @ rest) = Some (dc1, rest)"
    using Cons.prems it dispatch_item [OF assms, of r as dc] by auto
  have "exec_items g its dc1 = Some dc'"
    using Cons.prems(2) it d by simp
  then show ?case
    using Cons.IH Cons.prems(1) it f by simp
qed simp

text \<open>Records pushed directly: each followed by its addresses, up to \<^verbatim>\<open>REC_END\<close>.\<close>

definition inline_words :: "(dift_record \<times> u64 list) list \<Rightarrow> u64 list" where
  "inline_words its = concat (map (\<lambda>(r, as). u64_of_rec r # as) its)"

lemma item_case_nb: "item_ok g (r, as) \<Longrightarrow> case_nb r \<notin> {REC_END, REC_SYNC, REC_BEFORE_BLOCK_BEGIN}"
proof -
  assume "item_ok g (r, as)"
  then have "case_nb r \<in> fst ` set shape_tbl"
    by (force simp: item_ok_def dest: map_of_SomeD split: option.splits)
  then show "case_nb r \<notin> {REC_END, REC_SYNC, REC_BEFORE_BLOCK_BEGIN}"
    by (auto simp: shape_tbl_def case_nb_defs)
qed

lemma interpret_rest_items:
  assumes "wf_globals g"
  shows "list_all (item_ok g) its \<Longrightarrow> exec_items g its dc = Some dc' \<Longrightarrow>
   interpret_dift_codes_rest g dc (inline_words its @ [ucast REC_END]) = Some dc'"
proof (induction its arbitrary: dc)
  case Nil
  then show ?case
    by (simp add: inline_words_def rec_of_u64_def byte_of_def case_nb_defs)
next
  case (Cons it its)
  obtain r as where it: "it = (r, as)" by (cases it)
  obtain dc1 where d: "dispatch g r dc as = Some (dc1, [])"
    and f: "\<And>rest. dispatch g r dc (as @ rest) = Some (dc1, rest)"
    using Cons.prems it dispatch_item [OF assms, of r as dc] by auto
  have "exec_items g its dc1 = Some dc'"
    using Cons.prems(2) it d by simp
  moreover have "case_nb r \<noteq> REC_END"
    using Cons.prems(1) it item_case_nb by auto
  ultimately show ?case
    using Cons.IH [of dc1] Cons.prems(1) it f by (simp add: inline_words_def)
qed

lemma exec_items_append:
  "exec_items g (xs @ ys) dc = do { dc' \<leftarrow> exec_items g xs dc; exec_items g ys dc' }"
  by (induction xs arbitrary: dc) (auto split: prod.splits bind_splits)

lemma exec_items_keeps:
  "ctx_within T dc \<Longrightarrow> list_all (\<lambda>(r, as). tag_ok T r) its \<Longrightarrow>
   opt_post (exec_items g its dc) (ctx_within T)"
proof (induction its arbitrary: dc)
  case (Cons it its)
  then show ?case
    by (cases it) (auto intro!: opt_post_bind [OF dispatch_keeps])
qed simp

section \<open>Blocks\<close>

lemma interpret_segment:
  assumes "code_end w < length buf"
    and "\<forall>k. code_begin w \<le> k \<and> k < code_end w \<longrightarrow> case_nb (rec_of_u64 (buf ! k)) \<noteq> REC_END"
  shows "interpret_dift_codes g buf dc w as =
    do { (dc1, as1) \<leftarrow> exec_records g
           (map rec_of_u64 (take (code_end w - code_begin w) (drop (code_begin w) buf))) dc as;
         dc2 \<leftarrow> interpret_dift_codes_rest g dc1 as1;
         Some (dc2, buf) }"
proof -
  let ?b = "code_begin w" and ?e = "code_end w"
  let ?buf = "buf[?e := ucast REC_END]"
  have le: "?b \<le> ?e" by (simp add: code_end_def)
  have "run_codes g ?buf ?b dc as = exec_records g (map rec_of_u64 (take (?e - ?b) (drop ?b ?buf))) dc as"
    using assms le by (intro run_codes_segment) auto
  also have "take (?e - ?b) (drop ?b ?buf) = take (?e - ?b) (drop ?b buf)"
    using le by (simp add: drop_update_swap)
  finally show ?thesis
    using assms(1) by (simp add: interpret_dift_codes_def deq_code_def Let_def)
qed

definition holds_records :: "u64 list \<Rightarrow> u64 \<Rightarrow> dift_record list \<Rightarrow> bool" where
  "holds_records buf w rs \<longleftrightarrow>
     code_end w < length buf \<and> code_end w = code_begin w + length rs \<and>
     take (length rs) (drop (code_begin w) buf) = map u64_of_rec rs"

lemma holds_records_nth:
  assumes "holds_records buf w rs" and "code_begin w \<le> k" "k < code_end w"
  shows "rec_of_u64 (buf ! k) \<in> set rs"
proof -
  have e: "code_end w < length buf" "code_end w = code_begin w + length rs"
    using assms(1) by (simp_all add: holds_records_def)
  then have k: "k - code_begin w < length rs"
    using assms(2,3) by simp
  have "buf ! k = take (length rs) (drop (code_begin w) buf) ! (k - code_begin w)"
    using assms(2,3) e k by simp
  also have "\<dots> = map u64_of_rec rs ! (k - code_begin w)"
    using assms(1) by (simp only: holds_records_def)
  finally show ?thesis using k by simp
qed

lemma interpret_block:
  assumes "wf_globals g" and "list_all (item_ok g) (cached @ inl)"
    and "holds_records buf w (map fst cached)"
    and "exec_items g (cached @ inl) dc = Some dc'"
  shows "interpret_dift_codes g buf dc w (concat (map snd cached) @ inline_words inl @ [ucast REC_END]) =
    Some (dc', buf)"
proof -
  obtain dc1 where dc1: "exec_items g cached dc = Some dc1" "exec_items g inl dc1 = Some dc'"
    using assms(4) by (auto simp: exec_items_append bind_eq_Some_conv)
  have lt: "code_end w < length buf"
    using assms(3) by (simp add: holds_records_def)
  have "case_nb (rec_of_u64 (buf ! k)) \<noteq> REC_END" if "code_begin w \<le> k" "k < code_end w" for k
    using holds_records_nth [OF assms(3) that] assms(2) item_case_nb by (fastforce simp: list_all_iff)
  then have ne: "\<forall>k. code_begin w \<le> k \<and> k < code_end w \<longrightarrow> case_nb (rec_of_u64 (buf ! k)) \<noteq> REC_END"
    by blast
  have seg: "map rec_of_u64 (take (code_end w - code_begin w) (drop (code_begin w) buf)) = map fst cached"
  proof -
    have "take (code_end w - code_begin w) (drop (code_begin w) buf) = map u64_of_rec (map fst cached)"
      using assms(3) by (simp only: holds_records_def length_map diff_add_inverse)
    then show ?thesis by (simp add: comp_def)
  qed
  show ?thesis
    unfolding interpret_segment [OF lt ne] seg
    using assms(2) dc1 exec_records_items [OF assms(1), of cached dc dc1]
      interpret_rest_items [OF assms(1), of inl dc1 dc'] by simp
qed

section \<open>Blocks in the queue\<close>

definition plain :: "u64 \<Rightarrow> bool" where
  "plain w \<longleftrightarrow> w \<noteq> REC_END_SYMBOL OR ucast REC_SYNC \<and> w \<noteq> REC_END_SYMBOL OR ucast REC_BEFORE_BLOCK_BEGIN"

lemma plain_item: "item_ok g (r, as) \<Longrightarrow> plain (u64_of_rec r)"
proof -
  assume "item_ok g (r, as)"
  then have "case_nb (rec_of_u64 (u64_of_rec r)) \<notin> {REC_SYNC, REC_BEFORE_BLOCK_BEGIN}"
    using item_case_nb by simp
  then show "plain (u64_of_rec r)"
    unfolding plain_def by (auto simp: rec_of_u64_def byte_of_def case_nb_defs simp del: rec_of_u64_of_rec)
qed

type_synonym block = "(dift_record \<times> u64 list) list \<times> (dift_record \<times> u64 list) list \<times> u64"

definition block_payload :: "block \<Rightarrow> u64 list" where
  "block_payload = (\<lambda>(cached, inl, w). concat (map snd cached) @ inline_words inl)"

definition block_words :: "block \<Rightarrow> u64 list" where
  "block_words = (\<lambda>(cached, inl, w). concat (map snd cached) @ inline_words inl @
     [REC_END_SYMBOL OR ucast REC_BEFORE_BLOCK_BEGIN, w])"

definition block_items :: "block \<Rightarrow> (dift_record \<times> u64 list) list" where
  "block_items = (\<lambda>(cached, inl, w). cached @ inl)"

definition block_ok :: "dift_globals \<Rightarrow> u64 list \<Rightarrow> block \<Rightarrow> bool" where
  "block_ok g buf b \<longleftrightarrow>
     list_all (item_ok g) (block_items b) \<and> list_all (list_all plain \<circ> snd) (block_items b) \<and>
     length (block_payload b) < Q_ADDRS_SIZE \<and>
     (case b of (cached, inl, w) \<Rightarrow> holds_records buf w (map fst cached))"

lemma mainloop_collect:
  "list_all plain ps \<Longrightarrow> length (q_addrs st) + length ps < Suc Q_ADDRS_SIZE \<Longrightarrow>
   analysis_mainloop g st (ps @ ws) = analysis_mainloop g (st\<lparr>q_addrs := q_addrs st @ ps\<rparr>) ws"
proof (induction ps arbitrary: st)
  case (Cons p ps)
  have "analysis_mainloop g st ((p # ps) @ ws) =
      analysis_mainloop g (st\<lparr>q_addrs := q_addrs st @ [p]\<rparr>) (ps @ ws)"
    using Cons.prems by (subst analysis_mainloop.simps) (simp add: plain_def)
  then show ?case
    using Cons.IH [of "st\<lparr>q_addrs := q_addrs st @ [p]\<rparr>"] Cons.prems by simp
qed simp

lemma plain_inline:
  "list_all (item_ok g) its \<Longrightarrow> list_all (list_all plain \<circ> snd) its \<Longrightarrow> list_all plain (inline_words its)"
  by (induction its) (auto simp: inline_words_def dest: plain_item)

lemma plain_addresses: "list_all (list_all plain \<circ> snd) its \<Longrightarrow> list_all plain (concat (map snd its))"
  by (induction its) simp_all

lemma plain_payload: "block_ok g buf b \<Longrightarrow> list_all plain (block_payload b)"
  by (cases b) (auto simp: block_ok_def block_items_def block_payload_def
      intro!: plain_addresses plain_inline)

lemma mainloop_block:
  assumes "wf_globals g" and "block_ok g (an_buf st) b" and "q_addrs st = []"
    and "exec_items g (block_items b) (an_dc st) = Some dc'"
  shows "analysis_mainloop g st (block_words b @ ws) = analysis_mainloop g (st\<lparr>an_dc := dc'\<rparr>) ws"
proof -
  obtain cached inl w where b: "b = (cached, inl, w)" by (cases b)
  let ?mark = "REC_END_SYMBOL OR ucast REC_BEFORE_BLOCK_BEGIN"
  let ?st = "st\<lparr>q_addrs := block_payload b\<rparr>"
  have "analysis_mainloop g st (block_words b @ ws) = analysis_mainloop g ?st (?mark # w # ws)"
    using mainloop_collect [OF plain_payload [OF assms(2)], of st g "?mark # w # ws"] assms(2,3)
    by (simp add: b block_words_def block_payload_def block_ok_def)
  also have "\<dots> = analysis_mainloop g (?st\<lparr>an_dc := dc', an_buf := an_buf st, q_addrs := []\<rparr>) ws"
  proof -
    have "interpret_dift_codes g (an_buf st) (an_dc st) w
        (concat (map snd cached) @ inline_words inl @ [ucast REC_END]) = Some (dc', an_buf st)"
      using assms by (intro interpret_block) (simp_all add: b block_ok_def block_items_def)
    moreover have "?mark \<noteq> REC_END_SYMBOL OR ucast REC_SYNC"
      by (simp add: case_nb_defs)
    ultimately show ?thesis
      using assms(2) by (subst analysis_mainloop.simps) (simp add: b block_ok_def block_payload_def)
  qed
  finally show ?thesis
    using assms(3) by (cases st) simp
qed

lemma mainloop_blocks:
  assumes "wf_globals g"
  shows "list_all (block_ok g (an_buf st)) bs \<Longrightarrow> q_addrs st = [] \<Longrightarrow>
    exec_items g (concat (map block_items bs)) (an_dc st) = Some dc' \<Longrightarrow>
    analysis_mainloop g st (concat (map block_words bs) @ ws) = analysis_mainloop g (st\<lparr>an_dc := dc'\<rparr>) ws"
proof (induction bs arbitrary: st)
  case Nil
  then show ?case by (cases st) simp
next
  case (Cons b bs)
  obtain dc1 where dc1: "exec_items g (block_items b) (an_dc st) = Some dc1"
    and rest: "exec_items g (concat (map block_items bs)) dc1 = Some dc'"
    using Cons.prems(3) by (auto simp: exec_items_append bind_eq_Some_conv)
  have "analysis_mainloop g st (concat (map block_words (b # bs)) @ ws) =
      analysis_mainloop g (st\<lparr>an_dc := dc1\<rparr>) (concat (map block_words bs) @ ws)"
    using Cons.prems mainloop_block [OF assms _ _ dc1] by simp
  then show ?case
    using Cons.IH [of "st\<lparr>an_dc := dc1\<rparr>"] Cons.prems rest by simp
qed

section \<open>Properties\<close>

text \<open>C21: interpreting a translated block executes exactly the records the block ran through in the
  code buffer, in order, each with its own addresses, and then the records the block pushed
  directly; it returns, and it leaves the code buffer, in which it planted its end mark, as it
  found it.\<close>

theorem interpret_dift_codes_block:
  assumes "wf_globals g" and "list_all (item_ok g) (cached @ inl)"
    and "holds_records buf w (map fst cached)"
  shows "\<exists>dc'. exec_items g (cached @ inl) dc = Some dc' \<and>
    interpret_dift_codes g buf dc w (concat (map snd cached) @ inline_words inl @ [ucast REC_END]) =
      Some (dc', buf)"
  using exec_items_total [OF assms(1,2), of dc] interpret_block [OF assms] by blast

definition demo_move :: dift_record where
  "demo_move = DIFT_REC_EMPTY\<lparr>case_nb := REG_REG_OO_ASSIGN_MO32, padding1 := 5, padding2 := 1\<rparr>"

definition demo_store :: dift_record where
  "demo_store = DIFT_REC_EMPTY\<lparr>case_nb := MEM_REG_OO_ASSIGN_MO32, padding1 := 1\<rparr>"

lemma demo_items_ok: "list_all (item_ok demo_globals) [(demo_move, []), (demo_store, [0x40])]"
  by (simp add: item_ok_def demo_move_def demo_store_def shape_tbl_def case_nb_defs record_view_defs)

lemma demo_code_word:
  "code_begin 0x10000 = 0" "code_end 0x10000 = 1"
  by (simp_all add: code_begin_def code_end_def code_loc_def code_cntr_def code_off_def)

theorem interpret_dift_codes_block_witness:
  "\<exists>dc'. exec_items demo_globals [(demo_move, []), (demo_store, [0x40])] demo_tainted = Some dc' \<and>
    interpret_dift_codes demo_globals [u64_of_rec demo_move, 7] demo_tainted 0x10000
      [u64_of_rec demo_store, 0x40, ucast REC_END] = Some (dc', [u64_of_rec demo_move, 7])"
proof -
  have "holds_records [u64_of_rec demo_move, 7] 0x10000 (map fst [(demo_move, [] :: u64 list)])"
    by (simp add: holds_records_def demo_code_word)
  then show ?thesis
    using interpret_dift_codes_block [OF wf_demo_globals, of "[(demo_move, [])]" "[(demo_store, [0x40])]"
        "[u64_of_rec demo_move, 7]" "0x10000" demo_tainted] demo_items_ok
    by (simp add: inline_words_def)
qed

text \<open>C20: the analysis thread processes the queue block by block. For any sequence of well-formed
  blocks the main loop never leaves an array, ends waiting for more words with an empty address
  buffer, and has executed exactly the records of all blocks in order; with every record's tag
  within a mask, the whole context is.\<close>

theorem analysis_mainloop_blocks:
  assumes "wf_globals g" and "list_all (block_ok g (an_buf st)) bs" and "q_addrs st = []"
    and "ctx_within T (an_dc st)" and "list_all (\<lambda>(r, as). tag_ok T r) (concat (map block_items bs))"
  shows "\<exists>dc'. exec_items g (concat (map block_items bs)) (an_dc st) = Some dc' \<and> ctx_within T dc' \<and>
    analysis_mainloop g st (concat (map block_words bs)) = Some (st\<lparr>an_dc := dc'\<rparr>, [])"
proof -
  have "list_all (item_ok g) (concat (map block_items bs))"
    using assms(2) by (auto simp: list_all_iff block_ok_def)
  then obtain dc' where dc': "exec_items g (concat (map block_items bs)) (an_dc st) = Some dc'"
    using exec_items_total [OF assms(1)] by blast
  then have "ctx_within T dc'"
    using exec_items_keeps [OF assms(4,5), of g] by (simp add: opt_postD)
  moreover have "analysis_mainloop g st (concat (map block_words bs)) = Some (st\<lparr>an_dc := dc'\<rparr>, [])"
    using mainloop_blocks [OF assms(1-3) dc', of "[]"]
    by (simp add: analysis_mainloop.simps [of _ _ "[]"])
  ultimately show ?thesis using dc' by blast
qed

theorem analysis_mainloop_blocks_witness:
  "\<exists>dc'. ctx_within 0x7f dc' \<and> analysis_mainloop demo_globals
       \<lparr>an_dc = demo_tainted, an_buf = [u64_of_rec demo_move, 7], q_addrs = [], dift_thread_ok_signal = False\<rparr>
       [u64_of_rec demo_store, 0x40, REC_END_SYMBOL OR ucast REC_BEFORE_BLOCK_BEGIN, 0x10000] =
     Some (\<lparr>an_dc = dc', an_buf = [u64_of_rec demo_move, 7], q_addrs = [], dift_thread_ok_signal = False\<rparr>, [])"
proof -
  let ?st = "\<lparr>an_dc = demo_tainted, an_buf = [u64_of_rec demo_move, 7], q_addrs = [],
      dift_thread_ok_signal = False\<rparr>"
  let ?b = "([(demo_move, [])], [(demo_store, [0x40])], 0x10000)"
  have "block_ok demo_globals (an_buf ?st) ?b"
    using demo_items_ok
    by (simp add: block_ok_def block_items_def block_payload_def inline_words_def Q_ADDRS_SIZE_def
        holds_records_def demo_code_word plain_def case_nb_defs)
  then show ?thesis
    using analysis_mainloop_blocks [OF wf_demo_globals, of ?st "[?b]" "0x7f"] demo_tainted_within
    by (auto simp: block_items_def block_words_def inline_words_def tag_ok_def demo_move_def
        demo_store_def case_nb_defs)
qed

end
