(* ===== verification/DiftGen.thy ===== *)
theory DiftGen
  imports DiftInterp
begin

text \<open>
  The translator's side: the \<^verbatim>\<open>gen_dift_*\<close> functions of \<^verbatim>\<open>target-i386/translate.c\<close> that turn
  guest operations into records while a block is translated, and what the TCG operations they
  emit do when the block runs (\<^verbatim>\<open>tcg/i386/tcg-target.c\<close>). Up to the first label or helper call
  of a block the records go to the code buffer and only their addresses are pushed at run
  time; after it every record is pushed with its addresses, since the block may not run to
  its end. \<open>disas_context\<close> holds the fields of \<^verbatim>\<open>DisasContext\<close> and of its translation block
  that these functions use, with the globals they share.
\<close>

section \<open>State\<close>

datatype tcg_op =
    Op_dift_inc_diftcodes nat
  | Op_dift_enq_i64 u64
  | Op_dift_enq_wa
  | Op_dift_enq_ra
  | Op_dift_tb_begin nat

record disas_context =
  src_type :: u8
  dst_type :: u8
  src_reg :: u16
  dst_reg :: u16
  reg_base :: u32
  reg_index :: u32
  tb_code_loc :: nat
  tb_code_idx :: nat
  dift_enabled :: bool
  label_or_helper_appeared :: bool
  x86_64_hregs :: bool
  dift_code_buffer :: "u64 list"
  tcg_ops :: "tcg_op list"

definition tcg_gen :: "disas_context \<Rightarrow> tcg_op \<Rightarrow> disas_context" where
  "tcg_gen s op = s\<lparr>tcg_ops := tcg_ops s @ [op]\<rparr>"

section \<open>Emission\<close>

definition gen_dift_sync_i64 :: "disas_context \<Rightarrow> disas_context" where
  "gen_dift_sync_i64 s =
     (if \<not> label_or_helper_appeared s then tcg_gen s (Op_dift_inc_diftcodes (tb_code_idx s)) else s)"

definition gen_dift_enqueue_i64 :: "disas_context \<Rightarrow> u64 \<Rightarrow> disas_context option" where
  "gen_dift_enqueue_i64 s arg =
     (if \<not> label_or_helper_appeared s then
        (let i = tb_code_loc s + tb_code_idx s in
         if i < length (dift_code_buffer s) then
           (let s1 = s\<lparr>dift_code_buffer := (dift_code_buffer s)[i := arg], tb_code_idx := Suc (tb_code_idx s)\<rparr> in
            Some (if tb_code_idx s1 = CONFIG_IF_CODES_PER_TB - 1
                  then (gen_dift_sync_i64 s1)\<lparr>label_or_helper_appeared := True\<rparr>
                  else s1))
         else None)
      else Some (tcg_gen s (Op_dift_enq_i64 arg)))"

text \<open>\<^verbatim>\<open>WADDR\<close> is \<open>True\<close>, \<^verbatim>\<open>RADDR\<close> is \<open>False\<close>.\<close>

definition gen_dift_enqueue_addr :: "disas_context \<Rightarrow> bool \<Rightarrow> disas_context" where
  "gen_dift_enqueue_addr s is_wa = tcg_gen s (if is_wa then Op_dift_enq_wa else Op_dift_enq_ra)"

definition gen_dift_reg_reg ::
  "disas_context \<Rightarrow> u16 \<Rightarrow> u16 \<Rightarrow> u8 \<Rightarrow> u8 \<Rightarrow> u8 \<Rightarrow> u8 \<Rightarrow> disas_context option" where
  "gen_dift_reg_reg s dreg sreg effect ot dreg_byte sreg_byte =
     (if \<not> dift_enabled s then Some s
      else do { nb \<leftarrow> dift_rec_case_nb OPT_REG OPT_REG (ot AND 0x03) effect;
                let rec0 = DIFT_REC_EMPTY\<lparr>case_nb := nb\<rparr>;
                let rec1 = (if ot = MO_8
                  then rec0\<lparr>padding1 := ucast sreg, padding2 := ucast dreg,
                            padding3 := sreg_byte, padding4 := dreg_byte\<rparr>
                  else rec0\<lparr>padding1 := ucast sreg, padding2 := ucast dreg\<rparr>);
                gen_dift_enqueue_i64 s (u64_of_rec rec1) })"

definition gen_dift_reg_mem :: "disas_context \<Rightarrow> u16 \<Rightarrow> u8 \<Rightarrow> u8 \<Rightarrow> u8 \<Rightarrow> disas_context option" where
  "gen_dift_reg_mem s dst_reg_name effect ot hl_switch =
     (if \<not> dift_enabled s then Some s
      else do { nb \<leftarrow> dift_rec_case_nb OPT_REG OPT_MEM (ot AND 0x03) effect;
                let rec0 = DIFT_REC_EMPTY\<lparr>case_nb := nb\<rparr>;
                let rec1 = (if ot = MO_8
                  then rec0\<lparr>padding2 := hl_switch, padding1 := ucast dst_reg_name,
                            padding4 := ucast (reg_base s), padding3 := ucast (reg_index s)\<rparr>
                  else rec0\<lparr>padding1 := ucast dst_reg_name,
                            padding3 := ucast (reg_base s), padding2 := ucast (reg_index s)\<rparr>);
                s1 \<leftarrow> gen_dift_enqueue_i64 s (u64_of_rec rec1);
                Some (gen_dift_enqueue_addr s1 False) })"

definition gen_dift_mem_reg :: "disas_context \<Rightarrow> u16 \<Rightarrow> u8 \<Rightarrow> u8 \<Rightarrow> u8 \<Rightarrow> disas_context option" where
  "gen_dift_mem_reg s src_reg_name effect ot hl_switch =
     (if \<not> dift_enabled s then Some s
      else do { nb \<leftarrow> dift_rec_case_nb OPT_MEM OPT_REG (ot AND 0x03) effect;
                let rec0 = DIFT_REC_EMPTY\<lparr>case_nb := nb\<rparr>;
                let rec1 = (if ot = MO_8
                  then rec0\<lparr>padding2 := hl_switch, padding1 := ucast src_reg_name,
                            padding4 := ucast (reg_base s), padding3 := ucast (reg_index s)\<rparr>
                  else rec0\<lparr>padding1 := ucast src_reg_name,
                            padding3 := ucast (reg_base s), padding2 := ucast (reg_index s)\<rparr>);
                s1 \<leftarrow> gen_dift_enqueue_i64 s (u64_of_rec rec1);
                Some (gen_dift_enqueue_addr s1 True) })"

definition gen_dift_mem_mem :: "disas_context \<Rightarrow> u8 \<Rightarrow> u8 \<Rightarrow> disas_context option" where
  "gen_dift_mem_mem s effect ot =
     (if \<not> dift_enabled s then Some s
      else do { nb \<leftarrow> dift_rec_case_nb OPT_MEM OPT_MEM (ot AND 0x03) effect;
                s1 \<leftarrow> gen_dift_enqueue_i64 s (u64_of_rec (DIFT_REC_EMPTY\<lparr>case_nb := nb\<rparr>));
                Some (gen_dift_enqueue_addr (gen_dift_enqueue_addr s1 True) False) })"

definition gen_dift_reg_im :: "disas_context \<Rightarrow> u16 \<Rightarrow> u8 \<Rightarrow> u8 \<Rightarrow> disas_context option" where
  "gen_dift_reg_im s dst_reg_name ot hl_switch =
     (if \<not> dift_enabled s then Some s
      else do { nb \<leftarrow> dift_rec_case_nb OPT_REG OPT_IM (ot AND 0x03) EFFECT_CLEAR;
                let rec0 = DIFT_REC_EMPTY\<lparr>case_nb := nb\<rparr>;
                let rec1 = (if ot = MO_8
                  then rec0\<lparr>padding2 := hl_switch, padding1 := ucast dst_reg_name\<rparr>
                  else rec0\<lparr>padding1 := ucast dst_reg_name\<rparr>);
                gen_dift_enqueue_i64 s (u64_of_rec rec1) })"

definition gen_dift_mem_im :: "disas_context \<Rightarrow> u8 \<Rightarrow> disas_context option" where
  "gen_dift_mem_im s ot =
     (if \<not> dift_enabled s then Some s
      else do { nb \<leftarrow> dift_rec_case_nb OPT_MEM OPT_IM (ot AND 0x03) EFFECT_CLEAR;
                s1 \<leftarrow> gen_dift_enqueue_i64 s (u64_of_rec (DIFT_REC_EMPTY\<lparr>case_nb := nb\<rparr>));
                Some (gen_dift_enqueue_addr s1 True) })"

definition gen_dift_xmm_xmm :: "disas_context \<Rightarrow> u8 \<Rightarrow> u8 \<Rightarrow> u8 \<Rightarrow> u8 \<Rightarrow> disas_context option" where
  "gen_dift_xmm_xmm s xmm_dreg xmm_sreg xmm_ot effect =
     (if \<not> dift_enabled s then Some s
      else do { nb \<leftarrow> dift_rec_case_nb OPT_XMM OPT_XMM (xmm_ot AND 0x03) effect;
                gen_dift_enqueue_i64 s (u64_of_rec
                  (DIFT_REC_EMPTY\<lparr>case_nb := nb, padding2 := xmm_dreg, padding1 := xmm_sreg\<rparr>)) })"

definition gen_dift_xmm_mem :: "disas_context \<Rightarrow> u8 \<Rightarrow> u8 \<Rightarrow> u8 \<Rightarrow> disas_context option" where
  "gen_dift_xmm_mem s xmm_dreg xmm_ot effect =
     (if \<not> dift_enabled s then Some s
      else do { nb \<leftarrow> dift_rec_case_nb OPT_XMM OPT_MEM (xmm_ot AND 0x03) effect;
                s1 \<leftarrow> gen_dift_enqueue_i64 s (u64_of_rec
                  (DIFT_REC_EMPTY\<lparr>case_nb := nb, padding1 := xmm_dreg,
                     padding3 := ucast (reg_base s), padding2 := ucast (reg_index s)\<rparr>));
                Some (gen_dift_enqueue_addr s1 False) })"

definition gen_dift_mem_xmm :: "disas_context \<Rightarrow> u8 \<Rightarrow> u8 \<Rightarrow> u8 \<Rightarrow> disas_context option" where
  "gen_dift_mem_xmm s xmm_sreg xmm_ot effect =
     (if \<not> dift_enabled s then Some s
      else do { nb \<leftarrow> dift_rec_case_nb OPT_MEM OPT_XMM (xmm_ot AND 0x03) effect;
                s1 \<leftarrow> gen_dift_enqueue_i64 s (u64_of_rec
                  (DIFT_REC_EMPTY\<lparr>case_nb := nb, padding1 := xmm_sreg,
                     padding3 := ucast (reg_base s), padding2 := ucast (reg_index s)\<rparr>));
                Some (gen_dift_enqueue_addr s1 True) })"

definition gen_dift_xmm_reg :: "disas_context \<Rightarrow> u8 \<Rightarrow> u8 \<Rightarrow> u8 \<Rightarrow> u8 \<Rightarrow> disas_context option" where
  "gen_dift_xmm_reg s xmm_dreg sreg xmm_ot effect =
     (if \<not> dift_enabled s then Some s
      else do { nb \<leftarrow> dift_rec_case_nb OPT_XMM OPT_REG (xmm_ot AND 0x03) effect;
                gen_dift_enqueue_i64 s (u64_of_rec
                  (DIFT_REC_EMPTY\<lparr>case_nb := nb, padding1 := sreg, padding2 := xmm_dreg\<rparr>)) })"

definition gen_dift_reg_xmm :: "disas_context \<Rightarrow> u8 \<Rightarrow> u8 \<Rightarrow> u8 \<Rightarrow> u8 \<Rightarrow> disas_context option" where
  "gen_dift_reg_xmm s dreg xmm_sreg xmm_ot effect =
     (if \<not> dift_enabled s then Some s
      else do { nb \<leftarrow> dift_rec_case_nb OPT_REG OPT_XMM (xmm_ot AND 0x03) effect;
                gen_dift_enqueue_i64 s (u64_of_rec
                  (DIFT_REC_EMPTY\<lparr>case_nb := nb, padding1 := xmm_sreg, padding2 := dreg\<rparr>)) })"

definition gen_dift_xmm_im :: "disas_context \<Rightarrow> u8 \<Rightarrow> u8 \<Rightarrow> disas_context option" where
  "gen_dift_xmm_im s xmm_dreg xmm_ot =
     (if \<not> dift_enabled s then Some s
      else do { nb \<leftarrow> dift_rec_case_nb OPT_XMM OPT_IM (xmm_ot AND 0x03) XMM_EFFECT_CLEAR;
                gen_dift_enqueue_i64 s (u64_of_rec
                  (DIFT_REC_EMPTY\<lparr>case_nb := nb, padding1 := xmm_dreg\<rparr>)) })"

definition gen_dift_inside_reg :: "disas_context \<Rightarrow> u16 \<Rightarrow> u8 \<Rightarrow> u8 \<Rightarrow> u8 \<Rightarrow> disas_context option" where
  "gen_dift_inside_reg s reg dst_byte src_byte effect =
     (if \<not> dift_enabled s then Some s
      else do { nb \<leftarrow> dift_rec_case_nb OPT_REG OPT_REG MO_8 (effect OR EFFECT_INSIDE_REG);
                gen_dift_enqueue_i64 s (u64_of_rec
                  (DIFT_REC_EMPTY\<lparr>case_nb := nb, padding1 := ucast reg, padding2 := dst_byte,
                     padding3 := src_byte\<rparr>)) })"

text \<open>The register and byte an 8-bit operand is reported as: numbers above 3 are taken to be the
  second bytes of the first four registers.\<close>

definition byte_reg :: "u16 \<Rightarrow> u16" where "byte_reg r = (if 3 < r then r - 4 else r)"
definition byte_hl :: "u16 \<Rightarrow> u8" where "byte_hl r = (if 3 < r then 1 else 0)"

definition gen_dift_op :: "disas_context \<Rightarrow> u8 \<Rightarrow> u8 \<Rightarrow> disas_context option" where
  "gen_dift_op s effect ot =
     do { s1 \<leftarrow>
            (if dst_type s = OPT_REG then
               (if src_type s = OPT_REG then
                  (if ot = MO_8
                   then gen_dift_reg_reg s (byte_reg (dst_reg s)) (byte_reg (src_reg s)) effect ot
                          (byte_hl (dst_reg s)) (byte_hl (src_reg s))
                   else gen_dift_reg_reg s (dst_reg s) (src_reg s) effect ot 0 0)
                else if src_type s = OPT_MEM then
                  (if ot = MO_8
                   then gen_dift_reg_mem s (byte_reg (dst_reg s)) effect ot (byte_hl (dst_reg s))
                   else gen_dift_reg_mem s (dst_reg s) effect ot 0)
                else Some s)
             else if dst_type s = OPT_MEM then
               (if src_type s = OPT_REG then
                  (if ot = MO_8
                   then gen_dift_mem_reg s (byte_reg (src_reg s)) effect ot (byte_hl (src_reg s))
                   else gen_dift_mem_reg s (src_reg s) effect ot 0)
                else if src_type s = OPT_MEM then gen_dift_mem_mem s effect ot
                else if src_type s = OPT_IM then gen_dift_mem_im s ot
                else Some s)
             else Some s);
          Some (gen_dift_sync_i64 s1) }"

definition gen_dift_block_begin :: "disas_context \<Rightarrow> disas_context option" where
  "gen_dift_block_begin s =
     (if \<not> dift_enabled s then Some s
      else do { s1 \<leftarrow> gen_dift_enqueue_i64 (tcg_gen s (Op_dift_tb_begin (tb_code_loc s))) (ucast REC_BLOCK_BEGIN);
                Some (gen_dift_sync_i64 s1) })"

section \<open>Arithmetic instructions\<close>

text \<open>
  Which byte an 8-bit register number names in the guest: with a REX prefix
  (\<^verbatim>\<open>x86_64_hregs\<close>) and from number 8 on it is the lowest byte of that register.
\<close>

definition byte_reg_is_xH :: "disas_context \<Rightarrow> u16 \<Rightarrow> bool" where
  "byte_reg_is_xH s reg = (if reg < 4 then False else if 8 \<le> reg \<or> x86_64_hregs s then False else True)"

datatype alu_op = OP_ADDL | OP_ORL | OP_ADCL | OP_SBBL | OP_ANDL | OP_SUBL | OP_XORL | OP_CMPL

definition OR_TMP0 :: u16 where "OR_TMP0 = 16"

text \<open>
  The part of \<^verbatim>\<open>gen_op\<close> that reports the instruction. \<open>flags_helper\<close> says whether computing the
  carry for \<^verbatim>\<open>ADC\<close> and \<^verbatim>\<open>SBB\<close> (\<^verbatim>\<open>gen_compute_eflags_c\<close>) needed a helper call.
\<close>

definition gen_op_effect :: "alu_op \<Rightarrow> u8" where
  "gen_op_effect op =
     (if op = OP_ADCL \<or> op = OP_SBBL \<or> op = OP_ADDL \<or> op = OP_SUBL
      then EFFECT_APPEND OR EFFECT_MIX else EFFECT_APPEND OR EFFECT_ONE_TO_ONE)"

definition gen_op_dst :: "disas_context \<Rightarrow> u16 \<Rightarrow> disas_context" where
  "gen_op_dst s d = (if d \<noteq> OR_TMP0 then s\<lparr>dst_type := OPT_REG, dst_reg := d\<rparr> else s\<lparr>dst_type := OPT_MEM\<rparr>)"

definition gen_op :: "disas_context \<Rightarrow> alu_op \<Rightarrow> u8 \<Rightarrow> u16 \<Rightarrow> bool \<Rightarrow> disas_context option" where
  "gen_op s1 op ot d flags_helper =
     (let s2 = gen_op_dst s1 d in
      case op of
        OP_CMPL \<Rightarrow> Some s2
      | OP_ADCL \<Rightarrow> gen_dift_op (if flags_helper then s2\<lparr>label_or_helper_appeared := True\<rparr> else s2) (gen_op_effect op) ot
      | OP_SBBL \<Rightarrow> gen_dift_op (if flags_helper then s2\<lparr>label_or_helper_appeared := True\<rparr> else s2) (gen_op_effect op) ot
      | _ \<Rightarrow> gen_dift_op s2 (gen_op_effect op) ot)"

section \<open>Run time\<close>

text \<open>
  What the emitted operations do. \<open>rt_out\<close> are the words pushed through
  \<^verbatim>\<open>rt_enqueue_one_rec\<close> and its two variants; \<open>last_mem_read_addr\<close> and
  \<open>last_mem_write_addr\<close> are the host addresses the memory helpers left behind.
\<close>

record run_state =
  dift_code_loc :: u32
  dift_code_cntr :: u32
  dift_code_off :: u32
  rt_out :: "u64 list"

definition rt_enqueue :: "run_state \<Rightarrow> u64 \<Rightarrow> run_state" where
  "rt_enqueue rs w = rs\<lparr>rt_out := rt_out rs @ [w]\<rparr>"

definition block_word :: "u32 \<Rightarrow> u32 \<Rightarrow> u32 \<Rightarrow> u64" where
  "block_word loc cntr off = push_bit 32 (ucast loc) OR push_bit 16 (ucast cntr) OR ucast off"

fun run_op :: "dift_globals \<Rightarrow> u64 \<Rightarrow> u64 \<Rightarrow> tcg_op \<Rightarrow> run_state \<Rightarrow> run_state" where
  "run_op g rd wr (Op_dift_inc_diftcodes n) rs = rs\<lparr>dift_code_cntr := of_nat n\<rparr>"
| "run_op g rd wr (Op_dift_enq_i64 w) rs = rt_enqueue rs w"
| "run_op g rd wr Op_dift_enq_wa rs = rt_enqueue rs (wr - phys_ram_base g)"
| "run_op g rd wr Op_dift_enq_ra rs = rt_enqueue rs (rd - phys_ram_base g)"
| "run_op g rd wr (Op_dift_tb_begin n) rs =
     (let rs1 = rt_enqueue rs (REC_END_SYMBOL OR ucast REC_BEFORE_BLOCK_BEGIN);
          rs2 = rt_enqueue rs1 (block_word (dift_code_loc rs1) (dift_code_cntr rs1) (dift_code_off rs1))
      in rs2\<lparr>dift_code_loc := of_nat (n div CONFIG_IF_CODES_PER_TB), dift_code_cntr := 0, dift_code_off := 0\<rparr>)"

text \<open>An execution of a block: its operations, each with the addresses current at that moment.\<close>

primrec run_exec :: "dift_globals \<Rightarrow> (tcg_op \<times> u64 \<times> u64) list \<Rightarrow> run_state \<Rightarrow> run_state" where
  "run_exec g [] rs = rs"
| "run_exec g (x # ex) rs = run_exec g ex (run_op g (fst (snd x)) (snd (snd x)) (fst x) rs)"

section \<open>Sequences of calls\<close>

text \<open>
  What a translated block asks for, seen by the emission functions: a record with the kinds of
  its addresses, a synchronisation of the counter, or a label or helper call
  (\<^verbatim>\<open>gen_new_label\<close> and \<^verbatim>\<open>tcg_gen_callN\<close> of \<^verbatim>\<open>tcg/tcg.c\<close> set the flag).
\<close>

datatype gen_call = GRec dift_record "bool list" | GSync | GHelper

fun do_call :: "gen_call \<Rightarrow> disas_context \<Rightarrow> disas_context option" where
  "do_call (GRec r ks) s =
     do { s1 \<leftarrow> gen_dift_enqueue_i64 s (u64_of_rec r); Some (foldl gen_dift_enqueue_addr s1 ks) }"
| "do_call GSync s = Some (gen_dift_sync_i64 s)"
| "do_call GHelper s = Some (s\<lparr>label_or_helper_appeared := True\<rparr>)"

primrec do_calls :: "gen_call list \<Rightarrow> disas_context \<Rightarrow> disas_context option" where
  "do_calls [] s = Some s"
| "do_calls (c # cs) s = do { s1 \<leftarrow> do_call c s; do_calls cs s1 }"

fun calls_recs :: "gen_call list \<Rightarrow> (dift_record \<times> bool list) list" where
  "calls_recs [] = []"
| "calls_recs (GRec r ks # cs) = (r, ks) # calls_recs cs"
| "calls_recs (_ # cs) = calls_recs cs"

text \<open>No label or helper call, and no end of the block, between a record and its synchronisation.\<close>

fun synced :: "bool \<Rightarrow> gen_call list \<Rightarrow> bool" where
  "synced pend [] = (\<not> pend)"
| "synced pend (GRec r ks # cs) = synced True cs"
| "synced pend (GSync # cs) = synced False cs"
| "synced pend (GHelper # cs) = (\<not> pend)"

text \<open>
  Items for the records of a sequence of calls: each address is one that an operation of the right
  kind found during the execution.
\<close>

definition addr_op :: "bool \<Rightarrow> tcg_op" where
  "addr_op is_wa = (if is_wa then Op_dift_enq_wa else Op_dift_enq_ra)"

definition addr_found :: "dift_globals \<Rightarrow> (tcg_op \<times> u64 \<times> u64) list \<Rightarrow> u64 \<Rightarrow> bool \<Rightarrow> bool" where
  "addr_found g ex a is_wa \<longleftrightarrow>
     (\<exists>rd wr. (addr_op is_wa, rd, wr) \<in> set ex \<and> a = (if is_wa then wr else rd) - phys_ram_base g)"

definition fits ::
  "dift_globals \<Rightarrow> (tcg_op \<times> u64 \<times> u64) list \<Rightarrow> (dift_record \<times> u64 list) list \<Rightarrow>
   (dift_record \<times> bool list) list \<Rightarrow> bool" where
  "fits g ex its rks \<longleftrightarrow>
     list_all2 (\<lambda>it rk. fst it = fst rk \<and> list_all2 (addr_found g ex) (snd it) (snd rk)) its rks"

lemma fits_simps [simp]:
  "fits g ex [] []"
  "fits g ex (it # its) (rk # rks) \<longleftrightarrow>
     fst it = fst rk \<and> list_all2 (addr_found g ex) (snd it) (snd rk) \<and> fits g ex its rks"
  by (simp_all add: fits_def)

lemma fits_append: "fits g ex xs rs \<Longrightarrow> fits g ex ys ss \<Longrightarrow> fits g ex (xs @ ys) (rs @ ss)"
  unfolding fits_def by (rule list_all2_appendI)

lemma addr_found_mono: "addr_found g ex a k \<Longrightarrow> set ex \<subseteq> set ex' \<Longrightarrow> addr_found g ex' a k"
  unfolding addr_found_def by blast

lemma addrs_mono: "list_all2 (addr_found g ex) as ks \<Longrightarrow> set ex \<subseteq> set ex' \<Longrightarrow> list_all2 (addr_found g ex') as ks"
  by (erule list_all2_mono) (rule addr_found_mono)

lemma fits_mono: "fits g ex its rks \<Longrightarrow> set ex \<subseteq> set ex' \<Longrightarrow> fits g ex' its rks"
  unfolding fits_def by (erule list_all2_mono) (auto intro: addrs_mono)

lemma run_exec_append: "run_exec g (xs @ ys) rs = run_exec g ys (run_exec g xs rs)"
  by (induction xs arbitrary: rs) simp_all

lemma addr_ops:
  "foldl gen_dift_enqueue_addr s ks =
     s\<lparr>tcg_ops := tcg_ops s @ map addr_op ks\<rparr>"
  by (induction ks arbitrary: s) (simp_all add: gen_dift_enqueue_addr_def tcg_gen_def addr_op_def)

lemma run_addr_ops:
  assumes "map fst ex = map addr_op ks"
  shows "\<exists>as. list_all2 (addr_found g ex) as ks \<and> run_exec g ex rs = rs\<lparr>rt_out := rt_out rs @ as\<rparr>"
  using assms
proof (induction ks arbitrary: ex rs)
  case (Cons k ks)
  then obtain rd wr ex' where ex: "ex = (addr_op k, rd, wr) # ex'" and ex': "map fst ex' = map addr_op ks"
    by (cases ex) auto
  define w where "w = (if k then wr else rd) - phys_ram_base g"
  have "run_op g rd wr (addr_op k) rs = rt_enqueue rs w"
    by (simp add: addr_op_def w_def)
  moreover have "addr_found g ex w k"
    by (auto simp: addr_found_def w_def ex)
  moreover obtain as where "list_all2 (addr_found g ex') as ks"
    and "run_exec g ex' (rt_enqueue rs w) = rs\<lparr>rt_out := rt_out rs @ w # as\<rparr>"
    using Cons.IH [OF ex', of "rt_enqueue rs w"] by (auto simp: rt_enqueue_def)
  moreover from this(1) have "list_all2 (addr_found g ex) as ks"
    by (rule addrs_mono) (auto simp: ex)
  ultimately show ?case
    by (intro exI [of _ "w # as"]) (simp add: ex)
qed (simp add: exI [of _ "[]"])

lemma split_exec:
  assumes "map fst ex = xs @ ys"
  obtains ex1 ex2 where "ex = ex1 @ ex2" "map fst ex1 = xs" "map fst ex2 = ys"
  using assms by (metis append_eq_map_conv)

text \<open>After a label or helper call: records go out with their addresses, the buffer rests.\<close>

lemma do_call_ops: "do_call c s = Some s1 \<Longrightarrow> \<exists>ops. tcg_ops s1 = tcg_ops s @ ops"
  by (cases c) (auto simp: bind_eq_Some_conv addr_ops gen_dift_enqueue_i64_def gen_dift_sync_i64_def
      tcg_gen_def Let_def split: if_splits)

lemma do_calls_ops_mono: "do_calls cs s = Some s' \<Longrightarrow> \<exists>ops. tcg_ops s' = tcg_ops s @ ops"
proof (induction cs arbitrary: s)
  case (Cons c cs)
  then obtain s1 where s1: "do_call c s = Some s1" "do_calls cs s1 = Some s'"
    by (auto simp: bind_eq_Some_conv)
  with Cons.IH [OF s1(2)] do_call_ops [OF s1(1)] show ?case by auto
qed simp

text \<open>An execution of the operations of some calls splits at the first call.\<close>

lemma split_calls:
  assumes "do_calls (c # cs) s = Some s'" and "tcg_ops s' = tcg_ops s @ map fst ex"
  obtains s1 ex1 ex2 where "do_call c s = Some s1" "do_calls cs s1 = Some s'" "ex = ex1 @ ex2"
    "tcg_ops s1 = tcg_ops s @ map fst ex1" "tcg_ops s' = tcg_ops s1 @ map fst ex2"
proof -
  obtain s1 where s1: "do_call c s = Some s1" "do_calls cs s1 = Some s'"
    using assms(1) by (auto simp: bind_eq_Some_conv)
  obtain ops1 ops2 where "tcg_ops s1 = tcg_ops s @ ops1" "tcg_ops s' = tcg_ops s1 @ ops2"
    using do_call_ops [OF s1(1)] do_calls_ops_mono [OF s1(2)] by blast
  moreover from this assms(2) have "map fst ex = ops1 @ ops2" by simp
  then obtain ex1 ex2 where "ex = ex1 @ ex2" "map fst ex1 = ops1" "map fst ex2 = ops2"
    by (rule split_exec)
  ultimately show ?thesis using that [OF s1] by simp
qed

definition inline_run ::
  "dift_globals \<Rightarrow> (tcg_op \<times> u64 \<times> u64) list \<Rightarrow> run_state \<Rightarrow> disas_context \<Rightarrow>
   (dift_record \<times> bool list) list \<Rightarrow> disas_context \<Rightarrow> bool" where
  "inline_run g ex rs s rks s' \<longleftrightarrow>
     (\<exists>inl. fits g ex inl rks \<and> run_exec g ex rs = rs\<lparr>rt_out := rt_out rs @ inline_words inl\<rparr>) \<and>
     dift_code_buffer s' = dift_code_buffer s \<and> tb_code_loc s' = tb_code_loc s \<and> tb_code_idx s' = tb_code_idx s"

lemma inline_rec:
  assumes "label_or_helper_appeared s" and "do_call (GRec r ks) s = Some s1"
    and "tcg_ops s1 = tcg_ops s @ map fst ex1" and "inline_run g ex2 (run_exec g ex1 rs) s1 rks s'"
  shows "inline_run g (ex1 @ ex2) rs s ((r, ks) # rks) s'"
proof -
  have s1: "s1 = s\<lparr>tcg_ops := tcg_ops s @ Op_dift_enq_i64 (u64_of_rec r) # map addr_op ks\<rparr>"
    using assms(1,2) by (simp add: gen_dift_enqueue_i64_def addr_ops tcg_gen_def)
  then obtain x ex where ex1: "ex1 = x # ex" "fst x = Op_dift_enq_i64 (u64_of_rec r)" "map fst ex = map addr_op ks"
    using assms(3) by (cases ex1) auto
  obtain as where as: "list_all2 (addr_found g ex) as ks"
    and run: "run_exec g ex1 rs = rs\<lparr>rt_out := rt_out rs @ u64_of_rec r # as\<rparr>"
    using run_addr_ops [OF ex1(3), of g "rt_enqueue rs (u64_of_rec r)"] ex1(1,2)
    by (auto simp: rt_enqueue_def)
  obtain inl where "fits g ex2 inl rks" and "run_exec g ex2 (run_exec g ex1 rs) =
      (run_exec g ex1 rs)\<lparr>rt_out := rt_out (run_exec g ex1 rs) @ inline_words inl\<rparr>"
    using assms(4) unfolding inline_run_def by blast
  moreover have "set ex \<subseteq> set (ex1 @ ex2)" by (auto simp: ex1(1))
  ultimately have "fits g (ex1 @ ex2) ((r, as) # inl) ((r, ks) # rks) \<and>
      run_exec g (ex1 @ ex2) rs = rs\<lparr>rt_out := rt_out rs @ inline_words ((r, as) # inl)\<rparr>"
    using addrs_mono [OF as, of "ex1 @ ex2"] fits_mono [of g ex2 inl rks "ex1 @ ex2"]
    by (simp add: run run_exec_append inline_words_def)
  moreover have "dift_code_buffer s' = dift_code_buffer s" "tb_code_loc s' = tb_code_loc s" "tb_code_idx s' = tb_code_idx s"
    using assms(4) by (auto simp: inline_run_def s1)
  ultimately show ?thesis unfolding inline_run_def by blast
qed

lemma inline_calls:
  assumes "label_or_helper_appeared s" and "do_calls cs s = Some s'"
    and "tcg_ops s' = tcg_ops s @ map fst ex"
  shows "inline_run g ex rs s (calls_recs cs) s'"
  using assms
proof (induction cs arbitrary: s ex rs)
  case Nil
  then show ?case by (auto simp: inline_run_def inline_words_def intro!: exI [of _ "[]"])
next
  case (Cons c cs)
  from Cons.prems(2,3) obtain s1 ex1 ex2 where s1: "do_call c s = Some s1" "do_calls cs s1 = Some s'"
    and ex: "ex = ex1 @ ex2" and ops: "tcg_ops s1 = tcg_ops s @ map fst ex1" "tcg_ops s' = tcg_ops s1 @ map fst ex2"
    by (rule split_calls)
  show ?case
  proof (cases c)
    case (GRec r ks)
    have "label_or_helper_appeared s1"
      using s1(1) Cons.prems(1) GRec by (auto simp: gen_dift_enqueue_i64_def addr_ops tcg_gen_def)
    then show ?thesis
      using inline_rec [OF Cons.prems(1) _ ops(1)] s1(1) Cons.IH [OF _ s1(2) ops(2)] by (simp add: GRec ex)
  next
    case GSync
    then show ?thesis
      using Cons.IH [of s ex rs] Cons.prems s1 by (simp add: gen_dift_sync_i64_def)
  next
    case GHelper
    then show ?thesis
      using Cons.IH [of s1 ex rs] Cons.prems s1 by (auto simp: inline_run_def)
  qed
qed

text \<open>Before it: records go to the buffer, only addresses are pushed, and the counter follows.\<close>

definition cached_in :: "u64 list \<Rightarrow> nat \<Rightarrow> dift_record list \<Rightarrow> u64 list \<Rightarrow> bool" where
  "cached_in buf i rs buf' \<longleftrightarrow>
     i + length rs \<le> length buf \<and> buf' = take i buf @ map u64_of_rec rs @ drop (i + length rs) buf"

lemma cached_in_Nil [simp]: "cached_in buf i [] buf' \<longleftrightarrow> i \<le> length buf \<and> buf' = buf"
  by (auto simp: cached_in_def)

lemma cached_in_Cons:
  assumes "i < length buf" and "cached_in (buf[i := u64_of_rec r]) (Suc i) rs buf'"
  shows "cached_in buf i (r # rs) buf'"
  using assms by (auto simp: cached_in_def take_Suc_conv_app_nth drop_update_swap take_update_swap
      upd_conv_take_nth_drop add.commute)

lemma enqueue_cached:
  assumes "\<not> label_or_helper_appeared s" and "do_call (GRec r ks) s = Some s1"
  defines "i \<equiv> tb_code_loc s + tb_code_idx s"
  shows "i < length (dift_code_buffer s)"
    and "dift_code_buffer s1 = (dift_code_buffer s)[i := u64_of_rec r]"
    and "tb_code_loc s1 = tb_code_loc s" and "tb_code_idx s1 = Suc (tb_code_idx s)"
    and "label_or_helper_appeared s1 \<longleftrightarrow> Suc (tb_code_idx s) = 159"
    and "tcg_ops s1 = tcg_ops s @ (if Suc (tb_code_idx s) = 159 then [Op_dift_inc_diftcodes 159] else []) @
      map addr_op ks"
  using assms by (auto simp: gen_dift_enqueue_i64_def bind_eq_Some_conv addr_ops Let_def
      gen_dift_sync_i64_def tcg_gen_def CONFIG_IF_CODES_PER_TB_def split: if_splits)

lemma run_cached_ops:
  assumes "map fst ex = (if full then [Op_dift_inc_diftcodes 159] else []) @ map addr_op ks"
  obtains as where "list_all2 (addr_found g ex) as ks"
    and "run_exec g ex rs = rs\<lparr>rt_out := rt_out rs @ as,
      dift_code_cntr := (if full then 159 else dift_code_cntr rs)\<rparr>"
proof -
  obtain ex1 ex2 where ex: "ex = ex1 @ ex2"
    and ex1: "map fst ex1 = (if full then [Op_dift_inc_diftcodes 159] else [])"
    and ex2: "map fst ex2 = map addr_op ks"
    using assms by (rule split_exec)
  have "run_exec g ex1 rs = rs\<lparr>dift_code_cntr := (if full then 159 else dift_code_cntr rs)\<rparr>"
    using ex1 by (cases full) auto
  moreover obtain as where "list_all2 (addr_found g ex2) as ks" and
    "run_exec g ex2 (run_exec g ex1 rs) = (run_exec g ex1 rs)\<lparr>rt_out := rt_out (run_exec g ex1 rs) @ as\<rparr>"
    using run_addr_ops [OF ex2] by blast
  ultimately show ?thesis
    using addrs_mono [of g ex2 as ks ex] by (intro that [of as]) (auto simp: ex run_exec_append)
qed

definition cached_run ::
  "dift_globals \<Rightarrow> (tcg_op \<times> u64 \<times> u64) list \<Rightarrow> run_state \<Rightarrow> disas_context \<Rightarrow>
   (dift_record \<times> bool list) list \<Rightarrow> disas_context \<Rightarrow> bool" where
  "cached_run g ex rs s rks s' \<longleftrightarrow>
     (\<exists>cached inl. fits g ex (cached @ inl) rks \<and>
        run_exec g ex rs = rs\<lparr>rt_out := rt_out rs @ concat (map snd cached) @ inline_words inl,
          dift_code_cntr := of_nat (tb_code_idx s')\<rparr> \<and>
        cached_in (dift_code_buffer s) (tb_code_loc s + tb_code_idx s) (map fst cached) (dift_code_buffer s') \<and>
        tb_code_idx s' = tb_code_idx s + length cached) \<and>
     tb_code_loc s' = tb_code_loc s \<and> tb_code_idx s' \<le> 159"

lemma inline_cached:
  assumes "inline_run g ex rs s rks s'" and "dift_code_cntr rs = of_nat (tb_code_idx s)" "tb_code_idx s \<le> 159"
    and "tb_code_loc s + tb_code_idx s \<le> length (dift_code_buffer s)"
  shows "cached_run g ex rs s rks s'"
proof -
  obtain inl where "fits g ex inl rks" "run_exec g ex rs = rs\<lparr>rt_out := rt_out rs @ inline_words inl\<rparr>"
    using assms(1) by (auto simp: inline_run_def)
  with assms show ?thesis
    unfolding cached_run_def inline_run_def by (intro conjI exI [of _ "[]"] exI [of _ inl]) simp_all
qed

lemma cached_rec:
  assumes "\<not> label_or_helper_appeared s" and "do_call (GRec r ks) s = Some s1"
    and "tcg_ops s1 = tcg_ops s @ map fst ex1" and "cached_run g ex2 (run_exec g ex1 rs) s1 rks s'"
  shows "cached_run g (ex1 @ ex2) rs s ((r, ks) # rks) s'"
proof -
  note enq = enqueue_cached [OF assms(1,2)]
  have "map fst ex1 = (if Suc (tb_code_idx s) = 159 then [Op_dift_inc_diftcodes 159] else []) @ map addr_op ks"
    using assms(3) unfolding enq(6) by simp
  then obtain as where as: "list_all2 (addr_found g ex1) as ks"
    and run: "run_exec g ex1 rs = rs\<lparr>rt_out := rt_out rs @ as,
      dift_code_cntr := (if Suc (tb_code_idx s) = 159 then 159 else dift_code_cntr rs)\<rparr>"
    by (rule run_cached_ops)
  obtain cached inl where c: "fits g ex2 (cached @ inl) rks"
    "run_exec g ex2 (run_exec g ex1 rs) = (run_exec g ex1 rs)\<lparr>rt_out := rt_out (run_exec g ex1 rs) @
       concat (map snd cached) @ inline_words inl, dift_code_cntr := of_nat (tb_code_idx s')\<rparr>"
    "cached_in (dift_code_buffer s1) (tb_code_loc s1 + tb_code_idx s1) (map fst cached) (dift_code_buffer s')"
    "tb_code_idx s' = tb_code_idx s1 + length cached"
    using assms(4) unfolding cached_run_def by blast
  have "fits g (ex1 @ ex2) (((r, as) # cached) @ inl) ((r, ks) # rks)"
    using addrs_mono [OF as, of "ex1 @ ex2"] fits_mono [OF c(1), of "ex1 @ ex2"] by simp
  moreover have "cached_in (dift_code_buffer s) (tb_code_loc s + tb_code_idx s) (r # map fst cached) (dift_code_buffer s')"
    using c(3) enq(1-4) by (intro cached_in_Cons) simp_all
  ultimately show ?thesis
    using assms(4) c(2,4) enq(3,4) unfolding cached_run_def
    by (intro conjI exI [of _ "(r, as) # cached"] exI [of _ inl]) (simp_all add: run run_exec_append)
qed

lemma cached_sync:
  assumes "\<not> label_or_helper_appeared s" and "tcg_ops (gen_dift_sync_i64 s) = tcg_ops s @ map fst ex1"
    and "cached_run g ex2 (run_exec g ex1 rs) (gen_dift_sync_i64 s) rks s'"
  shows "cached_run g (ex1 @ ex2) rs s rks s'"
proof -
  obtain x where ex1: "ex1 = [x]" "fst x = Op_dift_inc_diftcodes (tb_code_idx s)"
    using assms(1,2) by (auto simp: gen_dift_sync_i64_def tcg_gen_def)
  obtain cached inl where c: "fits g ex2 (cached @ inl) rks"
    "run_exec g (ex1 @ ex2) rs = rs\<lparr>rt_out := rt_out rs @ concat (map snd cached) @ inline_words inl,
       dift_code_cntr := of_nat (tb_code_idx s')\<rparr>"
    "cached_in (dift_code_buffer s) (tb_code_loc s + tb_code_idx s) (map fst cached) (dift_code_buffer s')"
    "tb_code_idx s' = tb_code_idx s + length cached"
    using assms(1,3) unfolding cached_run_def
    by (auto simp: run_exec_append ex1 gen_dift_sync_i64_def tcg_gen_def)
  then show ?thesis
    using assms(1,3) fits_mono [OF c(1), of "ex1 @ ex2"] unfolding cached_run_def
    by (auto simp: gen_dift_sync_i64_def tcg_gen_def)
qed

lemma cached_calls:
  assumes "\<not> label_or_helper_appeared s" and "do_calls cs s = Some s'"
    and "tcg_ops s' = tcg_ops s @ map fst ex" and "synced pend cs"
    and "\<not> pend \<Longrightarrow> dift_code_cntr rs = of_nat (tb_code_idx s)" and "tb_code_idx s < 159"
    and "tb_code_loc s + tb_code_idx s \<le> length (dift_code_buffer s)"
  shows "cached_run g ex rs s (calls_recs cs) s'"
  using assms
proof (induction cs arbitrary: s ex rs pend)
  case Nil
  then show ?case
    by (intro inline_cached) (simp_all add: inline_run_def inline_words_def exI [of _ "[]"])
next
  case (Cons c cs)
  from Cons.prems(2,3) obtain s1 ex1 ex2 where s1: "do_call c s = Some s1" "do_calls cs s1 = Some s'"
    and ex: "ex = ex1 @ ex2" and ops: "tcg_ops s1 = tcg_ops s @ map fst ex1" "tcg_ops s' = tcg_ops s1 @ map fst ex2"
    by (rule split_calls)
  show ?case
  proof (cases c)
    case (GRec r ks)
    note enq = enqueue_cached [OF Cons.prems(1) s1(1) [unfolded GRec]]
    have "cached_run g ex2 (run_exec g ex1 rs) s1 (calls_recs cs) s'"
    proof (cases "Suc (tb_code_idx s) = 159")
      case True
      have "map fst ex1 = (if True then [Op_dift_inc_diftcodes 159] else []) @ map addr_op ks"
        using ops(1) True unfolding enq(6) by simp
      then have "dift_code_cntr (run_exec g ex1 rs) = 159"
        by (rule run_cached_ops [where g = g and rs = rs]) simp
      then show ?thesis
        using inline_calls [OF _ s1(2) ops(2), of g "run_exec g ex1 rs"] enq True
        by (intro inline_cached) simp_all
    next
      case False
      then show ?thesis
        using Cons.prems(4,6) enq GRec by (intro Cons.IH [where pend = True] s1(2) ops(2)) simp_all
    qed
    then show ?thesis
      using cached_rec [OF Cons.prems(1) s1(1) [unfolded GRec] ops(1)] by (simp add: GRec ex)
  next
    case GSync
    then have s1': "s1 = gen_dift_sync_i64 s" using s1(1) by simp
    have "cached_run g ex2 (run_exec g ex1 rs) s1 (calls_recs cs) s'"
      using Cons.prems GSync ops(1) unfolding s1'
      by (intro Cons.IH [where pend = False] s1(2) [unfolded s1'] ops(2) [unfolded s1'])
        (auto simp: gen_dift_sync_i64_def tcg_gen_def)
    then show ?thesis
      using cached_sync [OF Cons.prems(1)] ops(1) by (simp add: GSync ex s1')
  next
    case GHelper
    then have "s1 = s\<lparr>label_or_helper_appeared := True\<rparr>" "ex1 = []"
      using s1(1) ops(1) by auto
    then show ?thesis
      using Cons.prems GHelper inline_calls [OF _ s1(2) ops(2), of g rs]
      by (intro inline_cached) (simp_all add: ex inline_run_def)
  qed
qed

section \<open>What an operation emits\<close>

text \<open>
  The bytes a register operand names in the guest (as \<^verbatim>\<open>gen_op_mov_reg_v\<close> and
  \<^verbatim>\<open>gen_op_mov_v_reg\<close> access it).
\<close>

definition guest_reg_locs :: "disas_context \<Rightarrow> u16 \<Rightarrow> u8 \<Rightarrow> loc list" where
  "guest_reg_locs s r ot =
     (if ot = MO_8 then (if byte_reg_is_xH s r then [LReg (unat r - 4) 1] else [LReg (unat r) 0])
      else locs_from (LReg (unat r)) 0 (2 ^ unat ot))"

definition op_dst :: "disas_context \<Rightarrow> u8 \<Rightarrow> u64 list \<Rightarrow> loc list" where
  "op_dst s ot as =
     (if dst_type s = OPT_REG then guest_reg_locs s (dst_reg s) ot
      else locs_from LMem (unat (as ! 0)) (2 ^ unat ot))"

definition op_src :: "disas_context \<Rightarrow> u8 \<Rightarrow> u64 list \<Rightarrow> loc list" where
  "op_src s ot as =
     (if src_type s = OPT_REG then guest_reg_locs s (src_reg s) ot
      else locs_from LMem (unat (if dst_type s = OPT_MEM then as ! 1 else as ! 0)) (2 ^ unat ot))"

definition emits ::
  "disas_context \<Rightarrow> disas_context \<Rightarrow> operation \<Rightarrow> bool list \<Rightarrow> (u64 list \<Rightarrow> loc list) \<Rightarrow>
   (u64 list \<Rightarrow> loc list) \<Rightarrow> bool" where
  "emits s s' op ks ds ss \<longleftrightarrow>
     (\<exists>r. do_call (GRec r ks) s = Some s' \<and> (case_nb r, op) \<in> set case_spec \<and>
        length ks = addresses op \<and> dst_locs op r = ds \<and> src_locs op r = ss)"

lemma ot_cases: "ot < 4 \<Longrightarrow> ot = MO_8 \<or> ot = MO_16 \<or> ot = MO_32 \<or> ot = (MO_64 :: u8)"
proof -
  assume "ot < 4"
  then have "unat ot < 4" by (simp add: word_less_nat_alt)
  then have "unat ot = 0 \<or> unat ot = 1 \<or> unat ot = 2 \<or> unat ot = 3" by linarith
  then show ?thesis by (simp add: case_nb_defs word_unat_eq_iff)
qed

lemma case_nb_found:
  assumes "dift_rec_case_nb dst src (ot AND 0x03) e = Some nb" and "ot < 4" "src < 4" "dst < 4"
  shows "(nb, dst, src, ot, e) \<in> set case_spec"
proof -
  have "ot AND 0x03 = ot"
    using ot_cases [OF assms(2)] by (auto simp: case_nb_defs)
  then show ?thesis
    using assms dift_rec_case_nb_sound [of src dst ot e nb] by simp
qed

lemma byte_regs:
  assumes "(r :: u16) < 8"
  shows "unat (ucast (byte_reg r) :: u8) = (if r < 4 then unat r else unat r - 4)"
    and "unat (byte_hl r) = (if r < 4 then 0 else 1)"
proof -
  have "unat r < 8" using assms by (simp add: word_less_nat_alt)
  moreover have "3 < r \<longleftrightarrow> \<not> r < 4" by (simp add: word_less_nat_alt) linarith
  moreover have "\<not> r < 4 \<Longrightarrow> unat (r - 4) = unat r - 4"
    by (simp add: unat_sub word_less_nat_alt word_le_nat_alt)
  ultimately show "unat (ucast (byte_reg r) :: u8) = (if r < 4 then unat r else unat r - 4)"
    and "unat (byte_hl r) = (if r < 4 then 0 else 1)"
    by (auto simp: byte_reg_def byte_hl_def unsigned_ucast_eq take_bit_nat_eq_self)
qed

lemma small_reg: "(r :: u16) < 24 \<Longrightarrow> unat (ucast r :: u8) = unat r"
  by (simp add: unsigned_ucast_eq word_less_nat_alt take_bit_nat_eq_self)

lemmas loc_evals = record_view_defs DIFT_REC_EMPTY_def guest_reg_locs_def op_dst_def op_src_def
  byte_regs small_reg fun_eq_iff

lemma reg_reg_emits:
  assumes "dift_enabled s" and "ot < 4" and "\<not> has e EFFECT_INSIDE_REG"
    and "gen_dift_reg_reg s dreg sreg e ot db sb = Some s1"
    and "ot \<noteq> MO_8 \<Longrightarrow> dreg < 24 \<and> sreg < 24"
  shows "emits s s1 (OPT_REG, OPT_REG, ot, e) []
    (\<lambda>_. if ot = MO_8 then [LReg (unat (ucast dreg :: u8)) (unat db)]
         else locs_from (LReg (unat dreg)) 0 (2 ^ unat ot))
    (\<lambda>_. if ot = MO_8 then [LReg (unat (ucast sreg :: u8)) (unat sb)]
         else locs_from (LReg (unat sreg)) 0 (2 ^ unat ot))"
proof -
  obtain nb where nb: "dift_rec_case_nb OPT_REG OPT_REG (ot AND 0x03) e = Some nb"
    using assms(1,4) by (auto simp: gen_dift_reg_reg_def bind_eq_Some_conv)
  have "(nb, OPT_REG, OPT_REG, ot, e) \<in> set case_spec"
    using nb assms(2) by (rule case_nb_found) (simp_all add: case_nb_defs)
  with nb assms show ?thesis
    by (auto simp: emits_def gen_dift_reg_reg_def Let_def loc_evals OPT_REG_def OPT_MEM_def
        OPT_XMM_def OPT_IM_def split: if_splits)
qed

lemma reg_mem_emits:
  assumes "dift_enabled s" and "ot < 4" and "\<not> has e EFFECT_INSIDE_REG"
    and "gen_dift_reg_mem s dreg e ot hl = Some s1" and "ot \<noteq> MO_8 \<Longrightarrow> dreg < 24"
  shows "emits s s1 (OPT_REG, OPT_MEM, ot, e) [False]
    (\<lambda>_. if ot = MO_8 then [LReg (unat (ucast dreg :: u8)) (unat hl)]
         else locs_from (LReg (unat dreg)) 0 (2 ^ unat ot))
    (\<lambda>as. locs_from LMem (unat (as ! 0)) (2 ^ unat ot))"
proof -
  obtain nb where nb: "dift_rec_case_nb OPT_REG OPT_MEM (ot AND 0x03) e = Some nb"
    using assms(1,4) by (auto simp: gen_dift_reg_mem_def bind_eq_Some_conv)
  have "(nb, OPT_REG, OPT_MEM, ot, e) \<in> set case_spec"
    using nb assms(2) by (rule case_nb_found) (simp_all add: case_nb_defs)
  with nb assms show ?thesis
    by (auto simp: emits_def gen_dift_reg_mem_def Let_def loc_evals OPT_REG_def OPT_MEM_def
        OPT_XMM_def OPT_IM_def split: if_splits)
qed

lemma mem_reg_emits:
  assumes "dift_enabled s" and "ot < 4" and "\<not> has e EFFECT_INSIDE_REG"
    and "gen_dift_mem_reg s sreg e ot hl = Some s1" and "ot \<noteq> MO_8 \<Longrightarrow> sreg < 24"
  shows "emits s s1 (OPT_MEM, OPT_REG, ot, e) [True]
    (\<lambda>as. locs_from LMem (unat (as ! 0)) (2 ^ unat ot))
    (\<lambda>_. if ot = MO_8 then [LReg (unat (ucast sreg :: u8)) (unat hl)]
         else locs_from (LReg (unat sreg)) 0 (2 ^ unat ot))"
proof -
  obtain nb where nb: "dift_rec_case_nb OPT_MEM OPT_REG (ot AND 0x03) e = Some nb"
    using assms(1,4) by (auto simp: gen_dift_mem_reg_def bind_eq_Some_conv)
  have "(nb, OPT_MEM, OPT_REG, ot, e) \<in> set case_spec"
    using nb assms(2) by (rule case_nb_found) (simp_all add: case_nb_defs)
  with nb assms show ?thesis
    by (auto simp: emits_def gen_dift_mem_reg_def Let_def loc_evals OPT_REG_def OPT_MEM_def
        OPT_XMM_def OPT_IM_def split: if_splits)
qed

lemma mem_mem_emits:
  assumes "dift_enabled s" and "ot < 4" and "gen_dift_mem_mem s e ot = Some s1"
  shows "emits s s1 (OPT_MEM, OPT_MEM, ot, e) [True, False]
    (\<lambda>as. locs_from LMem (unat (as ! 0)) (2 ^ unat ot))
    (\<lambda>as. locs_from LMem (unat (as ! 1)) (2 ^ unat ot))"
proof -
  obtain nb where nb: "dift_rec_case_nb OPT_MEM OPT_MEM (ot AND 0x03) e = Some nb"
    using assms(1,3) by (auto simp: gen_dift_mem_mem_def bind_eq_Some_conv)
  have "(nb, OPT_MEM, OPT_MEM, ot, e) \<in> set case_spec"
    using nb assms(2) by (rule case_nb_found) (simp_all add: case_nb_defs)
  with nb assms show ?thesis
    by (auto simp: emits_def gen_dift_mem_mem_def Let_def loc_evals OPT_REG_def OPT_MEM_def
        OPT_XMM_def OPT_IM_def split: if_splits)
qed

section \<open>The word of a block\<close>

lemma unat_less_32: "unat (w :: u32) < 2 ^ 32"
  using unsigned_less [of w] by simp

lemma unat_ucast_up: "unat (ucast (w :: u32) :: u64) = unat w"
  using unat_less_32 [of w] by (simp add: unsigned_ucast_eq take_bit_nat_eq_self)

lemma not_bit_small: "unat (w :: u32) < 2 ^ 16 \<Longrightarrow> 16 \<le> n \<Longrightarrow> \<not> bit w n"
proof -
  assume a: "unat w < 2 ^ 16" "16 \<le> n"
  have "take_bit 16 (unat w) = unat w" using a(1) by (simp add: take_bit_nat_eq_self)
  then have "take_bit 16 w = w" by (simp add: word_unat_eq_iff unsigned_take_bit_eq)
  then have "bit w n = bit (take_bit 16 w) n" by simp
  then show ?thesis using a(2) by (simp add: bit_simps)
qed

lemma block_word_parts:
  assumes "unat cntr < 2 ^ 16" and "unat off < 2 ^ 16"
  shows "code_loc (block_word loc cntr off) = ucast loc"
    and "code_cntr (block_word loc cntr off) = ucast cntr"
    and "code_off (block_word loc cntr off) = (if cntr < off then 0 else ucast off)"
proof -
  have m: "(0xffffffff00000000 :: u64) = push_bit 32 (mask 32)" "(0xffff0000 :: u64) = push_bit 16 (mask 16)"
    "(0xffff :: u64) = mask 16"
    by (simp_all add: mask_eq_exp_minus_1)
  have b: "bit cntr n \<Longrightarrow> n < 16" "bit off n \<Longrightarrow> n < 16" for n
    using not_bit_small [OF assms(1)] not_bit_small [OF assms(2)] not_le by blast+
  show "code_loc (block_word loc cntr off) = ucast loc"
    unfolding code_loc_def block_word_def m
    by (rule bit_word_eqI) (auto simp: bit_simps not_bit_small [OF assms(1)] not_bit_small [OF assms(2)] dest: bit_imp_le_length)
  show c: "code_cntr (block_word loc cntr off) = ucast cntr"
    unfolding code_cntr_def block_word_def m
    by (rule bit_word_eqI) (auto simp: bit_simps not_bit_small [OF assms(2)] dest: bit_imp_le_length b)
  have "block_word loc cntr off AND 0xffff = ucast off"
    unfolding block_word_def m
    by (rule bit_word_eqI) (auto simp: bit_simps dest: bit_imp_le_length b)
  then show "code_off (block_word loc cntr off) = (if cntr < off then 0 else ucast off)"
    by (simp add: code_off_def c word_less_nat_alt unat_ucast_up)
qed

lemma block_word_fields:
  assumes "unat cntr < 2 ^ 16" and "off \<le> cntr"
  shows "code_loc (block_word loc cntr off) = ucast loc"
    and "code_cntr (block_word loc cntr off) = ucast cntr"
    and "code_off (block_word loc cntr off) = ucast off"
proof -
  have "unat off < 2 ^ 16" using assms by (simp add: word_le_nat_alt)
  from block_word_parts [OF assms(1) this, of loc] show "code_loc (block_word loc cntr off) = ucast loc"
    "code_cntr (block_word loc cntr off) = ucast cntr" "code_off (block_word loc cntr off) = ucast off"
    using leD [OF assms(2)] by simp_all
qed

lemma block_word_range:
  assumes "k \<le> 159"
  shows "code_begin (block_word (of_nat n) (of_nat k) 0) = unat (of_nat n :: u32) * 160"
    and "code_end (block_word (of_nat n) (of_nat k) 0) = unat (of_nat n :: u32) * 160 + k"
proof -
  have k: "unat (of_nat k :: u32) = k"
    using assms by (simp add: unat_of_nat take_bit_nat_eq_self)
  note f = block_word_fields [of "of_nat k" 0 "of_nat n"]
  have "unat (ucast (of_nat n :: u32) * 160 :: u64) = unat (of_nat n :: u32) * 160"
    using unat_less_32 [of "of_nat n"] by (simp add: unat_word_ariths unat_ucast_up)
  then show "code_begin (block_word (of_nat n) (of_nat k) 0) = unat (of_nat n :: u32) * 160"
    and "code_end (block_word (of_nat n) (of_nat k) 0) = unat (of_nat n :: u32) * 160 + k"
    using f k assms by (simp_all add: code_begin_def code_end_def CONFIG_IF_CODES_PER_TB_def unat_ucast_up)
qed

end
