(* ===== verification/DiftFlow.thy ===== *)
theory DiftFlow
  imports DiftGen
begin

text \<open>
  From the guest instruction to the tags: what the translator reports for an operation
  (\<^verbatim>\<open>gen_dift_op\<close>, \<^verbatim>\<open>gen_op\<close>) is the operation on the bytes the instruction names, and what a block
  pushes while it runs is what the analysis thread needs to execute exactly the records the
  block ran through. The theorems of this theory join \<^verbatim>\<open>target-i386/translate.c\<close>,
  \<^verbatim>\<open>tcg/i386/tcg-target.c\<close> and \<^verbatim>\<open>ext/dift/dift.c\<close>.
\<close>

section \<open>Reported operations\<close>

definition operand_ok :: "disas_context \<Rightarrow> u8 \<Rightarrow> u16 \<Rightarrow> bool" where
  "operand_ok s ot r \<longleftrightarrow> r < 24 \<and> (ot = MO_8 \<longrightarrow> r < 4 \<or> byte_reg_is_xH s r)"

lemma operand_locs:
  assumes "operand_ok s ot r"
  shows "(if ot = MO_8 then [LReg (unat (ucast (byte_reg r) :: u8)) (unat (byte_hl r))]
      else locs_from (LReg (unat r)) 0 (2 ^ unat ot)) = guest_reg_locs s r ot"
proof (cases "ot = MO_8")
  case True
  then have "r < 8" using assms
    by (auto simp: operand_ok_def byte_reg_is_xH_def word_less_nat_alt word_le_nat_alt split: if_splits)
  then show ?thesis
    using True assms by (auto simp: guest_reg_locs_def operand_ok_def byte_regs byte_reg_is_xH_def split: if_splits)
qed (simp add: guest_reg_locs_def)

lemma op_locs:
  "dst_type s = OPT_REG \<Longrightarrow> op_dst s ot = (\<lambda>as. guest_reg_locs s (dst_reg s) ot)"
  "dst_type s = OPT_MEM \<Longrightarrow> op_dst s ot = (\<lambda>as. locs_from LMem (unat (as ! 0)) (2 ^ unat ot))"
  "src_type s = OPT_REG \<Longrightarrow> op_src s ot = (\<lambda>as. guest_reg_locs s (src_reg s) ot)"
  "src_type s = OPT_MEM \<Longrightarrow> dst_type s = OPT_REG \<Longrightarrow>
     op_src s ot = (\<lambda>as. locs_from LMem (unat (as ! 0)) (2 ^ unat ot))"
  "src_type s = OPT_MEM \<Longrightarrow> dst_type s = OPT_MEM \<Longrightarrow>
     op_src s ot = (\<lambda>as. locs_from LMem (unat (as ! 1)) (2 ^ unat ot))"
  by (simp_all add: op_dst_def op_src_def fun_eq_iff case_nb_defs)

lemma opt_types [simp]: "OPT_REG \<noteq> OPT_MEM" "OPT_MEM \<noteq> OPT_REG" "OPT_MEM \<noteq> OPT_IM" "OPT_REG \<noteq> OPT_IM"
  by (simp_all add: case_nb_defs)

text \<open>The addresses an operation reports, in order: one written to for a destination, one read from for a source in memory.\<close>

definition address_kinds :: "u8 \<Rightarrow> u8 \<Rightarrow> bool list" where
  "address_kinds dst src = (if dst = OPT_MEM then [True] else []) @ (if src = OPT_MEM then [False] else [])"

definition reports :: "disas_context \<Rightarrow> u8 \<Rightarrow> u8 \<Rightarrow> disas_context \<Rightarrow> bool" where
  "reports s effect ot s' \<longleftrightarrow>
     (\<exists>s1. emits s s1 (dst_type s, src_type s, ot, effect) (address_kinds (dst_type s) (src_type s)) (op_dst s ot) (op_src s ot) \<and>
        s' = gen_dift_sync_i64 s1)"

lemma reg_reg_reports:
  assumes "dift_enabled s" "ot < 4" "\<not> has effect EFFECT_INSIDE_REG" and "gen_dift_op s effect ot = Some s'"
    and "dst_type s = OPT_REG" "operand_ok s ot (dst_reg s)" "src_type s = OPT_REG" "operand_ok s ot (src_reg s)"
  shows "reports s effect ot s'"
proof -
  obtain dr sr db sb s1 where "gen_dift_reg_reg s dr sr effect ot db sb = Some s1"
    and "s' = gen_dift_sync_i64 s1"
    and "if ot = MO_8 then dr = byte_reg (dst_reg s) \<and> db = byte_hl (dst_reg s) \<and>
      sr = byte_reg (src_reg s) \<and> sb = byte_hl (src_reg s) else dr = dst_reg s \<and> sr = src_reg s"
    using assms(4,5,7) by (fastforce simp: gen_dift_op_def bind_eq_Some_conv split: if_splits)
  moreover have "dst_reg s < 24" "src_reg s < 24"
    using assms(6,8) by (simp_all add: operand_ok_def)
  ultimately have "emits s s1 (OPT_REG, OPT_REG, ot, effect) [] (\<lambda>_. guest_reg_locs s (dst_reg s) ot)
      (\<lambda>_. guest_reg_locs s (src_reg s) ot)"
    using reg_reg_emits [OF assms(1-3), of dr sr db sb s1] operand_locs [OF assms(6)]
      operand_locs [OF assms(8)] by (auto split: if_splits)
  then show ?thesis
    using \<open>s' = _\<close> assms(5,7) by (auto simp: reports_def op_locs address_kinds_def)
qed

lemma reg_mem_reports:
  assumes "dift_enabled s" "ot < 4" "\<not> has effect EFFECT_INSIDE_REG" and "gen_dift_op s effect ot = Some s'"
    and "dst_type s = OPT_REG" "operand_ok s ot (dst_reg s)" "src_type s = OPT_MEM"
  shows "reports s effect ot s'"
proof -
  obtain dr db s1 where "gen_dift_reg_mem s dr effect ot db = Some s1" and "s' = gen_dift_sync_i64 s1"
    and "if ot = MO_8 then dr = byte_reg (dst_reg s) \<and> db = byte_hl (dst_reg s) else dr = dst_reg s"
    using assms(4,5,7) by (fastforce simp: gen_dift_op_def bind_eq_Some_conv split: if_splits)
  moreover have "dst_reg s < 24"
    using assms(6) by (simp add: operand_ok_def)
  ultimately have "emits s s1 (OPT_REG, OPT_MEM, ot, effect) [False] (\<lambda>_. guest_reg_locs s (dst_reg s) ot)
      (\<lambda>as. locs_from LMem (unat (as ! 0)) (2 ^ unat ot))"
    using reg_mem_emits [OF assms(1-3), of dr db s1] operand_locs [OF assms(6)]
    by (auto split: if_splits)
  then show ?thesis
    using \<open>s' = _\<close> assms(5,7) by (auto simp: reports_def op_locs address_kinds_def)
qed

lemma mem_reg_reports:
  assumes "dift_enabled s" "ot < 4" "\<not> has effect EFFECT_INSIDE_REG" and "gen_dift_op s effect ot = Some s'"
    and "dst_type s = OPT_MEM" "src_type s = OPT_REG" "operand_ok s ot (src_reg s)"
  shows "reports s effect ot s'"
proof -
  obtain sr sb s1 where "gen_dift_mem_reg s sr effect ot sb = Some s1" and "s' = gen_dift_sync_i64 s1"
    and "if ot = MO_8 then sr = byte_reg (src_reg s) \<and> sb = byte_hl (src_reg s) else sr = src_reg s"
    using assms(4-6) by (fastforce simp: gen_dift_op_def bind_eq_Some_conv split: if_splits)
  moreover have "src_reg s < 24"
    using assms(7) by (simp add: operand_ok_def)
  ultimately have "emits s s1 (OPT_MEM, OPT_REG, ot, effect) [True]
      (\<lambda>as. locs_from LMem (unat (as ! 0)) (2 ^ unat ot)) (\<lambda>_. guest_reg_locs s (src_reg s) ot)"
    using mem_reg_emits [OF assms(1-3), of sr sb s1] operand_locs [OF assms(7)]
    by (auto split: if_splits)
  then show ?thesis
    using \<open>s' = _\<close> assms(5,6) by (auto simp: reports_def op_locs address_kinds_def)
qed

lemma mem_mem_reports:
  assumes "dift_enabled s" "ot < 4" and "gen_dift_op s effect ot = Some s'"
    and "dst_type s = OPT_MEM" "src_type s = OPT_MEM"
  shows "reports s effect ot s'"
proof -
  obtain s1 where "gen_dift_mem_mem s effect ot = Some s1" and "s' = gen_dift_sync_i64 s1"
    using assms(3-5) by (auto simp: gen_dift_op_def bind_eq_Some_conv)
  then show ?thesis
    using mem_mem_emits [OF assms(1,2), of effect s1] assms(4,5)
    unfolding reports_def op_locs(2) [OF assms(4)] op_locs(5) [OF assms(5,4)] by (auto simp: address_kinds_def)
qed

definition operands_ok :: "disas_context \<Rightarrow> u8 \<Rightarrow> bool" where
  "operands_ok s ot \<longleftrightarrow>
     (dst_type s = OPT_REG \<and> operand_ok s ot (dst_reg s) \<or> dst_type s = OPT_MEM) \<and>
     (src_type s = OPT_REG \<and> operand_ok s ot (src_reg s) \<or> src_type s = OPT_MEM)"

lemma gen_dift_op_reports:
  assumes "dift_enabled s" "ot < 4" "\<not> has effect EFFECT_INSIDE_REG" and "operands_ok s ot"
    and "gen_dift_op s effect ot = Some s'"
  shows "reports s effect ot s'"
  using assms reg_reg_reports reg_mem_reports mem_reg_reports mem_mem_reports
  unfolding operands_ok_def by blast

text \<open>The call does not fail when the operation has a case number and the buffer has room.\<close>

definition code_room :: "disas_context \<Rightarrow> bool" where
  "code_room s \<longleftrightarrow> label_or_helper_appeared s \<or> tb_code_loc s + tb_code_idx s < length (dift_code_buffer s)"

lemma code_room_enqueue: "code_room s \<Longrightarrow> \<exists>s'. gen_dift_enqueue_i64 s w = Some s'"
  by (auto simp: gen_dift_enqueue_i64_def code_room_def Let_def)

lemma gen_dift_op_total:
  assumes "(nb, dst_type s, src_type s, ot, effect) \<in> set case_spec" and "ot < 4"
    and "operands_ok s ot" and "code_room s"
  shows "\<exists>s'. gen_dift_op s effect ot = Some s'"
proof -
  have "ot AND 0x03 = ot"
    using ot_cases [OF assms(2)] by (auto simp: case_nb_defs)
  then have nb: "dift_rec_case_nb (dst_type s) (src_type s) (ot AND 0x03) effect = Some nb"
    using dift_rec_case_nb_complete [OF assms(1)] by simp
  from nb assms(3) code_room_enqueue [OF assms(4)] show ?thesis
    by (auto simp: gen_dift_op_def operands_ok_def gen_dift_reg_reg_def gen_dift_reg_mem_def
        gen_dift_mem_reg_def gen_dift_mem_mem_def Let_def bind_eq_Some_conv)
qed

section \<open>Arithmetic instructions\<close>

text \<open>
  What an arithmetic or logic instruction should do to the tags: the destination keeps its own
  taint; with a carry between the bytes every byte gets the taint of all bytes of both operands,
  otherwise byte by byte.
\<close>

definition carries :: "alu_op \<Rightarrow> bool" where
  "carries op \<longleftrightarrow> op \<in> {OP_ADDL, OP_ADCL, OP_SUBL, OP_SBBL}"

definition alu_tags :: "alu_op \<Rightarrow> loc list \<Rightarrow> loc list \<Rightarrow> dift_context \<Rightarrow> dift_context" where
  "alu_tags op ds ss dc =
     (let dt = map (tag_of dc) ds; st = map (tag_of dc) ss in
      write_tags (zip ds (if carries op then map (\<lambda>_. or_all (st @ dt)) ds else or_bytes dt st)) dc)"

lemma alu_entries:
  "(REG_REG_OO_APPEND_MO8, OPT_REG, OPT_REG, MO_8, EFFECT_ONE_TO_ONE OR EFFECT_APPEND) \<in> set case_spec"
  "(REG_REG_OO_APPEND_MO16, OPT_REG, OPT_REG, MO_16, EFFECT_ONE_TO_ONE OR EFFECT_APPEND) \<in> set case_spec"
  "(REG_REG_OO_APPEND_MO32, OPT_REG, OPT_REG, MO_32, EFFECT_ONE_TO_ONE OR EFFECT_APPEND) \<in> set case_spec"
  "(REG_REG_OO_APPEND_MO64, OPT_REG, OPT_REG, MO_64, EFFECT_ONE_TO_ONE OR EFFECT_APPEND) \<in> set case_spec"
  "(REG_REG_MIX_APPEND_MO8, OPT_REG, OPT_REG, MO_8, EFFECT_MIX OR EFFECT_APPEND) \<in> set case_spec"
  "(REG_REG_MIX_APPEND_MO16, OPT_REG, OPT_REG, MO_16, EFFECT_MIX OR EFFECT_APPEND) \<in> set case_spec"
  "(REG_REG_MIX_APPEND_MO32, OPT_REG, OPT_REG, MO_32, EFFECT_MIX OR EFFECT_APPEND) \<in> set case_spec"
  "(REG_REG_MIX_APPEND_MO64, OPT_REG, OPT_REG, MO_64, EFFECT_MIX OR EFFECT_APPEND) \<in> set case_spec"
  "(REG_MEM_OO_APPEND_MO8, OPT_REG, OPT_MEM, MO_8, EFFECT_ONE_TO_ONE OR EFFECT_APPEND) \<in> set case_spec"
  "(REG_MEM_OO_APPEND_MO16, OPT_REG, OPT_MEM, MO_16, EFFECT_ONE_TO_ONE OR EFFECT_APPEND) \<in> set case_spec"
  "(REG_MEM_OO_APPEND_MO32, OPT_REG, OPT_MEM, MO_32, EFFECT_ONE_TO_ONE OR EFFECT_APPEND) \<in> set case_spec"
  "(REG_MEM_OO_APPEND_MO64, OPT_REG, OPT_MEM, MO_64, EFFECT_ONE_TO_ONE OR EFFECT_APPEND) \<in> set case_spec"
  "(REG_MEM_MIX_APPEND_MO8, OPT_REG, OPT_MEM, MO_8, EFFECT_MIX OR EFFECT_APPEND) \<in> set case_spec"
  "(REG_MEM_MIX_APPEND_MO16, OPT_REG, OPT_MEM, MO_16, EFFECT_MIX OR EFFECT_APPEND) \<in> set case_spec"
  "(REG_MEM_MIX_APPEND_MO32, OPT_REG, OPT_MEM, MO_32, EFFECT_MIX OR EFFECT_APPEND) \<in> set case_spec"
  "(REG_MEM_MIX_APPEND_MO64, OPT_REG, OPT_MEM, MO_64, EFFECT_MIX OR EFFECT_APPEND) \<in> set case_spec"
  "(MEM_REG_OO_APPEND_MO8, OPT_MEM, OPT_REG, MO_8, EFFECT_ONE_TO_ONE OR EFFECT_APPEND) \<in> set case_spec"
  "(MEM_REG_OO_APPEND_MO16, OPT_MEM, OPT_REG, MO_16, EFFECT_ONE_TO_ONE OR EFFECT_APPEND) \<in> set case_spec"
  "(MEM_REG_OO_APPEND_MO32, OPT_MEM, OPT_REG, MO_32, EFFECT_ONE_TO_ONE OR EFFECT_APPEND) \<in> set case_spec"
  "(MEM_REG_OO_APPEND_MO64, OPT_MEM, OPT_REG, MO_64, EFFECT_ONE_TO_ONE OR EFFECT_APPEND) \<in> set case_spec"
  "(MEM_REG_MIX_APPEND_MO8, OPT_MEM, OPT_REG, MO_8, EFFECT_MIX OR EFFECT_APPEND) \<in> set case_spec"
  "(MEM_REG_MIX_APPEND_MO16, OPT_MEM, OPT_REG, MO_16, EFFECT_MIX OR EFFECT_APPEND) \<in> set case_spec"
  "(MEM_REG_MIX_APPEND_MO32, OPT_MEM, OPT_REG, MO_32, EFFECT_MIX OR EFFECT_APPEND) \<in> set case_spec"
  "(MEM_REG_MIX_APPEND_MO64, OPT_MEM, OPT_REG, MO_64, EFFECT_MIX OR EFFECT_APPEND) \<in> set case_spec"
  by (simp_all add: case_spec_def)

lemma alu_case:
  assumes "ot < 4" and "dst = OPT_REG \<and> (src = OPT_REG \<or> src = OPT_MEM) \<or> dst = OPT_MEM \<and> src = OPT_REG"
  shows "\<exists>nb. (nb, dst, src, ot, gen_op_effect op) \<in> set case_spec"
proof -
  have "gen_op_effect op = EFFECT_MIX OR EFFECT_APPEND \<or> gen_op_effect op = EFFECT_ONE_TO_ONE OR EFFECT_APPEND"
    by (simp add: gen_op_effect_def or.commute)
  with ot_cases [OF assms(1)] assms(2) show ?thesis
    by (elim disjE conjE) (simp_all only:, (rule exI, rule alu_entries)+)
qed

lemma effect_has:
  "has (gen_op_effect op) EFFECT_MIX = carries op" "has (gen_op_effect op) EFFECT_APPEND"
  "\<not> has (gen_op_effect op) EFFECT_INSIDE_REG"
  "gen_op_effect op \<noteq> EFFECT_ONE_TO_ONE OR EFFECT_ASSIGN"
proof -
  have "(has (gen_op_effect op) EFFECT_MIX = carries op \<and> has (gen_op_effect op) EFFECT_APPEND) \<and>
      \<not> has (gen_op_effect op) EFFECT_INSIDE_REG \<and> gen_op_effect op \<noteq> EFFECT_ONE_TO_ONE OR EFFECT_ASSIGN"
    by (cases op) (simp_all add: gen_op_effect_def has_def carries_def case_nb_defs)
  then show "has (gen_op_effect op) EFFECT_MIX = carries op" "has (gen_op_effect op) EFFECT_APPEND"
    "\<not> has (gen_op_effect op) EFFECT_INSIDE_REG" "gen_op_effect op \<noteq> EFFECT_ONE_TO_ONE OR EFFECT_ASSIGN" by blast+
qed

lemma alu_apply:
  assumes "dst = OPT_REG \<or> dst = OPT_MEM" "src = OPT_REG \<or> src = OPT_MEM"
    and "dst_locs (dst, src, ot, gen_op_effect op) r = ds" and "src_locs (dst, src, ot, gen_op_effect op) r = ss"
  shows "apply_op (dst, src, ot, gen_op_effect op) r as dc = alu_tags op (ds as) (ss as) dc"
    and "bases_ok (dst, src, ot, gen_op_effect op) r"
proof -
  have x: "dst \<noteq> OPT_XMM" "src \<noteq> OPT_XMM" "src \<noteq> OPT_IM"
    using assms(1,2) by (auto simp: case_nb_defs)
  have i: "indirect_tag (dst, src, ot, gen_op_effect op) r dc = 0"
    by (simp add: effect_has)
  show "apply_op (dst, src, ot, gen_op_effect op) r as dc = alu_tags op (ds as) (ss as) dc"
    unfolding apply_op_def assms(3,4) i
    by (simp add: alu_tags_def Let_def x effect_has comp_def)
  show "bases_ok (dst, src, ot, gen_op_effect op) r"
    by (simp add: effect_has)
qed

lemma dup_case_dst: "(XMM_MEM_OO_ASSIGN_DUP_MO64, dst, rest) \<in> set case_spec \<Longrightarrow> dst = OPT_XMM"
proof -
  have "list_all (\<lambda>(n, dst, _). n = XMM_MEM_OO_ASSIGN_DUP_MO64 \<longrightarrow> dst = OPT_XMM) case_spec"
    by (simp add: case_spec_def case_nb_defs)
  then show "(XMM_MEM_OO_ASSIGN_DUP_MO64, dst, rest) \<in> set case_spec \<Longrightarrow> dst = OPT_XMM"
    by (auto simp: list_all_iff)
qed

text \<open>The dispatcher on a record that an operation emitted.\<close>

lemma emitted_dispatch:
  assumes "(case_nb r, dst, src, ot, e) \<in> set case_spec" and "dst \<noteq> OPT_XMM"
    and "bases_ok (dst, src, ot, e) r" and "dst_locs (dst, src, ot, e) r = ds" "src_locs (dst, src, ot, e) r = ss"
    and "wf_globals g" "ctx_within 0x7f dc" and "length as = addresses (dst, src, ot, e)"
    and "list_all (loc_ok g) (ds as @ ss as)"
  shows "dispatch g r dc as = Some (apply_op (dst, src, ot, e) r as dc, [])"
proof -
  have "case_nb r \<noteq> XMM_MEM_OO_ASSIGN_DUP_MO64"
    using dup_case_dst assms(1,2) by metis
  moreover have "op_ok (dst, src, ot, e) g r as"
    unfolding op_ok_def assms(4,5) using assms(3,8,9) by (simp del: addresses.simps bases_ok.simps)
  ultimately show ?thesis
    using dispatch_implements [OF assms(1) _ assms(6,7)] assms(8) by (simp del: addresses.simps)
qed

text \<open>The translation state in which \<^verbatim>\<open>gen_op\<close> reports.\<close>

definition gen_op_state :: "disas_context \<Rightarrow> alu_op \<Rightarrow> u16 \<Rightarrow> bool \<Rightarrow> disas_context" where
  "gen_op_state s op d flags_helper =
     (if flags_helper \<and> op \<in> {OP_ADCL, OP_SBBL}
      then (gen_op_dst s d)\<lparr>label_or_helper_appeared := True\<rparr> else gen_op_dst s d)"

lemma gen_op_eq:
  "op \<noteq> OP_CMPL \<Longrightarrow>
   gen_op s op ot d flags_helper = gen_dift_op (gen_op_state s op d flags_helper) (gen_op_effect op) ot"
  by (cases op) (simp_all add: gen_op_def gen_op_state_def Let_def)

lemma gen_op_state_sel [simp]:
  "dift_enabled (gen_op_state s op d fh) = dift_enabled s"
  "src_type (gen_op_state s op d fh) = src_type s" "src_reg (gen_op_state s op d fh) = src_reg s"
  "dst_type (gen_op_state s op d fh) = (if d \<noteq> OR_TMP0 then OPT_REG else OPT_MEM)"
  "d \<noteq> OR_TMP0 \<Longrightarrow> dst_reg (gen_op_state s op d fh) = d"
  "operand_ok (gen_op_state s op d fh) = operand_ok s"
  "code_room s \<Longrightarrow> code_room (gen_op_state s op d fh)"
  "guest_reg_locs (gen_op_state s op d fh) = guest_reg_locs s"
  by (auto simp: gen_op_state_def gen_op_dst_def operand_ok_def byte_reg_is_xH_def code_room_def
      guest_reg_locs_def fun_eq_iff)

section \<open>Properties of the translator\<close>

text \<open>C3: An arithmetic or logic instruction is reported and tracked correctly, while tracking is
  on, the slot of the block has room for a record, and the instruction is not a comparison. The operands are registers and memory:
  the destination a register or memory (\<^verbatim>\<open>OR_TMP0\<close>), the source a register, or memory if the destination is a register;
  and the byte operands are \<^verbatim>\<open>AL\<close>, \<^verbatim>\<open>CL\<close>, \<^verbatim>\<open>DL\<close>, \<^verbatim>\<open>BL\<close> or one of the high bytes \<^verbatim>\<open>AH\<close> to \<^verbatim>\<open>BH\<close>. The low bytes
  of the other registers, which need a \<^verbatim>\<open>REX\<close> prefix, are excluded: there \<^verbatim>\<open>gen_dift_op\<close> reports another byte. Then
  \<^verbatim>\<open>gen_op\<close> does not fail; it emits one record followed by the address written to, if the destination is in memory, and
  the address read from, if the source is, and then synchronises the counter; and the record makes the analysis thread
  give the destination bytes of the guest instruction the taint of the instruction: that of all bytes of both operands
  when there are carries, byte by byte otherwise, with nothing else changed. The addresses must lie in RAM.\<close>

theorem gen_op_taints:
  fixes flags_helper :: bool
  assumes "dift_enabled s" and "ot < 4" and "op \<noteq> OP_CMPL" and "code_room s"
    and "d \<noteq> OR_TMP0 \<longrightarrow> d < 24 \<and> (ot = MO_8 \<longrightarrow> d < 4 \<or> byte_reg_is_xH s d)"
    and "src_type s = OPT_REG \<and> src_reg s < 24 \<and> (ot = MO_8 \<longrightarrow> src_reg s < 4 \<or> byte_reg_is_xH s (src_reg s)) \<or>
      src_type s = OPT_MEM \<and> d \<noteq> OR_TMP0"
  defines "s2 \<equiv> gen_op_state s op d flags_helper"
    and "ks \<equiv> (if d = OR_TMP0 then [True] else []) @ (if src_type s = OPT_MEM then [False] else [])"
  shows "\<exists>r s1. do_call (GRec r ks) s2 = Some s1 \<and>
    gen_op s op ot d flags_helper = Some (gen_dift_sync_i64 s1) \<and>
    (\<forall>g dc as. wf_globals g \<and> ctx_within 0x7f dc \<and> length as = length ks \<and>
       list_all (loc_ok g) (op_dst s2 ot as @ op_src s2 ot as) \<longrightarrow>
       dispatch g r dc as = Some (alu_tags op (op_dst s2 ot as) (op_src s2 ot as) dc, []))"
proof -
  have types: "dst_type s2 = OPT_REG \<and> (src_type s2 = OPT_REG \<or> src_type s2 = OPT_MEM) \<or>
      dst_type s2 = OPT_MEM \<and> src_type s2 = OPT_REG"
    using assms(6) by (auto simp: s2_def)
  then have dst: "dst_type s2 \<noteq> OPT_XMM" by (auto simp: case_nb_defs)
  have ok: "operands_ok s2 ot"
    using assms(5,6) by (auto simp: operands_ok_def operand_ok_def s2_def)
  obtain nb where nb: "(nb, dst_type s2, src_type s2, ot, gen_op_effect op) \<in> set case_spec"
    using alu_case [OF assms(2) types] by blast
  have "code_room s2" using assms(4) by (simp add: s2_def)
  then obtain s' where gen: "gen_dift_op s2 (gen_op_effect op) ot = Some s'"
    using gen_dift_op_total [OF nb assms(2) ok] by blast
  have en: "dift_enabled s2" using assms(1) by (simp add: s2_def)
  have k: "address_kinds (dst_type s2) (src_type s2) = ks" by (simp add: address_kinds_def s2_def ks_def)
  obtain s1 r where em: "do_call (GRec r ks) s2 = Some s1" "s' = gen_dift_sync_i64 s1"
    and c: "(case_nb r, dst_type s2, src_type s2, ot, gen_op_effect op) \<in> set case_spec"
    and ks: "length ks = addresses (dst_type s2, src_type s2, ot, gen_op_effect op)"
    and l: "dst_locs (dst_type s2, src_type s2, ot, gen_op_effect op) r = op_dst s2 ot"
      "src_locs (dst_type s2, src_type s2, ot, gen_op_effect op) r = op_src s2 ot"
    using gen_dift_op_reports [OF en assms(2) effect_has(3) ok gen] unfolding reports_def emits_def k by blast
  have ap: "apply_op (dst_type s2, src_type s2, ot, gen_op_effect op) r as dc =
      alu_tags op (op_dst s2 ot as) (op_src s2 ot as) dc" for as dc
    using types alu_apply(1) [OF _ _ l] by blast
  have "bases_ok (dst_type s2, src_type s2, ot, gen_op_effect op) r"
    using types alu_apply(2) [OF _ _ l] by blast
  then have "dispatch g r dc as = Some (alu_tags op (op_dst s2 ot as) (op_src s2 ot as) dc, [])"
    if "wf_globals g \<and> ctx_within 0x7f dc \<and> length as = length ks \<and>
      list_all (loc_ok g) (op_dst s2 ot as @ op_src s2 ot as)" for g dc as
    using emitted_dispatch [OF c dst _ l] that ks ap by metis
  moreover have "gen_op s op ot d flags_helper = Some (gen_dift_sync_i64 s1)"
    using gen em(2) gen_op_eq [OF assms(3)] by (simp add: s2_def)
  ultimately show ?thesis using em(1) by blast
qed

definition demo_block :: disas_context where
  "demo_block = \<lparr>src_type = OPT_REG, dst_type = OPT_REG, src_reg = 3, dst_reg = 0, reg_base = 24,
     reg_index = 24, tb_code_loc = 0, tb_code_idx = 0, dift_enabled = True,
     label_or_helper_appeared = False, x86_64_hregs = False, dift_code_buffer = replicate 160 0, tcg_ops = []\<rparr>"

theorem gen_op_taints_witness:
  "\<exists>r s1 dc'. do_call (GRec r [True]) (gen_op_state demo_block OP_ADDL OR_TMP0 False) = Some s1 \<and>
     gen_op demo_block OP_ADDL MO_16 OR_TMP0 False = Some (gen_dift_sync_i64 s1) \<and>
     dispatch demo_globals r demo_tainted [0x100] = Some (dc', []) \<and>
     mem_dirty_tbl dc' 0x100 = 2 \<and> mem_dirty_tbl dc' 0x101 = 2"
proof -
  let ?s2 = "gen_op_state demo_block OP_ADDL OR_TMP0 False"
  have s2: "?s2 = demo_block\<lparr>dst_type := OPT_MEM\<rparr>"
    by (simp add: gen_op_state_def gen_op_dst_def)
  have locs: "op_dst ?s2 MO_16 [0x100] = [LMem 0x100, LMem 0x101]"
    "op_src ?s2 MO_16 [0x100] = [LReg 3 0, LReg 3 1]"
    by (simp_all add: s2 op_dst_def op_src_def guest_reg_locs_def demo_block_def case_nb_defs numeral_unrolls)
  have ok: "list_all (loc_ok demo_globals) (op_dst ?s2 MO_16 [0x100] @ op_src ?s2 MO_16 [0x100])"
    by (simp add: locs demo_globals_def)
  have hyps: "dift_enabled demo_block" "MO_16 < (4 :: u8)" "OP_ADDL \<noteq> OP_CMPL" "code_room demo_block"
    "OR_TMP0 \<noteq> OR_TMP0 \<longrightarrow> OR_TMP0 < 24 \<and> (MO_16 = MO_8 \<longrightarrow> OR_TMP0 < 4 \<or> byte_reg_is_xH demo_block OR_TMP0)"
    "src_type demo_block = OPT_REG \<and> src_reg demo_block < 24 \<and>
       (MO_16 = MO_8 \<longrightarrow> src_reg demo_block < 4 \<or> byte_reg_is_xH demo_block (src_reg demo_block)) \<or>
     src_type demo_block = OPT_MEM \<and> OR_TMP0 \<noteq> OR_TMP0"
    by (simp_all add: case_nb_defs demo_block_def code_room_def)
  have ks: "(if OR_TMP0 = OR_TMP0 then [True] else []) @ (if src_type demo_block = OPT_MEM then [False] else []) = [True]"
    by (simp add: demo_block_def)
  obtain r s1 where "do_call (GRec r [True]) ?s2 = Some s1"
    "gen_op demo_block OP_ADDL MO_16 OR_TMP0 False = Some (gen_dift_sync_i64 s1)"
    and d: "\<forall>g dc as. wf_globals g \<and> ctx_within 0x7f dc \<and> length as = length [True] \<and>
       list_all (loc_ok g) (op_dst ?s2 MO_16 as @ op_src ?s2 MO_16 as) \<longrightarrow>
       dispatch g r dc as = Some (alu_tags OP_ADDL (op_dst ?s2 MO_16 as) (op_src ?s2 MO_16 as) dc, [])"
    using gen_op_taints [OF hyps, of False] unfolding ks by blast
  moreover from d have "dispatch demo_globals r demo_tainted [0x100] =
      Some (alu_tags OP_ADDL [LMem 0x100, LMem 0x101] [LReg 3 0, LReg 3 1] demo_tainted, [])"
    using wf_demo_globals demo_tainted_within ok locs by (metis length_Cons list.size(3) One_nat_def)
  moreover have "mem_dirty_tbl (alu_tags OP_ADDL [LMem 0x100, LMem 0x101] [LReg 3 0, LReg 3 1] demo_tainted) a = 2"
    if "a = 0x100 \<or> a = 0x101" for a
    using that by (auto simp: alu_tags_def carries_def demo_tainted_def demo_context_def Let_def or_all_def)
  ultimately show ?thesis by blast
qed

lemma clear_entries:
  "ot < 4 \<Longrightarrow> \<exists>nb. (nb, OPT_MEM, OPT_IM, ot, EFFECT_CLEAR) \<in> set case_spec"
proof -
  have "(MEM_IM_CLEAR_MO8, OPT_MEM, OPT_IM, MO_8, EFFECT_CLEAR) \<in> set case_spec"
    "(MEM_IM_CLEAR_MO16, OPT_MEM, OPT_IM, MO_16, EFFECT_CLEAR) \<in> set case_spec"
    "(MEM_IM_CLEAR_MO32, OPT_MEM, OPT_IM, MO_32, EFFECT_CLEAR) \<in> set case_spec"
    "(MEM_IM_CLEAR_MO64, OPT_MEM, OPT_IM, MO_64, EFFECT_CLEAR) \<in> set case_spec"
    by (simp_all add: case_spec_def)
  then show "ot < 4 \<Longrightarrow> ?thesis" using ot_cases by blast
qed

lemma write_zero:
  "l \<in> set ds \<or> tag_of dc l = 0 \<Longrightarrow> tag_of (write_tags (zip ds (map (\<lambda>_. 0) ds)) dc) l = 0"
  by (induction ds arbitrary: dc) (auto simp: tag_of_set_loc)

lemma mem_locs_from: "locs_from LMem a n = map (\<lambda>k. LMem (a + k)) [0..<n]"
proof (induction n arbitrary: a)
  case (Suc n)
  have "[0..<Suc n] = 0 # map Suc [0..<n]" by (simp add: map_Suc_upt upt_conv_Cons)
  then show ?case using Suc by simp
qed simp

lemma clear_dispatch:
  assumes "(nb, OPT_MEM, OPT_IM, ot, EFFECT_CLEAR) \<in> set case_spec" and "wf_globals g" "ctx_within 0x7f dc"
    and "unat a + 2 ^ unat ot \<le> unat (phys_ram_size g)"
  shows "\<exists>dc'. dispatch g (DIFT_REC_EMPTY\<lparr>case_nb := nb\<rparr>) dc [a] = Some (dc', []) \<and>
    (\<forall>k < 2 ^ unat ot. mem_dirty_tbl dc' (unat a + k) = 0)"
proof -
  let ?op = "(OPT_MEM, OPT_IM, ot, EFFECT_CLEAR)" and ?r = "DIFT_REC_EMPTY\<lparr>case_nb := nb\<rparr>"
  have ne: "OPT_MEM \<noteq> OPT_XMM" "OPT_IM \<noteq> OPT_XMM" "OPT_IM \<noteq> OPT_MEM" by (simp_all add: case_nb_defs)
  have l: "dst_locs ?op ?r [a] = map (\<lambda>k. LMem (unat a + k)) [0..<2 ^ unat ot]" "src_locs ?op ?r [a] = []"
    by (simp_all add: ne mem_locs_from)
  have "dispatch g ?r dc [a] = Some (apply_op ?op ?r [a] dc, [])"
    using assms l ne by (intro emitted_dispatch) (auto simp: list_all_iff)
  moreover have "tag_of (apply_op ?op ?r [a] dc) (LMem (unat a + k)) = 0" if "k < 2 ^ unat ot" for k
    using that write_zero [of "LMem (unat a + k)" "map (\<lambda>k. LMem (unat a + k)) [0..<2 ^ unat ot]" dc]
    unfolding apply_op_def l by (simp add: Let_def comp_def)
  ultimately show ?thesis by auto
qed

text \<open>C34: with an immediate operand and a memory destination \<^verbatim>\<open>gen_op\<close> reports a clear, whatever the
  operation: the bytes lose their taint although the instruction computes the new value from the
  old one. With a register destination it reports nothing, so the taint stays.\<close>

theorem gen_op_immediate_clears_memory:
  assumes "dift_enabled s" and "ot < 4" and "op \<noteq> OP_CMPL" and "code_room s" and "src_type s = OPT_IM"
  shows "(\<exists>r s1. do_call (GRec r [True]) (gen_op_state s op OR_TMP0 fh) = Some s1 \<and>
      gen_op s op ot OR_TMP0 fh = Some (gen_dift_sync_i64 s1) \<and>
      (\<forall>g dc a. wf_globals g \<and> ctx_within 0x7f dc \<and> unat a + 2 ^ unat ot \<le> unat (phys_ram_size g) \<longrightarrow>
         (\<exists>dc'. dispatch g r dc [a] = Some (dc', []) \<and> (\<forall>k < 2 ^ unat ot. mem_dirty_tbl dc' (unat a + k) = 0)))) \<and>
    (\<forall>d. d \<noteq> OR_TMP0 \<longrightarrow> gen_op s op ot d fh = Some (gen_dift_sync_i64 (gen_op_state s op d fh)))"
proof -
  let ?s = "gen_op_state s op OR_TMP0 fh"
  obtain nb where nb: "(nb, OPT_MEM, OPT_IM, ot, EFFECT_CLEAR) \<in> set case_spec"
    using clear_entries [OF assms(2)] by blast
  have "ot AND 0x03 = ot"
    using ot_cases [OF assms(2)] by (auto simp: case_nb_defs)
  then have c: "dift_rec_case_nb OPT_MEM OPT_IM (ot AND 0x03) EFFECT_CLEAR = Some nb"
    using dift_rec_case_nb_complete [OF nb] by simp
  have "code_room ?s" using assms(4) by simp
  then obtain s1 where s1: "gen_dift_enqueue_i64 ?s (u64_of_rec (DIFT_REC_EMPTY\<lparr>case_nb := nb\<rparr>)) = Some s1"
    using code_room_enqueue by blast
  have "do_call (GRec (DIFT_REC_EMPTY\<lparr>case_nb := nb\<rparr>) [True]) ?s = Some (gen_dift_enqueue_addr s1 True)"
    and "gen_op s op ot OR_TMP0 fh = Some (gen_dift_sync_i64 (gen_dift_enqueue_addr s1 True))"
    using s1 c assms(1,5)
    by (simp_all add: gen_op_eq [OF assms(3)] gen_dift_op_def gen_dift_mem_im_def case_nb_defs)
  moreover have "gen_op s op ot d fh = Some (gen_dift_sync_i64 (gen_op_state s op d fh))" if "d \<noteq> OR_TMP0" for d
    using that assms(5) by (simp add: gen_op_eq [OF assms(3)] gen_dift_op_def case_nb_defs)
  ultimately show ?thesis
    using clear_dispatch [OF nb] by blast
qed

theorem gen_op_immediate_clears_memory_witness:
  "\<exists>r s1 dc'. gen_op (demo_block\<lparr>src_type := OPT_IM\<rparr>) OP_ADDL MO_16 OR_TMP0 False = Some (gen_dift_sync_i64 s1) \<and>
     mem_dirty_tbl demo_tainted 0x101 = 2 \<and>
     dispatch demo_globals r demo_tainted [0x100] = Some (dc', []) \<and> mem_dirty_tbl dc' 0x101 = 0"
proof -
  have "MO_16 < (4 :: u8)" "dift_enabled (demo_block\<lparr>src_type := OPT_IM\<rparr>)" "code_room (demo_block\<lparr>src_type := OPT_IM\<rparr>)"
    by (simp_all add: case_nb_defs demo_block_def code_room_def)
  then obtain r s1 where "gen_op (demo_block\<lparr>src_type := OPT_IM\<rparr>) OP_ADDL MO_16 OR_TMP0 False = Some (gen_dift_sync_i64 s1)"
    and d: "\<forall>g dc a. wf_globals g \<and> ctx_within 0x7f dc \<and> unat a + 2 ^ unat (MO_16 :: u8) \<le> unat (phys_ram_size g) \<longrightarrow>
      (\<exists>dc'. dispatch g r dc [a] = Some (dc', []) \<and> (\<forall>k < 2 ^ unat (MO_16 :: u8). mem_dirty_tbl dc' (unat a + k) = 0))"
    using gen_op_immediate_clears_memory [of "demo_block\<lparr>src_type := OPT_IM\<rparr>" MO_16 OP_ADDL False] by auto
  moreover obtain dc' where "dispatch demo_globals r demo_tainted [0x100] = Some (dc', [])"
    and "\<forall>k < 2. mem_dirty_tbl dc' (0x100 + k) = 0"
    using d [rule_format, of demo_globals demo_tainted "0x100"] wf_demo_globals demo_tainted_within
    by (auto simp: MO_16_def demo_globals_def)
  moreover from this(2) have "mem_dirty_tbl dc' 0x101 = 0"
    by (auto dest: spec [of _ 1])
  moreover have "mem_dirty_tbl demo_tainted 0x101 = 2" by (simp add: demo_tainted_def)
  ultimately show ?thesis by blast
qed

text \<open>Byte registers of instructions with a REX prefix are misreported. When the number of an
  8-bit destination above 3 names the lowest byte of its register (R8B, or SPL with a REX
  prefix), \<^verbatim>\<open>gen_dift_op\<close> reports the second byte of the register four below.\<close>

lemma gen_dift_op_rex_byte:
  assumes "dift_enabled s" and "\<not> has effect EFFECT_INSIDE_REG" and "dst_type s = OPT_REG" "src_type s = OPT_MEM"
    and "4 \<le> dst_reg s" "dst_reg s < 16" "\<not> byte_reg_is_xH s (dst_reg s)"
    and "gen_dift_op s effect MO_8 = Some s'"
  shows "\<exists>s1. emits s s1 (OPT_REG, OPT_MEM, MO_8, effect) [False]
      (\<lambda>_. [LReg (unat (dst_reg s) - 4) 1]) (\<lambda>as. [LMem (unat (as ! 0))]) \<and>
    s' = gen_dift_sync_i64 s1 \<and> guest_reg_locs s (dst_reg s) MO_8 = [LReg (unat (dst_reg s)) 0]"
proof -
  let ?r = "dst_reg s"
  have gt: "3 < ?r" using assms(5) by (simp add: word_less_nat_alt word_le_nat_alt)
  obtain s1 where s1: "gen_dift_reg_mem s (?r - 4) effect MO_8 1 = Some s1" "s' = gen_dift_sync_i64 s1"
    using assms(3,4,8) gt
    by (auto simp: gen_dift_op_def bind_eq_Some_conv byte_reg_def byte_hl_def case_nb_defs)
  have "unat (?r - 4) = unat ?r - 4" "unat ?r < 16"
    using assms(5,6) by (simp_all add: unat_sub word_less_nat_alt)
  then have "unat (ucast (?r - 4) :: u8) = unat ?r - 4"
    by (simp add: unsigned_ucast_eq take_bit_nat_eq_self)
  moreover have "(MO_8 :: u8) < 4" "2 ^ unat (MO_8 :: u8) = (1 :: nat)"
    by (simp_all add: MO_8_def)
  ultimately show ?thesis
    using reg_mem_emits [OF assms(1) _ assms(2) s1(1)] s1(2) assms(7)
    by (intro exI [of _ s1]) (simp add: guest_reg_locs_def)
qed

lemma gen_dift_op_rex_byte_example:
  "\<exists>s' s1. gen_dift_op (demo_block\<lparr>src_type := OPT_MEM, dst_reg := 8, x86_64_hregs := True\<rparr>)
       (EFFECT_ONE_TO_ONE OR EFFECT_APPEND) MO_8 = Some s' \<and>
     emits (demo_block\<lparr>src_type := OPT_MEM, dst_reg := 8, x86_64_hregs := True\<rparr>) s1
       (OPT_REG, OPT_MEM, MO_8, EFFECT_ONE_TO_ONE OR EFFECT_APPEND) [False]
       (\<lambda>_. [LReg 4 1]) (\<lambda>as. [LMem (unat (as ! 0))])"
proof -
  let ?s = "demo_block\<lparr>src_type := OPT_MEM, dst_reg := 8, x86_64_hregs := True\<rparr>"
  have nb: "dift_rec_case_nb OPT_REG OPT_MEM (MO_8 AND 0x03) (EFFECT_ONE_TO_ONE OR EFFECT_APPEND) =
      Some REG_MEM_OO_APPEND_MO8"
    using dift_rec_case_nb_complete alu_entries by (simp add: MO_8_def)
  obtain s' where s': "gen_dift_op ?s (EFFECT_ONE_TO_ONE OR EFFECT_APPEND) MO_8 = Some s'"
    by (simp add: gen_dift_op_def gen_dift_reg_mem_def demo_block_def nb gen_dift_enqueue_i64_def Let_def)
  have "\<not> has (EFFECT_ONE_TO_ONE OR EFFECT_APPEND) EFFECT_INSIDE_REG"
    by (simp add: has_def case_nb_defs)
  with s' show ?thesis
    using gen_dift_op_rex_byte [of ?s "EFFECT_ONE_TO_ONE OR EFFECT_APPEND" s']
    by (auto simp: demo_block_def byte_reg_is_xH_def)
qed

end
