(* ===== verification/DiftBlock.thy ===== *)
theory DiftBlock
  imports DiftFlow
begin

text \<open>
  A translated block from its translation to the tags. The translator writes the records of the
  block's first part to the code buffer and leaves operations behind that push addresses and set
  the counter; running the block, or its beginning when an exception leaves it early, and entering
  the next one pushes the words from which the analysis thread executes exactly the records of the
  instructions that were completed.
\<close>

section \<open>The code buffer\<close>

text \<open>Emission only appends to the part of the buffer that belongs to the block.\<close>

lemma do_call_frame:
  assumes "do_call c s = Some s'"
  shows "tb_code_loc s' = tb_code_loc s" "length (dift_code_buffer s') = length (dift_code_buffer s)"
    "tb_code_idx s \<le> tb_code_idx s'"
    "k \<le> tb_code_loc s + tb_code_idx s \<Longrightarrow> take k (dift_code_buffer s') = take k (dift_code_buffer s)"
  using assms by (cases c; auto simp: bind_eq_Some_conv addr_ops gen_dift_enqueue_i64_def
      gen_dift_sync_i64_def tcg_gen_def Let_def split: if_splits)+

lemma do_calls_frame:
  assumes "do_calls cs s = Some s'"
  shows "tb_code_loc s' = tb_code_loc s \<and> length (dift_code_buffer s') = length (dift_code_buffer s) \<and>
    tb_code_idx s \<le> tb_code_idx s' \<and>
    (\<forall>k \<le> tb_code_loc s + tb_code_idx s. take k (dift_code_buffer s') = take k (dift_code_buffer s))"
  using assms
proof (induction cs arbitrary: s)
  case (Cons c cs)
  then obtain s1 where s1: "do_call c s = Some s1" and "do_calls cs s1 = Some s'"
    by (auto simp: bind_eq_Some_conv)
  with Cons.IH [OF this(2)] do_call_frame [OF s1] show ?case by auto
qed simp

lemma do_calls_append: "do_calls (cs @ ds) s = do { s1 \<leftarrow> do_calls cs s; do_calls ds s1 }"
  by (induction cs arbitrary: s) (auto split: bind_splits)

text \<open>The first record of a block.\<close>

definition begin_rec :: dift_record where
  "begin_rec = DIFT_REC_EMPTY\<lparr>case_nb := REC_BLOCK_BEGIN\<rparr>"

lemma u64_begin_rec: "u64_of_rec begin_rec = ucast REC_BLOCK_BEGIN"
  by (simp add: begin_rec_def DIFT_REC_EMPTY_def u64_of_rec_def u64_of_bytes_def REC_BLOCK_BEGIN_def)

lemma block_begin_calls:
  "dift_enabled s \<Longrightarrow>
   gen_dift_block_begin s = do_calls [GRec begin_rec [], GSync] (tcg_gen s (Op_dift_tb_begin (tb_code_loc s)))"
  by (simp add: gen_dift_block_begin_def u64_begin_rec)

lemma dispatch_begin: "dispatch g begin_rec dc as = Some (dc, as)"
  by (simp add: dispatch_def begin_rec_def dispatch_tbl_def case_nb_defs rt_rec_block_begin_def)

section \<open>Running a block\<close>

lemma cached_holds:
  assumes "cached_in buf (n * 160) rs buf1" and "length rs \<le> 159" "n < CONFIG_MAX_TB_ESTI"
    and "Suc n * 160 \<le> length buf2"
    and "take (length rs) (drop (n * 160) buf2) = take (length rs) (drop (n * 160) buf1)"
  shows "holds_records buf2 (block_word (of_nat n) (of_nat (length rs)) 0) rs"
proof -
  have "unat (of_nat n :: u32) = n"
    using assms(3) by (simp add: unat_of_nat take_bit_nat_eq_self CONFIG_MAX_TB_ESTI_def)
  note r = block_word_range [OF assms(2), of n, unfolded this]
  have "take (length rs) (drop (n * 160) buf1) = map u64_of_rec rs"
    using assms(1) by (simp add: cached_in_def)
  then show ?thesis
    using assms(2,4,5) by (simp add: holds_records_def r)
qed

text \<open>What the translator knows when it starts a block.\<close>

definition fresh_block :: "disas_context \<Rightarrow> nat \<Rightarrow> bool" where
  "fresh_block s n \<longleftrightarrow> dift_enabled s \<and> \<not> label_or_helper_appeared s \<and> tb_code_idx s = 0 \<and>
     tb_code_loc s = n * CONFIG_IF_CODES_PER_TB \<and> n < CONFIG_MAX_TB_ESTI \<and>
     Suc n * CONFIG_IF_CODES_PER_TB \<le> length (dift_code_buffer s)"

definition translate_block :: "disas_context \<Rightarrow> gen_call list \<Rightarrow> disas_context option" where
  "translate_block s cs = do { s0 \<leftarrow> gen_dift_block_begin s; do_calls cs s0 }"

text \<open>
  The words out so far, with those that the entry of the next block (or a synchronisation) will
  push for the block that runs now.
\<close>

abbreviation block_mark :: u64 where
  "block_mark \<equiv> REC_END_SYMBOL OR ucast REC_BEFORE_BLOCK_BEGIN"

definition flushed :: "run_state \<Rightarrow> u64 list" where
  "flushed rs = rt_out rs @ [block_mark, block_word (dift_code_loc rs) (dift_code_cntr rs) (dift_code_off rs)]"

lemma run_tb_begin:
  "run_op g rd wr (Op_dift_tb_begin n) rs =
     \<lparr>dift_code_loc = of_nat (n div CONFIG_IF_CODES_PER_TB), dift_code_cntr = 0, dift_code_off = 0, rt_out = flushed rs\<rparr>"
  by (simp add: Let_def rt_enqueue_def flushed_def)

lemma block_body_runs:
  assumes "fresh_block s n" and "translate_block s cs = Some s1" and "synced False cs"
    and "tcg_ops s1 = tcg_ops s @ map fst ex"
  obtains cached inl where "fits g ex (cached @ inl) ((begin_rec, []) # calls_recs cs)" and "length cached \<le> 159"
    and "run_exec g ex rs = \<lparr>dift_code_loc = of_nat n, dift_code_cntr = of_nat (length cached), dift_code_off = 0,
      rt_out = flushed rs @ concat (map snd cached) @ inline_words inl\<rparr>"
    and "cached_in (dift_code_buffer s) (n * 160) (map fst cached) (dift_code_buffer s1)"
    and "tb_code_loc s1 + tb_code_idx s1 = n * 160 + length cached"
proof -
  let ?t = "tcg_gen s (Op_dift_tb_begin (tb_code_loc s))" and ?cs = "GRec begin_rec [] # GSync # cs"
  note fresh = assms(1) [unfolded fresh_block_def CONFIG_IF_CODES_PER_TB_def]
  have calls: "do_calls ?cs ?t = Some s1"
    using assms(2) fresh do_calls_append [of "[GRec begin_rec [], GSync]" cs ?t]
    by (simp add: translate_block_def block_begin_calls)
  then obtain ops where ops: "tcg_ops s1 = tcg_ops ?t @ ops"
    using do_calls_ops_mono by blast
  then obtain x ex' where ex: "ex = x # ex'" "fst x = Op_dift_tb_begin (tb_code_loc s)" "map fst ex' = ops"
    using assms(4) by (cases ex) (auto simp: tcg_gen_def)
  define rs1 where "rs1 = run_op g (fst (snd x)) (snd (snd x)) (fst x) rs"
  have rs1: "rs1 = \<lparr>dift_code_loc = of_nat n, dift_code_cntr = 0, dift_code_off = 0, rt_out = flushed rs\<rparr>"
    unfolding rs1_def ex(2) run_tb_begin using fresh by (simp add: CONFIG_IF_CODES_PER_TB_def)
  have run: "cached_run g ex' rs1 ?t (calls_recs ?cs) s1"
    using fresh assms(3) ops ex(3) rs1
    by (intro cached_calls [where pend = False] calls) (simp_all add: tcg_gen_def)
  then obtain cached inl where c: "fits g ex' (cached @ inl) ((begin_rec, []) # calls_recs cs)"
    "run_exec g ex rs = \<lparr>dift_code_loc = of_nat n, dift_code_cntr = of_nat (length cached), dift_code_off = 0,
      rt_out = flushed rs @ concat (map snd cached) @ inline_words inl\<rparr>"
    "cached_in (dift_code_buffer s) (n * 160) (map fst cached) (dift_code_buffer s1)" "tb_code_idx s1 = length cached"
    using fresh unfolding cached_run_def ex(1) run_exec.simps rs1_def [symmetric] by (auto simp: tcg_gen_def rs1)
  show ?thesis
    by (rule that [OF fits_mono [OF c(1)] _ c(2,3)])
      (use run c(4) fresh in \<open>auto simp: ex(1) cached_run_def tcg_gen_def\<close>)
qed

text \<open>
  An executed block: translated at some time, with further records \<open>cs2\<close> behind the point
  where the execution left it, and still in the code buffer.
\<close>

definition block_in :: "u64 list \<Rightarrow> gen_call list \<times> (tcg_op \<times> u64 \<times> u64) list \<Rightarrow> bool" where
  "block_in buf b \<longleftrightarrow>
     (\<exists>s n s1 cs2 s2. fresh_block s n \<and> translate_block s (fst b) = Some s1 \<and> synced False (fst b) \<and>
        do_calls cs2 s1 = Some s2 \<and> tcg_ops s1 = tcg_ops s @ map fst (snd b) \<and> length buf = length (dift_code_buffer s2) \<and>
        take CONFIG_IF_CODES_PER_TB (drop (n * CONFIG_IF_CODES_PER_TB) buf) =
        take CONFIG_IF_CODES_PER_TB (drop (n * CONFIG_IF_CODES_PER_TB) (dift_code_buffer s2)))"

lemma block_runs:
  assumes "block_in buf b"
  obtains cached inl w where "fits g (snd b) (cached @ inl) ((begin_rec, []) # calls_recs (fst b))"
    and "holds_records buf w (map fst cached)"
    and "flushed (run_exec g (snd b) rs) = flushed rs @ block_words (cached, inl, w)"
    and "dift_code_off (run_exec g (snd b) rs) = 0" "unat (dift_code_loc (run_exec g (snd b) rs)) * 160 < length buf"
    "unat (dift_code_cntr (run_exec g (snd b) rs)) < 2 ^ 16"
proof -
  obtain s n s1 cs2 s2 where s: "fresh_block s n" "translate_block s (fst b) = Some s1" "synced False (fst b)"
    "tcg_ops s1 = tcg_ops s @ map fst (snd b)" and s2: "do_calls cs2 s1 = Some s2"
    and buf: "length buf = length (dift_code_buffer s2)"
      "take 160 (drop (n * 160) buf) = take 160 (drop (n * 160) (dift_code_buffer s2))"
    using assms unfolding block_in_def CONFIG_IF_CODES_PER_TB_def by blast
  obtain cached inl where c: "fits g (snd b) (cached @ inl) ((begin_rec, []) # calls_recs (fst b))" "length cached \<le> 159"
    and run: "run_exec g (snd b) rs = \<lparr>dift_code_loc = of_nat n, dift_code_cntr = of_nat (length cached), dift_code_off = 0,
      rt_out = flushed rs @ concat (map snd cached) @ inline_words inl\<rparr>"
    and cin: "cached_in (dift_code_buffer s) (n * 160) (map fst cached) (dift_code_buffer s1)"
      "tb_code_loc s1 + tb_code_idx s1 = n * 160 + length cached"
    using s by (rule block_body_runs)
  let ?m = "length cached"
  have len: "length (dift_code_buffer s2) = length (dift_code_buffer s)"
    using cin(1) do_calls_frame [OF s2] by (auto simp: cached_in_def)
  have "take ?m (drop (n * 160) buf) = take ?m (take 160 (drop (n * 160) buf))"
    using c(2) by (simp add: min_def)
  also have "\<dots> = take ?m (drop (n * 160) (dift_code_buffer s2))"
    unfolding buf(2) using c(2) by (simp add: min_def)
  also have "\<dots> = drop (n * 160) (take (n * 160 + ?m) (dift_code_buffer s2))"
    by (simp add: take_drop add.commute)
  also have "\<dots> = take ?m (drop (n * 160) (dift_code_buffer s1))"
    using do_calls_frame [OF s2] cin(2) by (simp add: take_drop add.commute)
  finally have "holds_records buf (block_word (of_nat n) (of_nat ?m) 0) (map fst cached)"
    using cached_holds [OF cin(1), of buf] c(2) s(1) buf(1) len
    by (simp add: fresh_block_def CONFIG_IF_CODES_PER_TB_def)
  moreover have "unat (of_nat n :: u32) * 160 < length buf"
    using s(1) buf(1) len by (simp add: fresh_block_def CONFIG_MAX_TB_ESTI_def CONFIG_IF_CODES_PER_TB_def
        unat_of_nat take_bit_nat_eq_self)
  moreover have "unat (of_nat ?m :: u32) < 2 ^ 16"
    using c(2) by (simp add: unat_of_nat take_bit_nat_eq_self)
  ultimately show ?thesis
    using c by (intro that [of cached inl]) (simp_all add: run flushed_def block_words_def)
qed

section \<open>Blocks in a row\<close>

definition run_blocks ::
  "dift_globals \<Rightarrow> (gen_call list \<times> (tcg_op \<times> u64 \<times> u64) list) list \<Rightarrow> run_state \<Rightarrow> run_state" where
  "run_blocks g bs rs = foldl (\<lambda>rs b. run_exec g (snd b) rs) rs bs"

definition block_for ::
  "dift_globals \<Rightarrow> u64 list \<Rightarrow> gen_call list \<times> (tcg_op \<times> u64 \<times> u64) list \<Rightarrow> block \<Rightarrow> bool" where
  "block_for g buf b k \<longleftrightarrow>
     fits g (snd b) (block_items k) ((begin_rec, []) # calls_recs (fst b)) \<and>
     (case k of (cached, inl, w) \<Rightarrow> holds_records buf w (map fst cached))"

lemma blocks_run:
  "list_all (block_in buf) bs \<Longrightarrow>
   \<exists>ks. list_all2 (block_for g buf) bs ks \<and>
     flushed (run_blocks g bs rs) = flushed rs @ concat (map block_words ks)"
proof (induction bs arbitrary: rs)
  case (Cons b bs)
  from Cons.prems have "block_in buf b" by simp
  then obtain cached inl w where "fits g (snd b) (cached @ inl) ((begin_rec, []) # calls_recs (fst b))"
    and "holds_records buf w (map fst cached)"
    and "flushed (run_exec g (snd b) rs) = flushed rs @ block_words (cached, inl, w)"
    by (rule block_runs)
  moreover from this(1,2) have "block_for g buf b (cached, inl, w)"
    by (simp add: block_for_def block_items_def)
  moreover obtain ks where "list_all2 (block_for g buf) bs ks"
    and "flushed (run_blocks g bs (run_exec g (snd b) rs)) =
      flushed (run_exec g (snd b) rs) @ concat (map block_words ks)"
    using Cons by auto
  ultimately show ?case
    by (intro exI [of _ "(cached, inl, w) # ks"]) (simp add: run_blocks_def)
qed (simp add: run_blocks_def)

text \<open>
  What makes a block harmless for the analysis thread: whatever addresses its accesses find, its
  operands exist, no address looks like a mark, and what it pushes fits into \<^verbatim>\<open>q_addrs\<close>.
\<close>

definition block_safe :: "dift_globals \<Rightarrow> gen_call list \<times> (tcg_op \<times> u64 \<times> u64) list \<Rightarrow> bool" where
  "block_safe g b \<longleftrightarrow>
     (\<forall>(r, ks) \<in> set (calls_recs (fst b)). \<forall>as. list_all2 (addr_found g (snd b)) as ks \<longrightarrow> item_ok g (r, as)) \<and>
     (\<forall>a k. addr_found g (snd b) a k \<longrightarrow> plain a) \<and>
     Suc (\<Sum>rk \<leftarrow> calls_recs (fst b). Suc (length (snd rk))) < Q_ADDRS_SIZE"

lemma fits_items:
  assumes "fits g ex its rks" and "\<forall>(r, ks) \<in> set rks. \<forall>as. list_all2 (addr_found g ex) as ks \<longrightarrow> item_ok g (r, as)"
  shows "list_all (item_ok g) its"
  using assms unfolding fits_def by (induction rule: list_all2_induct) (auto split: prod.splits)

lemma found_plain:
  "list_all2 (addr_found g ex) as ks \<Longrightarrow> \<forall>a k. addr_found g ex a k \<longrightarrow> plain a \<Longrightarrow> list_all plain as"
  by (induction rule: list_all2_induct) auto

lemma fits_plain:
  assumes "fits g ex its rks" and "\<forall>a k. addr_found g ex a k \<longrightarrow> plain a"
  shows "list_all (list_all plain \<circ> snd) its"
  using assms(1) unfolding fits_def
  by (induction rule: list_all2_induct) (auto intro: found_plain [OF _ assms(2)])

lemma fits_words:
  assumes "fits g ex its rks"
  shows "(\<Sum>it \<leftarrow> its. Suc (length (snd it))) = (\<Sum>rk \<leftarrow> rks. Suc (length (snd rk)))"
  using assms unfolding fits_def
  by (induction rule: list_all2_induct) (auto dest: list_all2_lengthD)

lemma payload_length:
  "length (block_payload (cached, inl, w)) \<le> (\<Sum>it \<leftarrow> cached @ inl. Suc (length (snd it)))"
proof -
  have "length (concat (map snd cached)) \<le> (\<Sum>it \<leftarrow> cached. Suc (length (snd it)))"
    by (induction cached) auto
  moreover have "length (inline_words inl) = (\<Sum>it \<leftarrow> inl. Suc (length (snd it)))"
    by (induction inl) (auto simp: inline_words_def)
  ultimately show ?thesis by (simp add: block_payload_def)
qed

lemma begin_item_ok: "item_ok g (begin_rec, [])"
  by (simp add: item_ok_def begin_rec_def shape_tbl_def case_nb_defs)

lemma block_for_ok:
  assumes "block_for g buf b k" and "block_safe g b"
  shows "block_ok g buf k"
proof -
  obtain cached inl w where k: "k = (cached, inl, w)" by (cases k)
  have f: "fits g (snd b) (cached @ inl) ((begin_rec, []) # calls_recs (fst b))"
    and h: "holds_records buf w (map fst cached)"
    using assms(1) by (simp_all add: block_for_def k block_items_def)
  have "list_all (item_ok g) (cached @ inl)"
    by (rule fits_items [OF f]) (use assms(2) begin_item_ok in \<open>auto simp: block_safe_def\<close>)
  moreover have "list_all (list_all plain \<circ> snd) (cached @ inl)"
    using fits_plain [OF f] assms(2) by (simp add: block_safe_def)
  moreover have "length (block_payload k) < Q_ADDRS_SIZE"
    using payload_length [of cached inl w] fits_words [OF f] assms(2) by (simp add: k block_safe_def)
  ultimately show ?thesis
    using h by (simp add: block_ok_def k block_items_def)
qed

lemma exec_begin: "exec_items g ((begin_rec, []) # its) dc = exec_items g its dc"
  by (simp add: dispatch_begin)

lemma exec_without_begin:
  "list_all2 (block_for g buf) bs ks \<Longrightarrow>
   exec_items g (concat (map block_items ks)) dc = exec_items g (concat (map (tl \<circ> block_items) ks)) dc"
proof (induction arbitrary: dc rule: list_all2_induct)
  case (Cons b bs k ks)
  obtain its where "block_items k = (begin_rec, []) # its"
    using Cons(1) by (cases "block_items k") (auto simp: block_for_def fits_def)
  with Cons show ?case
    by (simp add: exec_items_append dispatch_begin split: bind_splits)
qed simp

lemma blocks_words:
  assumes "wf_globals g" and "list_all (block_in buf) bs" and "list_all (block_safe g) bs"
  obtains ks itss dc' where "flushed (run_blocks g bs rs) = flushed rs @ concat (map block_words ks)"
    and "list_all (block_ok g buf) ks" and "exec_items g (concat (map block_items ks)) dc = Some dc'"
    and "list_all2 (\<lambda>b its. fits g (snd b) its (calls_recs (fst b))) bs itss"
    and "exec_items g (concat itss) dc = Some dc'"
proof -
  obtain ks where ks: "list_all2 (block_for g buf) bs ks"
    and out: "flushed (run_blocks g bs rs) = flushed rs @ concat (map block_words ks)"
    using blocks_run [OF assms(2)] by blast
  have ok: "list_all (block_ok g buf) ks"
    using ks assms(3) by (induction rule: list_all2_induct) (auto intro: block_for_ok)
  then have "list_all (item_ok g) (concat (map block_items ks))"
    by (auto simp: list_all_iff block_ok_def)
  then obtain dc' where dc': "exec_items g (concat (map block_items ks)) dc = Some dc'"
    using exec_items_total [OF assms(1)] by blast
  have "list_all2 (\<lambda>b its. fits g (snd b) its (calls_recs (fst b))) bs (map (tl \<circ> block_items) ks)"
    using ks unfolding list_all2_map2
    by (rule list_all2_mono) (auto simp: block_for_def fits_def list_all2_Cons2)
  then show ?thesis
    using that [OF out ok dc'] dc' exec_without_begin [OF ks, of dc] by simp
qed

section \<open>Properties\<close>

text \<open>C2: from translation to taint. Whatever blocks run, in whatever order and each up to any point at
  which its counter is synchronised, the words that reach the queue make the analysis thread
  execute exactly the records of the executed parts, in order, each with addresses that its own
  kind of access found: records that the translator put into the code buffer and records that were
  pushed directly alike. The thread returns to waiting and leaves the code buffer unchanged.\<close>

theorem executed_blocks_are_analysed:
  assumes "wf_globals g" and "list_all (block_in (an_buf st)) bs" and "list_all (block_safe g) bs"
    and "q_addrs st = []"
  shows "\<exists>words itss dc'. flushed (run_blocks g bs rs) = flushed rs @ words \<and>
    list_all2 (\<lambda>b its. fits g (snd b) its (calls_recs (fst b))) bs itss \<and>
    exec_items g (concat itss) (an_dc st) = Some dc' \<and>
    analysis_mainloop g st words = Some (st\<lparr>an_dc := dc'\<rparr>, [])"
proof -
  obtain ks itss dc' where k: "flushed (run_blocks g bs rs) = flushed rs @ concat (map block_words ks)"
    "list_all (block_ok g (an_buf st)) ks" "exec_items g (concat (map block_items ks)) (an_dc st) = Some dc'"
    "list_all2 (\<lambda>b its. fits g (snd b) its (calls_recs (fst b))) bs itss"
    "exec_items g (concat itss) (an_dc st) = Some dc'"
    using assms(1-3) by (rule blocks_words)
  moreover have "analysis_mainloop g st (concat (map block_words ks)) = Some (st\<lparr>an_dc := dc'\<rparr>, [])"
    using mainloop_blocks [OF assms(1) k(2) assms(4) k(3), of "[]"]
    by (simp add: analysis_mainloop.simps [of _ _ "[]"])
  ultimately show ?thesis by blast
qed

text \<open>A block with a register move and a store of four bytes.\<close>

definition demo_calls :: "gen_call list" where
  "demo_calls = [GRec demo_move [], GSync, GRec demo_store [True], GSync]"

definition demo_exec :: "(tcg_op \<times> u64 \<times> u64) list" where
  "demo_exec = map (\<lambda>op. (op, phys_ram_base demo_globals + 0x80, phys_ram_base demo_globals + 0x40))
     [Op_dift_tb_begin 0, Op_dift_inc_diftcodes 1, Op_dift_inc_diftcodes 2, Op_dift_enq_wa, Op_dift_inc_diftcodes 3]"

definition demo_translated :: disas_context where
  "demo_translated = demo_block\<lparr>tb_code_idx := 3, tcg_ops := map fst demo_exec,
     dift_code_buffer := (replicate 160 0)
       [0 := u64_of_rec begin_rec, 1 := u64_of_rec demo_move, 2 := u64_of_rec demo_store]\<rparr>"

lemma demo_translate: "translate_block demo_block demo_calls = Some demo_translated"
  by (simp add: translate_block_def gen_dift_block_begin_def u64_begin_rec [symmetric] gen_dift_enqueue_i64_def
      demo_block_def demo_calls_def demo_translated_def demo_exec_def gen_dift_sync_i64_def tcg_gen_def
      gen_dift_enqueue_addr_def Let_def CONFIG_IF_CODES_PER_TB_def numeral_2_eq_2 numeral_3_eq_3)

lemma demo_block_in: "block_in (dift_code_buffer demo_translated) (demo_calls, demo_exec)"
proof -
  have "fresh_block demo_block 0"
    by (simp add: fresh_block_def demo_block_def CONFIG_IF_CODES_PER_TB_def CONFIG_MAX_TB_ESTI_def)
  moreover have "synced False demo_calls" by (simp add: demo_calls_def)
  moreover have "tcg_ops demo_translated = tcg_ops demo_block @ map fst demo_exec"
    by (simp add: demo_translated_def demo_block_def)
  ultimately show ?thesis
    unfolding block_in_def fst_conv snd_conv
    by (intro exI [of _ demo_block] exI [of _ 0] exI [of _ demo_translated] exI [of _ "[]"]) (simp add: demo_translate)
qed

lemma demo_found: "addr_found demo_globals demo_exec a k \<longleftrightarrow> a = 0x40 \<and> k"
  by (cases k) (auto simp: addr_found_def addr_op_def demo_exec_def)

lemma demo_block_safe: "block_safe demo_globals (demo_calls, demo_exec)"
proof -
  have "list_all2 (addr_found demo_globals demo_exec) as [True] \<Longrightarrow> as = [0x40]" for as
    by (auto simp: list_all2_Cons2 demo_found)
  then show ?thesis
    using demo_items_ok
    by (auto simp: block_safe_def demo_calls_def demo_found plain_def case_nb_defs Q_ADDRS_SIZE_def)
qed

theorem executed_blocks_are_analysed_witness:
  "\<exists>buf words dc'. let rs = \<lparr>dift_code_loc = 0, dift_code_cntr = 0, dift_code_off = 0, rt_out = []\<rparr>;
       st = \<lparr>an_dc = demo_tainted, an_buf = buf, q_addrs = [], dift_thread_ok_signal = False\<rparr> in
     flushed (run_blocks demo_globals [(demo_calls, demo_exec), (demo_calls, demo_exec)] rs) = flushed rs @ words \<and>
     analysis_mainloop demo_globals st words = Some (st\<lparr>an_dc := dc'\<rparr>, [])"
proof -
  let ?st = "\<lparr>an_dc = demo_tainted, an_buf = dift_code_buffer demo_translated, q_addrs = [],
      dift_thread_ok_signal = False\<rparr>"
  have "list_all (block_in (an_buf ?st)) [(demo_calls, demo_exec), (demo_calls, demo_exec)]"
    "list_all (block_safe demo_globals) [(demo_calls, demo_exec), (demo_calls, demo_exec)]" "q_addrs ?st = []"
    using demo_block_in demo_block_safe by simp_all
  from executed_blocks_are_analysed [OF wf_demo_globals this] show ?thesis
    unfolding Let_def by blast
qed

section \<open>Bounds\<close>

definition slot_inv :: "nat \<Rightarrow> disas_context \<Rightarrow> bool" where
  "slot_inv n s \<longleftrightarrow> tb_code_loc s = n * 160 \<and> tb_code_idx s \<le> 159 \<and>
     (\<not> label_or_helper_appeared s \<longrightarrow> tb_code_idx s < 159) \<and> Suc n * 160 \<le> length (dift_code_buffer s)"

definition same_outside :: "nat \<Rightarrow> u64 list \<Rightarrow> u64 list \<Rightarrow> bool" where
  "same_outside n buf buf' \<longleftrightarrow>
     length buf' = length buf \<and> (\<forall>i. i < n * 160 \<or> n * 160 + 159 \<le> i \<longrightarrow> buf' ! i = buf ! i)"

lemma do_call_slot:
  assumes "slot_inv n s"
  obtains s' where "do_call c s = Some s'" "slot_inv n s'"
    "same_outside n (dift_code_buffer s) (dift_code_buffer s')"
proof (cases c)
  case (GRec r ks)
  have "code_room s" using assms by (auto simp: slot_inv_def code_room_def)
  then obtain s1 where s1: "gen_dift_enqueue_i64 s (u64_of_rec r) = Some s1"
    using code_room_enqueue by blast
  have "slot_inv n s1 \<and> same_outside n (dift_code_buffer s) (dift_code_buffer s1)"
    using assms s1 by (auto simp: slot_inv_def same_outside_def gen_dift_enqueue_i64_def gen_dift_sync_i64_def
        tcg_gen_def Let_def CONFIG_IF_CODES_PER_TB_def nth_list_update split: if_splits)
  with s1 show ?thesis
    using that GRec by (simp add: addr_ops slot_inv_def)
qed (use assms that in \<open>auto simp: slot_inv_def same_outside_def gen_dift_sync_i64_def tcg_gen_def\<close>)

lemma same_outside_trans: "same_outside n a b \<Longrightarrow> same_outside n b c \<Longrightarrow> same_outside n a c"
  by (simp add: same_outside_def)

lemma do_calls_slot:
  "slot_inv n s \<Longrightarrow> \<exists>s'. do_calls cs s = Some s' \<and> slot_inv n s' \<and>
     same_outside n (dift_code_buffer s) (dift_code_buffer s')"
proof (induction cs arbitrary: s)
  case (Cons c cs)
  obtain s1 where "do_call c s = Some s1" "slot_inv n s1" "same_outside n (dift_code_buffer s) (dift_code_buffer s1)"
    using Cons.prems by (rule do_call_slot)
  with Cons.IH [of s1] show ?case by (auto intro: same_outside_trans)
qed (simp add: same_outside_def)

text \<open>C26: translating a block never writes outside the block's own part of the code buffer: for any
  sequence of records, synchronisations and helper calls the translation succeeds, uses at most 159
  of the block's 160 words and leaves every other word of the buffer as it was.\<close>

theorem translate_block_bounded:
  assumes "fresh_block s n"
  shows "\<exists>s'. translate_block s cs = Some s' \<and> tb_code_idx s' \<le> CONFIG_IF_CODES_PER_TB - 1 \<and>
    length (dift_code_buffer s') = length (dift_code_buffer s) \<and>
    (\<forall>i. i < n * CONFIG_IF_CODES_PER_TB \<or> Suc n * CONFIG_IF_CODES_PER_TB - 1 \<le> i \<longrightarrow>
       dift_code_buffer s' ! i = dift_code_buffer s ! i)"
proof -
  let ?t = "tcg_gen s (Op_dift_tb_begin (tb_code_loc s))"
  have "translate_block s cs = do_calls ([GRec begin_rec [], GSync] @ cs) ?t"
    unfolding translate_block_def do_calls_append using assms block_begin_calls by (simp add: fresh_block_def)
  moreover have "slot_inv n ?t"
    using assms by (simp add: slot_inv_def fresh_block_def tcg_gen_def CONFIG_IF_CODES_PER_TB_def)
  from do_calls_slot [OF this, of "[GRec begin_rec [], GSync] @ cs"]
  obtain s' where "do_calls ([GRec begin_rec [], GSync] @ cs) ?t = Some s'" "slot_inv n s'"
    "same_outside n (dift_code_buffer ?t) (dift_code_buffer s')" by blast
  ultimately show ?thesis
    by (auto simp: slot_inv_def same_outside_def tcg_gen_def CONFIG_IF_CODES_PER_TB_def)
qed

theorem translate_block_bounded_witness:
  "\<exists>s'. translate_block demo_block (replicate 500 (GRec demo_move [])) = Some s' \<and> tb_code_idx s' \<le> 159"
proof -
  have "fresh_block demo_block 0"
    by (simp add: fresh_block_def demo_block_def CONFIG_IF_CODES_PER_TB_def CONFIG_MAX_TB_ESTI_def)
  from translate_block_bounded [OF this, of "replicate 500 (GRec demo_move [])"] show ?thesis
    by (auto simp: CONFIG_IF_CODES_PER_TB_def)
qed

lemma block_word_bounds:
  assumes "unat cntr < 2 ^ 16" and "off \<le> cntr"
  shows "code_begin (block_word loc cntr off) = unat loc * CONFIG_IF_CODES_PER_TB + unat off \<and>
    code_end (block_word loc cntr off) = unat loc * CONFIG_IF_CODES_PER_TB + unat cntr"
proof -
  note f = block_word_fields [OF assms, of loc]
  have le: "unat off \<le> unat cntr" using assms(2) by (simp add: word_le_nat_alt)
  have "unat (ucast loc * 160 + ucast off :: u64) = unat loc * 160 + unat off"
    using unat_less_32 [of loc] assms(1) le by (simp add: unat_word_ariths unat_ucast_up)
  moreover have "unat (ucast cntr - ucast off :: u64) = unat cntr - unat off"
    using le by (simp add: unat_sub word_le_nat_alt unat_ucast_up)
  ultimately show ?thesis
    using le by (simp add: code_begin_def code_end_def f CONFIG_IF_CODES_PER_TB_def)
qed

text \<open>The word that describes an executed block survives its packing. With a counter below 65536
  that has reached the offset, the analysis thread reads back the very part of the code buffer
  between the offset and the counter of the block.\<close>

lemma block_word_round_trip:
  assumes "unat cntr < 2 ^ 16" and "off \<le> cntr"
  shows "code_begin (block_word loc cntr off) = unat loc * CONFIG_IF_CODES_PER_TB + unat off \<and>
    code_end (block_word loc cntr off) = unat loc * CONFIG_IF_CODES_PER_TB + unat cntr"
  using assms by (rule block_word_bounds)

lemma block_word_round_trip_example:
  "code_begin (block_word 7 20 4) = 1124 \<and> code_end (block_word 7 20 4) = 1140"
  using block_word_round_trip [of 20 4 7] by (simp add: CONFIG_IF_CODES_PER_TB_def)

end
