(* ===== verification/DiftQueue.thy ===== *)
theory DiftQueue
  imports DiftContext "HOL-Library.Sublist"
begin

text \<open>
  The queue between the emulation thread and the analysis thread (\<^verbatim>\<open>ext/dift/dift.c\<close>): a ring of
  4096 chunks of 512 words in \<^verbatim>\<open>q_records\<close>, handed over chunk by chunk through
  \<^verbatim>\<open>q_chunks_flag\<close>. \<open>dift_queue\<close> is the shared memory; the pointers \<^verbatim>\<open>enqptr\<close>, \<^verbatim>\<open>deqptr\<close> and
  \<^verbatim>\<open>q_chunks_ptr\<close> are indices into \<^verbatim>\<open>q_records\<close>, which is aligned to the size of a chunk.
  \<^verbatim>\<open>dift_rec_enqueue\<close>, \<^verbatim>\<open>kick_enqptr\<close> and \<^verbatim>\<open>next_block\<close> spin on a flag of the other thread; they are
  split there, and \<open>qstep\<close> interleaves the parts of both threads in any order. \<open>queue_sys\<close> adds the
  program points and a history: the chunks handed over (\<open>closed\<close>), the words of the chunk being
  filled (\<open>cur\<close>), the chunks the analysis thread has taken and the words it got.
\<close>

section \<open>Shared memory\<close>

definition CHUNK_AVAILABLE :: u64 where [case_nb_defs]: "CHUNK_AVAILABLE = 0"
definition CHUNK_FILLING :: u64 where [case_nb_defs]: "CHUNK_FILLING = 1"
definition CHUNK_FILLED :: u64 where [case_nb_defs]: "CHUNK_FILLED = 2"
definition CHUNK_CONSUMING :: u64 where [case_nb_defs]: "CHUNK_CONSUMING = 3"

record dift_queue =
  q_records :: "nat \<Rightarrow> u64"
  q_chunks_ptr :: "nat \<Rightarrow> nat"
  q_chunks_flag :: "nat \<Rightarrow> u64"
  enqptr :: nat
  head :: u64
  prev_head :: u64

definition init_queue :: "(nat \<Rightarrow> u64) \<Rightarrow> dift_queue" where
  "init_queue recs =
     \<lparr>q_records = recs, q_chunks_ptr = (\<lambda>i. (i * SIZE_OF_CHUNK) div 8),
      q_chunks_flag = (\<lambda>i. CHUNK_AVAILABLE)(0 := CHUNK_FILLING),
      enqptr = 0, head = 1, prev_head = 0\<rparr>"

text \<open>\<^verbatim>\<open>((uint64_t)p & ~CHUNK_BITSIZEMASK) == 0\<close>\<close>

definition chunk_aligned :: "nat \<Rightarrow> bool" where
  "chunk_aligned p \<longleftrightarrow> (p * 8) mod SIZE_OF_CHUNK = 0"

section \<open>Emulation thread\<close>

definition store_word :: "dift_queue \<Rightarrow> u64 \<Rightarrow> dift_queue" where
  "store_word q w = q\<lparr>q_records := (q_records q)(enqptr q := w), enqptr := Suc (enqptr q)\<rparr>"

definition publish_chunk :: "dift_queue \<Rightarrow> dift_queue" where
  "publish_chunk q = q\<lparr>q_chunks_flag := (q_chunks_flag q)(unat (prev_head q) := CHUNK_FILLED)\<rparr>"

definition chunk_available :: "dift_queue \<Rightarrow> bool" where
  "chunk_available q \<longleftrightarrow> q_chunks_flag q (unat (head q)) = CHUNK_AVAILABLE"

definition take_chunk :: "dift_queue \<Rightarrow> dift_queue" where
  "take_chunk q =
     q\<lparr>q_chunks_flag := (q_chunks_flag q)(unat (head q) := CHUNK_FILLING),
       enqptr := q_chunks_ptr q (unat (head q)),
       prev_head := head q,
       head := (head q + 1) mod of_nat Q_CHUNKS_SIZE\<rparr>"

text \<open>The functions as a whole: \<open>None\<close> while the flag they spin on is not set.\<close>

definition dift_rec_enqueue :: "dift_queue \<Rightarrow> u64 \<Rightarrow> dift_queue option" where
  "dift_rec_enqueue q data_in =
     (let q1 = store_word q data_in in
      if chunk_aligned (enqptr q1)
      then (let q2 = publish_chunk q1 in if chunk_available q2 then Some (take_chunk q2) else None)
      else Some q1)"

definition kick_enqptr :: "dift_queue \<Rightarrow> dift_queue option" where
  "kick_enqptr q =
     (if chunk_aligned (enqptr q) then Some q
      else (let q2 = publish_chunk q in if chunk_available q2 then Some (take_chunk q2) else None))"

section \<open>Analysis thread\<close>

definition release_chunk :: "dift_queue \<Rightarrow> dift_context \<Rightarrow> dift_queue" where
  "release_chunk q dc = q\<lparr>q_chunks_flag := (q_chunks_flag q)(unat (prev_tail dc) := CHUNK_AVAILABLE)\<rparr>"

definition chunk_filled :: "dift_queue \<Rightarrow> dift_context \<Rightarrow> bool" where
  "chunk_filled q dc \<longleftrightarrow> q_chunks_flag q (unat (tail dc)) = CHUNK_FILLED"

definition consume_chunk :: "dift_queue \<Rightarrow> dift_context \<Rightarrow> dift_queue \<times> dift_context" where
  "consume_chunk q dc =
     (q\<lparr>q_chunks_flag := (q_chunks_flag q)(unat (tail dc) := CHUNK_CONSUMING)\<rparr>,
      dc\<lparr>deqptr := Some (q_chunks_ptr q (unat (tail dc))), prev_tail := tail dc,
         tail := (tail dc + 1) mod of_nat Q_CHUNKS_SIZE\<rparr>)"

definition next_block :: "dift_queue \<Rightarrow> dift_context \<Rightarrow> (dift_queue \<times> dift_context) option" where
  "next_block q dc =
     (let q1 = release_chunk q dc in if chunk_filled q1 dc then Some (consume_chunk q1 dc) else None)"

definition chunk_done :: "dift_context \<Rightarrow> bool" where
  "chunk_done dc \<longleftrightarrow> (case deqptr dc of None \<Rightarrow> True | Some p \<Rightarrow> chunk_aligned p)"

definition rec_dequeue :: "dift_queue \<Rightarrow> dift_context \<Rightarrow> (u64 \<times> dift_queue \<times> dift_context) option" where
  "rec_dequeue q dc =
     do { (q1, dc1) \<leftarrow> (if chunk_done dc then next_block q dc else Some (q, dc));
          p \<leftarrow> deqptr dc1;
          Some (q_records q1 p, q1, dc1\<lparr>deqptr := Some (Suc p)\<rparr>) }"

section \<open>Both threads\<close>

definition SYNC_WORD :: u64 where "SYNC_WORD = REC_END_SYMBOL OR ucast REC_SYNC"
definition MARK_WORD :: u64 where "MARK_WORD = REC_END_SYMBOL OR ucast REC_BEFORE_BLOCK_BEGIN"

text \<open>\<open>sync_word\<close> is the word \<^verbatim>\<open>dift_sync\<close> builds from the location and the counter.\<close>

definition sync_word :: "u32 \<Rightarrow> u32 \<Rightarrow> u64" where
  "sync_word loc cntr = push_bit 16 (push_bit 16 (ucast loc) OR ucast cntr)"

text \<open>What the emulation thread still has to do: it pushes single words or runs \<^verbatim>\<open>dift_sync\<close>.\<close>

datatype action = Enq u64 | Kick | WaitOk

definition sync_actions :: "u32 \<Rightarrow> u32 \<Rightarrow> action list" where
  "sync_actions loc cntr = [Enq MARK_WORD, Enq (sync_word loc cntr), Enq SYNC_WORD, Kick, WaitOk]"

datatype producer_pc = PRun | PPublish | PWait
datatype consumer_pc = CRun | CWait | CRead

record queue_sys =
  mem :: dift_queue
  qdc :: dift_context
  ok_signal :: bool
  ppc :: producer_pc
  todo :: "action list"
  cpc :: consumer_pc
  closed :: "u64 list list"
  cur :: "u64 list"
  taken :: nat
  got :: "u64 list"

inductive pstep :: "queue_sys \<Rightarrow> queue_sys \<Rightarrow> bool" where
  call_enqueue: "todo s = [] \<Longrightarrow> w \<noteq> SYNC_WORD \<Longrightarrow> pstep s (s\<lparr>todo := [Enq w]\<rparr>)"
| call_sync: "todo s = [] \<Longrightarrow> sync_word loc cntr \<noteq> SYNC_WORD \<Longrightarrow> pstep s (s\<lparr>todo := sync_actions loc cntr\<rparr>)"
| enqueue: "ppc s = PRun \<Longrightarrow> todo s = Enq w # as \<Longrightarrow> q1 = store_word (mem s) w \<Longrightarrow>
    pstep s (s\<lparr>mem := q1, todo := as, cur := cur s @ [w],
               ppc := (if chunk_aligned (enqptr q1) then PPublish else PRun)\<rparr>)"
| kick: "ppc s = PRun \<Longrightarrow> todo s = Kick # as \<Longrightarrow>
    pstep s (s\<lparr>todo := as, ppc := (if chunk_aligned (enqptr (mem s)) then PRun else PPublish)\<rparr>)"
| publish: "ppc s = PPublish \<Longrightarrow>
    pstep s (s\<lparr>mem := publish_chunk (mem s), ppc := PWait, closed := closed s @ [cur s], cur := []\<rparr>)"
| take: "ppc s = PWait \<Longrightarrow> chunk_available (mem s) \<Longrightarrow> pstep s (s\<lparr>mem := take_chunk (mem s), ppc := PRun\<rparr>)"
| wait_ok: "ppc s = PRun \<Longrightarrow> todo s = WaitOk # as \<Longrightarrow> ok_signal s \<Longrightarrow>
    pstep s (s\<lparr>todo := as, ok_signal := False\<rparr>)"

text \<open>
  \<open>read\<close> includes what \<^verbatim>\<open>analysis_mainloop\<close> does on \<^verbatim>\<open>REC_SYNC\<close>: signal the other thread and
  drop the rest of the chunk.
\<close>

inductive cstep :: "queue_sys \<Rightarrow> queue_sys \<Rightarrow> bool" where
  release: "cpc s = CRun \<Longrightarrow> chunk_done (qdc s) \<Longrightarrow>
    cstep s (s\<lparr>mem := release_chunk (mem s) (qdc s), cpc := CWait\<rparr>)"
| consume: "cpc s = CWait \<Longrightarrow> chunk_filled (mem s) (qdc s) \<Longrightarrow> consume_chunk (mem s) (qdc s) = (q1, dc1) \<Longrightarrow>
    cstep s (s\<lparr>mem := q1, qdc := dc1, cpc := CRead, taken := Suc (taken s)\<rparr>)"
| read: "cpc s = CRead \<or> cpc s = CRun \<and> \<not> chunk_done (qdc s) \<Longrightarrow> deqptr (qdc s) = Some p \<Longrightarrow> w = q_records (mem s) p \<Longrightarrow>
    cstep s (s\<lparr>qdc := (qdc s)\<lparr>deqptr := (if w = SYNC_WORD then None else Some (Suc p))\<rparr>, cpc := CRun,
               ok_signal := (ok_signal s \<or> w = SYNC_WORD), got := got s @ [w]\<rparr>)"

definition qstep :: "queue_sys \<Rightarrow> queue_sys \<Rightarrow> bool" where
  "qstep s s' \<longleftrightarrow> pstep s s' \<or> cstep s s'"

definition sent :: "queue_sys \<Rightarrow> u64 list" where
  "sent s = concat (closed s) @ cur s"

definition queue_init :: "queue_sys \<Rightarrow> bool" where
  "queue_init s \<longleftrightarrow>
     (\<exists>recs dc. deqptr dc = None \<and> tail dc = 0 \<and> prev_tail dc = of_nat (Q_CHUNKS_SIZE - 1) \<and>
        s = \<lparr>mem = init_queue recs, qdc = dc, ok_signal = False, ppc = PRun, todo = [], cpc = CRun,
             closed = [], cur = [], taken = 0, got = []\<rparr>)"

section \<open>Arithmetic of the ring\<close>

lemma ring_sizes [simp]: "Q_CHUNKS_SIZE = 4096" "SIZE_OF_CHUNK = 4096"
  by (simp_all add: Q_CHUNKS_SIZE_def CONFIG_SIZE_OF_QUEUE_def SIZE_OF_CHUNK_def)

definition slot :: "nat \<Rightarrow> nat" where "slot j = j mod 4096"

lemma slot_inj: "slot i = slot j \<Longrightarrow> i < j + 4096 \<Longrightarrow> j < i + 4096 \<Longrightarrow> i = j"
proof (induction i j rule: linorder_wlog)
  case (le i j)
  then have "4096 dvd j - i"
    using mod_eq_dvd_iff_nat [of i j 4096] by (simp add: slot_def)
  then have "j - i = 0"
    using le(4) dvd_imp_le [of 4096 "j - i"] le(1) by linarith
  then show ?case using le(1) by simp
next
  case (sym i j)
  then show ?case by simp
qed

lemma slot_less: "slot j < 4096"
  by (simp add: slot_def)

lemma slot_small [simp]: "j < 4096 \<Longrightarrow> slot j = j"
  by (simp add: slot_def)

lemma slot_add [simp]: "slot (j + 4096) = slot j"
  by (simp add: slot_def)

lemma chunk_aligned_slot: "k \<le> 512 \<Longrightarrow> chunk_aligned (slot j * 512 + k) \<longleftrightarrow> k = 0 \<or> k = 512"
proof -
  assume k: "k \<le> 512"
  have "(slot j * 512 + k) * 8 = k * 8 + slot j * 4096" by simp
  then have "(slot j * 512 + k) * 8 mod 4096 = k * 8 mod 4096" by (simp only: mod_mult_self1)
  also have "\<dots> = (if k = 512 then 0 else k * 8)" using k by simp
  finally show "chunk_aligned (slot j * 512 + k) \<longleftrightarrow> k = 0 \<or> k = 512"
    unfolding chunk_aligned_def ring_sizes by simp
qed

lemma next_index64: "unat (h :: u64) = slot j \<Longrightarrow> unat ((h + 1) mod 4096) = slot (Suc j)"
proof -
  assume h: "unat h = slot j"
  then have "unat (h + 1) = Suc (slot j)"
    using slot_less [of j] by (simp add: unat_word_ariths)
  then show "unat ((h + 1) mod 4096) = slot (Suc j)"
    by (simp add: unat_mod slot_def mod_Suc_eq)
qed

lemma next_index32: "unat (h :: u32) = slot j \<Longrightarrow> unat ((h + 1) mod 4096) = slot (Suc j)"
proof -
  assume h: "unat h = slot j"
  then have "unat (h + 1) = Suc (slot j)"
    using slot_less [of j] by (simp add: unat_word_ariths)
  then show "unat ((h + 1) mod 4096) = slot (Suc j)"
    by (simp add: unat_mod slot_def mod_Suc_eq)
qed

section \<open>Invariant\<close>

text \<open>Chunk \<open>length (closed s)\<close> is the one the emulation thread fills, unless it waits for it.\<close>

definition held :: "queue_sys \<Rightarrow> nat" where
  "held s = (if ppc s = PWait then 0 else 1)"

text \<open>The first \<open>freed s\<close> chunks have gone back to the emulation thread.\<close>

definition freed :: "queue_sys \<Rightarrow> nat" where
  "freed s = (if cpc s = CWait then taken s else taken s - 1)"

definition inv_producer :: "queue_sys \<Rightarrow> bool" where
  "inv_producer s \<longleftrightarrow>
     (\<forall>i. q_chunks_ptr (mem s) i = i * 512) \<and>
     unat (head (mem s)) = slot (length (closed s) + held s) \<and>
     (ppc s \<noteq> PWait \<longrightarrow> unat (prev_head (mem s)) = slot (length (closed s)) \<and>
        enqptr (mem s) = slot (length (closed s)) * 512 + length (cur s)) \<and>
     length (closed s) + held s \<le> freed s + 4096"

definition inv_flags :: "queue_sys \<Rightarrow> bool" where
  "inv_flags s \<longleftrightarrow>
     (\<forall>j. freed s \<le> j \<and> j < length (closed s) \<longrightarrow>
        q_chunks_flag (mem s) (slot j) = (if j < taken s then CHUNK_CONSUMING else CHUNK_FILLED)) \<and>
     (ppc s \<noteq> PWait \<longrightarrow> q_chunks_flag (mem s) (slot (length (closed s))) = CHUNK_FILLING) \<and>
     (\<forall>j. length (closed s) + held s \<le> j \<and> j < freed s + 4096 \<longrightarrow>
        q_chunks_flag (mem s) (slot j) = CHUNK_AVAILABLE)"

lemma flags_full:
  "inv_flags s \<Longrightarrow> freed s \<le> j \<Longrightarrow> j < length (closed s) \<Longrightarrow>
   q_chunks_flag (mem s) (slot j) = (if j < taken s then CHUNK_CONSUMING else CHUNK_FILLED)"
  by (simp add: inv_flags_def)

lemma flags_free:
  "inv_flags s \<Longrightarrow> length (closed s) + held s \<le> j \<Longrightarrow> j < freed s + 4096 \<Longrightarrow>
   q_chunks_flag (mem s) (slot j) = CHUNK_AVAILABLE"
  by (simp add: inv_flags_def)

definition chunk_holds :: "queue_sys \<Rightarrow> nat \<Rightarrow> u64 list \<Rightarrow> bool" where
  "chunk_holds s j ws \<longleftrightarrow> (\<forall>k < length ws. q_records (mem s) (slot j * 512 + k) = ws ! k)"

definition inv_data :: "queue_sys \<Rightarrow> bool" where
  "inv_data s \<longleftrightarrow>
     (\<forall>j. freed s \<le> j \<and> j < length (closed s) \<longrightarrow> chunk_holds s j (closed s ! j)) \<and>
     (ppc s \<noteq> PWait \<longrightarrow> chunk_holds s (length (closed s)) (cur s))"

definition chunk_ok :: "u64 list \<Rightarrow> bool" where
  "chunk_ok c \<longleftrightarrow> c \<noteq> [] \<and> length c \<le> 512 \<and> (length c < 512 \<longrightarrow> last c = SYNC_WORD) \<and> SYNC_WORD \<notin> set (butlast c)"

definition inv_chunks :: "queue_sys \<Rightarrow> bool" where
  "inv_chunks s \<longleftrightarrow>
     list_all chunk_ok (closed s) \<and>
     (case ppc s of
        PRun \<Rightarrow> length (cur s) < 512 \<and>
          (if \<exists>as. todo s = Kick # as then cur s \<noteq> [] \<longrightarrow> last (cur s) = SYNC_WORD \<and> SYNC_WORD \<notin> set (butlast (cur s))
           else SYNC_WORD \<notin> set (cur s))
      | PPublish \<Rightarrow> chunk_ok (cur s)
      | PWait \<Rightarrow> cur s = [])"

definition inv_todo :: "queue_sys \<Rightarrow> bool" where
  "inv_todo s \<longleftrightarrow>
     (\<exists>ws. SYNC_WORD \<notin> set ws \<and> todo s \<in> {map Enq ws, map Enq ws @ [Enq SYNC_WORD, Kick, WaitOk]}) \<or>
     todo s = [Kick, WaitOk] \<or> todo s = [WaitOk]"

text \<open>\<open>k\<close> words of the newest of \<open>n\<close> chunks have been read; a \<^verbatim>\<open>REC_SYNC\<close> among them ends it.\<close>

definition reading_at :: "u64 list list \<Rightarrow> nat \<Rightarrow> u64 list \<Rightarrow> nat option \<Rightarrow> nat \<Rightarrow> bool" where
  "reading_at cs n ws p k \<longleftrightarrow>
     0 < k \<and> k \<le> length (cs ! (n - 1)) \<and> ws = concat (take (n - 1) cs) @ take k (cs ! (n - 1)) \<and>
     p = (if cs ! (n - 1) ! (k - 1) = SYNC_WORD then None else Some (slot (n - 1) * 512 + k))"

definition inv_consumer :: "queue_sys \<Rightarrow> bool" where
  "inv_consumer s \<longleftrightarrow>
     taken s \<le> length (closed s) \<and> unat (tail (qdc s)) = slot (taken s) \<and>
     unat (prev_tail (qdc s)) = slot (taken s + 4095) \<and>
     (case cpc s of
        CWait \<Rightarrow> got s = concat (take (taken s) (closed s))
      | CRead \<Rightarrow> 0 < taken s \<and> deqptr (qdc s) = Some (slot (taken s - 1) * 512) \<and>
          got s = concat (take (taken s - 1) (closed s))
      | CRun \<Rightarrow>
          (if taken s = 0 then deqptr (qdc s) = None \<and> got s = []
           else Ex (reading_at (closed s) (taken s) (got s) (deqptr (qdc s)))))"

definition unread :: "queue_sys \<Rightarrow> u64 list" where
  "unread s = drop (length (got s)) (sent s)"

definition inv_sync :: "queue_sys \<Rightarrow> bool" where
  "inv_sync s \<longleftrightarrow>
     (if todo s = [Kick, WaitOk] \<or> todo s = [WaitOk]
      then SYNC_WORD \<notin> set (butlast (unread s)) \<and> (if ok_signal s then unread s = [] else unread s \<noteq> [] \<and> last (unread s) = SYNC_WORD)
      else SYNC_WORD \<notin> set (unread s) \<and> \<not> ok_signal s)"

definition queue_inv :: "queue_sys \<Rightarrow> bool" where
  "queue_inv s \<longleftrightarrow> inv_producer s \<and> inv_flags s \<and> inv_data s \<and> inv_chunks s \<and> inv_todo s \<and> inv_consumer s \<and> inv_sync s"

text \<open>
  The first call of \<^verbatim>\<open>next_block\<close> releases a chunk that the analysis thread never had, the last one of
  the ring: harmless while the emulation thread has not reached it.
\<close>

definition safe_start :: "queue_sys \<Rightarrow> bool" where
  "safe_start s \<longleftrightarrow> (taken s = 0 \<and> cpc s = CRun \<longrightarrow> length (closed s) + held s < 4096)"

lemma init_inv: "queue_init s \<Longrightarrow> queue_inv s"
proof -
  assume "queue_init s"
  then obtain recs dc where dc: "deqptr dc = None" "tail dc = 0" "prev_tail dc = of_nat 4095"
    and s: "s = \<lparr>mem = init_queue recs, qdc = dc, ok_signal = False, ppc = PRun, todo = [], cpc = CRun,
             closed = [], cur = [], taken = 0, got = []\<rparr>"
    by (auto simp: queue_init_def)
  have "inv_producer s"
    by (simp add: s inv_producer_def init_queue_def held_def freed_def)
  moreover have "inv_flags s"
    by (auto simp: s inv_flags_def init_queue_def held_def freed_def)
  moreover have "inv_data s" "inv_chunks s" "inv_todo s" "inv_sync s"
    by (simp_all add: s inv_data_def inv_chunks_def inv_todo_def inv_sync_def chunk_holds_def unread_def sent_def freed_def)
  moreover have "inv_consumer s"
    using dc by (simp add: s inv_consumer_def)
  ultimately show ?thesis by (simp add: queue_inv_def)
qed

section \<open>Delivery in order\<close>

lemma got_prefix:
  assumes "inv_consumer s"
  shows "prefix (got s) (sent s)"
proof -
  let ?n = "taken s" and ?cs = "closed s"
  have all: "prefix (concat (take n ?cs)) (sent s)" for n
    unfolding sent_def by (metis append_take_drop_id concat_append append.assoc prefixI)
  have cut: "prefix (concat (take (?n - 1) ?cs) @ take k (?cs ! (?n - 1))) (sent s)" if "0 < ?n" for k
  proof -
    have "take ?n ?cs = take (?n - 1) ?cs @ [?cs ! (?n - 1)]"
      using that assms by (metis inv_consumer_def Suc_diff_1 Suc_le_lessD take_Suc_conv_app_nth)
    then have "concat (take ?n ?cs) = concat (take (?n - 1) ?cs) @ ?cs ! (?n - 1)" by simp
    then have "prefix (concat (take (?n - 1) ?cs) @ take k (?cs ! (?n - 1))) (concat (take ?n ?cs))"
      by (simp add: take_is_prefix)
    then show ?thesis using all by (rule prefix_order.trans)
  qed
  show ?thesis
  proof (cases "cpc s")
    case CRun
    then show ?thesis
      using assms cut by (auto simp: inv_consumer_def reading_at_def split: if_splits)
  qed (use assms all in \<open>auto simp: inv_consumer_def\<close>)
qed

lemma unread_append:
  "inv_consumer s \<Longrightarrow> sent s = got s @ unread s"
  using got_prefix unfolding unread_def by (metis append_eq_conv_conj prefixE)

section \<open>Steps of the emulation thread\<close>

lemma mark_not_sync [simp]: "MARK_WORD \<noteq> SYNC_WORD"
  by (simp add: MARK_WORD_def SYNC_WORD_def case_nb_defs)

lemma todo_frame [simp]:
  "inv_producer (s\<lparr>todo := as\<rparr>) = inv_producer s" "inv_flags (s\<lparr>todo := as\<rparr>) = inv_flags s"
  "inv_data (s\<lparr>todo := as\<rparr>) = inv_data s" "inv_consumer (s\<lparr>todo := as\<rparr>) = inv_consumer s"
  "unread (s\<lparr>todo := as\<rparr>) = unread s"
  by (simp_all add: inv_producer_def inv_flags_def inv_data_def chunk_holds_def inv_consumer_def
      unread_def sent_def held_def freed_def cong: consumer_pc.case_cong if_cong)

lemma signal_frame [simp]:
  "inv_producer (s\<lparr>ok_signal := b\<rparr>) = inv_producer s" "inv_flags (s\<lparr>ok_signal := b\<rparr>) = inv_flags s"
  "inv_data (s\<lparr>ok_signal := b\<rparr>) = inv_data s" "inv_consumer (s\<lparr>ok_signal := b\<rparr>) = inv_consumer s"
  "unread (s\<lparr>ok_signal := b\<rparr>) = unread s"
  by (simp_all add: inv_producer_def inv_flags_def inv_data_def chunk_holds_def inv_consumer_def
      unread_def sent_def held_def freed_def cong: consumer_pc.case_cong if_cong)

lemma inv_call:
  assumes "queue_inv s" "todo s = []" "inv_todo (s\<lparr>todo := Enq w # as\<rparr>)"
  shows "queue_inv (s\<lparr>todo := Enq w # as\<rparr>)"
proof -
  have "inv_chunks (s\<lparr>todo := Enq w # as\<rparr>)" "inv_sync (s\<lparr>todo := Enq w # as\<rparr>)"
    using assms(1,2) by (auto simp: queue_inv_def inv_chunks_def inv_sync_def split: producer_pc.splits)
  with assms(1,3) show ?thesis by (simp add: queue_inv_def)
qed

lemma inv_call_enqueue: "queue_inv s \<Longrightarrow> todo s = [] \<Longrightarrow> w \<noteq> SYNC_WORD \<Longrightarrow> queue_inv (s\<lparr>todo := [Enq w]\<rparr>)"
  by (erule inv_call) (auto simp: inv_todo_def intro!: exI [of _ "[w]"])

lemma inv_call_sync:
  "queue_inv s \<Longrightarrow> todo s = [] \<Longrightarrow> sync_word loc cntr \<noteq> SYNC_WORD \<Longrightarrow> queue_inv (s\<lparr>todo := sync_actions loc cntr\<rparr>)"
  unfolding sync_actions_def
  by (erule inv_call) (auto simp: inv_todo_def mark_not_sync [symmetric] intro!: exI [of _ "[MARK_WORD, sync_word loc cntr]"])

lemma todo_enqueue:
  assumes "inv_todo s" and "todo s = Enq w # as"
  shows "inv_todo (s\<lparr>todo := as\<rparr>)"
    and "w = SYNC_WORD \<and> as = [Kick, WaitOk] \<or>
      w \<noteq> SYNC_WORD \<and> (\<nexists>bs. as = Kick # bs) \<and> as \<noteq> [WaitOk]"
proof -
  have "todo s \<noteq> [Kick, WaitOk]" "todo s \<noteq> [WaitOk]" using assms(2) by simp_all
  then obtain ws where ws: "SYNC_WORD \<notin> set ws"
    and todo: "todo s = map Enq ws \<or> todo s = map Enq ws @ [Enq SYNC_WORD, Kick, WaitOk]"
    using assms(1) unfolding inv_todo_def by blast
  have "as = [Kick, WaitOk] \<and> w = SYNC_WORD \<or>
    (\<exists>vs. SYNC_WORD \<notin> set vs \<and> w \<noteq> SYNC_WORD \<and> (as = map Enq vs \<or> as = map Enq vs @ [Enq SYNC_WORD, Kick, WaitOk]))"
    using ws todo assms(2) by (cases ws) auto
  then show "inv_todo (s\<lparr>todo := as\<rparr>)" and "w = SYNC_WORD \<and> as = [Kick, WaitOk] \<or>
      w \<noteq> SYNC_WORD \<and> (\<nexists>bs. as = Kick # bs) \<and> as \<noteq> [WaitOk]"
    by (auto simp: inv_todo_def append_eq_Cons_conv map_eq_Cons_conv)
qed

lemma frame_holds: "q_records (mem s') = q_records (mem s) \<Longrightarrow> chunk_holds s' j ws = chunk_holds s j ws"
  by (simp add: chunk_holds_def)

text \<open>The words of chunk \<open>i\<close> and chunk \<open>j\<close> of the same round do not overlap.\<close>

lemma other_word:
  assumes "slot i \<noteq> slot j" "k < 512" "l < 512"
  shows "slot i * 512 + k \<noteq> slot j * 512 + l"
proof
  assume "slot i * 512 + k = slot j * 512 + l"
  then have "(slot i * 512 + k) div 512 = (slot j * 512 + l) div 512" by simp
  then show False using assms by simp
qed

lemma inv_enqueue:
  assumes "queue_inv s" "ppc s = PRun" "todo s = Enq w # as" "q1 = store_word (mem s) w"
  shows "queue_inv (s\<lparr>mem := q1, todo := as, cur := cur s @ [w],
    ppc := (if chunk_aligned (enqptr q1) then PPublish else PRun)\<rparr>)"
    (is "queue_inv ?s")
proof -
  note inv = assms(1) [unfolded queue_inv_def]
  let ?h = "length (closed s)" and ?n = "length (cur s)"
  have n: "?n < 512" using inv assms(2) by (simp add: inv_chunks_def)
  have ptr: "enqptr (mem s) = slot ?h * 512 + ?n" using inv assms(2) by (simp add: inv_producer_def)
  then have al: "chunk_aligned (enqptr q1) \<longleftrightarrow> Suc ?n = 512"
    using chunk_aligned_slot [of "Suc ?n" ?h] n by (simp add: assms(4) store_word_def)
  note nextw = todo_enqueue [OF _ assms(3)]
  have fr: "freed ?s = freed s" "held ?s = held s"
    using assms(2) by (simp_all add: freed_def held_def)
  have "inv_producer ?s"
    using inv assms(2) fr by (simp add: inv_producer_def assms(4) store_word_def)
  moreover have "inv_flags ?s"
    using inv assms(2) fr by (auto simp: inv_flags_def assms(4) store_word_def)
  moreover have "inv_data ?s"
  proof -
    have "chunk_holds ?s j (closed s ! j)" if j: "freed s \<le> j" "j < ?h" for j
    proof -
      have "?h + 1 \<le> freed s + 4096" using inv assms(2) by (simp add: inv_producer_def held_def)
      then have "slot j \<noteq> slot ?h" using slot_inj [of j ?h] j by auto
      moreover have "length (closed s ! j) \<le> 512"
        using inv j(2) by (simp add: inv_chunks_def chunk_ok_def list_all_length)
      moreover have "chunk_holds s j (closed s ! j)" using inv j by (simp add: inv_data_def)
      ultimately show ?thesis
        using other_word [of j ?h _ ?n] n by (auto simp: chunk_holds_def assms(4) store_word_def ptr)
    qed
    moreover have "chunk_holds ?s ?h (cur s @ [w])"
      using inv assms(2) by (auto simp: inv_data_def chunk_holds_def assms(4) store_word_def ptr nth_append less_Suc_eq)
    ultimately show ?thesis by (simp add: inv_data_def fr)
  qed
  moreover have "inv_chunks ?s"
    using inv assms(2,3) nextw n al by (auto simp: inv_chunks_def chunk_ok_def butlast_append dest: in_set_butlastD)
  moreover have "inv_todo ?s"
    using nextw(1) inv by (simp add: inv_todo_def)
  moreover have "inv_consumer ?s"
    using inv by (simp add: inv_consumer_def cong: consumer_pc.case_cong if_cong)
  moreover have "sent ?s = sent s @ [w]" by (simp add: sent_def)
  then have "unread ?s = unread s @ [w]"
    using prefix_length_le [OF got_prefix, of s] inv by (simp add: unread_def)
  then have "inv_sync ?s"
    using inv nextw assms(3) by (auto simp: inv_sync_def butlast_append dest: in_set_butlastD)
  ultimately show ?thesis by (simp add: queue_inv_def)
qed

lemma inv_kick:
  assumes "queue_inv s" "ppc s = PRun" "todo s = Kick # as"
  shows "queue_inv (s\<lparr>todo := as, ppc := (if chunk_aligned (enqptr (mem s)) then PRun else PPublish)\<rparr>)"
    (is "queue_inv ?s")
proof -
  note inv = assms(1) [unfolded queue_inv_def]
  have as: "as = [WaitOk]" using inv assms(3) by (auto simp: inv_todo_def Cons_eq_append_conv)
  have n: "length (cur s) < 512" using inv assms(2) by (simp add: inv_chunks_def)
  have "enqptr (mem s) = slot (length (closed s)) * 512 + length (cur s)"
    using inv assms(2) by (simp add: inv_producer_def)
  then have al: "chunk_aligned (enqptr (mem s)) \<longleftrightarrow> cur s = []"
    using chunk_aligned_slot [of "length (cur s)" "length (closed s)"] n by simp
  have "inv_producer ?s" "inv_flags ?s" "inv_data ?s"
    using inv assms(2) by (auto simp: inv_producer_def inv_flags_def inv_data_def held_def freed_def chunk_holds_def)
  moreover have "inv_chunks ?s"
    using inv assms(2,3) al as n by (auto simp: inv_chunks_def chunk_ok_def)
  moreover have "inv_todo ?s" by (simp add: inv_todo_def as)
  moreover have "inv_consumer ?s"
    using inv by (simp add: inv_consumer_def cong: consumer_pc.case_cong if_cong)
  moreover have "unread ?s = unread s" by (simp add: unread_def sent_def)
  then have "inv_sync ?s"
    using inv assms(3) as by (simp add: inv_sync_def)
  ultimately show ?thesis by (simp add: queue_inv_def)
qed

lemma freed_le: "inv_consumer s \<Longrightarrow> freed s \<le> taken s \<and> taken s \<le> length (closed s)"
  by (simp add: inv_consumer_def freed_def)

lemma reading_append: "n \<le> length cs \<Longrightarrow> 0 < n \<Longrightarrow> reading_at (cs @ [c]) n ws p = reading_at cs n ws p"
  by (cases n) (simp_all add: reading_at_def fun_eq_iff nth_append)

lemma inv_publish:
  assumes "queue_inv s" "ppc s = PPublish"
  shows "queue_inv (s\<lparr>mem := publish_chunk (mem s), ppc := PWait, closed := closed s @ [cur s], cur := []\<rparr>)"
    (is "queue_inv ?s")
proof -
  note inv = assms(1) [unfolded queue_inv_def]
  let ?h = "length (closed s)"
  have fr: "freed ?s = freed s" "held ?s = 0" "held s = 1" by (simp_all add: freed_def held_def assms(2))
  have le: "freed s \<le> taken s" "taken s \<le> ?h" using freed_le inv by blast+
  have room: "?h < freed s + 4096" using inv by (simp add: inv_producer_def fr)
  have ph: "unat (prev_head (mem s)) = slot ?h" using inv assms(2) by (simp add: inv_producer_def)
  have ne: "j \<noteq> ?h \<Longrightarrow> freed s \<le> j \<Longrightarrow> j < freed s + 4096 \<Longrightarrow> slot j \<noteq> slot ?h" for j
    using slot_inj [of j ?h] le room by auto
  have "inv_producer ?s"
    using inv assms(2) fr by (simp add: inv_producer_def publish_chunk_def)
  moreover have "inv_flags ?s"
    using inv assms(2) fr ph ne le room by (auto simp: inv_flags_def publish_chunk_def less_Suc_eq)
  moreover have "inv_data ?s"
    using inv assms(2) fr by (auto simp: inv_data_def publish_chunk_def chunk_holds_def nth_append less_Suc_eq)
  moreover have "inv_chunks ?s" "inv_todo ?s"
    using inv assms(2) by (simp_all add: inv_chunks_def inv_todo_def)
  moreover have "inv_consumer ?s"
    using inv le by (auto simp: inv_consumer_def reading_append split: consumer_pc.splits)
  moreover have "unread ?s = unread s" by (simp add: unread_def sent_def)
  then have "inv_sync ?s" using inv by (simp add: inv_sync_def)
  ultimately show ?thesis by (simp add: queue_inv_def)
qed

lemma inv_take:
  assumes "queue_inv s" "ppc s = PWait" "chunk_available (mem s)"
  shows "queue_inv (s\<lparr>mem := take_chunk (mem s), ppc := PRun\<rparr>)"
    (is "queue_inv ?s")
proof -
  note inv = assms(1) [unfolded queue_inv_def]
  let ?h = "length (closed s)"
  have fr: "freed ?s = freed s" "held ?s = 1" "held s = 0" by (simp_all add: freed_def held_def assms(2))
  have le: "freed s \<le> taken s" "taken s \<le> ?h" using freed_le inv by blast+
  have hd: "unat (head (mem s)) = slot ?h" using inv by (simp add: inv_producer_def fr)
  have room: "?h < freed s + 4096"
  proof (rule ccontr)
    assume "\<not> ?thesis"
    then have "?h = freed s + 4096" using inv by (simp add: inv_producer_def fr)
    then have "q_chunks_flag (mem s) (slot ?h) \<noteq> CHUNK_AVAILABLE"
      using inv by (simp add: inv_flags_def case_nb_defs)
    then show False using assms(3) hd by (simp add: chunk_available_def)
  qed
  have ne: "j \<noteq> ?h \<Longrightarrow> freed s \<le> j \<Longrightarrow> j < freed s + 4096 \<Longrightarrow> slot j \<noteq> slot ?h" for j
    using slot_inj [of j ?h] le room by auto
  have "inv_producer ?s"
    using inv assms(2) fr hd room next_index64 [OF hd] by (simp add: inv_producer_def take_chunk_def inv_chunks_def)
  moreover have "inv_flags ?s"
    using inv assms(2) fr hd ne le room by (auto simp: inv_flags_def take_chunk_def)
  moreover have "inv_data ?s"
    using inv assms(2) fr by (auto simp: inv_data_def take_chunk_def chunk_holds_def inv_chunks_def)
  moreover have "inv_chunks ?s" "inv_todo ?s"
    using inv assms(2) by (simp_all add: inv_chunks_def inv_todo_def)
  moreover have "inv_consumer ?s"
    using inv by (simp add: inv_consumer_def cong: consumer_pc.case_cong if_cong)
  moreover have "unread ?s = unread s" by (simp add: unread_def sent_def)
  then have "inv_sync ?s" using inv by (simp add: inv_sync_def)
  ultimately show ?thesis by (simp add: queue_inv_def)
qed

lemma inv_wait_ok:
  assumes "queue_inv s" "ppc s = PRun" "todo s = WaitOk # as" "ok_signal s"
  shows "queue_inv (s\<lparr>todo := as, ok_signal := False\<rparr>)"
    (is "queue_inv ?s")
proof -
  note inv = assms(1) [unfolded queue_inv_def]
  have as: "as = []" using inv assms(3) by (auto simp: inv_todo_def Cons_eq_append_conv)
  have "unread s = []"
    using inv assms(3,4) as by (simp add: inv_sync_def)
  then have "inv_sync ?s" using as by (simp add: inv_sync_def)
  moreover have "inv_chunks ?s" "inv_todo ?s"
    using inv assms(2,3) as by (simp_all add: inv_chunks_def inv_todo_def)
  ultimately show ?thesis using inv by (simp add: queue_inv_def)
qed

lemmas producer_invs = inv_call_enqueue inv_call_sync inv_enqueue inv_kick inv_publish inv_take inv_wait_ok

lemma pstep_inv: "pstep s s' \<Longrightarrow> queue_inv s \<Longrightarrow> queue_inv s'"
  by (induction rule: pstep.induct) (blast intro: producer_invs)+

section \<open>Steps of the analysis thread\<close>

lemma chunks_frame:
  "closed s' = closed s \<Longrightarrow> ppc s' = ppc s \<Longrightarrow> cur s' = cur s \<Longrightarrow> todo s' = todo s \<Longrightarrow> inv_chunks s' = inv_chunks s"
  "todo s' = todo s \<Longrightarrow> inv_todo s' = inv_todo s"
  by (cases "ppc s"; simp add: inv_chunks_def) (simp add: inv_todo_def)

text \<open>The chunk being read, and that it is still in place.\<close>

lemma current_chunk:
  assumes "queue_inv s" "0 < taken s" "cpc s \<noteq> CWait"
  defines "c \<equiv> closed s ! (taken s - 1)"
  shows "chunk_ok c" "chunk_holds s (taken s - 1) c"
proof -
  have "taken s - 1 < length (closed s)" "freed s = taken s - 1"
    using assms(1-3) by (auto simp: queue_inv_def inv_consumer_def freed_def)
  with assms(1) show "chunk_ok c" "chunk_holds s (taken s - 1) c"
    by (simp_all add: c_def queue_inv_def inv_chunks_def inv_data_def list_all_length)
qed

lemma ended_chunk:
  assumes "chunk_ok c" "0 < k" "k \<le> length c" "c ! (k - 1) = SYNC_WORD"
  shows "k = length c"
proof (rule ccontr)
  assume "k \<noteq> length c"
  then have "k - 1 < length (butlast c)" using assms(2,3) by simp
  then have "c ! (k - 1) \<in> set (butlast c)" using nth_mem nth_butlast by metis
  with assms(1,4) show False by (simp add: chunk_ok_def)
qed

lemma read_to_end:
  assumes "queue_inv s" "cpc s = CRun" "chunk_done (qdc s)"
  shows "got s = concat (take (taken s) (closed s))"
proof (cases "taken s = 0")
  case True
  then show ?thesis using assms(1,2) by (simp add: queue_inv_def inv_consumer_def)
next
  case False
  let ?c = "closed s ! (taken s - 1)"
  obtain k where k: "reading_at (closed s) (taken s) (got s) (deqptr (qdc s)) k"
    using assms(1,2) False by (auto simp: queue_inv_def inv_consumer_def)
  have c: "chunk_ok ?c" using current_chunk [OF assms(1)] False assms(2) by simp
  have "k = length ?c"
  proof (cases "?c ! (k - 1) = SYNC_WORD")
    case True
    then show ?thesis using ended_chunk [OF c] k by (simp add: reading_at_def)
  next
    case False
    then have "chunk_aligned (slot (taken s - 1) * 512 + k)" "0 < k" "k \<le> length ?c"
      using k assms(3) by (auto simp: reading_at_def chunk_done_def)
    then show ?thesis
      using c chunk_aligned_slot [of k "taken s - 1"] by (simp add: chunk_ok_def)
  qed
  then have "got s = concat (take (taken s - 1) (closed s) @ [?c])"
    using k by (simp add: reading_at_def)
  moreover have "taken s - 1 < length (closed s)"
    using False freed_le [of s] assms(1) by (auto simp: queue_inv_def)
  then have "take (taken s) (closed s) = take (taken s - 1) (closed s) @ [?c]"
    using False take_Suc_conv_app_nth [of "taken s - 1" "closed s"] by simp
  ultimately show ?thesis by simp
qed

lemma inv_release:
  assumes "queue_inv s" "safe_start s" "cpc s = CRun" "chunk_done (qdc s)"
  shows "queue_inv (s\<lparr>mem := release_chunk (mem s) (qdc s), cpc := CWait\<rparr>)"
    (is "queue_inv ?s")
proof -
  note inv = assms(1) [unfolded queue_inv_def]
  let ?h = "length (closed s)"
  have fr: "freed ?s = taken s" "freed s = taken s - 1" "held ?s = held s" by (simp_all add: freed_def held_def assms(3))
  have le: "taken s \<le> ?h" using freed_le inv by blast
  have pt: "unat (prev_tail (qdc s)) = slot (taken s + 4095)" using inv by (simp add: inv_consumer_def)
  have room: "?h + held s \<le> taken s + 4095"
    using inv assms(2,3) by (cases "taken s") (auto simp: inv_producer_def fr safe_start_def)
  have held: "ppc s \<noteq> PWait \<Longrightarrow> held s = 1" by (simp add: held_def)
  have ne: "taken s \<le> j \<Longrightarrow> j < taken s + 4095 \<Longrightarrow> slot j \<noteq> slot (taken s + 4095)" for j
    using slot_inj [of j "taken s + 4095"] by auto
  have "inv_producer ?s"
    using inv fr room by (simp add: inv_producer_def release_chunk_def)
  moreover have "inv_flags ?s"
    unfolding inv_flags_def
  proof (intro conjI allI impI)
    fix j assume j: "freed ?s \<le> j \<and> j < length (closed ?s)"
    then have "slot j \<noteq> slot (taken s + 4095)" using fr room ne [of j] by simp
    with j fr show "q_chunks_flag (mem ?s) (slot j) = (if j < taken ?s then CHUNK_CONSUMING else CHUNK_FILLED)"
      using flags_full [of s j] inv by (auto simp: release_chunk_def pt)
  next
    assume "ppc ?s \<noteq> PWait"
    moreover from this have "slot ?h \<noteq> slot (taken s + 4095)" using held room ne [of ?h] le by simp
    ultimately show "q_chunks_flag (mem ?s) (slot (length (closed ?s))) = CHUNK_FILLING"
      using inv by (simp add: inv_flags_def release_chunk_def pt)
  next
    fix j assume j: "length (closed ?s) + held ?s \<le> j \<and> j < freed ?s + 4096"
    show "q_chunks_flag (mem ?s) (slot j) = CHUNK_AVAILABLE"
    proof (cases "j = taken s + 4095")
      case False
      then show ?thesis using flags_free [of s j] j inv fr by (auto simp: release_chunk_def)
    qed (simp add: release_chunk_def pt)
  qed
  moreover have "inv_data ?s"
    using inv fr by (auto simp: inv_data_def release_chunk_def chunk_holds_def)
  moreover have "inv_chunks ?s" "inv_todo ?s"
    using inv chunks_frame [of ?s s] by simp_all
  moreover have "inv_consumer ?s"
    using inv read_to_end [OF assms(1,3,4)] by (simp add: inv_consumer_def)
  moreover have "unread ?s = unread s" by (simp add: unread_def sent_def)
  then have "inv_sync ?s" using inv by (simp add: inv_sync_def)
  ultimately show ?thesis by (simp add: queue_inv_def)
qed

lemma inv_consume:
  assumes "queue_inv s" "cpc s = CWait" "chunk_filled (mem s) (qdc s)" "consume_chunk (mem s) (qdc s) = (q1, dc1)"
  shows "queue_inv (s\<lparr>mem := q1, qdc := dc1, cpc := CRead, taken := Suc (taken s)\<rparr>)"
    (is "queue_inv ?s")
proof -
  note inv = assms(1) [unfolded queue_inv_def]
  let ?h = "length (closed s)"
  have fr: "freed ?s = taken s" "freed s = taken s" "held ?s = held s" by (simp_all add: freed_def held_def assms(2))
  have tl: "unat (tail (qdc s)) = slot (taken s)" using inv by (simp add: inv_consumer_def)
  have room: "?h + held s \<le> taken s + 4096" using inv by (simp add: inv_producer_def fr)
  have lt: "taken s < ?h"
  proof (rule ccontr)
    assume "\<not> ?thesis"
    then have t: "taken s = ?h" using freed_le [of s] inv by auto
    then have "q_chunks_flag (mem s) (slot ?h) \<noteq> CHUNK_FILLED"
      using inv flags_free [of s ?h] fr by (cases "ppc s = PWait") (simp_all add: inv_flags_def held_def case_nb_defs)
    then show False using assms(3) tl t by (simp add: chunk_filled_def)
  qed
  have q1: "q1 = (mem s)\<lparr>q_chunks_flag := (q_chunks_flag (mem s))(slot (taken s) := CHUNK_CONSUMING)\<rparr>"
    and dc1: "dc1 = (qdc s)\<lparr>deqptr := Some (slot (taken s) * 512), prev_tail := tail (qdc s),
         tail := (tail (qdc s) + 1) mod 4096\<rparr>"
    using assms(4) tl inv by (auto simp: consume_chunk_def inv_producer_def)
  have ne: "j \<noteq> taken s \<Longrightarrow> taken s \<le> j \<Longrightarrow> j < taken s + 4096 \<Longrightarrow> slot j \<noteq> slot (taken s)" for j
    using slot_inj [of j "taken s"] by auto
  have "inv_producer ?s"
    using inv fr by (simp add: inv_producer_def q1)
  moreover have "inv_flags ?s"
    unfolding inv_flags_def
  proof (intro conjI allI impI)
    fix j assume j: "freed ?s \<le> j \<and> j < length (closed ?s)"
    then show "q_chunks_flag (mem ?s) (slot j) = (if j < taken ?s then CHUNK_CONSUMING else CHUNK_FILLED)"
      using flags_full [of s j] inv fr ne [of j] room by (cases "j = taken s") (simp_all add: q1)
  next
    assume "ppc ?s \<noteq> PWait"
    then show "q_chunks_flag (mem ?s) (slot (length (closed ?s))) = CHUNK_FILLING"
      using inv ne [of ?h] lt room by (simp add: inv_flags_def q1 held_def)
  next
    fix j assume "length (closed ?s) + held ?s \<le> j \<and> j < freed ?s + 4096"
    then show "q_chunks_flag (mem ?s) (slot j) = CHUNK_AVAILABLE"
      using flags_free [of s j] inv fr ne [of j] lt by (simp add: q1)
  qed
  moreover have "inv_data ?s"
    using inv fr by (auto simp: inv_data_def q1 chunk_holds_def)
  moreover have "inv_chunks ?s" "inv_todo ?s"
    using inv chunks_frame [of ?s s] by simp_all
  moreover have "inv_consumer ?s"
    using inv assms(2) lt next_index32 [OF tl] tl by (simp add: inv_consumer_def dc1 slot_def)
  moreover have "unread ?s = unread s" by (simp add: unread_def sent_def)
  then have "inv_sync ?s" using inv by (simp add: inv_sync_def)
  ultimately show ?thesis by (simp add: queue_inv_def)
qed

lemma reading_next:
  assumes "queue_inv s" "cpc s = CRead \<or> cpc s = CRun \<and> \<not> chunk_done (qdc s)" "deqptr (qdc s) = Some p"
  obtains k where "k < length (closed s ! (taken s - 1))" "p = slot (taken s - 1) * 512 + k" "0 < taken s"
    "got s = concat (take (taken s - 1) (closed s)) @ take k (closed s ! (taken s - 1))"
    "q_records (mem s) p = closed s ! (taken s - 1) ! k"
proof -
  let ?c = "closed s ! (taken s - 1)"
  have t: "0 < taken s"
    using assms by (auto simp: queue_inv_def inv_consumer_def chunk_done_def split: if_splits)
  have c: "chunk_ok ?c" "chunk_holds s (taken s - 1) ?c"
    using current_chunk [OF assms(1) t] assms(2) by auto
  have "\<exists>k. k < length ?c \<and> p = slot (taken s - 1) * 512 + k \<and> got s = concat (take (taken s - 1) (closed s)) @ take k ?c"
  proof (cases "cpc s = CRead")
    case True
    then show ?thesis
      using assms(1,3) c(1) by (intro exI [of _ 0]) (simp add: queue_inv_def inv_consumer_def chunk_ok_def)
  next
    case False
    then obtain k where k: "reading_at (closed s) (taken s) (got s) (Some p) k" and nd: "\<not> chunk_aligned p"
      using assms t by (auto simp: queue_inv_def inv_consumer_def chunk_done_def)
    have p: "p = slot (taken s - 1) * 512 + k" "?c ! (k - 1) \<noteq> SYNC_WORD" "0 < k" "k \<le> length ?c"
      using k by (auto simp: reading_at_def split: if_splits)
    have "k \<noteq> length ?c"
    proof
      assume "k = length ?c"
      then have "last ?c \<noteq> SYNC_WORD" using p(2,3) by (simp add: last_conv_nth)
      then show False using c(1) nd p chunk_aligned_slot [of k "taken s - 1"] \<open>k = length ?c\<close> by (simp add: chunk_ok_def)
    qed
    with p k show ?thesis by (intro exI [of _ k]) (simp add: reading_at_def)
  qed
  then obtain k where "k < length ?c" "p = slot (taken s - 1) * 512 + k"
    "got s = concat (take (taken s - 1) (closed s)) @ take k ?c" by blast
  then show ?thesis using c(2) t by (intro that [of k]) (auto simp: chunk_holds_def)
qed

lemma inv_read:
  assumes "queue_inv s" "cpc s = CRead \<or> cpc s = CRun \<and> \<not> chunk_done (qdc s)" "deqptr (qdc s) = Some p"
    "w = q_records (mem s) p"
  shows "queue_inv (s\<lparr>qdc := (qdc s)\<lparr>deqptr := (if w = SYNC_WORD then None else Some (Suc p))\<rparr>, cpc := CRun,
    ok_signal := (ok_signal s \<or> w = SYNC_WORD), got := got s @ [w]\<rparr>)"
    (is "queue_inv ?s")
proof -
  note inv = assms(1) [unfolded queue_inv_def]
  let ?c = "closed s ! (taken s - 1)"
  obtain k where k: "k < length ?c" "p = slot (taken s - 1) * 512 + k" "0 < taken s"
    "got s = concat (take (taken s - 1) (closed s)) @ take k ?c" "w = ?c ! k"
    using reading_next [OF assms(1-3)] assms(4) by metis
  have fr: "freed ?s = freed s" "held ?s = held s" using assms(2) by (auto simp: freed_def held_def)
  have "inv_producer ?s" "inv_flags ?s" "inv_data ?s"
    using inv fr by (simp_all add: inv_producer_def inv_flags_def inv_data_def chunk_holds_def)
  moreover have "inv_chunks ?s" "inv_todo ?s"
    using inv chunks_frame [of ?s s] by simp_all
  moreover have "reading_at (closed s) (taken s) (got s @ [w]) (if w = SYNC_WORD then None else Some (Suc p)) (Suc k)"
    using k by (simp add: reading_at_def take_Suc_conv_app_nth)
  then have cons: "inv_consumer ?s"
    using inv k(3) by (auto simp: inv_consumer_def)
  moreover obtain u where u: "unread ?s = u" by blast
  have us: "unread s = w # u"
  proof -
    have "sent ?s = sent s" by (simp add: sent_def)
    then have "got s @ unread s = got s @ w # unread ?s"
      using unread_append [of s] unread_append [OF cons] inv by simp
    then show ?thesis using u by simp
  qed
  have "inv_sync ?s"
    unfolding inv_sync_def u using inv us by (auto simp: inv_sync_def split: if_splits)
  ultimately show ?thesis by (simp add: queue_inv_def)
qed

lemma cstep_inv: "cstep s s' \<Longrightarrow> queue_inv s \<Longrightarrow> safe_start s \<Longrightarrow> queue_inv s'"
  by (induction rule: cstep.induct) (blast intro: inv_release inv_consume inv_read)+

section \<open>The queue as a channel\<close>

text \<open>
  What the two threads rely on: whatever one pushes the other gets, in order and without gaps. The
  lemmas of the locale are stated for any such channel.
\<close>

locale fifo_channel =
  fixes init :: "'s \<Rightarrow> bool" and step :: "'s \<Rightarrow> 's \<Rightarrow> bool" and inv :: "'s \<Rightarrow> bool"
    and pushed :: "'s \<Rightarrow> 'w list" and delivered :: "'s \<Rightarrow> 'w list"
  assumes inv_init: "init s \<Longrightarrow> inv s"
    and inv_step: "inv s \<Longrightarrow> step s s' \<Longrightarrow> inv s'"
    and in_order: "inv s \<Longrightarrow> prefix (delivered s) (pushed s)"
    and push_grows: "inv s \<Longrightarrow> step s s' \<Longrightarrow> prefix (pushed s) (pushed s')"
    and deliver_grows: "inv s \<Longrightarrow> step s s' \<Longrightarrow> prefix (delivered s) (delivered s')"
begin

lemma inv_steps: "step\<^sup>*\<^sup>* s s' \<Longrightarrow> inv s \<Longrightarrow> inv s'"
  by (induction rule: rtranclp_induct) (auto intro: inv_step)

lemma reachable_inv: "init s \<Longrightarrow> step\<^sup>*\<^sup>* s s' \<Longrightarrow> inv s'"
  using inv_init inv_steps by blast

lemma pushed_steps: "step\<^sup>*\<^sup>* s s' \<Longrightarrow> inv s \<Longrightarrow> prefix (pushed s) (pushed s')"
proof (induction rule: rtranclp_induct)
  case (step s1 s2)
  then have "inv s1" using inv_steps by blast
  with step show ?case using push_grows prefix_order.trans by blast
qed simp

lemma delivered_steps: "step\<^sup>*\<^sup>* s s' \<Longrightarrow> inv s \<Longrightarrow> prefix (delivered s) (delivered s')"
proof (induction rule: rtranclp_induct)
  case (step s1 s2)
  then have "inv s1" using inv_steps by blast
  with step show ?case using deliver_grows prefix_order.trans by blast
qed simp

text \<open>What has been delivered is and stays the beginning of what is pushed.\<close>

lemma delivered_stays:
  assumes "init s" "step\<^sup>*\<^sup>* s s1" "step\<^sup>*\<^sup>* s1 s2"
  shows "delivered s1 = take (length (delivered s1)) (pushed s2)"
proof -
  have "prefix (delivered s1) (pushed s2)"
    using in_order pushed_steps reachable_inv [OF assms(1,2)] assms(3) prefix_order.trans by blast
  then show ?thesis by (metis append_eq_conv_conj prefixE)
qed

end

definition timely :: "queue_sys \<Rightarrow> queue_sys \<Rightarrow> bool" where
  "timely s s' \<longleftrightarrow> qstep s s' \<and> safe_start s"

lemma timely_inv: "queue_inv s \<Longrightarrow> timely s s' \<Longrightarrow> queue_inv s'"
  by (auto simp: timely_def qstep_def intro: pstep_inv cstep_inv)

lemma cstep_sent: "cstep s s' \<Longrightarrow> sent s' = sent s \<and> prefix (got s) (got s')"
  by (erule cstep.cases) (auto simp: sent_def)

lemma pstep_sent: "pstep s s' \<Longrightarrow> prefix (sent s) (sent s') \<and> got s' = got s"
  by (erule pstep.cases) (auto simp: sent_def)

interpretation dq: fifo_channel queue_init timely queue_inv sent got
proof unfold_locales
  show "queue_init s \<Longrightarrow> queue_inv s" for s by (rule init_inv)
  show "queue_inv s \<Longrightarrow> timely s s' \<Longrightarrow> queue_inv s'" for s s' by (rule timely_inv)
  show "queue_inv s \<Longrightarrow> prefix (got s) (sent s)" for s by (simp add: queue_inv_def got_prefix)
  show "queue_inv s \<Longrightarrow> timely s s' \<Longrightarrow> prefix (sent s) (sent s')" for s s'
    by (auto simp: timely_def qstep_def dest: cstep_sent pstep_sent)
  show "queue_inv s \<Longrightarrow> timely s s' \<Longrightarrow> prefix (got s) (got s')" for s s'
    by (auto simp: timely_def qstep_def dest: cstep_sent pstep_sent)
qed

section \<open>Progress\<close>

lemma cstep_started:
  assumes "queue_inv s" "cstep s s'"
  shows "safe_start s'"
  using assms(2)
proof cases
  case (read p w)
  then have "0 < taken s" using reading_next [OF assms(1)] by metis
  then show ?thesis using read by (simp add: safe_start_def)
qed (simp_all add: safe_start_def)

definition drain_measure :: "queue_sys \<Rightarrow> nat" where
  "drain_measure s = 3 * length (unread s) + (case cpc s of CRun \<Rightarrow> 2 | CWait \<Rightarrow> 1 | CRead \<Rightarrow> 0)"

lemma cstep_decreases:
  assumes "queue_inv s" "cstep s s'"
  shows "drain_measure s' < drain_measure s"
  using assms(2)
proof cases
  case (read p w)
  have "queue_inv s'" using inv_read [OF assms(1)] read by blast
  then have "length (got s') \<le> length (sent s')"
    by (intro prefix_length_le got_prefix) (simp add: queue_inv_def)
  moreover have "sent s' = sent s" by (simp add: read(1) sent_def)
  ultimately have "length (unread s') < length (unread s)"
    by (simp add: unread_def read(1))
  then show ?thesis by (simp add: drain_measure_def read(1))
qed (simp_all add: drain_measure_def unread_def sent_def)

text \<open>The analysis thread is never stuck while words wait in chunks that were handed over.\<close>

lemma cstep_enabled:
  assumes "queue_inv s" "cur s = []" "\<not> (cpc s = CWait \<and> got s = sent s)"
  shows "\<exists>s'. cstep s s'"
proof (cases "cpc s")
  case CRun
  show ?thesis
  proof (cases "chunk_done (qdc s)")
    case True
    with CRun show ?thesis by (blast intro: cstep.release)
  next
    case False
    then obtain p where "deqptr (qdc s) = Some p" by (auto simp: chunk_done_def split: option.splits)
    with False CRun show ?thesis by (blast intro: cstep.read)
  qed
next
  case CRead
  then obtain p where "deqptr (qdc s) = Some p" using assms(1) by (auto simp: queue_inv_def inv_consumer_def)
  with CRead show ?thesis by (blast intro: cstep.read)
next
  case CWait
  then have "got s = concat (take (taken s) (closed s))" using assms(1) by (simp add: queue_inv_def inv_consumer_def)
  with assms(2,3) CWait have "\<not> length (closed s) \<le> taken s"
    by (auto simp: sent_def)
  then have "taken s < length (closed s)" by simp
  then have "q_chunks_flag (mem s) (slot (taken s)) = CHUNK_FILLED"
    using assms(1) CWait flags_full [of s "taken s"] by (simp add: queue_inv_def freed_def)
  then have "chunk_filled (mem s) (qdc s)"
    using assms(1) by (simp add: chunk_filled_def queue_inv_def inv_consumer_def)
  with CWait show ?thesis by (cases "consume_chunk (mem s) (qdc s)") (blast intro: cstep.consume)
qed

lemma cstep_frame:
  "cstep s s' \<Longrightarrow> cur s' = cur s \<and> closed s' = closed s \<and> ppc s' = ppc s \<and> todo s' = todo s"
  by (erule cstep.cases) simp_all

lemma drain:
  assumes "queue_inv s" "safe_start s" "cur s = []"
  shows "\<exists>s'. cstep\<^sup>*\<^sup>* s s' \<and> queue_inv s' \<and> got s' = sent s \<and> cpc s' = CWait \<and>
    cur s' = cur s \<and> closed s' = closed s \<and> ppc s' = ppc s \<and> todo s' = todo s"
  using assms
proof (induction "drain_measure s" arbitrary: s rule: less_induct)
  case less
  show ?case
  proof (cases "cpc s = CWait \<and> got s = sent s")
    case True
    with less.prems show ?thesis by blast
  next
    case False
    then obtain s1 where s1: "cstep s s1" using cstep_enabled less.prems by blast
    have "queue_inv s1" "safe_start s1" "drain_measure s1 < drain_measure s"
      using s1 less.prems cstep_inv cstep_started cstep_decreases by blast+
    then obtain s' where "cstep\<^sup>*\<^sup>* s1 s'" "queue_inv s'" "got s' = sent s1" "cpc s' = CWait"
      "cur s' = cur s1" "closed s' = closed s1" "ppc s' = ppc s1" "todo s' = todo s1"
      using less.hyps [of s1] cstep_frame [OF s1] less.prems(3) by auto
    with s1 cstep_frame [OF s1] cstep_sent [OF s1] show ?thesis
      by (metis converse_rtranclp_into_rtranclp)
  qed
qed

end
