(* ===== verification/DiftChannel.thy ===== *)
theory DiftChannel
  imports DiftQueue DiftStore
begin

text \<open>
  What the queue of \<^verbatim>\<open>ext/dift/dift.c\<close> promises to its users, on top of the invariant and the channel
  interface of \<open>DiftQueue\<close>: delivery in order, progress, that \<^verbatim>\<open>dift_sync\<close> is a barrier, that
  the two threads stay out of each other's chunks, and that the interleaved parts are the functions
  of the source. The last property is about the one start that breaks the protocol.
\<close>

section \<open>Runs\<close>

text \<open>Fields that only the analysis thread changes.\<close>

definition reader :: "queue_sys \<Rightarrow> dift_context \<times> consumer_pc \<times> nat \<times> u64 list" where
  "reader s = (qdc s, cpc s, taken s, got s)"

lemma pstep_reader: "pstep s s' \<Longrightarrow> reader s' = reader s"
  by (erule pstep.cases) (simp_all add: reader_def)

lemma psteps_reader: "pstep\<^sup>*\<^sup>* s s' \<Longrightarrow> reader s' = reader s"
  by (induction rule: rtranclp_induct) (simp_all add: pstep_reader)

lemma psteps_inv: "pstep\<^sup>*\<^sup>* s s' \<Longrightarrow> queue_inv s \<Longrightarrow> queue_inv s'"
  by (induction rule: rtranclp_induct) (simp_all add: pstep_inv)

lemma pstep_safe: "pstep s s' \<Longrightarrow> safe_start s' \<Longrightarrow> safe_start s"
  by (erule pstep.cases) (auto simp: safe_start_def held_def split: if_splits)

lemma psteps_timely: "pstep\<^sup>*\<^sup>* s s' \<Longrightarrow> safe_start s' \<Longrightarrow> timely\<^sup>*\<^sup>* s s'"
proof (induction rule: rtranclp_induct)
  case (step s1 s2)
  then have "timely s1 s2" "safe_start s1" by (auto simp: timely_def qstep_def intro: pstep_safe)
  with step.IH show ?case by (meson rtranclp.rtrancl_into_rtrancl)
qed simp

text \<open>
  The analysis thread is created before the guest runs, but its first \<^verbatim>\<open>next_block\<close> gives back a chunk it never had, the
  last one of the ring. So the runs considered are these: the emulation thread runs alone; or it runs alone, the analysis
  thread makes its first step while the emulation thread has taken fewer than all chunks of the ring, and from then on
  the two run in any interleaving.
\<close>

definition started :: "queue_sys \<Rightarrow> bool" where
  "started s \<longleftrightarrow> \<not> (taken s = 0 \<and> cpc s = CRun)"

definition chunks_taken :: "queue_sys \<Rightarrow> nat" where
  "chunks_taken s = length (closed s) + held s"

definition queue_reach :: "queue_sys \<Rightarrow> bool" where
  "queue_reach s \<longleftrightarrow> (\<exists>s0. queue_init s0 \<and> (pstep\<^sup>*\<^sup>* s0 s \<or>
     (\<exists>s1 s2. pstep\<^sup>*\<^sup>* s0 s1 \<and> chunks_taken s1 < Q_CHUNKS_SIZE \<and> cstep s1 s2 \<and> qstep\<^sup>*\<^sup>* s2 s)))"

lemma safe_start_iff: "safe_start s \<longleftrightarrow> started s \<or> chunks_taken s < Q_CHUNKS_SIZE"
  by (auto simp: safe_start_def started_def chunks_taken_def)

lemma init_not_started: "queue_init s0 \<Longrightarrow> pstep\<^sup>*\<^sup>* s0 s \<Longrightarrow> \<not> started s"
  using psteps_reader [of s0 s] by (auto simp: started_def reader_def queue_init_def)

lemma cstep_starts:
  assumes "queue_inv s" "cstep s s'"
  shows "started s'"
  using assms(2)
proof cases
  case (read p w)
  then have "0 < taken s" using reading_next [OF assms(1)] by metis
  then show ?thesis using read by (simp add: started_def)
qed (simp_all add: started_def)

text \<open>Once the analysis thread has started, every interleaving is one of the channel.\<close>

lemma started_qstep:
  assumes "qstep s s'" "queue_inv s" "started s"
  shows "queue_inv s' \<and> started s' \<and> timely s s'"
proof -
  have t: "timely s s'" using assms by (simp add: timely_def safe_start_iff)
  have "started s'" if "pstep s s'" using pstep_reader [OF that] assms(3) by (simp add: started_def reader_def)
  then have "started s'" using assms(1) cstep_starts [OF assms(2)] by (auto simp: qstep_def)
  then show ?thesis using t timely_inv [OF assms(2) t] by blast
qed

lemma started_run:
  assumes "qstep\<^sup>*\<^sup>* s s'" "queue_inv s" "started s"
  shows "queue_inv s' \<and> started s' \<and> timely\<^sup>*\<^sup>* s s'"
  using assms
proof (induction rule: rtranclp_induct)
  case (step s1 s2)
  then show ?case using started_qstep [OF step.hyps(2)] by (meson rtranclp.rtrancl_into_rtrancl)
qed simp

lemma first_cstep:
  assumes "queue_init s0" "pstep\<^sup>*\<^sup>* s0 s1" "chunks_taken s1 < Q_CHUNKS_SIZE" "cstep s1 s2"
  shows "queue_inv s2 \<and> started s2 \<and> timely\<^sup>*\<^sup>* s0 s2"
proof -
  have inv: "queue_inv s1" by (rule psteps_inv [OF assms(2) init_inv [OF assms(1)]])
  have safe: "safe_start s1" using assms(3) by (simp add: safe_start_iff)
  then have t: "timely s1 s2" using assms(4) by (simp add: timely_def qstep_def)
  have "timely\<^sup>*\<^sup>* s0 s2" by (rule rtranclp.rtrancl_into_rtrancl [OF psteps_timely [OF assms(2) safe] t])
  then show ?thesis using timely_inv [OF inv t] cstep_starts [OF inv assms(4)] by blast
qed

lemma queue_reach_inv: "queue_reach s \<Longrightarrow> queue_inv s"
  unfolding queue_reach_def using psteps_inv init_inv first_cstep started_run by blast

lemma reach_cstep:
  assumes "queue_reach s" "safe_start s" "cstep s s'"
  shows "queue_reach s' \<and> safe_start s'"
proof -
  obtain s0 where s0: "queue_init s0" and r: "pstep\<^sup>*\<^sup>* s0 s \<or>
      (\<exists>s1 s2. pstep\<^sup>*\<^sup>* s0 s1 \<and> chunks_taken s1 < Q_CHUNKS_SIZE \<and> cstep s1 s2 \<and> qstep\<^sup>*\<^sup>* s2 s)"
    using assms(1) by (auto simp: queue_reach_def)
  have q: "qstep s s'" using assms(3) by (simp add: qstep_def)
  from r have "queue_reach s'"
  proof
    assume p: "pstep\<^sup>*\<^sup>* s0 s"
    then have "chunks_taken s < Q_CHUNKS_SIZE" using assms(2) init_not_started [OF s0 p] by (simp add: safe_start_iff)
    then show ?thesis using s0 p assms(3) unfolding queue_reach_def by blast
  qed (use s0 q in \<open>unfold queue_reach_def, meson rtranclp.rtrancl_into_rtrancl\<close>)
  then show ?thesis using cstep_starts [OF queue_reach_inv [OF assms(1)] assms(3)] by (simp add: safe_start_iff)
qed

lemma all_got:
  assumes "queue_inv s" "cpc s = CWait" "got s = sent s"
  shows "taken s = length (closed s)"
proof (rule ccontr)
  assume "taken s \<noteq> length (closed s)"
  then have lt: "taken s < length (closed s)" using freed_le [of s] assms(1) by (auto simp: queue_inv_def)
  have "concat (take (taken s) (closed s)) = concat (closed s) @ cur s"
    using assms by (simp add: queue_inv_def inv_consumer_def sent_def)
  moreover have "closed s = take (taken s) (closed s) @ closed s ! taken s # drop (Suc (taken s)) (closed s)"
    using lt by (rule id_take_nth_drop)
  ultimately have "concat (take (taken s) (closed s)) =
      concat (take (taken s) (closed s) @ closed s ! taken s # drop (Suc (taken s)) (closed s)) @ cur s"
    by simp
  then have "closed s ! taken s = []" by simp
  moreover have "chunk_ok (closed s ! taken s)"
    using assms(1) lt by (simp add: queue_inv_def inv_chunks_def list_all_length)
  ultimately show False by (simp add: chunk_ok_def)
qed

lemma two_steps: "r a b \<Longrightarrow> r b c \<Longrightarrow> r\<^sup>*\<^sup>* a c"
  by (rule converse_rtranclp_into_rtranclp) blast+

section \<open>Properties\<close>

text \<open>C4: The analysis thread gets the words in the order in which the emulation thread pushed them, none lost and none
  twice, and what it has got by some moment stays the beginning of everything pushed later. This holds in every
  interleaving of the two threads from the moment the analysis thread makes its first step, provided that the emulation
  thread, which runs alone before, has then taken fewer than the 4096 chunks of the ring (a later first step frees a chunk
  that nobody has read). Before its first step the analysis thread has got nothing.
\<close>

theorem queue_delivers_in_order:
  assumes "queue_init s0" and "pstep\<^sup>*\<^sup>* s0 s1" and "chunks_taken s1 < Q_CHUNKS_SIZE" and "cstep s1 s2"
    and "qstep\<^sup>*\<^sup>* s2 s" and "qstep\<^sup>*\<^sup>* s s'"
  shows "got s1 = [] \<and> prefix (got s) (sent s) \<and> got s = take (length (got s)) (sent s')"
proof -
  note f = first_cstep [OF assms(1-4)]
  then have r: "queue_inv s \<and> started s \<and> timely\<^sup>*\<^sup>* s2 s" using started_run [OF assms(5)] by blast
  then have "timely\<^sup>*\<^sup>* s s'" using started_run [OF assms(6)] by blast
  moreover have "timely\<^sup>*\<^sup>* s0 s" using f r by (meson rtranclp_trans)
  ultimately have "got s = take (length (got s)) (sent s')" using dq.delivered_stays [OF assms(1)] by blast
  moreover have "got s1 = []" using psteps_reader [OF assms(2)] assms(1) by (auto simp: reader_def queue_init_def)
  ultimately show ?thesis using dq.in_order r by blast
qed

definition demo_queue :: queue_sys where
  "demo_queue = \<lparr>mem = init_queue (\<lambda>_. 0), qdc = demo_context, ok_signal = False, ppc = PRun, todo = [],
     cpc = CRun, closed = [], cur = [], taken = 0, got = []\<rparr>"

lemma demo_queue_init: "queue_init demo_queue"
  by (simp add: queue_init_def demo_queue_def demo_context_def) blast

text \<open>A run: \<^verbatim>\<open>dift_sync\<close> up to its wait for the analysis thread.\<close>

definition demo_sync :: queue_sys where
  "demo_sync = demo_queue\<lparr>todo := [WaitOk], closed := [[MARK_WORD, sync_word 0 3, SYNC_WORD]],
     mem := take_chunk (publish_chunk
       (store_word (store_word (store_word (init_queue (\<lambda>_. 0)) MARK_WORD) (sync_word 0 3)) SYNC_WORD))\<rparr>"

lemma sync_word_plain: "sync_word 0 3 \<noteq> SYNC_WORD"
  by (simp add: sync_word_def SYNC_WORD_def case_nb_defs)

lemma demo_not_aligned: "\<not> chunk_aligned 1" "\<not> chunk_aligned 2" "\<not> chunk_aligned 3"
  by (simp_all add: chunk_aligned_def)

lemma demo_sync_steps: "pstep\<^sup>*\<^sup>* demo_queue demo_sync"
proof -
  let ?q1 = "store_word (init_queue (\<lambda>_. 0)) MARK_WORD"
  let ?q2 = "store_word ?q1 (sync_word 0 3)" and ?w = "sync_word 0 3"
  let ?q3 = "store_word ?q2 SYNC_WORD"
  let ?as = "[Kick, WaitOk]"
  let ?s0 = "demo_queue\<lparr>todo := sync_actions 0 3\<rparr>"
  let ?s1 = "demo_queue\<lparr>mem := ?q1, todo := [Enq ?w, Enq SYNC_WORD, Kick, WaitOk], cur := [MARK_WORD]\<rparr>"
  let ?s2 = "demo_queue\<lparr>mem := ?q2, todo := [Enq SYNC_WORD, Kick, WaitOk], cur := [MARK_WORD, ?w]\<rparr>"
  let ?s3 = "demo_queue\<lparr>mem := ?q3, todo := ?as, cur := [MARK_WORD, ?w, SYNC_WORD]\<rparr>"
  let ?s4 = "demo_queue\<lparr>mem := ?q3, todo := [WaitOk], cur := [MARK_WORD, ?w, SYNC_WORD], ppc := PPublish\<rparr>"
  let ?s5 = "demo_queue\<lparr>mem := publish_chunk ?q3, todo := [WaitOk], closed := [[MARK_WORD, ?w, SYNC_WORD]], ppc := PWait\<rparr>"
  have ptr: "enqptr ?q1 = 1" "enqptr ?q2 = 2" "enqptr ?q3 = 3" by (simp_all add: store_word_def init_queue_def)
  have "pstep demo_queue ?s0"
    using call_sync [OF _ sync_word_plain, of demo_queue] by (simp add: demo_queue_def)
  moreover have "pstep ?s0 ?s1"
    using enqueue [of ?s0 MARK_WORD "[Enq ?w, Enq SYNC_WORD, Kick, WaitOk]" ?q1] demo_not_aligned ptr
    by (simp add: demo_queue_def sync_actions_def)
  moreover have "pstep ?s1 ?s2"
    using enqueue [of ?s1 ?w "[Enq SYNC_WORD, Kick, WaitOk]" ?q2] demo_not_aligned ptr by (simp add: demo_queue_def)
  moreover have "pstep ?s2 ?s3"
    using enqueue [of ?s2 SYNC_WORD ?as ?q3] demo_not_aligned ptr by (simp add: demo_queue_def)
  moreover have "pstep ?s3 ?s4"
    using kick [of ?s3 "[WaitOk]"] demo_not_aligned ptr by (simp add: demo_queue_def)
  moreover have "pstep ?s4 ?s5"
    using publish [of ?s4] by (simp add: demo_queue_def)
  moreover have "pstep ?s5 demo_sync"
  proof -
    have "chunk_available (publish_chunk ?q3)"
      by (simp add: chunk_available_def publish_chunk_def store_word_def init_queue_def case_nb_defs)
    then show ?thesis using take [of ?s5] by (simp add: demo_queue_def demo_sync_def)
  qed
  ultimately show ?thesis
    by (meson converse_rtranclp_into_rtranclp rtranclp.rtrancl_refl)
qed

lemma demo_sync_reachable: "queue_reach demo_sync"
  unfolding queue_reach_def using demo_queue_init demo_sync_steps by blast

lemma demo_sync_in_time: "chunks_taken demo_sync < Q_CHUNKS_SIZE" "safe_start demo_sync"
  by (simp_all add: safe_start_iff chunks_taken_def held_def demo_sync_def demo_queue_def)

text \<open>The analysis thread reads the chunk of that run to its end.\<close>

lemma demo_drained:
  "\<exists>s1 s. cstep demo_sync s1 \<and> cstep\<^sup>*\<^sup>* s1 s \<and> got s = [MARK_WORD, sync_word 0 3, SYNC_WORD] \<and> sent s = got s \<and>
     cpc s = CWait \<and> ppc s = PRun \<and> todo s = [WaitOk] \<and> ok_signal s"
proof -
  have s: "cur demo_sync = []" "ppc demo_sync = PRun" "todo demo_sync = [WaitOk]" "cpc demo_sync = CRun"
    "sent demo_sync = [MARK_WORD, sync_word 0 3, SYNC_WORD]"
    by (simp_all add: demo_sync_def demo_queue_def sent_def)
  obtain s' where s': "cstep\<^sup>*\<^sup>* demo_sync s'" "queue_inv s'" "got s' = sent demo_sync" "cpc s' = CWait" "cur s' = cur demo_sync"
    "closed s' = closed demo_sync" "ppc s' = ppc demo_sync" "todo s' = todo demo_sync"
    using drain [OF queue_reach_inv [OF demo_sync_reachable] demo_sync_in_time(2) s(1)] by blast
  have e: "sent s' = got s'" using s'(3,5,6) by (simp add: sent_def)
  then have "ok_signal s'" using s'(2,8) s(3) by (auto simp: queue_inv_def inv_sync_def unread_def split: if_splits)
  moreover obtain s1 where "cstep demo_sync s1" "cstep\<^sup>*\<^sup>* s1 s'"
    using s'(1) s'(4) s(4) by (cases rule: converse_rtranclpE) auto
  ultimately show ?thesis using s' s e by metis
qed

lemma csteps_qsteps: "cstep\<^sup>*\<^sup>* s s' \<Longrightarrow> qstep\<^sup>*\<^sup>* s s'"
  by (rule rtranclp_mono [THEN predicate2D]) (auto simp: qstep_def)

theorem queue_delivers_in_order_witness:
  "\<exists>s s'. got s = [MARK_WORD, sync_word 0 3, SYNC_WORD] \<and> todo s' = [Enq 7] \<and> prefix (got s) (sent s) \<and>
     got s = take (length (got s)) (sent s')"
proof -
  obtain s1 s where s: "cstep demo_sync s1" "cstep\<^sup>*\<^sup>* s1 s" "got s = [MARK_WORD, sync_word 0 3, SYNC_WORD]"
    "ppc s = PRun" "todo s = [WaitOk]" "ok_signal s" using demo_drained by blast
  let ?s1 = "s\<lparr>todo := [], ok_signal := False\<rparr>" and ?s2 = "s\<lparr>ok_signal := False, todo := [Enq 7]\<rparr>"
  have "pstep s ?s1" by (rule wait_ok [OF s(4-6)])
  moreover have "pstep ?s1 ?s2" using call_enqueue [of ?s1 7] by (simp add: SYNC_WORD_def case_nb_defs)
  ultimately have "qstep\<^sup>*\<^sup>* s ?s2" by (intro two_steps [of qstep s ?s1 ?s2]) (simp_all add: qstep_def)
  from queue_delivers_in_order [OF demo_queue_init demo_sync_steps demo_sync_in_time(1) s(1) csteps_qsteps [OF s(2)] this]
  have "prefix (got s) (sent s)" "got s = take (length (got s)) (sent ?s2)" by blast+
  moreover have "todo ?s2 = [Enq 7]" by simp
  ultimately show ?thesis using s(3) by blast
qed

lemma waits_end:
  assumes "queue_reach s" and "safe_start s"
    and "ppc s = PWait \<or> ppc s = PRun \<and> todo s = [WaitOk]"
  shows "\<exists>s'. cstep\<^sup>*\<^sup>* s s' \<and> got s' = sent s \<and>
    (ppc s = PWait \<longrightarrow> chunk_available (mem s')) \<and> (todo s = [WaitOk] \<longrightarrow> ok_signal s')"
proof (cases "cur s = []")
  case True
  obtain s' where s': "cstep\<^sup>*\<^sup>* s s'" "queue_inv s'" "got s' = sent s" "cpc s' = CWait"
    and fr: "cur s' = cur s" "closed s' = closed s" "ppc s' = ppc s" "todo s' = todo s"
    using drain [OF queue_reach_inv [OF assms(1)] assms(2) True] by blast
  have all: "got s' = sent s'" using s'(3) fr by (simp add: sent_def)
  have "chunk_available (mem s')" if "ppc s = PWait"
    using all_got [OF s'(2,4) all] s'(2,4) that fr flags_free [of s' "length (closed s')"]
    by (simp add: chunk_available_def queue_inv_def inv_producer_def held_def freed_def)
  moreover have "ok_signal s'" if "todo s = [WaitOk]"
    using s'(2) that fr all by (auto simp: queue_inv_def inv_sync_def unread_def split: if_splits)
  ultimately show ?thesis using s'(1,3) by blast
next
  case False
  have inv: "queue_inv s" using queue_reach_inv [OF assms(1)] .
  then have w: "ppc s = PRun" "todo s = [WaitOk]" "SYNC_WORD \<notin> set (cur s)"
    using False assms(3) by (auto simp: queue_inv_def inv_chunks_def)
  have "ok_signal s"
  proof (rule ccontr)
    assume "\<not> ok_signal s"
    then have u: "unread s \<noteq> []" "last (unread s) = SYNC_WORD"
      using inv w(2) by (simp_all add: queue_inv_def inv_sync_def)
    then have "last (sent s) = SYNC_WORD"
      using unread_append [of s] inv by (simp add: queue_inv_def)
    then show False using w(3) False last_in_set [of "cur s"] by (simp add: sent_def)
  qed
  then have "got s = sent s"
    using inv w(2) unread_append [of s] by (simp add: queue_inv_def inv_sync_def)
  with \<open>ok_signal s\<close> w(1) show ?thesis by auto
qed

lemma stopped_read_all:
  assumes "queue_inv s" "\<nexists>s'. cstep s s'"
  shows "cpc s = CWait \<and> got s = concat (closed s)"
proof (cases "cpc s")
  case CWait
  then have "got s = concat (take (taken s) (closed s))"
    using assms(1) by (simp add: queue_inv_def inv_consumer_def)
  moreover have "\<not> taken s < length (closed s)"
  proof
    assume t: "taken s < length (closed s)"
    then have "q_chunks_flag (mem s) (slot (taken s)) = CHUNK_FILLED"
      using assms(1) CWait flags_full [of s "taken s"] by (simp add: queue_inv_def freed_def)
    then have "chunk_filled (mem s) (qdc s)"
      using assms(1) by (simp add: chunk_filled_def queue_inv_def inv_consumer_def)
    with CWait assms(2) show False by (cases "consume_chunk (mem s) (qdc s)") (blast intro: cstep.consume)
  qed
  ultimately show ?thesis using CWait by simp
next
  case CRead
  then obtain p where "deqptr (qdc s) = Some p" using assms(1) by (auto simp: queue_inv_def inv_consumer_def)
  with CRead assms(2) show ?thesis by (blast intro: cstep.read)
next
  case CRun
  show ?thesis
  proof (cases "deqptr (qdc s)")
    case None
    with CRun assms(2) show ?thesis using cstep.release [of s] by (auto simp: chunk_done_def)
  next
    case (Some p)
    with CRun assms(2) show ?thesis using cstep.release [of s] cstep.read [of s p] by blast
  qed
qed

text \<open>The emulation thread can go on when the analysis thread cannot.\<close>

lemma one_can_step:
  assumes "queue_inv s" "\<nexists>s'. cstep s s'"
  shows "\<exists>s'. pstep s s'"
proof (cases "ppc s")
  case PRun
  have u: "unread s = cur s" using stopped_read_all [OF assms] by (simp add: unread_def sent_def)
  have "inv_todo s" using assms(1) by (simp add: queue_inv_def)
  then consider "todo s = []" | w as where "todo s = Enq w # as" | as where "todo s = Kick # as" | "todo s = [WaitOk]"
    by (cases "todo s"; cases "hd (todo s)") (auto simp: inv_todo_def Cons_eq_map_conv Cons_eq_append_conv)
  then show ?thesis
  proof cases
    case 1
    moreover have "(0 :: u64) \<noteq> SYNC_WORD" by (simp add: SYNC_WORD_def case_nb_defs)
    ultimately show ?thesis using call_enqueue by blast
  next
    case 4
    have "ok_signal s"
    proof (rule ccontr)
      assume "\<not> ok_signal s"
      then have "cur s \<noteq> []" "last (cur s) = SYNC_WORD" using assms(1) 4 u by (simp_all add: queue_inv_def inv_sync_def)
      moreover have "SYNC_WORD \<notin> set (cur s)" using assms(1) PRun 4 by (simp add: queue_inv_def inv_chunks_def)
      ultimately show False using last_in_set by metis
    qed
    then show ?thesis using wait_ok [OF PRun 4] by blast
  qed (use PRun enqueue kick in blast)+
next
  case PWait
  note st = stopped_read_all [OF assms]
  have "got s = sent s" using st assms(1) PWait by (simp add: sent_def queue_inv_def inv_chunks_def)
  then have "taken s = length (closed s)" using all_got [OF assms(1)] st by blast
  then have "chunk_available (mem s)"
    using assms(1) st PWait flags_free [of s "length (closed s)"]
    by (simp add: chunk_available_def queue_inv_def inv_producer_def held_def freed_def)
  then show ?thesis using take [OF PWait] by blast
qed (use publish in blast)

text \<open>C5: Neither thread waits forever for the other, provided that the analysis thread makes its first step before the
  emulation thread has taken all 4096 chunks of the ring. In every state of such a run: when the emulation thread spins for
  a free chunk, or in \<^verbatim>\<open>dift_sync\<close> for the analysis thread, the analysis thread alone, by finitely many of its own
  steps, reads everything that was pushed and thereby frees the chunk or raises the signal; and when the analysis thread
  cannot make a step, it waits for the next chunk, has read every chunk that was handed over, and the emulation thread can
  make a step.
\<close>

theorem queue_never_stuck:
  assumes "queue_reach s" and "started s \<or> chunks_taken s < Q_CHUNKS_SIZE"
  shows "(ppc s = PWait \<or> ppc s = PRun \<and> todo s = [WaitOk] \<longrightarrow>
      (\<exists>s'. cstep\<^sup>*\<^sup>* s s' \<and> got s' = sent s \<and>
        (ppc s = PWait \<longrightarrow> chunk_available (mem s')) \<and> (todo s = [WaitOk] \<longrightarrow> ok_signal s'))) \<and>
    ((\<nexists>s'. cstep s s') \<longrightarrow> cpc s = CWait \<and> got s = concat (closed s) \<and> (\<exists>s'. pstep s s'))"
  using waits_end [OF assms(1)] assms(2) stopped_read_all [OF queue_reach_inv [OF assms(1)]]
    one_can_step [OF queue_reach_inv [OF assms(1)]] by (auto simp: safe_start_iff)

theorem queue_never_stuck_witness:
  "\<exists>s'. cstep\<^sup>*\<^sup>* demo_sync s' \<and> got s' = [MARK_WORD, sync_word 0 3, SYNC_WORD] \<and> ok_signal s'"
proof -
  have "ppc demo_sync = PRun \<and> todo demo_sync = [WaitOk]" "sent demo_sync = [MARK_WORD, sync_word 0 3, SYNC_WORD]"
    by (simp_all add: demo_sync_def demo_queue_def sent_def)
  then show ?thesis using queue_never_stuck [OF demo_sync_reachable] demo_sync_in_time(1) by auto
qed

text \<open>C22: \<^verbatim>\<open>dift_sync\<close> is a barrier: it returns only when the analysis thread has got every word that was
  ever pushed, and at that moment no signal and no word is left over. This holds in every interleaving in which the
  analysis thread makes its first step before the emulation thread has taken all 4096 chunks of the ring.\<close>

theorem dift_sync_is_a_barrier:
  assumes "queue_reach s" and "pstep s s'" and "todo s = [WaitOk]" and "todo s' = []"
  shows "got s' = sent s' \<and> \<not> ok_signal s'"
  using assms(2)
proof cases
  case (wait_ok as)
  have "unread s = []"
    using queue_reach_inv [OF assms(1)] assms(3) wait_ok(4) by (simp add: queue_inv_def inv_sync_def)
  then have "got s = sent s"
    using unread_append [of s] queue_reach_inv [OF assms(1)] by (simp add: queue_inv_def)
  then show ?thesis by (simp add: wait_ok(1) sent_def)
qed (use assms(3,4) in auto)

lemma demo_signalled: "\<exists>s. queue_reach s \<and> ppc s = PRun \<and> todo s = [WaitOk] \<and> ok_signal s"
proof -
  obtain s1 s where s: "cstep demo_sync s1" "cstep\<^sup>*\<^sup>* s1 s" "ppc s = PRun" "todo s = [WaitOk]" "ok_signal s"
    using demo_drained by blast
  then have "queue_reach s"
    unfolding queue_reach_def using demo_queue_init demo_sync_steps demo_sync_in_time(1) csteps_qsteps by blast
  then show ?thesis using s by blast
qed

theorem dift_sync_is_a_barrier_witness:
  "\<exists>s s'. queue_reach s \<and> pstep s s' \<and> todo s = [WaitOk] \<and> todo s' = [] \<and> got s' = sent s'"
proof -
  obtain s where s: "queue_reach s" "ppc s = PRun" "todo s = [WaitOk]" "ok_signal s"
    using demo_signalled by blast
  let ?s' = "s\<lparr>todo := [], ok_signal := False\<rparr>"
  have "pstep s ?s'" using wait_ok [OF s(2,3,4)] .
  with s dift_sync_is_a_barrier [OF s(1) this s(3)] show ?thesis by (intro exI [of _ s] exI [of _ ?s']) simp
qed

lemma slot_cover: "i < 4096 \<Longrightarrow> \<exists>j. f \<le> j \<and> j < f + 4096 \<and> slot j = i"
proof -
  assume i: "i < 4096"
  let ?b = "f div 4096 * 4096"
  have f: "f = ?b + slot f" "slot f < 4096" by (simp_all add: slot_def)
  have "slot (?b + i) = i" "slot (?b + i + 4096) = i" using i by (simp_all add: slot_def)
  moreover have "f \<le> ?b + i \<and> ?b + i < f + 4096 \<or> f \<le> ?b + i + 4096 \<and> ?b + i + 4096 < f + 4096"
    using f i by linarith
  ultimately show ?thesis by blast
qed

lemma flag_values:
  assumes "queue_inv s" "i < 4096"
  shows "q_chunks_flag (mem s) i \<in> {CHUNK_AVAILABLE, CHUNK_FILLING, CHUNK_FILLED, CHUNK_CONSUMING}"
proof -
  obtain j where j: "freed s \<le> j" "j < freed s + 4096" "slot j = i"
    using slot_cover [OF assms(2)] by blast
  consider "j < length (closed s)" | "j = length (closed s)" "ppc s \<noteq> PWait" | "length (closed s) + held s \<le> j"
    unfolding held_def by (cases "ppc s = PWait"; fastforce)
  then show ?thesis
  proof cases
    case 2
    then show ?thesis using assms(1) j by (simp add: queue_inv_def inv_flags_def)
  qed (use assms(1) j flags_full [of s j] flags_free [of s j] in \<open>auto simp: queue_inv_def\<close>)
qed

text \<open>C24: every index, flag and pointer of the queue stays in its type: chunk indices below the number of
  chunks, flags among the four values, and each word written or read inside \<^verbatim>\<open>q_records\<close>. This holds in every
  interleaving in which the analysis thread makes its first step before the emulation thread has taken all 4096 chunks.\<close>

theorem queue_well_typed:
  assumes "queue_reach s"
  shows "unat (head (mem s)) < Q_CHUNKS_SIZE \<and> unat (tail (qdc s)) < Q_CHUNKS_SIZE \<and>
    unat (prev_tail (qdc s)) < Q_CHUNKS_SIZE \<and>
    (\<forall>i < Q_CHUNKS_SIZE. q_chunks_flag (mem s) i \<in> {CHUNK_AVAILABLE, CHUNK_FILLING, CHUNK_FILLED, CHUNK_CONSUMING}) \<and>
    (ppc s = PRun \<longrightarrow> enqptr (mem s) < CONFIG_SIZE_OF_QUEUE div 8) \<and>
    (\<forall>p. deqptr (qdc s) = Some p \<and> (cpc s = CRead \<or> cpc s = CRun \<and> \<not> chunk_done (qdc s)) \<longrightarrow>
       p < CONFIG_SIZE_OF_QUEUE div 8)"
proof -
  note inv = queue_reach_inv [OF assms]
  have size: "CONFIG_SIZE_OF_QUEUE div 8 = 4096 * 512" by (simp add: CONFIG_SIZE_OF_QUEUE_def)
  have word: "k < 512 \<Longrightarrow> slot j * 512 + k < 4096 * 512" for j k
    using slot_less [of j] by simp
  have "enqptr (mem s) < 4096 * 512" if "ppc s = PRun"
    using inv that word [of "length (cur s)"] by (simp add: queue_inv_def inv_producer_def inv_chunks_def)
  moreover have "p < 4096 * 512"
    if d: "deqptr (qdc s) = Some p" "cpc s = CRead \<or> cpc s = CRun \<and> \<not> chunk_done (qdc s)" for p
  proof -
    obtain k where k: "k < length (closed s ! (taken s - 1))" "p = slot (taken s - 1) * 512 + k" "0 < taken s"
      using reading_next [OF inv d(2,1)] by metis
    have "cpc s \<noteq> CWait" using d(2) by auto
    then have "length (closed s ! (taken s - 1)) \<le> 512"
      using current_chunk [OF inv k(3)] by (simp add: chunk_ok_def)
    then show ?thesis using k word [of k "taken s - 1"] by simp
  qed
  moreover have "unat (head (mem s)) < 4096" "unat (tail (qdc s)) < 4096" "unat (prev_tail (qdc s)) < 4096"
    using inv slot_less by (auto simp: queue_inv_def inv_producer_def inv_consumer_def)
  ultimately show ?thesis
    unfolding size ring_sizes using flag_values [OF inv] by blast
qed

theorem queue_well_typed_witness: "unat (head (mem demo_sync)) < 4096 \<and> enqptr (mem demo_sync) < 2097152"
  using queue_well_typed [OF demo_sync_reachable]
  by (simp add: demo_sync_def demo_queue_def CONFIG_SIZE_OF_QUEUE_def)

text \<open>C25: the threads never work on the same chunk: while the analysis thread has a chunk and the emulation
  thread fills one, the two are different. This holds in every interleaving in which the analysis thread makes its first
  step before the emulation thread has taken all 4096 chunks.\<close>

theorem chunk_exclusion:
  assumes "queue_reach s" and "ppc s \<noteq> PWait" and "cpc s \<noteq> CWait" and "0 < taken s"
  shows "unat (prev_head (mem s)) \<noteq> unat (prev_tail (qdc s)) \<and>
    q_chunks_flag (mem s) (unat (prev_head (mem s))) = CHUNK_FILLING \<and>
    q_chunks_flag (mem s) (unat (prev_tail (qdc s))) = CHUNK_CONSUMING"
proof -
  note inv = queue_reach_inv [OF assms(1), unfolded queue_inv_def]
  let ?h = "length (closed s)"
  have t: "taken s - 1 < ?h" "freed s = taken s - 1"
    using inv assms(3,4) by (auto simp: inv_consumer_def freed_def)
  have "taken s + 4095 = taken s - 1 + 4096" using assms(4) by simp
  then have pt: "unat (prev_tail (qdc s)) = slot (taken s - 1)"
    using inv by (simp only: inv_consumer_def slot_add simp_thms)
  have ph: "unat (prev_head (mem s)) = slot ?h" using inv assms(2) by (simp add: inv_producer_def)
  have fl: "q_chunks_flag (mem s) (slot ?h) = CHUNK_FILLING"
    using inv assms(2) by (simp add: inv_flags_def)
  moreover have fc: "q_chunks_flag (mem s) (slot (taken s - 1)) = CHUNK_CONSUMING"
    using flags_full [of s "taken s - 1"] inv t assms(4) by simp
  moreover have "slot ?h \<noteq> slot (taken s - 1)"
    using fl fc by (auto simp: case_nb_defs)
  ultimately show ?thesis unfolding ph pt by blast
qed

lemma demo_consuming: "\<exists>s. queue_reach s \<and> ppc s = PRun \<and> cpc s = CRead \<and> taken s = 1"
proof -
  let ?s1 = "demo_sync\<lparr>mem := release_chunk (mem demo_sync) (qdc demo_sync), cpc := CWait\<rparr>"
  have start: "safe_start demo_sync" by (simp add: demo_sync_def demo_queue_def safe_start_def held_def)
  have "cstep demo_sync ?s1"
    by (rule cstep.release) (simp_all add: demo_sync_def demo_queue_def demo_context_def chunk_done_def)
  then have s1: "queue_reach ?s1" "safe_start ?s1"
    using reach_cstep [OF demo_sync_reachable start] by blast+
  obtain q1 dc1 where c: "consume_chunk (mem ?s1) (qdc ?s1) = (q1, dc1)" by fastforce
  have "chunk_filled (mem ?s1) (qdc ?s1)"
    by (simp add: chunk_filled_def demo_sync_def demo_queue_def demo_context_def release_chunk_def take_chunk_def
        publish_chunk_def store_word_def init_queue_def)
  then have "cstep ?s1 (?s1\<lparr>mem := q1, qdc := dc1, cpc := CRead, taken := Suc (taken ?s1)\<rparr>)"
    using c by (intro cstep.consume) simp_all
  then show ?thesis
    using reach_cstep [OF s1] by (intro exI [of _ "?s1\<lparr>mem := q1, qdc := dc1, cpc := CRead, taken := Suc (taken ?s1)\<rparr>"])
      (auto simp: demo_sync_def demo_queue_def)
qed

theorem chunk_exclusion_witness:
  "\<exists>s. queue_reach s \<and> unat (prev_head (mem s)) \<noteq> unat (prev_tail (qdc s)) \<and>
     q_chunks_flag (mem s) (unat (prev_tail (qdc s))) = CHUNK_CONSUMING"
proof -
  obtain s where "queue_reach s" "ppc s = PRun" "cpc s = CRead" "taken s = 1"
    using demo_consuming by blast
  then show ?thesis using chunk_exclusion [of s] by auto
qed

lemma three_steps: "r a b \<Longrightarrow> r b c \<Longrightarrow> r c d \<Longrightarrow> r\<^sup>*\<^sup>* a d"
  by (rule converse_rtranclp_into_rtranclp) (blast intro: two_steps)+

lemma hand_over:
  assumes "ppc s = PPublish" "chunk_available (publish_chunk (mem s))"
  shows "\<exists>s'. pstep\<^sup>*\<^sup>* s s' \<and> mem s' = take_chunk (publish_chunk (mem s)) \<and> ppc s' = PRun \<and> todo s' = todo s \<and>
    sent s' = sent s"
proof -
  let ?s1 = "s\<lparr>mem := publish_chunk (mem s), ppc := PWait, closed := closed s @ [cur s], cur := []\<rparr>"
  have "pstep s ?s1" using assms(1) by (rule publish)
  moreover have "pstep ?s1 (?s1\<lparr>mem := take_chunk (mem ?s1), ppc := PRun\<rparr>)"
    using assms(2) by (intro take) simp_all
  ultimately have "pstep\<^sup>*\<^sup>* s (?s1\<lparr>mem := take_chunk (mem ?s1), ppc := PRun\<rparr>)" by (rule two_steps)
  then show ?thesis
    by (intro exI [of _ "?s1\<lparr>mem := take_chunk (mem ?s1), ppc := PRun\<rparr>"]) (simp add: sent_def)
qed

lemma dequeue_steps:
  assumes "cpc s = CRun" "rec_dequeue (mem s) (qdc s) = Some (w, q1, dc1)" "w \<noteq> SYNC_WORD"
  shows "\<exists>s'. cstep\<^sup>*\<^sup>* s s' \<and> mem s' = q1 \<and> qdc s' = dc1 \<and> cpc s' = CRun \<and> got s' = got s @ [w]"
proof (cases "chunk_done (qdc s)")
  case True
  let ?s1 = "s\<lparr>mem := release_chunk (mem s) (qdc s), cpc := CWait\<rparr>"
  obtain q2 dc2 p where q2: "chunk_filled (mem ?s1) (qdc ?s1)" "consume_chunk (mem ?s1) (qdc ?s1) = (q2, dc2)"
    "deqptr dc2 = Some p" "w = q_records q2 p" "q1 = q2" "dc1 = dc2\<lparr>deqptr := Some (Suc p)\<rparr>"
    using assms(2) True by (auto simp: rec_dequeue_def next_block_def Let_def bind_eq_Some_conv split: if_splits prod.splits)
  let ?s2 = "?s1\<lparr>mem := q2, qdc := dc2, cpc := CRead, taken := Suc (taken ?s1)\<rparr>"
  have "cstep s ?s1" using True assms(1) by (intro cstep.release) simp_all
  moreover have "cstep ?s1 ?s2" using q2 by (intro cstep.consume) simp_all
  moreover obtain s3 where "cstep ?s2 s3" "mem s3 = q1" "qdc s3 = dc1" "cpc s3 = CRun" "got s3 = got s @ [w]"
    using cstep.read [of ?s2 p w] q2 assms(3) by auto
  ultimately show ?thesis using three_steps [of cstep s ?s1 ?s2 s3] by blast
next
  case False
  obtain p where p: "deqptr (qdc s) = Some p" "w = q_records (mem s) p" "q1 = mem s" "dc1 = (qdc s)\<lparr>deqptr := Some (Suc p)\<rparr>"
    using assms(2) False by (auto simp: rec_dequeue_def bind_eq_Some_conv)
  obtain s1 where "cstep s s1" "mem s1 = q1" "qdc s1 = dc1" "cpc s1 = CRun" "got s1 = got s @ [w]"
    using cstep.read [of s p w] p assms(1,3) False by auto
  then show ?thesis by blast
qed

text \<open>The interleaved parts are the functions of the source: when no spinning is needed, the steps of the
  emulation thread for one word have exactly the effect of \<^verbatim>\<open>dift_rec_enqueue\<close>, those for the end of
  \<^verbatim>\<open>dift_sync\<close> that of \<^verbatim>\<open>kick_enqptr\<close>, and the steps of the analysis thread for one word that of
  \<^verbatim>\<open>rec_dequeue\<close>.\<close>

lemma queue_steps_are_the_functions:
  "(\<forall>s w as q1. ppc s = PRun \<and> todo s = Enq w # as \<and> dift_rec_enqueue (mem s) w = Some q1 \<longrightarrow>
      (\<exists>s'. pstep\<^sup>*\<^sup>* s s' \<and> mem s' = q1 \<and> ppc s' = PRun \<and> todo s' = as \<and> sent s' = sent s @ [w])) \<and>
   (\<forall>s as q1. ppc s = PRun \<and> todo s = Kick # as \<and> kick_enqptr (mem s) = Some q1 \<longrightarrow>
      (\<exists>s'. pstep\<^sup>*\<^sup>* s s' \<and> mem s' = q1 \<and> ppc s' = PRun \<and> todo s' = as \<and> sent s' = sent s)) \<and>
   (\<forall>s w q1 dc1. cpc s = CRun \<and> rec_dequeue (mem s) (qdc s) = Some (w, q1, dc1) \<and> w \<noteq> SYNC_WORD \<longrightarrow>
      (\<exists>s'. cstep\<^sup>*\<^sup>* s s' \<and> mem s' = q1 \<and> qdc s' = dc1 \<and> cpc s' = CRun \<and> got s' = got s @ [w]))"
proof (intro conjI allI impI)
  fix s :: queue_sys and w as q1
  assume a: "ppc s = PRun \<and> todo s = Enq w # as \<and> dift_rec_enqueue (mem s) w = Some q1"
  let ?q = "store_word (mem s) w"
  let ?s = "s\<lparr>mem := ?q, todo := as, cur := cur s @ [w], ppc := (if chunk_aligned (enqptr ?q) then PPublish else PRun)\<rparr>"
  have s: "pstep s ?s" using a by (intro enqueue) simp_all
  show "\<exists>s'. pstep\<^sup>*\<^sup>* s s' \<and> mem s' = q1 \<and> ppc s' = PRun \<and> todo s' = as \<and> sent s' = sent s @ [w]"
  proof (cases "chunk_aligned (enqptr ?q)")
    case True
    then obtain s' where "pstep\<^sup>*\<^sup>* ?s s'" "mem s' = q1" "ppc s' = PRun" "todo s' = todo ?s" "sent s' = sent ?s"
      using hand_over [of ?s] a by (auto simp: dift_rec_enqueue_def Let_def split: if_splits)
    then show ?thesis using s by (intro exI [of _ s']) (auto simp: sent_def intro: converse_rtranclp_into_rtranclp)
  next
    case False
    then show ?thesis
      using s a by (intro exI [of _ ?s]) (auto simp: dift_rec_enqueue_def Let_def sent_def)
  qed
next
  fix s :: queue_sys and as q1
  assume a: "ppc s = PRun \<and> todo s = Kick # as \<and> kick_enqptr (mem s) = Some q1"
  let ?s = "s\<lparr>todo := as, ppc := (if chunk_aligned (enqptr (mem s)) then PRun else PPublish)\<rparr>"
  have s: "pstep s ?s" using a by (intro kick) simp_all
  show "\<exists>s'. pstep\<^sup>*\<^sup>* s s' \<and> mem s' = q1 \<and> ppc s' = PRun \<and> todo s' = as \<and> sent s' = sent s"
  proof (cases "chunk_aligned (enqptr (mem s))")
    case True
    then show ?thesis
      using s a by (intro exI [of _ ?s]) (auto simp: kick_enqptr_def sent_def)
  next
    case False
    then obtain s' where "pstep\<^sup>*\<^sup>* ?s s'" "mem s' = q1" "ppc s' = PRun" "todo s' = todo ?s" "sent s' = sent ?s"
      using hand_over [of ?s] a by (auto simp: kick_enqptr_def Let_def split: if_splits)
    then show ?thesis using s by (intro exI [of _ s']) (auto simp: sent_def intro: converse_rtranclp_into_rtranclp)
  qed
next
  fix s :: queue_sys and w q1 dc1
  assume a: "cpc s = CRun \<and> rec_dequeue (mem s) (qdc s) = Some (w, q1, dc1) \<and> w \<noteq> SYNC_WORD"
  then show "\<exists>s'. cstep\<^sup>*\<^sup>* s s' \<and> mem s' = q1 \<and> qdc s' = dc1 \<and> cpc s' = CRun \<and> got s' = got s @ [w]"
    using dequeue_steps by blast
qed

lemma queue_steps_are_the_functions_example:
  "\<exists>s'. pstep\<^sup>*\<^sup>* (demo_queue\<lparr>todo := [Enq 7]\<rparr>) s' \<and> mem s' = store_word (init_queue (\<lambda>_. 0)) 7 \<and>
     todo s' = [] \<and> sent s' = [7]"
proof -
  let ?s = "demo_queue\<lparr>todo := [Enq 7]\<rparr>"
  have "dift_rec_enqueue (mem ?s) 7 = Some (store_word (init_queue (\<lambda>_. 0)) 7)"
    using demo_not_aligned by (simp add: dift_rec_enqueue_def demo_queue_def store_word_def init_queue_def)
  moreover have "ppc ?s = PRun" "todo ?s = Enq 7 # []" "sent ?s = []"
    by (simp_all add: demo_queue_def sent_def)
  ultimately show ?thesis
    using queue_steps_are_the_functions [THEN conjunct1, rule_format, of ?s 7 "[]"] by (metis append_Nil)
qed

section \<open>Runs of the emulation thread alone\<close>

lemma push_word:
  assumes "queue_inv s" "ppc s = PRun" "todo s = Enq w # as"
  shows "\<exists>s'. pstep s s' \<and> todo s' = as \<and> closed s' = closed s \<and> cur s' = cur s @ [w] \<and>
    ppc s' = (if length (cur s) = 511 then PPublish else PRun)"
proof -
  let ?q = "store_word (mem s) w"
  let ?s = "s\<lparr>mem := ?q, todo := as, cur := cur s @ [w], ppc := (if chunk_aligned (enqptr ?q) then PPublish else PRun)\<rparr>"
  have "pstep s ?s" using assms(2,3) by (intro enqueue) simp_all
  moreover have "enqptr ?q = slot (length (closed s)) * 512 + Suc (length (cur s))" "length (cur s) < 512"
    using assms(1,2) by (simp_all add: queue_inv_def inv_producer_def inv_chunks_def store_word_def)
  then have "chunk_aligned (enqptr ?q) \<longleftrightarrow> length (cur s) = 511"
    using chunk_aligned_slot [of "Suc (length (cur s))" "length (closed s)"] by simp
  ultimately show ?thesis by (intro exI [of _ ?s]) simp
qed

lemma push_words:
  "queue_inv s \<Longrightarrow> ppc s = PRun \<Longrightarrow> todo s = [] \<Longrightarrow> SYNC_WORD \<notin> set ws \<Longrightarrow> length (cur s) + length ws < 512 \<Longrightarrow>
   \<exists>s'. pstep\<^sup>*\<^sup>* s s' \<and> ppc s' = PRun \<and> todo s' = [] \<and> closed s' = closed s \<and> cur s' = cur s @ ws"
proof (induction ws arbitrary: s)
  case (Cons w ws)
  let ?s = "s\<lparr>todo := [Enq w]\<rparr>"
  have c: "pstep s ?s" using Cons.prems by (intro call_enqueue) auto
  have inv: "queue_inv ?s" using c Cons.prems(1) by (rule pstep_inv)
  obtain s1 where s1: "pstep ?s s1" "todo s1 = []" "closed s1 = closed s" "cur s1 = cur s @ [w]" "ppc s1 = PRun"
    using push_word [OF inv, of w "[]"] Cons.prems by auto
  obtain s' where "pstep\<^sup>*\<^sup>* s1 s'" "ppc s' = PRun" "todo s' = []" "closed s' = closed s" "cur s' = cur s @ w # ws"
    using Cons.IH [OF pstep_inv [OF s1(1) inv]] s1 Cons.prems by auto
  moreover have "pstep\<^sup>*\<^sup>* s s1" using c s1(1) by (rule two_steps)
  ultimately show ?case using rtranclp_trans [of pstep s s1 s'] by blast
qed auto

lemma fill_chunk:
  assumes "queue_inv s" "ppc s = PRun" "todo s = []" "cur s = []"
  shows "\<exists>s'. pstep\<^sup>*\<^sup>* s s' \<and> ppc s' = PWait \<and> todo s' = [] \<and> closed s' = closed s @ [replicate 512 0]"
proof -
  have z: "0 \<noteq> SYNC_WORD" by (simp add: SYNC_WORD_def case_nb_defs)
  obtain s1 where s1: "pstep\<^sup>*\<^sup>* s s1" "ppc s1 = PRun" "todo s1 = []" "closed s1 = closed s" "cur s1 = replicate 511 0"
    using push_words [OF assms(1-3), of "replicate 511 0"] z assms(4) by auto
  let ?s2 = "s1\<lparr>todo := [Enq 0]\<rparr>"
  have c: "pstep s1 ?s2" using s1 z by (intro call_enqueue) auto
  have "queue_inv ?s2" by (rule pstep_inv [OF c psteps_inv [OF s1(1) assms(1)]])
  from push_word [OF this, of 0 "[]"] obtain s3 where s3: "pstep ?s2 s3" "todo s3 = []" "closed s3 = closed s"
    "cur s3 = replicate 511 0 @ [0]" "ppc s3 = PPublish"
    using s1 by auto
  have "cur s3 = replicate 512 0" by (simp add: s3(4) replicate_append_same flip: replicate_Suc)
  let ?s4 = "s3\<lparr>mem := publish_chunk (mem s3), ppc := PWait, closed := closed s3 @ [cur s3], cur := []\<rparr>"
  have "pstep s3 ?s4" using s3(5) by (rule publish)
  then have "pstep\<^sup>*\<^sup>* s1 ?s4" by (rule three_steps [of pstep s1 ?s2 s3, OF c s3(1)])
  with s1(1) have "pstep\<^sup>*\<^sup>* s ?s4" by (rule rtranclp_trans)
  with s3 \<open>cur s3 = replicate 512 0\<close> show ?thesis by (intro exI [of _ ?s4]) simp
qed

lemma fill_ring:
  assumes "queue_init s"
  shows "n < 4096 \<Longrightarrow> \<exists>s'. pstep\<^sup>*\<^sup>* s s' \<and> ppc s' = PWait \<and> todo s' = [] \<and> length (closed s') = Suc n"
proof (induction n)
  case 0
  then show ?case using fill_chunk [OF init_inv [OF assms]] assms by (fastforce simp: queue_init_def)
next
  case (Suc n)
  then obtain s1 where s1: "pstep\<^sup>*\<^sup>* s s1" "ppc s1 = PWait" "todo s1 = []" "length (closed s1) = Suc n" by auto
  let ?s2 = "s1\<lparr>mem := take_chunk (mem s1), ppc := PRun\<rparr>"
  have inv: "queue_inv s1" by (rule psteps_inv [OF s1(1) init_inv [OF assms]])
  have "reader s1 = reader s" by (rule psteps_reader [OF s1(1)])
  then have "freed s1 = 0" using assms by (auto simp: reader_def freed_def queue_init_def)
  then have "chunk_available (mem s1)"
    using inv s1 Suc.prems flags_free [of s1 "Suc n"]
    by (simp add: queue_inv_def inv_producer_def held_def chunk_available_def)
  then have c: "pstep s1 ?s2" using s1 by (intro take) simp_all
  have "cur s1 = []" using inv s1 by (simp add: queue_inv_def inv_chunks_def)
  then obtain s' where "pstep\<^sup>*\<^sup>* ?s2 s'" "ppc s' = PWait" "todo s' = []" "closed s' = closed s1 @ [replicate 512 0]"
    using fill_chunk [OF pstep_inv [OF c inv]] s1 by auto
  with s1 c show ?case by (intro exI [of _ s']) (auto intro: rtranclp_trans converse_rtranclp_into_rtranclp)
qed

lemma push_sync:
  assumes "queue_inv s" "ppc s = PRun" "todo s = []" "length (cur s) + 3 < 512" "length (closed s) + 1 < freed s + 4096"
    and "sync_word loc cntr \<noteq> SYNC_WORD"
  shows "\<exists>s'. pstep\<^sup>*\<^sup>* s s' \<and> ppc s' = PRun \<and> todo s' = [WaitOk] \<and> cur s' = [] \<and>
    closed s' = closed s @ [cur s @ [MARK_WORD, sync_word loc cntr, SYNC_WORD]]"
proof -
  let ?w = "sync_word loc cntr" and ?s = "s\<lparr>todo := sync_actions loc cntr\<rparr>"
  have c: "pstep s ?s" using assms(3,6) by (rule call_sync)
  have i0: "queue_inv ?s" by (rule pstep_inv [OF c assms(1)])
  obtain s1 where s1: "pstep ?s s1" "todo s1 = [Enq ?w, Enq SYNC_WORD, Kick, WaitOk]" "closed s1 = closed s"
    "cur s1 = cur s @ [MARK_WORD]" "ppc s1 = PRun"
    using push_word [OF i0, of MARK_WORD "[Enq ?w, Enq SYNC_WORD, Kick, WaitOk]"] assms by (auto simp: sync_actions_def)
  have i1: "queue_inv s1" by (rule pstep_inv [OF s1(1) i0])
  obtain s2 where s2: "pstep s1 s2" "todo s2 = [Enq SYNC_WORD, Kick, WaitOk]" "closed s2 = closed s"
    "cur s2 = cur s @ [MARK_WORD, ?w]" "ppc s2 = PRun"
    using push_word [OF i1 s1(5,2)] s1 assms(4) by auto
  have i2: "queue_inv s2" by (rule pstep_inv [OF s2(1) i1])
  obtain s3 where s3: "pstep s2 s3" "todo s3 = [Kick, WaitOk]" "closed s3 = closed s"
    "cur s3 = cur s @ [MARK_WORD, ?w, SYNC_WORD]" "ppc s3 = PRun"
    using push_word [OF i2 s2(5,2)] s2 assms(4) by auto
  have i3: "queue_inv s3" by (rule pstep_inv [OF s3(1) i2])
  have "enqptr (mem s3) = slot (length (closed s3)) * 512 + length (cur s3)"
    using i3 s3(5) by (simp add: queue_inv_def inv_producer_def)
  then have "\<not> chunk_aligned (enqptr (mem s3))"
    using chunk_aligned_slot [of "length (cur s3)"] s3(4) assms(4) by simp
  let ?s4 = "s3\<lparr>todo := [WaitOk], ppc := PPublish\<rparr>"
  have k: "pstep s3 ?s4" using kick [OF s3(5,2)] \<open>\<not> chunk_aligned (enqptr (mem s3))\<close> by simp
  have i4: "queue_inv ?s4" by (rule pstep_inv [OF k i3])
  let ?s5 = "?s4\<lparr>mem := publish_chunk (mem ?s4), ppc := PWait, closed := closed ?s4 @ [cur ?s4], cur := []\<rparr>"
  have p: "pstep ?s4 ?s5" by (rule publish) simp
  have i5: "queue_inv ?s5" by (rule pstep_inv [OF p i4])
  have run: "pstep\<^sup>*\<^sup>* s s2" "pstep\<^sup>*\<^sup>* s2 ?s5"
    using three_steps [of pstep s ?s s1 s2, OF c s1(1) s2(1)] three_steps [of pstep s2 s3 ?s4 ?s5, OF s3(1) k p] by simp_all
  then have r: "pstep\<^sup>*\<^sup>* s ?s5" by (rule rtranclp_trans)
  have "freed ?s5 = freed s" using psteps_reader [OF r] by (simp add: reader_def freed_def)
  then have "chunk_available (mem ?s5)"
    using i5 s3(3) assms(5) flags_free [of ?s5 "Suc (length (closed s))"]
    by (simp add: queue_inv_def inv_producer_def held_def chunk_available_def)
  then have "pstep ?s5 (?s5\<lparr>mem := take_chunk (mem ?s5), ppc := PRun\<rparr>)" by (intro take) simp_all
  with r have "pstep\<^sup>*\<^sup>* s (?s5\<lparr>mem := take_chunk (mem ?s5), ppc := PRun\<rparr>)" by (rule rtranclp.rtrancl_into_rtrancl)
  then show ?thesis
    using s3 by (intro exI [of _ "?s5\<lparr>mem := take_chunk (mem ?s5), ppc := PRun\<rparr>"]) simp
qed

text \<open>Any few words and a synchronisation can be what was pushed so far.\<close>

lemma reach_after_sync:
  assumes "SYNC_WORD \<notin> set ws" "length ws < 509" "sync_word loc cntr \<noteq> SYNC_WORD"
  shows "\<exists>s. queue_reach s \<and> chunks_taken s < Q_CHUNKS_SIZE \<and> ppc s = PRun \<and> todo s = [WaitOk] \<and>
    sent s = ws @ [MARK_WORD, sync_word loc cntr, SYNC_WORD]"
proof -
  note inv = init_inv [OF demo_queue_init]
  have d: "ppc demo_queue = PRun" "todo demo_queue = []" "cur demo_queue = []" "closed demo_queue = []"
    by (simp_all add: demo_queue_def)
  obtain s1 where s1: "pstep\<^sup>*\<^sup>* demo_queue s1" "ppc s1 = PRun" "todo s1 = []" "closed s1 = []" "cur s1 = ws"
    using push_words [OF inv d(1,2) assms(1)] assms(2) d by auto
  obtain s2 where s2: "pstep\<^sup>*\<^sup>* s1 s2" "ppc s2 = PRun" "todo s2 = [WaitOk]" "cur s2 = []"
    "closed s2 = [ws @ [MARK_WORD, sync_word loc cntr, SYNC_WORD]]"
    using push_sync [OF psteps_inv [OF s1(1) inv] s1(2,3) _ _ assms(3)] s1 assms(2) by auto
  have "pstep\<^sup>*\<^sup>* demo_queue s2" using s1(1) s2(1) by (rule rtranclp_trans)
  moreover have "chunks_taken s2 < Q_CHUNKS_SIZE" using s2 by (simp add: chunks_taken_def held_def)
  ultimately show ?thesis
    using s2 demo_queue_init by (intro exI [of _ s2]) (auto simp: queue_reach_def sent_def)
qed

lemma late_release:
  assumes "queue_inv s" and "taken s = 0" and "cpc s = CRun" and "length (closed s) = 4096"
  shows "\<exists>s'. cstep s s' \<and> q_chunks_flag (mem s) 4095 = CHUNK_FILLED \<and>
    q_chunks_flag (mem s') 4095 = CHUNK_AVAILABLE \<and> got s' = [] \<and> closed s' = closed s \<and> closed s' ! 4095 \<noteq> []"
proof -
  note inv = assms(1) [unfolded queue_inv_def]
  let ?s = "s\<lparr>mem := release_chunk (mem s) (qdc s), cpc := CWait\<rparr>"
  have d: "deqptr (qdc s) = None" "got s = []" "unat (prev_tail (qdc s)) = slot 4095"
    using inv assms(2,3) by (simp_all add: inv_consumer_def)
  then have "cstep s ?s" using assms(3) by (intro cstep.release) (simp_all add: chunk_done_def)
  moreover have "q_chunks_flag (mem s) 4095 = CHUNK_FILLED"
    using flags_full [of s 4095] inv assms(2,3,4) by (simp add: freed_def)
  moreover have "q_chunks_flag (mem ?s) 4095 = CHUNK_AVAILABLE"
    using d(3) by (simp add: release_chunk_def)
  moreover have "closed s ! 4095 \<noteq> []"
    using inv assms(4) by (simp add: inv_chunks_def chunk_ok_def list_all_length)
  ultimately show ?thesis using d(2) by (intro exI [of _ ?s]) simp
qed

text \<open>C36: the analysis thread must start before the ring is full. From every start the emulation thread alone
  can fill all chunks; the first \<^verbatim>\<open>next_block\<close> of the analysis thread then marks the last chunk, which
  it never had, as available although its words are unread: it will be filled again.\<close>

theorem late_start_frees_unread_chunk:
  assumes "queue_init s0"
  shows "\<exists>s s'. pstep\<^sup>*\<^sup>* s0 s \<and> cstep s s' \<and> q_chunks_flag (mem s) (Q_CHUNKS_SIZE - 1) = CHUNK_FILLED \<and>
    q_chunks_flag (mem s') (Q_CHUNKS_SIZE - 1) = CHUNK_AVAILABLE \<and> got s' = [] \<and>
    length (closed s') = Q_CHUNKS_SIZE \<and> closed s' ! (Q_CHUNKS_SIZE - 1) \<noteq> []"
proof -
  obtain s where s: "pstep\<^sup>*\<^sup>* s0 s" "length (closed s) = 4096"
    using fill_ring [OF assms, of 4095] by auto
  have "queue_inv s" by (rule psteps_inv [OF s(1) init_inv [OF assms]])
  moreover have "taken s = 0" "cpc s = CRun"
    using psteps_reader [OF s(1)] assms by (auto simp: reader_def queue_init_def)
  ultimately obtain s' where "cstep s s'" "q_chunks_flag (mem s) 4095 = CHUNK_FILLED"
    "q_chunks_flag (mem s') 4095 = CHUNK_AVAILABLE" "got s' = []" "closed s' = closed s" "closed s' ! 4095 \<noteq> []"
    using late_release s(2) by blast
  with s show ?thesis by (intro exI [of _ s] exI [of _ s']) simp
qed

theorem late_start_frees_unread_chunk_witness:
  "\<exists>s s'. pstep\<^sup>*\<^sup>* demo_queue s \<and> cstep s s' \<and> q_chunks_flag (mem s') 4095 = CHUNK_AVAILABLE \<and> got s' = []"
  using late_start_frees_unread_chunk [OF demo_queue_init] by auto

section \<open>The analysis thread runs out of words\<close>

lemma csteps_inv:
  "cstep\<^sup>*\<^sup>* s s' \<Longrightarrow> queue_inv s \<and> safe_start s \<Longrightarrow>
   queue_inv s' \<and> safe_start s' \<and> closed s' = closed s"
  by (induction rule: rtranclp_induct) (auto dest: cstep_started cstep_frame intro: cstep_inv)

lemma cstep_bounded:
  "(cstep ^^ n) s s' \<Longrightarrow> queue_inv s \<Longrightarrow> safe_start s \<Longrightarrow> drain_measure s' + n \<le> drain_measure s"
proof (induction n arbitrary: s')
  case (Suc n)
  then obtain s1 where s1: "(cstep ^^ n) s s1" "cstep s1 s'" by auto
  have "queue_inv s1" using s1(1) Suc.prems csteps_inv by (blast dest: relpowp_imp_rtranclp)
  with Suc.IH [OF s1(1) Suc.prems(2,3)] cstep_decreases s1(2) show ?case by fastforce
qed simp

text \<open>C23: \<^verbatim>\<open>rec_dequeue\<close> never runs away: without new chunks every run of the analysis thread ends, after at most
  three steps per word that is still unread and two more. Where it ends it waits for the next chunk
  and has read all chunks that were handed over. The state is one of any interleaving in which the analysis thread makes
  its first step, now or earlier, before the emulation thread has taken all 4096 chunks of the ring.\<close>

theorem analysis_thread_runs_out:
  assumes "queue_reach s" and "started s \<or> chunks_taken s < Q_CHUNKS_SIZE"
  shows "(\<forall>n s'. (cstep ^^ n) s s' \<longrightarrow> n \<le> 3 * length (unread s) + 2) \<and>
    (\<forall>s'. cstep\<^sup>*\<^sup>* s s' \<and> (\<nexists>s''. cstep s' s'') \<longrightarrow> cpc s' = CWait \<and> got s' = concat (closed s))"
proof (intro conjI allI impI)
  note inv = queue_reach_inv [OF assms(1)]
  have safe: "safe_start s" using assms(2) by (simp add: safe_start_iff)
  show "n \<le> 3 * length (unread s) + 2" if "(cstep ^^ n) s s'" for n s'
    using cstep_bounded [OF that inv safe] by (simp add: drain_measure_def split: consumer_pc.splits)
  show "cpc s' = CWait" "got s' = concat (closed s)" if "cstep\<^sup>*\<^sup>* s s' \<and> (\<nexists>s''. cstep s' s'')" for s'
    using csteps_inv [of s s'] stopped_read_all [of s'] that inv safe by auto
qed

theorem analysis_thread_runs_out_witness: "\<not> (\<exists>s'. (cstep ^^ 12) demo_sync s')"
proof -
  have "length (unread demo_sync) = 3" by (simp add: demo_sync_def demo_queue_def sent_def unread_def)
  then show ?thesis using analysis_thread_runs_out [OF demo_sync_reachable] demo_sync_in_time(1) by fastforce
qed

end
