(* ===== verification/DiftSystem.thy ===== *)
theory DiftSystem
  imports DiftBlock DiftChannel
begin

text \<open>
  The tracker as a whole, seen from the emulation thread: it runs translated blocks, reports disk
  transfers (\<^verbatim>\<open>bdrv_co_do_rw\<close> of \<^verbatim>\<open>block/io.c\<close>), synchronises (\<^verbatim>\<open>dift_sync\<close>) and after an exception
  translates a block again; every one of these pushes words. What the words mean to the analysis thread is here put together from the parts: the
  emission of \<open>DiftBlock\<close>, the loop of \<open>DiftInterp\<close> and the queue of \<open>DiftChannel\<close>.
\<close>

section \<open>Synchronisation and disk transfers\<close>

definition dift_sync :: "run_state \<Rightarrow> run_state" where
  "dift_sync rs =
     (let rec = sync_word (dift_code_loc rs) (dift_code_cntr rs);
          rs1 = rt_enqueue (rt_enqueue (rt_enqueue rs MARK_WORD) rec) SYNC_WORD
      in rs1\<lparr>dift_code_cntr := 0\<rparr>)"

text \<open>
  An exception in the middle of a block makes \<^verbatim>\<open>cpu_restore_state\<close> translate the block once more; the
  translator then synchronises first, since it is about to rewrite the records of the block.
\<close>

definition restart_block :: "nat \<Rightarrow> run_state \<Rightarrow> run_state" where
  "restart_block dift_code_idx rs = (if dift_code_idx \<noteq> 0 then dift_sync (rs\<lparr>dift_code_off := dift_code_cntr rs\<rparr>) else rs)"

record ScatterGatherEntry =
  base :: u64
  len :: u64

definition BDRV_SECTOR_SIZE :: u64 where "BDRV_SECTOR_SIZE = push_bit 9 1"

text \<open>
  What a finished request of the block layer looks like: \<open>error\<close> is what the driver returned,
  \<open>dma\<close> whether it came from \<^verbatim>\<open>dma_blk_io\<close>, and \<open>sg\<close> the entries below \<^verbatim>\<open>sg_cur_index\<close>.
\<close>

record disk_request =
  error :: int
  dma :: bool
  is_write :: bool
  sector :: u64
  sg :: "ScatterGatherEntry list"

fun push_entries :: "bool \<Rightarrow> dift_record \<Rightarrow> u64 \<Rightarrow> ScatterGatherEntry list \<Rightarrow> run_state \<Rightarrow> run_state" where
  "push_entries enabled rec addr_sec [] rs = rs"
| "push_entries enabled rec addr_sec (e # es) rs =
     (let addr_mem = base e;
          rs1 = (if enabled \<and> addr_mem \<noteq> 0
                 then rt_enqueue (rt_enqueue (rt_enqueue (rt_enqueue rs (u64_of_rec rec)) addr_mem) addr_sec) (len e)
                 else rs)
      in push_entries enabled rec (addr_sec + len e) es rs1)"

definition transfer_rec :: "disk_request \<Rightarrow> dift_record" where
  "transfer_rec r = DIFT_REC_EMPTY\<lparr>case_nb := (if is_write r then HD_MEM else MEM_HD)\<rparr>"

definition bdrv_co_do_rw :: "bool \<Rightarrow> disk_request \<Rightarrow> run_state \<Rightarrow> run_state" where
  "bdrv_co_do_rw enabled r rs =
     (if error r \<ge> 0 \<and> dma r
      then push_entries enabled (transfer_rec r) (sector r * BDRV_SECTOR_SIZE) (sg r) rs else rs)"

text \<open>The same as items: every entry with a memory address other than 0, at its place on the disk.\<close>

fun entry_items :: "dift_record \<Rightarrow> u64 \<Rightarrow> ScatterGatherEntry list \<Rightarrow> (dift_record \<times> u64 list) list" where
  "entry_items rec d [] = []"
| "entry_items rec d (e # es) =
     (if base e = 0 then [] else [(rec, [base e, d, len e])]) @ entry_items rec (d + len e) es"

definition transfer_items :: "disk_request \<Rightarrow> (dift_record \<times> u64 list) list" where
  "transfer_items r =
     (if error r \<ge> 0 \<and> dma r then entry_items (transfer_rec r) (sector r * BDRV_SECTOR_SIZE) (sg r) else [])"

lemma inline_words_append: "inline_words (xs @ ys) = inline_words xs @ inline_words ys"
  by (simp add: inline_words_def)

lemma push_entries_eq:
  "push_entries True rec d es rs = rs\<lparr>rt_out := rt_out rs @ inline_words (entry_items rec d es)\<rparr>"
  by (induction es arbitrary: d rs) (simp_all add: rt_enqueue_def inline_words_def)

lemma bdrv_co_do_rw_eq:
  "bdrv_co_do_rw True r rs = rs\<lparr>rt_out := rt_out rs @ inline_words (transfer_items r)\<rparr>"
  by (simp add: bdrv_co_do_rw_def transfer_items_def push_entries_eq inline_words_def)

lemma sync_word_block_word: "sync_word loc cntr = block_word loc cntr 0"
  by (rule bit_word_eqI) (auto simp: sync_word_def block_word_def bit_simps)

lemma dift_sync_eq:
  "dift_sync rs = rs\<lparr>rt_out := rt_out rs @ [block_mark, sync_word (dift_code_loc rs) (dift_code_cntr rs), SYNC_WORD],
     dift_code_cntr := 0\<rparr>"
  by (simp add: dift_sync_def rt_enqueue_def MARK_WORD_def Let_def)

section \<open>Events of the emulation thread\<close>

datatype event = Run "gen_call list \<times> (tcg_op \<times> u64 \<times> u64) list" | Disk disk_request | Sync | Restore nat

fun run_event :: "dift_globals \<Rightarrow> event \<Rightarrow> run_state \<Rightarrow> run_state" where
  "run_event g (Run b) rs = run_exec g (snd b) rs"
| "run_event g (Disk r) rs = bdrv_co_do_rw True r rs"
| "run_event g Sync rs = dift_sync rs"
| "run_event g (Restore idx) rs = restart_block idx rs"

definition run_events :: "dift_globals \<Rightarrow> event list \<Rightarrow> run_state \<Rightarrow> run_state" where
  "run_events g evs rs = foldl (\<lambda>rs e. run_event g e rs) rs evs"

text \<open>The records an event stands for, each with its addresses.\<close>

fun event_items :: "dift_globals \<Rightarrow> event \<Rightarrow> (dift_record \<times> u64 list) list \<Rightarrow> bool" where
  "event_items g (Run b) its = fits g (snd b) its (calls_recs (fst b))"
| "event_items g (Disk r) its = (its = transfer_items r)"
| "event_items g Sync its = (its = [])"
| "event_items g (Restore idx) its = (its = [])"

fun event_ok :: "dift_globals \<Rightarrow> u64 list \<Rightarrow> event \<Rightarrow> bool" where
  "event_ok g buf (Run b) = (block_in buf b \<and> block_safe g b)"
| "event_ok g buf (Disk r) =
     (list_all (item_ok g) (transfer_items r) \<and> list_all (list_all plain \<circ> snd) (transfer_items r))"
| "event_ok g buf Sync = True"
| "event_ok g buf (Restore idx) = True"

text \<open>What waits in \<^verbatim>\<open>q_addrs\<close> grows with every transfer until the next block or synchronisation.\<close>

definition words_of :: "(dift_record \<times> u64 list) list \<Rightarrow> nat" where
  "words_of its = (\<Sum>it \<leftarrow> its. Suc (length (snd it)))"

fun load_ok :: "nat \<Rightarrow> event list \<Rightarrow> bool" where
  "load_ok n [] = True"
| "load_ok n (Run b # evs) = load_ok (Suc (\<Sum>rk \<leftarrow> calls_recs (fst b). Suc (length (snd rk)))) evs"
| "load_ok n (Disk r # evs) =
     (n + words_of (transfer_items r) < Q_ADDRS_SIZE \<and> load_ok (n + words_of (transfer_items r)) evs)"
| "load_ok n (Sync # evs) = load_ok 0 evs"
| "load_ok n (Restore idx # evs) = load_ok n evs"

section \<open>Words the analysis thread digests\<close>

definition digests ::
  "dift_globals \<Rightarrow> u64 list \<Rightarrow> dift_context \<Rightarrow> u64 list \<Rightarrow> dift_context \<Rightarrow> bool \<Rightarrow> bool" where
  "digests g buf dc ws dc' signal \<longleftrightarrow>
     (\<forall>st rest. an_buf st = buf \<longrightarrow> q_addrs st = [] \<longrightarrow> an_dc st = dc \<longrightarrow>
        analysis_mainloop g st (ws @ rest) =
        analysis_mainloop g (st\<lparr>an_dc := dc', dift_thread_ok_signal := (signal \<or> dift_thread_ok_signal st)\<rparr>) rest)"

lemma digests_Nil: "digests g buf dc [] dc False"
  unfolding digests_def by (metis (full_types) analysis_state.surjective analysis_state.update_convs(1,4) append_Nil)

lemma digests_append:
  assumes "digests g buf dc ws dc1 s1" and "digests g buf dc1 vs dc2 s2"
  shows "digests g buf dc (ws @ vs) dc2 (s1 \<or> s2)"
  using assms unfolding digests_def by (simp add: disj_ac)

lemma digests_block:
  assumes "wf_globals g" "block_ok g buf b" "exec_items g (block_items b) dc = Some dc'"
  shows "digests g buf dc (block_words b) dc' False"
  unfolding digests_def using assms mainloop_block [OF assms(1)] by simp

lemma digests_sync:
  assumes "deqptr dc = None"
  shows "digests g buf dc [SYNC_WORD] dc True"
  unfolding digests_def
proof (intro allI impI)
  fix st :: analysis_state and rest
  assume "an_dc st = dc"
  with assms have "st\<lparr>dift_thread_ok_signal := True, an_dc := (an_dc st)\<lparr>deqptr := None\<rparr>\<rparr> =
      st\<lparr>an_dc := dc, dift_thread_ok_signal := True \<or> dift_thread_ok_signal st\<rparr>"
    by (cases st; cases dc) simp
  then show "analysis_mainloop g st ([SYNC_WORD] @ rest) =
      analysis_mainloop g (st\<lparr>an_dc := dc, dift_thread_ok_signal := True \<or> dift_thread_ok_signal st\<rparr>) rest"
    by (subst analysis_mainloop.simps) (simp add: SYNC_WORD_def)
qed

lemma exec_items_place: "exec_items g its dc = Some dc' \<Longrightarrow> place dc' = place dc"
proof (induction its arbitrary: dc)
  case (Cons it its)
  obtain r as where it: "it = (r, as)" by (cases it)
  then obtain dc1 as1 where d: "dispatch g r dc as = Some (dc1, as1)" "exec_items g its dc1 = Some dc'"
    using Cons.prems by (auto simp: bind_eq_Some_conv)
  show ?case using Cons.IH [OF d(2)] dispatch_place [OF d(1)] by simp
qed simp

section \<open>The unfinished block\<close>

text \<open>
  Between two events: \<open>pre\<close> are the words of finished blocks, and \<open>cached\<close> and \<open>inl\<close> the records
  of the block that the next mark will finish.
\<close>

definition pending ::
  "dift_globals \<Rightarrow> u64 list \<Rightarrow> run_state \<Rightarrow> nat \<Rightarrow> u64 list \<Rightarrow> (dift_record \<times> u64 list) list \<Rightarrow>
   (dift_record \<times> u64 list) list \<Rightarrow> bool" where
  "pending g buf rs n pre cached inl \<longleftrightarrow>
     (let w = block_word (dift_code_loc rs) (dift_code_cntr rs) (dift_code_off rs) in
      rt_out rs = pre @ block_payload (cached, inl, w) \<and> block_ok g buf (cached, inl, w)) \<and>
     (dift_code_off rs = 0 \<or> dift_code_cntr rs = 0) \<and> unat (dift_code_off rs) < 2 ^ 16 \<and>
     unat (dift_code_cntr rs) < 2 ^ 16 \<and> unat (dift_code_loc rs) * 160 < length buf \<and> words_of (cached @ inl) \<le> n"

lemma zero_range:
  assumes "unat off < 2 ^ 16"
  shows "code_begin (block_word loc 0 off) = unat loc * 160" "code_end (block_word loc 0 off) = unat loc * 160"
proof -
  have "code_off (block_word loc 0 off) = 0 \<and> code_loc (block_word loc 0 off) = ucast loc \<and> code_cntr (block_word loc 0 off) = 0"
    using assms block_word_parts [of 0 off loc] by (cases "off = 0") (simp_all add: word_neq_0_conv)
  then show "code_begin (block_word loc 0 off) = unat loc * 160" "code_end (block_word loc 0 off) = unat loc * 160"
    using unat_less_32 [of loc]
    by (simp_all add: code_begin_def code_end_def CONFIG_IF_CODES_PER_TB_def unat_word_ariths unat_ucast_up)
qed

lemma empty_block:
  assumes "unat loc * 160 < length buf" "unat off < 2 ^ 16"
  shows "block_ok g buf ([], [], block_word loc 0 off)"
  using assms zero_range [of off loc]
  by (simp add: block_ok_def block_items_def block_payload_def inline_words_def holds_records_def Q_ADDRS_SIZE_def)

text \<open>Entering the next block and \<^verbatim>\<open>dift_sync\<close> describe the block that runs by different words of the same meaning.\<close>

lemma pending_sync_word:
  assumes "pending g buf rs n pre cached inl"
  shows "block_ok g buf (cached, inl, sync_word (dift_code_loc rs) (dift_code_cntr rs))"
proof (cases "dift_code_off rs = 0")
  case True
  then show ?thesis using assms by (simp add: pending_def sync_word_block_word Let_def)
next
  case False
  then have "dift_code_cntr rs = 0" and off: "unat (dift_code_off rs) < 2 ^ 16" using assms by (auto simp: pending_def)
  then show ?thesis
    using assms zero_range [OF off, of "dift_code_loc rs"] zero_range [of 0 "dift_code_loc rs"]
    by (auto simp: pending_def sync_word_block_word block_ok_def block_payload_def block_items_def holds_records_def Let_def)
qed

lemma pending_run:
  assumes "pending g buf rs n pre cached inl" and "block_in buf b" and "block_safe g b"
  obtains cached' inl' where
    "pending g buf (run_exec g (snd b) rs) (Suc (\<Sum>rk \<leftarrow> calls_recs (fst b). Suc (length (snd rk))))
       (flushed rs) cached' inl'"
    and "fits g (snd b) (cached' @ inl') ((begin_rec, []) # calls_recs (fst b))"
proof -
  obtain cached' inl' w where r: "fits g (snd b) (cached' @ inl') ((begin_rec, []) # calls_recs (fst b))"
    "holds_records buf w (map fst cached')"
    "flushed (run_exec g (snd b) rs) = flushed rs @ block_words (cached', inl', w)"
    "dift_code_off (run_exec g (snd b) rs) = 0" "unat (dift_code_loc (run_exec g (snd b) rs)) * 160 < length buf"
    "unat (dift_code_cntr (run_exec g (snd b) rs)) < 2 ^ 16"
    using assms(2) by (rule block_runs)
  have "block_for g buf b (cached', inl', w)" using r(1,2) by (simp add: block_for_def block_items_def)
  from block_for_ok [OF this assms(3)] have "block_ok g buf (cached', inl', w)" .
  moreover have "rt_out (run_exec g (snd b) rs) = flushed rs @ block_payload (cached', inl', w)"
    "w = block_word (dift_code_loc (run_exec g (snd b) rs)) (dift_code_cntr (run_exec g (snd b) rs)) 0"
    using r(3,4) by (simp_all add: flushed_def [of "run_exec g (snd b) rs"] block_words_def block_payload_def)
  moreover have "words_of (cached' @ inl') = Suc (\<Sum>rk \<leftarrow> calls_recs (fst b). Suc (length (snd rk)))"
    using fits_words [OF r(1)] by (simp add: words_of_def)
  ultimately show ?thesis
    using r by (intro that) (simp_all add: pending_def Let_def block_payload_def)
qed

lemma pending_disk:
  assumes "pending g buf rs n pre cached inl" and "event_ok g buf (Disk r)"
    and "n + words_of (transfer_items r) < Q_ADDRS_SIZE"
  shows "pending g buf (bdrv_co_do_rw True r rs) (n + words_of (transfer_items r)) pre cached (inl @ transfer_items r)"
proof -
  have "words_of (cached @ inl @ transfer_items r) \<le> n + words_of (transfer_items r)"
    using assms(1) by (simp add: pending_def words_of_def)
  moreover from this have "length (block_payload (cached, inl @ transfer_items r, w)) < Q_ADDRS_SIZE" for w
    using payload_length [of cached "inl @ transfer_items r" w] assms(3) by (simp add: words_of_def)
  ultimately show ?thesis
    using assms by (auto simp: pending_def Let_def bdrv_co_do_rw_eq block_ok_def block_items_def block_payload_def
        inline_words_append)
qed

text \<open>The words up to and including a synchronisation.\<close>

definition sync_flushed :: "run_state \<Rightarrow> u64 list" where
  "sync_flushed rs = rt_out rs @ [block_mark, sync_word (dift_code_loc rs) (dift_code_cntr rs)]"

lemma pending_sync:
  assumes "pending g buf rs n pre cached inl"
  shows "pending g buf (dift_sync rs) 0 (sync_flushed rs @ [SYNC_WORD]) [] []"
  using assms empty_block [of "dift_code_loc rs" buf "dift_code_off rs" g]
  by (simp add: pending_def dift_sync_eq sync_flushed_def words_of_def block_payload_def inline_words_def Let_def)

lemma pending_restart:
  assumes "pending g buf rs n pre cached inl"
  shows "pending g buf (dift_sync (rs\<lparr>dift_code_off := dift_code_cntr rs\<rparr>)) 0 (sync_flushed rs @ [SYNC_WORD]) [] []"
  using assms empty_block [of "dift_code_loc rs" buf "dift_code_cntr rs" g]
  by (simp add: pending_def dift_sync_eq sync_flushed_def words_of_def block_payload_def inline_words_def Let_def)

lemma digests_pending:
  assumes "wf_globals g" "pending g buf rs n pre cached inl" "digests g buf dc0 pre dc s"
  obtains dc' where "exec_items g (cached @ inl) dc = Some dc'" "digests g buf dc0 (flushed rs) dc' s"
    "digests g buf dc0 (sync_flushed rs) dc' s"
proof -
  let ?w = "block_word (dift_code_loc rs) (dift_code_cntr rs) (dift_code_off rs)"
  let ?v = "sync_word (dift_code_loc rs) (dift_code_cntr rs)"
  have w: "block_ok g buf (cached, inl, ?w)" "block_ok g buf (cached, inl, ?v)"
    and out: "flushed rs = pre @ block_words (cached, inl, ?w)" "sync_flushed rs = pre @ block_words (cached, inl, ?v)"
    using assms(2) pending_sync_word [OF assms(2)]
    by (auto simp: pending_def Let_def flushed_def sync_flushed_def block_words_def block_payload_def)
  then have "list_all (item_ok g) (cached @ inl)" by (simp add: block_ok_def block_items_def)
  then obtain dc' where dc': "exec_items g (cached @ inl) dc = Some dc'"
    using exec_items_total [OF assms(1)] by blast
  then have "digests g buf dc (block_words (cached, inl, ?w)) dc' False" "digests g buf dc (block_words (cached, inl, ?v)) dc' False"
    using digests_block [OF assms(1) w(1)] digests_block [OF assms(1) w(2)] by (simp_all add: block_items_def)
  from this [THEN digests_append [OF assms(3)]] show ?thesis using that dc' out by simp
qed

lemma load_mono: "load_ok n evs \<Longrightarrow> m \<le> n \<Longrightarrow> load_ok m evs"
  by (induction n evs arbitrary: m rule: load_ok.induct) auto

lemma events_digested:
  assumes "wf_globals g"
  shows "pending g buf rs n pre cached inl \<Longrightarrow> digests g buf dc0 pre dc sig \<Longrightarrow> deqptr dc = None \<Longrightarrow>
    list_all (event_ok g buf) evs \<Longrightarrow> load_ok n evs \<Longrightarrow>
    \<exists>itss n' pre' cached' inl' dc' sig'. list_all2 (event_items g) evs itss \<and>
      pending g buf (run_events g evs rs) n' pre' cached' inl' \<and> digests g buf dc0 pre' dc' sig' \<and> deqptr dc' = None \<and>
      exec_items g (cached' @ inl') dc' = exec_items g (cached @ inl @ concat itss) dc"
proof (induction evs arbitrary: rs n pre cached inl dc sig)
  case Nil
  then show ?case
    by (intro exI [of _ "[]"] exI [of _ n] exI [of _ pre] exI [of _ cached] exI [of _ inl] exI [of _ dc] exI [of _ sig])
      (simp add: run_events_def)
next
  case (Cons e evs)
  note p = Cons.prems(1)
  obtain dc1 where dc1: "exec_items g (cached @ inl) dc = Some dc1" "digests g buf dc0 (flushed rs) dc1 sig"
    "digests g buf dc0 (sync_flushed rs) dc1 sig"
    using assms p Cons.prems(2) by (rule digests_pending)
  have dq: "deqptr dc1 = None" using exec_items_place [OF dc1(1)] Cons.prems(3) by (simp add: place_def)
  have run: "run_events g (e # evs) rs = run_events g evs (run_event g e rs)" by (simp add: run_events_def)
  have join: "exec_items g (cached @ inl @ xs) dc = exec_items g xs dc1" for xs
    using dc1(1) exec_items_append [of g "cached @ inl" xs dc] by simp
  have synced: "digests g buf dc0 (sync_flushed rs @ [SYNC_WORD]) dc1 True"
    using digests_append [OF dc1(3) digests_sync [OF dq]] by simp
  show ?case
  proof (cases e)
    case (Run b)
    obtain c' i' where p': "pending g buf (run_exec g (snd b) rs)
        (Suc (\<Sum>rk \<leftarrow> calls_recs (fst b). Suc (length (snd rk)))) (flushed rs) c' i'"
      and f: "fits g (snd b) (c' @ i') ((begin_rec, []) # calls_recs (fst b))"
      using pending_run [OF p, of b] Cons.prems(4) Run by auto
    obtain its where its: "c' @ i' = (begin_rec, []) # its" "fits g (snd b) its (calls_recs (fst b))"
      using f by (cases "c' @ i'") (auto simp: fits_def)
    have "exec_items g (c' @ i' @ xs) dc1 = exec_items g (cached @ inl @ its @ xs) dc" for xs
      using its(1) exec_begin [of g "its @ xs" dc1] join [of "its @ xs"] by (metis append.assoc append_Cons)
    with Cons.IH [OF p' dc1(2) dq] Cons.prems(4,5) Run its(2) show ?thesis
      unfolding run by (fastforce simp: list_all2_Cons1)
  next
    case (Disk r)
    have "pending g buf (run_event g e rs) (n + words_of (transfer_items r)) pre cached (inl @ transfer_items r)"
      using pending_disk [OF p, of r] Cons.prems(4,5) Disk by simp
    from Cons.IH [OF this Cons.prems(2,3)] Cons.prems(4,5) Disk show ?thesis
      unfolding run by (fastforce simp: list_all2_Cons1)
  next
    case Sync
    then have "pending g buf (run_event g e rs) 0 (sync_flushed rs @ [SYNC_WORD]) [] []"
      using pending_sync [OF p] by simp
    from Cons.IH [OF this synced dq] Cons.prems(4,5) Sync join show ?thesis
      unfolding run by (fastforce simp: list_all2_Cons1)
  next
    case (Restore idx)
    show ?thesis
    proof (cases "idx = 0")
      case True
      then show ?thesis
        using Cons.IH [OF p Cons.prems(2,3)] Cons.prems(4,5) Restore
        unfolding run by (fastforce simp: list_all2_Cons1 restart_block_def)
    next
      case False
      then have "pending g buf (run_event g e rs) 0 (sync_flushed rs @ [SYNC_WORD]) [] []"
        using pending_restart [OF p] Restore by (simp add: restart_block_def)
      from Cons.IH [OF this synced dq] Cons.prems(4,5) Restore False join load_mono show ?thesis
        unfolding run by (fastforce simp: list_all2_Cons1)
    qed
  qed
qed

text \<open>The globals of \<^verbatim>\<open>dift.c\<close> at the start.\<close>

definition run_init :: run_state where
  "run_init = \<lparr>dift_code_loc = 0, dift_code_cntr = 0, dift_code_off = 0, rt_out = []\<rparr>"

lemma pending_init: "buf \<noteq> [] \<Longrightarrow> pending g buf run_init 0 [] [] []"
  using empty_block [of 0 buf 0 g]
  by (simp add: pending_def run_init_def words_of_def block_payload_def inline_words_def)

lemma synced_run_analysed:
  assumes "wf_globals g" and "list_all (event_ok g (an_buf st)) evs" and "load_ok 0 evs" and "an_buf st \<noteq> []"
    and "q_addrs st = []" and "deqptr (an_dc st) = None"
  shows "\<exists>itss dc'. list_all2 (event_items g) evs itss \<and> exec_items g (concat itss) (an_dc st) = Some dc' \<and>
    analysis_mainloop g st (rt_out (run_events g (evs @ [Sync]) run_init)) =
      Some (st\<lparr>an_dc := dc', dift_thread_ok_signal := True\<rparr>, [])"
proof -
  obtain itss n' pre' cached' inl' dc1 sig' where i: "list_all2 (event_items g) evs itss"
    and p: "pending g (an_buf st) (run_events g evs run_init) n' pre' cached' inl'"
    and d: "digests g (an_buf st) (an_dc st) pre' dc1 sig'" "deqptr dc1 = None"
    and ex: "exec_items g (cached' @ inl') dc1 = exec_items g (concat itss) (an_dc st)"
    using events_digested [OF assms(1) pending_init digests_Nil assms(6,2,3)] assms(4) by auto
  obtain dc' where dc': "exec_items g (cached' @ inl') dc1 = Some dc'"
    "digests g (an_buf st) (an_dc st) (sync_flushed (run_events g evs run_init)) dc' sig'"
    using assms(1) p d(1) by (rule digests_pending)
  have "deqptr dc' = None" using exec_items_place [OF dc'(1)] d(2) by (simp add: place_def)
  then have "digests g (an_buf st) (an_dc st) (sync_flushed (run_events g evs run_init) @ [SYNC_WORD]) dc' True"
    using digests_append [OF dc'(2) digests_sync] by simp
  moreover have "rt_out (run_events g (evs @ [Sync]) run_init) = sync_flushed (run_events g evs run_init) @ [SYNC_WORD]"
    by (simp add: run_events_def dift_sync_eq sync_flushed_def)
  ultimately have "analysis_mainloop g st (rt_out (run_events g (evs @ [Sync]) run_init) @ []) =
      analysis_mainloop g (st\<lparr>an_dc := dc', dift_thread_ok_signal := True\<rparr>) []"
    using assms(5) unfolding digests_def by (metis (full_types))
  with i ex dc'(1) show ?thesis
    by (intro exI [of _ itss] exI [of _ dc']) (simp add: analysis_mainloop.simps [of _ _ "[]"])
qed

section \<open>Properties\<close>

lemma mainloop_overflow:
  "list_all plain ps \<Longrightarrow> Q_ADDRS_SIZE \<le> length (q_addrs st) + length ps \<Longrightarrow>
   analysis_mainloop g st (ps @ [block_mark, w]) = None"
proof (induction ps arbitrary: st)
  case Nil
  then show ?case by (subst analysis_mainloop.simps) (simp add: case_nb_defs)
next
  case (Cons p ps)
  then show ?case by (subst analysis_mainloop.simps) (simp add: plain_def)
qed

lemma entry_items_words: "(a, as) \<in> set (entry_items rec d es) \<Longrightarrow> length as = 3"
  by (induction es arbitrary: d) (auto split: if_splits)

lemma length_inline_words: "length (inline_words its) = words_of its"
  by (induction its) (auto simp: inline_words_def words_of_def)

lemma words_of_const: "\<forall>it \<in> set its. length (snd it) = k \<Longrightarrow> words_of its = Suc k * length its"
  by (induction its) (simp_all add: words_of_def)

lemma transfer_words: "words_of (transfer_items r) = 4 * length (transfer_items r)"
proof -
  have "\<forall>it \<in> set (transfer_items r). length (snd it) = 3"
    by (auto simp: transfer_items_def dest: entry_items_words)
  from words_of_const [OF this] show ?thesis by simp
qed

lemma transfer_rec_plain: "plain (u64_of_rec (transfer_rec r))"
  by (rule plain_item [of undefined _ "[0, 0, 0]"])
    (simp add: item_ok_def transfer_rec_def shape_tbl_def case_nb_defs sink_room_def int_arg_def)

lemma plain_transfer_words:
  "list_all (list_all plain \<circ> snd) (transfer_items r) \<Longrightarrow> list_all plain (inline_words (transfer_items r))"
proof -
  have "fst it = transfer_rec r" if "it \<in> set (transfer_items r)" for it
  proof -
    have "it \<in> set (entry_items rec d es) \<Longrightarrow> fst it = rec" for rec d es
      by (induction es arbitrary: d) (auto split: if_splits)
    with that show ?thesis by (auto simp: transfer_items_def split: if_splits)
  qed
  moreover assume "list_all (list_all plain \<circ> snd) (transfer_items r)"
  ultimately show ?thesis
    using transfer_rec_plain by (fastforce simp: inline_words_def list_all_iff)
qed

text \<open>C35: the array \<^verbatim>\<open>q_addrs\<close> of the analysis thread has 4096 words and nothing limits what it receives:
  a DMA request with 1024 or more entries, which pushes four words for each, makes the thread write
  behind the end of the array before it comes to the next block.\<close>

theorem large_transfer_overruns_q_addrs:
  assumes "1024 \<le> length (transfer_items r)" and "list_all (list_all plain \<circ> snd) (transfer_items r)"
  shows "analysis_mainloop g st (drop (length (rt_out rs)) (flushed (bdrv_co_do_rw True r rs))) = None"
proof -
  have "Q_ADDRS_SIZE \<le> length (q_addrs st) + length (inline_words (transfer_items r))"
    using assms(1) by (simp add: length_inline_words transfer_words Q_ADDRS_SIZE_def)
  from mainloop_overflow [OF plain_transfer_words [OF assms(2)] this] show ?thesis
    by (simp add: flushed_def bdrv_co_do_rw_eq)
qed

text \<open>
  The words of \<^verbatim>\<open>dift_sync\<close> and of entering the next block differ in the offset: \<^verbatim>\<open>dift_sync\<close> describes the block from
  its first record even when the offset says that the first ones have been analysed.
\<close>

lemma dift_sync_forgets_offset:
  assumes "unat (dift_code_cntr rs) < 2 ^ 16" and "dift_code_off rs \<le> dift_code_cntr rs"
  shows "\<exists>w v. flushed rs = rt_out rs @ [MARK_WORD, w] \<and> rt_out (dift_sync rs) = rt_out rs @ [MARK_WORD, v, SYNC_WORD] \<and>
    code_end w = code_end v \<and> code_begin v = unat (dift_code_loc rs) * CONFIG_IF_CODES_PER_TB \<and>
    code_begin w = code_begin v + unat (dift_code_off rs)"
  using block_word_bounds [OF assms, of "dift_code_loc rs"] block_word_bounds [OF assms(1), of 0 "dift_code_loc rs"]
  by (simp add: flushed_def dift_sync_eq sync_word_block_word MARK_WORD_def)

lemma dift_sync_forgets_offset_example:
  "\<exists>w v. let rs = \<lparr>dift_code_loc = 2, dift_code_cntr = 9, dift_code_off = 5, rt_out = []\<rparr> in
     flushed rs = [MARK_WORD, w] \<and> rt_out (dift_sync rs) = [MARK_WORD, v, SYNC_WORD] \<and>
     code_begin w = 325 \<and> code_begin v = 320"
  using dift_sync_forgets_offset [of "\<lparr>dift_code_loc = 2, dift_code_cntr = 9, dift_code_off = 5, rt_out = []\<rparr>"]
  by (auto simp: CONFIG_IF_CODES_PER_TB_def)

lemma small_plain: "unat w < 2 ^ 40 \<Longrightarrow> plain w"
proof -
  assume w: "unat w < 2 ^ 40"
  have "2 ^ 40 \<le> unat (REC_END_SYMBOL OR ucast REC_SYNC)" "2 ^ 40 \<le> unat block_mark"
    by (simp_all add: case_nb_defs)
  with w show ?thesis by (auto simp: plain_def)
qed

lemma entries_plain:
  "\<forall>e \<in> set es. unat (base e) < 2 ^ 40 \<and> unat (len e) < 2 ^ 40 \<Longrightarrow>
   unat d + (\<Sum>e \<leftarrow> es. unat (len e)) < 2 ^ 40 \<Longrightarrow>
   list_all (list_all plain \<circ> snd) (entry_items rec d es)"
proof (induction es arbitrary: d)
  case (Cons e es)
  have "unat (d + len e) = unat d + unat (len e)"
    using Cons.prems(2) by (simp add: unat_word_ariths)
  with Cons show ?case by (auto intro: small_plain)
qed simp

definition demo_request :: "nat \<Rightarrow> disk_request" where
  "demo_request n = \<lparr>error = 0, dma = True, is_write = False, sector = 8, sg = replicate n \<lparr>base = 0x200, len = 512\<rparr>\<rparr>"

lemma demo_request_plain: "n \<le> 2000 \<Longrightarrow> list_all (list_all plain \<circ> snd) (transfer_items (demo_request n))"
  unfolding transfer_items_def
  by (auto intro!: entries_plain simp: demo_request_def BDRV_SECTOR_SIZE_def sum_list_replicate)

lemma demo_request_length: "length (transfer_items (demo_request n)) = n"
proof -
  have "length (entry_items rec d (replicate n \<lparr>base = 0x200, len = 512\<rparr>)) = n" for rec d
    by (induction n arbitrary: d) simp_all
  then show ?thesis by (simp add: transfer_items_def demo_request_def)
qed

theorem large_transfer_overruns_q_addrs_witness:
  "analysis_mainloop demo_globals
     \<lparr>an_dc = demo_context, an_buf = [0], q_addrs = [], dift_thread_ok_signal = False\<rparr>
     (flushed (bdrv_co_do_rw True (demo_request 1024) run_init)) = None"
  using large_transfer_overruns_q_addrs [of "demo_request 1024" _ _ run_init] demo_request_plain [of 1024]
  by (simp add: demo_request_length) (simp add: run_init_def)

end
