(* ===== verification/DiftApi.thy ===== *)
theory DiftApi
imports DiftInterp
begin

text \<open>
  The public interface of the tracker (\<^verbatim>\<open>dift.c\<close>, from \<^verbatim>\<open>dift_contaminate_memory_or\<close> on), the monitor
  commands that use it (\<^verbatim>\<open>dift-commands.c\<close>), and the part of the emulator that hands out the locations of the
  record templates in \<^verbatim>\<open>dift_code_buffer\<close>: \<^verbatim>\<open>tb_alloc\<close>, \<^verbatim>\<open>tb_flush\<close> and \<^verbatim>\<open>tb_gen_code\<close> of
  \<^verbatim>\<open>translate-all.c\<close> and the checks of \<^verbatim>\<open>cpu_exec\<close>.
\<close>

section \<open>Marking and reading taint\<close>

definition dift_contaminate_memory_or :: "dift_globals \<Rightarrow> u64 \<Rightarrow> u64 \<Rightarrow> u8 \<Rightarrow> dift_context \<Rightarrow> (DIFT_STATUS \<times> dift_context) option" where
  "dift_contaminate_memory_or g addr len tag dc = set_mem_dirty g dc addr len tag True"

definition dift_contaminate_memory_and :: "dift_globals \<Rightarrow> u64 \<Rightarrow> u64 \<Rightarrow> u8 \<Rightarrow> dift_context \<Rightarrow> (DIFT_STATUS \<times> dift_context) option" where
  "dift_contaminate_memory_and g addr len tag dc = and_mem_dirty g dc addr len tag"

definition dift_contaminate_disk_or :: "u64 \<Rightarrow> u64 \<Rightarrow> u8 \<Rightarrow> dift_context \<Rightarrow> (DIFT_STATUS \<times> dift_context) option" where
  "dift_contaminate_disk_or hdaddr len tag dc = set_hd_dirty_or dc hdaddr len tag"

definition dift_contaminate_disk_and :: "u64 \<Rightarrow> u64 \<Rightarrow> u8 \<Rightarrow> dift_context \<Rightarrow> (DIFT_STATUS \<times> dift_context) option" where
  "dift_contaminate_disk_and hdaddr len tag dc = set_hd_dirty_and dc hdaddr len tag"

definition dift_get_memory_dirty :: "dift_globals \<Rightarrow> u64 \<Rightarrow> dift_context \<Rightarrow> u8 option" where
  "dift_get_memory_dirty g addr dc = get_mem_dirty g dc addr"

definition dift_get_disk_dirty :: "u64 \<Rightarrow> dift_context \<Rightarrow> u8 option" where
  "dift_get_disk_dirty hdaddr dc = get_hd_dirty dc hdaddr"

text \<open>The commands of the monitor; a show command is the list of the values it prints.\<close>

definition do_set_memory_taint :: "dift_globals \<Rightarrow> u64 \<Rightarrow> u64 \<Rightarrow> u64 \<Rightarrow> dift_context \<Rightarrow> dift_context option" where
  "do_set_memory_taint g addr rng tag dc =
     map_option snd (dift_contaminate_memory_or g addr rng (ucast (tag AND 0xff)) dc)"

definition do_set_disk_taint :: "u64 \<Rightarrow> u64 \<Rightarrow> u64 \<Rightarrow> dift_context \<Rightarrow> dift_context option" where
  "do_set_disk_taint addr rng tag dc =
     map_option snd (dift_contaminate_disk_or addr rng (ucast (tag AND 0xff)) dc)"

primrec show_taint :: "(u64 \<Rightarrow> u8 option) \<Rightarrow> nat \<Rightarrow> u64 \<Rightarrow> u8 list option" where
  "show_taint get 0 addr = Some []"
| "show_taint get (Suc n) addr = do { v \<leftarrow> get addr; vs \<leftarrow> show_taint get n (addr + 1); Some (v # vs) }"

definition do_show_memory_taint_map :: "dift_globals \<Rightarrow> u64 \<Rightarrow> nat \<Rightarrow> dift_context \<Rightarrow> u8 list option" where
  "do_show_memory_taint_map g addr len dc = show_taint (\<lambda>a. dift_get_memory_dirty g a dc) len addr"

definition do_show_disk_taint_map :: "u64 \<Rightarrow> nat \<Rightarrow> dift_context \<Rightarrow> u8 list option" where
  "do_show_disk_taint_map addr len dc = show_taint (\<lambda>a. dift_get_disk_dirty a dc) len addr"

section \<open>The cache of record templates\<close>

text \<open>
  The code buffer of the emulator, as \<^verbatim>\<open>code_gen_alloc\<close> sizes it on this host. The address of the buffer comes from
  \<^verbatim>\<open>alloc_code_gen_buffer\<close>.
\<close>

definition CODE_GEN_ALIGN :: nat where "CODE_GEN_ALIGN = 16"
definition OPC_BUF_SIZE :: nat where "OPC_BUF_SIZE = 640"
definition TCG_MAX_OP_SIZE :: nat where "TCG_MAX_OP_SIZE = 192"
definition CODE_GEN_AVG_BLOCK_SIZE :: nat where "CODE_GEN_AVG_BLOCK_SIZE = 128"
definition MIN_CODE_GEN_BUFFER_SIZE :: nat where "MIN_CODE_GEN_BUFFER_SIZE = 1024 * 1024"
definition MAX_CODE_GEN_BUFFER_SIZE :: nat where "MAX_CODE_GEN_BUFFER_SIZE = 2 * 1024 * 1024 * 1024"

record code_gen_ctx =
  code_gen_buffer :: nat
  code_gen_buffer_size :: nat
  code_gen_buffer_max_size :: nat
  code_gen_max_blocks :: nat

definition size_code_gen_buffer :: "nat \<Rightarrow> nat \<Rightarrow> nat" where
  "size_code_gen_buffer ram_size tb_size =
     (let n1 = (if tb_size = 0 then ram_size div 4 else tb_size);
          n2 = (if n1 < MIN_CODE_GEN_BUFFER_SIZE then MIN_CODE_GEN_BUFFER_SIZE else n1)
      in if MAX_CODE_GEN_BUFFER_SIZE < n2 then MAX_CODE_GEN_BUFFER_SIZE else n2)"

definition code_gen_alloc :: "nat \<Rightarrow> nat \<Rightarrow> nat \<Rightarrow> code_gen_ctx" where
  "code_gen_alloc buf ram_size tb_size =
     (let size = size_code_gen_buffer ram_size tb_size - 1024
      in \<lparr>code_gen_buffer = buf, code_gen_buffer_size = size,
          code_gen_buffer_max_size = size - TCG_MAX_OP_SIZE * OPC_BUF_SIZE,
          code_gen_max_blocks = size div CODE_GEN_AVG_BLOCK_SIZE\<rparr>)"

text \<open>
  The counters of the cache. The log holds, in order, the calls of \<^verbatim>\<open>dift_sync\<close> that \<^verbatim>\<open>tb_flush\<close> makes and the
  locations given to blocks. \<^verbatim>\<open>dift_sync\<close> returns when the analysis thread has read everything, which is proved with
  the queue.
\<close>

datatype tb_event = Synced | Slot u32

record tb_ctx =
  dift_code_top :: u32
  nb_tbs :: nat
  code_gen_ptr :: nat
  dift_enabled :: bool
  dift_switch_pending :: bool
  hooks_pending :: bool
  tb_log :: "tb_event list"

text \<open>The state after \<^verbatim>\<open>tcg_exec_init\<close>.\<close>

definition tcg_exec_init :: "code_gen_ctx \<Rightarrow> tb_ctx" where
  "tcg_exec_init cg = \<lparr>dift_code_top = 0, nb_tbs = 0, code_gen_ptr = code_gen_buffer cg, dift_enabled = False,
     dift_switch_pending = False, hooks_pending = False, tb_log = []\<rparr>"

definition dift_enable :: "tb_ctx \<Rightarrow> tb_ctx" where
  "dift_enable s = (if \<not> dift_enabled s then s\<lparr>dift_enabled := \<not> dift_enabled s, dift_switch_pending := True\<rparr> else s)"

definition dift_disable :: "tb_ctx \<Rightarrow> tb_ctx" where
  "dift_disable s = (if dift_enabled s then s\<lparr>dift_enabled := \<not> dift_enabled s, dift_switch_pending := True\<rparr> else s)"

definition dift_is_enabled :: "tb_ctx \<Rightarrow> bool" where
  "dift_is_enabled s = dift_enabled s"

definition do_enable_dift :: "tb_ctx \<Rightarrow> tb_ctx" where
  "do_enable_dift s = (if dift_is_enabled s then s else dift_enable s)"

definition do_disable_dift :: "tb_ctx \<Rightarrow> tb_ctx" where
  "do_disable_dift s = (if \<not> dift_is_enabled s then s else dift_disable s)"

text \<open>\<^verbatim>\<open>None\<close> is \<^verbatim>\<open>cpu_abort\<close>.\<close>

definition tb_flush :: "code_gen_ctx \<Rightarrow> tb_ctx \<Rightarrow> tb_ctx option" where
  "tb_flush cg s =
     (let s1 = s\<lparr>tb_log := tb_log s @ [Synced], dift_code_top := 0\<rparr>
      in if code_gen_buffer_size cg < code_gen_ptr s1 - code_gen_buffer cg then None
         else Some (s1\<lparr>nb_tbs := 0, code_gen_ptr := code_gen_buffer cg\<rparr>))"

definition tb_alloc :: "code_gen_ctx \<Rightarrow> tb_ctx \<Rightarrow> u32 option \<times> tb_ctx" where
  "tb_alloc cg s =
     (if code_gen_max_blocks cg \<le> nb_tbs s \<or> code_gen_buffer_max_size cg \<le> code_gen_ptr s - code_gen_buffer cg then (None, s)
      else let loc = dift_code_top s * of_nat CONFIG_IF_CODES_PER_TB
           in (Some loc, s\<lparr>nb_tbs := nb_tbs s + 1, dift_code_top := dift_code_top s + 1, tb_log := tb_log s @ [Slot loc]\<rparr>))"

text \<open>The size of the code of a block is what \<^verbatim>\<open>cpu_gen_code\<close> returns. A second failure of \<^verbatim>\<open>tb_alloc\<close> is a null pointer.\<close>

definition tb_gen_code :: "code_gen_ctx \<Rightarrow> nat \<Rightarrow> tb_ctx \<Rightarrow> (u32 \<times> tb_ctx) option" where
  "tb_gen_code cg code_gen_size s =
     do { (tb, s1) \<leftarrow> (case tb_alloc cg s of (Some loc, s1) \<Rightarrow> Some (Some loc, s1)
            | (None, s1) \<Rightarrow> map_option (tb_alloc cg) (tb_flush cg s1));
          loc \<leftarrow> tb;
          Some (loc, s1\<lparr>code_gen_ptr := (code_gen_ptr s1 + code_gen_size + CODE_GEN_ALIGN - 1) div CODE_GEN_ALIGN * CODE_GEN_ALIGN\<rparr>) }"

text \<open>What \<^verbatim>\<open>cpu_exec\<close> does before it looks for the next block.\<close>

definition cpu_exec_checks :: "code_gen_ctx \<Rightarrow> tb_ctx \<Rightarrow> tb_ctx option" where
  "cpu_exec_checks cg s =
     do { s1 \<leftarrow> (if of_nat CONFIG_MAX_TB_ESTI < dift_code_top s + 10000 then tb_flush cg s else Some s);
          s2 \<leftarrow> (if dift_switch_pending s1 then map_option (dift_switch_pending_update (\<lambda>_. False)) (tb_flush cg s1) else Some s1);
          (if hooks_pending s2 then map_option (hooks_pending_update (\<lambda>_. False)) (tb_flush cg s2) else Some s2) }"

text \<open>
  A run of the emulator as the cache sees it: rounds of requests to switch the tracking and to plant a hook, the checks,
  and the blocks generated until the next checks, with the sizes of their code.
\<close>

datatype request = Enable_dift | Disable_dift | Plant_hook

fun cache_request :: "request \<Rightarrow> tb_ctx \<Rightarrow> tb_ctx" where
  "cache_request Enable_dift s = dift_enable s"
| "cache_request Disable_dift s = dift_disable s"
| "cache_request Plant_hook s = s\<lparr>hooks_pending := True\<rparr>"

primrec gen_blocks :: "code_gen_ctx \<Rightarrow> nat list \<Rightarrow> tb_ctx \<Rightarrow> tb_ctx option" where
  "gen_blocks cg [] s = Some s"
| "gen_blocks cg (n # ns) s = do { (loc, s1) \<leftarrow> tb_gen_code cg n s; gen_blocks cg ns s1 }"

primrec cache_rounds :: "code_gen_ctx \<Rightarrow> (request list \<times> nat list) list \<Rightarrow> tb_ctx \<Rightarrow> tb_ctx option" where
  "cache_rounds cg [] s = Some s"
| "cache_rounds cg (r # rs) s =
     do { s1 \<leftarrow> cpu_exec_checks cg (fold cache_request (fst r) s);
          s2 \<leftarrow> gen_blocks cg (snd r) s1;
          cache_rounds cg rs s2 }"

section \<open>Properties\<close>

lemma special_addresses:
  assumes "wf_globals g"
  shows "unat (clean_source g) = unat (phys_ram_size g)" "unat (null_sink g) = unat (phys_ram_size g) + 1"
  using assms unat_Suc [of "phys_ram_size g"] by (auto simp: wf_globals_def)

lemma get_memory_dirty:
  assumes "wf_globals g"
  shows "dift_get_memory_dirty g x dc = Some (if is_valid_mem_range g x 1 then mem_dirty_tbl dc (unat x) else 0)"
proof -
  have "unat x < mem_tbl_size g" if "is_valid_mem_range g x 1"
    using that is_valid_mem_range_iff [of x g 1] special_addresses [OF assms] assms
    by (cases "x = clean_source g \<or> x = null_sink g") (auto simp: wf_globals_def)
  then show ?thesis by (simp add: dift_get_memory_dirty_def get_mem_dirty_def mem_get_def)
qed

lemma get_disk_dirty:
  "dift_get_disk_dirty h dc = Some (if unat h < 2 ^ 36 then hd_tag dc (unat h) else 0)"
  by (auto simp: dift_get_disk_dirty_def get_hd_dirty_def is_valid_disk_range_iff hd_entry_eq hd_tag_def page_or_new_def
      alloc_hd_dirty_page_def HD_L2_INDEX_eq split: option.splits)

definition mem_status :: "dift_globals \<Rightarrow> u64 \<Rightarrow> u64 \<Rightarrow> u8 \<Rightarrow> DIFT_STATUS" where
  "mem_status g addr len tag = (if unat (phys_ram_size g) < unat addr + unat len then DIFT_ERR_OUTOFRANGE
     else if \<not> within 0x7f tag then DIFT_ERR_INVALIDTAG else DIFT_SUCCESS)"

definition disk_status :: "u64 \<Rightarrow> u64 \<Rightarrow> u8 \<Rightarrow> DIFT_STATUS" where
  "disk_status hdaddr len tag = (if 2 ^ 36 < unat hdaddr + unat len then DIFT_ERR_OUTOFRANGE
     else if \<not> within 0x7f tag then DIFT_ERR_INVALIDTAG else DIFT_SUCCESS)"

definition touched :: "DIFT_STATUS \<Rightarrow> u64 \<Rightarrow> u64 \<Rightarrow> (u8 \<Rightarrow> u8) \<Rightarrow> u64 \<Rightarrow> u8 option \<Rightarrow> u8 option" where
  "touched st addr len f x v = (if st = DIFT_SUCCESS \<and> unat addr \<le> unat x \<and> unat x < unat addr + unat len then map_option f v else v)"

text \<open>One marking of memory or disk, as its caller sees it through the read functions.\<close>

definition marks_memory :: "dift_globals \<Rightarrow> dift_context \<Rightarrow> u64 \<Rightarrow> u64 \<Rightarrow> u8 \<Rightarrow> (u8 \<Rightarrow> u8) \<Rightarrow> (DIFT_STATUS \<times> dift_context) option \<Rightarrow> bool" where
  "marks_memory g dc addr len tag f res \<longleftrightarrow> (\<exists>dc'. res = Some (mem_status g addr len tag, dc') \<and>
     (\<forall>x. dift_get_memory_dirty g x dc' = touched (mem_status g addr len tag) addr len f x (dift_get_memory_dirty g x dc)) \<and>
     (\<forall>h. dift_get_disk_dirty h dc' = dift_get_disk_dirty h dc))"

definition marks_disk :: "dift_globals \<Rightarrow> dift_context \<Rightarrow> u64 \<Rightarrow> u64 \<Rightarrow> u8 \<Rightarrow> (u8 \<Rightarrow> u8) \<Rightarrow> (DIFT_STATUS \<times> dift_context) option \<Rightarrow> bool" where
  "marks_disk g dc hdaddr len tag f res \<longleftrightarrow> (\<exists>dc'. res = Some (disk_status hdaddr len tag, dc') \<and>
     (\<forall>h. dift_get_disk_dirty h dc' = touched (disk_status hdaddr len tag) hdaddr len f h (dift_get_disk_dirty h dc)) \<and>
     (\<forall>x. dift_get_memory_dirty g x dc' = dift_get_memory_dirty g x dc))"

lemma marks_memoryI:
  assumes "wf_globals g" "res = Some (mem_status g addr len tag,
      if mem_status g addr len tag = DIFT_SUCCESS
      then dc\<lparr>mem_dirty_tbl := (\<lambda>x. if unat addr \<le> x \<and> x < unat addr + unat len then f (mem_dirty_tbl dc x) else mem_dirty_tbl dc x)\<rparr>
      else dc)"
  shows "marks_memory g dc addr len tag f res"
proof -
  have "is_valid_mem_range g x 1" if "mem_status g addr len tag = DIFT_SUCCESS" "unat x < unat addr + unat len" for x
    using that by (intro is_valid_mem_range_inside) (auto simp: mem_status_def split: if_splits)
  then show ?thesis
    using assms(1) by (auto simp: marks_memory_def assms(2) touched_def get_memory_dirty get_disk_dirty hd_tag_def)
qed

lemma marks_diskI:
  assumes "wf_globals g" "res = Some (disk_status hdaddr len tag, dc')" "dc' = dc\<lparr>hd_l1_dirty_tbl := hd_l1_dirty_tbl dc'\<rparr>"
    "\<forall>b. hd_tag dc' b = (if disk_status hdaddr len tag = DIFT_SUCCESS \<and> unat hdaddr \<le> b \<and> b < unat hdaddr + unat len
       then f (hd_tag dc b) else hd_tag dc b)"
  shows "marks_disk g dc hdaddr len tag f res"
proof -
  have "mem_dirty_tbl dc' = mem_dirty_tbl dc" by (subst assms(3)) simp
  moreover have "unat h < 2 ^ 36" if "disk_status hdaddr len tag = DIFT_SUCCESS" "unat h < unat hdaddr + unat len" for h
    using that by (auto simp: disk_status_def split: if_splits)
  ultimately show ?thesis
    using assms(1,4) by (auto simp: marks_disk_def assms(2) touched_def get_memory_dirty get_disk_dirty)
qed

text \<open>C30: The four functions that mark taint do what the caller can read back. Each returns
  \<^verbatim>\<open>DIFT_ERR_OUTOFRANGE\<close> exactly when the range leaves RAM or disk (with no wrap-around of the check), then
  \<^verbatim>\<open>DIFT_ERR_INVALIDTAG\<close> exactly when the tag uses the reserved top bit, both without effect; otherwise
  \<^verbatim>\<open>dift_get_memory_dirty\<close> and \<^verbatim>\<open>dift_get_disk_dirty\<close> afterwards give the old tag or-ed, or and-ed, with the
  new one on exactly the bytes of the range, and the old tags everywhere else, on disk as in memory. Excluded are the
  two reserved memory addresses, and and-ing the disk with 0.
\<close>

theorem dift_contaminate_reads_back:
  assumes "wf_globals g"
  shows "(addr \<notin> {clean_source g, null_sink g} \<longrightarrow>
      marks_memory g dc addr len tag (\<lambda>v. v OR tag) (dift_contaminate_memory_or g addr len tag dc) \<and>
      marks_memory g dc addr len tag (\<lambda>v. v AND tag) (dift_contaminate_memory_and g addr len tag dc)) \<and>
    marks_disk g dc addr len tag (\<lambda>v. v OR tag) (dift_contaminate_disk_or addr len tag dc) \<and>
    (tag \<noteq> 0 \<longrightarrow> marks_disk g dc addr len tag (\<lambda>v. v AND tag) (dift_contaminate_disk_and addr len tag dc))"
proof (intro conjI impI)
  assume a: "addr \<notin> {clean_source g, null_sink g}"
  show "marks_memory g dc addr len tag (\<lambda>v. v OR tag) (dift_contaminate_memory_or g addr len tag dc)"
    using a set_mem_dirty_spec [OF assms, of addr dc len tag True]
    by (intro marks_memoryI [OF assms]) (auto simp: dift_contaminate_memory_or_def mem_status_def cong: if_cong)
  show "marks_memory g dc addr len tag (\<lambda>v. v AND tag) (dift_contaminate_memory_and g addr len tag dc)"
    using a and_mem_dirty_spec [OF assms, of addr dc len tag]
    by (intro marks_memoryI [OF assms]) (auto simp: dift_contaminate_memory_and_def mem_status_def cong: if_cong)
next
  obtain dc' where "set_hd_dirty_or dc addr len tag = Some (disk_status addr len tag, dc')" "dc' = dc\<lparr>hd_l1_dirty_tbl := hd_l1_dirty_tbl dc'\<rparr>"
    "\<forall>b. hd_tag dc' b = (if disk_status addr len tag = DIFT_SUCCESS \<and> unat addr \<le> b \<and> b < unat addr + unat len
       then hd_tag dc b OR tag else hd_tag dc b)"
    using set_hd_dirty_or_spec [of dc addr len tag] unfolding disk_status_def by blast
  then show "marks_disk g dc addr len tag (\<lambda>v. v OR tag) (dift_contaminate_disk_or addr len tag dc)"
    by (intro marks_diskI [OF assms]) (simp_all add: dift_contaminate_disk_or_def)
next
  assume "tag \<noteq> 0"
  then obtain dc' where "set_hd_dirty_and dc addr len tag = Some (disk_status addr len tag, dc')" "dc' = dc\<lparr>hd_l1_dirty_tbl := hd_l1_dirty_tbl dc'\<rparr>"
    "\<forall>b. hd_tag dc' b = (if disk_status addr len tag = DIFT_SUCCESS \<and> unat addr \<le> b \<and> b < unat addr + unat len
       then hd_tag dc b AND tag else hd_tag dc b)"
    using set_hd_dirty_and_spec [of tag dc addr len] unfolding disk_status_def by blast
  then show "marks_disk g dc addr len tag (\<lambda>v. v AND tag) (dift_contaminate_disk_and addr len tag dc)"
    by (intro marks_diskI [OF assms]) (simp_all add: dift_contaminate_disk_and_def)
qed

theorem dift_contaminate_reads_back_witness:
  "wf_globals demo_globals \<and>
   marks_memory demo_globals demo_context 0x20 2 5 (\<lambda>v. v OR 5) (dift_contaminate_memory_or demo_globals 0x20 2 5 demo_context) \<and>
   marks_disk demo_globals demo_context 0x20 2 5 (\<lambda>v. v AND 5) (dift_contaminate_disk_and 0x20 2 5 demo_context)"
  using dift_contaminate_reads_back [OF wf_demo_globals, of "0x20" demo_context 2 5] wf_demo_globals
  by (simp add: demo_globals_def)

text \<open>C31: Disk transfers carry taint with the data. For ranges inside RAM and disk, a write to the disk copies the tags of
  the memory range to the disk range byte by byte, and a read from the disk copies the tags of the disk range to the
  memory range, taking pages never written as clean; nothing else of the context changes.
\<close>

theorem transfers_copy_taint:
  assumes "wf_globals g" "unat a + unat len \<le> unat (phys_ram_size g)" "unat h + unat len \<le> 2 ^ 36"
  shows "(\<exists>dc'. copy_contamination_hd_mem g dc h a len = Some dc' \<and> dc' = dc\<lparr>hd_l1_dirty_tbl := hd_l1_dirty_tbl dc'\<rparr> \<and>
      (\<forall>b. hd_tag dc' b = (if unat h \<le> b \<and> b < unat h + unat len then mem_dirty_tbl dc (unat a + (b - unat h)) else hd_tag dc b))) \<and>
    copy_contamination_mem_hd g dc a h len = Some (dc\<lparr>mem_dirty_tbl := (\<lambda>x. if unat a \<le> x \<and> x < unat a + unat len
      then hd_tag dc (unat h + (x - unat a)) else mem_dirty_tbl dc x)\<rparr>)"
  using copy_contamination_hd_mem_spec [OF assms] copy_contamination_mem_hd_spec [OF assms] by blast

theorem transfers_copy_taint_witness:
  "wf_globals demo_globals \<and> (\<exists>dc'. copy_contamination_hd_mem demo_globals (demo_context\<lparr>mem_dirty_tbl := (\<lambda>a. of_nat a)\<rparr>)
       0xffe 3 4 = Some dc' \<and> hd_tag dc' 0x1000 = 5)"
  using transfers_copy_taint [OF wf_demo_globals, of 3 4 "0xffe" "demo_context\<lparr>mem_dirty_tbl := (\<lambda>a. of_nat a)\<rparr>"] wf_demo_globals
  by (auto simp: demo_globals_def)

section \<open>Locations of the record templates\<close>

definition block_slot :: "nat \<Rightarrow> u32" where
  "block_slot k = of_nat k * of_nat CONFIG_IF_CODES_PER_TB"

text \<open>The locations given since the last \<^verbatim>\<open>dift_sync\<close>, and logs in which no location is given twice in between.\<close>

definition recent :: "tb_event list \<Rightarrow> tb_event set" where
  "recent l = set (takeWhile (\<lambda>e. e \<noteq> Synced) (rev l))"

definition fresh_slots :: "tb_event list \<Rightarrow> bool" where
  "fresh_slots l \<longleftrightarrow> (\<forall>xs ys zs loc. l = xs @ Slot loc # ys @ Slot loc # zs \<longrightarrow> Synced \<in> set ys)"

lemma recent_append [simp]: "recent [] = {}" "recent (l @ [Synced]) = {}" "recent (l @ [Slot loc]) = insert (Slot loc) (recent l)"
  by (simp_all add: recent_def)

lemma recent_mem: "Synced \<notin> set ys \<Longrightarrow> Slot loc \<in> recent (xs @ Slot loc # ys)"
  by (induction ys rule: rev_induct) (auto simp: recent_def takeWhile_tail)

lemma fresh_slots_Nil: "fresh_slots []"
  by (simp add: fresh_slots_def)

lemma fresh_slots_snoc:
  assumes "fresh_slots l" "e = Synced \<or> e \<notin> recent l"
  shows "fresh_slots (l @ [e])"
  unfolding fresh_slots_def
proof (intro allI impI)
  fix xs ys zs loc assume eq: "l @ [e] = xs @ Slot loc # ys @ Slot loc # zs"
  show "Synced \<in> set ys"
  proof (cases zs rule: rev_cases)
    case Nil
    then have "e = Slot loc" "l = xs @ Slot loc # ys" using eq by (simp_all flip: append_Cons append_assoc)
    then show ?thesis using assms(2) recent_mem by fastforce
  next
    case (snoc zs' z)
    then have "l = xs @ Slot loc # ys @ Slot loc # zs'" using eq by (simp flip: append_Cons append_assoc)
    then show ?thesis using assms(1) unfolding fresh_slots_def by blast
  qed
qed

lemma unat_block_slot: "k \<le> CONFIG_MAX_TB_ESTI \<Longrightarrow> unat (block_slot k) = k * CONFIG_IF_CODES_PER_TB"
  by (simp add: block_slot_def unat_word_ariths CONFIG_MAX_TB_ESTI_def CONFIG_IF_CODES_PER_TB_def unat_of_nat)

definition cache_inv :: "code_gen_ctx \<Rightarrow> tb_ctx \<Rightarrow> bool" where
  "cache_inv cg s \<longleftrightarrow> code_gen_buffer cg \<le> code_gen_ptr s \<and> code_gen_ptr s \<le> code_gen_buffer cg + code_gen_buffer_size cg \<and>
     unat (dift_code_top s) \<le> CONFIG_MAX_TB_ESTI \<and> recent (tb_log s) = (Slot \<circ> block_slot) ` {..<unat (dift_code_top s)} \<and>
     fresh_slots (tb_log s) \<and> (\<forall>loc. Slot loc \<in> set (tb_log s) \<longrightarrow> (\<exists>k < CONFIG_MAX_TB_ESTI. loc = block_slot k))"

definition slots_of :: "tb_event list \<Rightarrow> tb_event list" where
  "slots_of l = filter (\<lambda>e. e \<noteq> Synced) l"

lemma tb_flush_ok:
  assumes "cache_inv cg s"
  shows "\<exists>s'. tb_flush cg s = Some s' \<and> cache_inv cg s' \<and> dift_code_top s' = 0 \<and> nb_tbs s' = 0 \<and> code_gen_ptr s' = code_gen_buffer cg \<and>
    slots_of (tb_log s') = slots_of (tb_log s) \<and> dift_switch_pending s' = dift_switch_pending s \<and> hooks_pending s' = hooks_pending s"
  using assms by (auto simp: tb_flush_def cache_inv_def slots_of_def intro!: fresh_slots_snoc)

lemma tb_alloc_ok:
  assumes "cache_inv cg s" "unat (dift_code_top s) < CONFIG_MAX_TB_ESTI" "nb_tbs s < code_gen_max_blocks cg"
    "code_gen_ptr s < code_gen_buffer cg + code_gen_buffer_max_size cg" "tb_alloc cg s = (r, s')"
  shows "r \<noteq> None \<and> cache_inv cg s' \<and> unat (dift_code_top s') = unat (dift_code_top s) + 1 \<and> code_gen_ptr s' = code_gen_ptr s \<and>
    length (slots_of (tb_log s')) = length (slots_of (tb_log s)) + 1"
proof -
  let ?k = "unat (dift_code_top s)"
  have loc: "dift_code_top s * of_nat CONFIG_IF_CODES_PER_TB = block_slot ?k" by (simp add: block_slot_def)
  have top: "unat (dift_code_top s + 1) = ?k + 1" using assms(2) by (simp add: unat_word_ariths CONFIG_MAX_TB_ESTI_def)
  have room: "\<not> code_gen_buffer_max_size cg \<le> code_gen_ptr s - code_gen_buffer cg" using assms(1,4) by (auto simp: cache_inv_def)
  have s': "r = Some (block_slot ?k)" "s' = s\<lparr>nb_tbs := nb_tbs s + 1, dift_code_top := dift_code_top s + 1, tb_log := tb_log s @ [Slot (block_slot ?k)]\<rparr>"
    using assms(3,5) room by (auto simp: tb_alloc_def Let_def loc)
  have "block_slot j \<noteq> block_slot ?k" if "j < ?k" for j
    using that assms(2) unat_block_slot [of j] unat_block_slot [of ?k] by (auto simp: CONFIG_IF_CODES_PER_TB_def)
  then have "Slot (block_slot ?k) \<notin> recent (tb_log s)" using assms(1) by (force simp: cache_inv_def)
  then have "fresh_slots (tb_log s')" using assms(1) by (auto simp: s'(2) cache_inv_def intro!: fresh_slots_snoc)
  moreover have "recent (tb_log s') = (Slot \<circ> block_slot) ` {..<?k + 1}" using assms(1) by (auto simp: s'(2) cache_inv_def lessThan_Suc)
  ultimately have "cache_inv cg s'" using assms(1,2) top by (auto simp: cache_inv_def s'(2))
  then show ?thesis using top by (simp add: s' slots_of_def)
qed

text \<open>A code buffer as \<^verbatim>\<open>code_gen_alloc\<close> sets it up, and the code of a block that the room at its end can hold.\<close>

definition sized :: "code_gen_ctx \<Rightarrow> bool" where
  "sized cg \<longleftrightarrow> 0 < code_gen_max_blocks cg \<and> 0 < code_gen_buffer_max_size cg \<and>
     code_gen_buffer_max_size cg + TCG_MAX_OP_SIZE * OPC_BUF_SIZE = code_gen_buffer_size cg"

lemma sized_alloc: "sized (code_gen_alloc buf ram_size tb_size)"
proof -
  have "1048576 \<le> size_code_gen_buffer ram_size tb_size"
    by (simp add: size_code_gen_buffer_def MIN_CODE_GEN_BUFFER_SIZE_def MAX_CODE_GEN_BUFFER_SIZE_def Let_def)
  moreover from this have "0 < (size_code_gen_buffer ram_size tb_size - 1024) div 128" by linarith
  ultimately show ?thesis
    by (simp add: sized_def code_gen_alloc_def Let_def TCG_MAX_OP_SIZE_def OPC_BUF_SIZE_def CODE_GEN_AVG_BLOCK_SIZE_def)
qed

lemma align_bounds:
  "x + n \<le> (x + n + CODE_GEN_ALIGN - 1) div CODE_GEN_ALIGN * CODE_GEN_ALIGN"
  "(x + n + CODE_GEN_ALIGN - 1) div CODE_GEN_ALIGN * CODE_GEN_ALIGN < x + n + CODE_GEN_ALIGN"
  unfolding CODE_GEN_ALIGN_def by linarith+

lemma cache_inv_ptr:
  "cache_inv cg s \<Longrightarrow> code_gen_buffer cg \<le> p \<Longrightarrow> p \<le> code_gen_buffer cg + code_gen_buffer_size cg \<Longrightarrow> cache_inv cg (s\<lparr>code_gen_ptr := p\<rparr>)"
  by (simp add: cache_inv_def)

lemma tb_gen_code_ok:
  assumes "sized cg" "cache_inv cg s" "unat (dift_code_top s) < CONFIG_MAX_TB_ESTI" "n + CODE_GEN_ALIGN \<le> TCG_MAX_OP_SIZE * OPC_BUF_SIZE"
  shows "\<exists>loc s'. tb_gen_code cg n s = Some (loc, s') \<and> cache_inv cg s' \<and> unat (dift_code_top s') \<le> unat (dift_code_top s) + 1 \<and>
    length (slots_of (tb_log s')) = length (slots_of (tb_log s)) + 1"
proof -
  define e where "e x = (x + n + CODE_GEN_ALIGN - 1) div CODE_GEN_ALIGN * CODE_GEN_ALIGN" for x
  let ?full = "code_gen_max_blocks cg \<le> nb_tbs s \<or> code_gen_buffer_max_size cg \<le> code_gen_ptr s - code_gen_buffer cg"
  obtain s0 where s0: "(if ?full then tb_flush cg s else Some s) = Some s0" "cache_inv cg s0" "unat (dift_code_top s0) \<le> unat (dift_code_top s)"
    "nb_tbs s0 < code_gen_max_blocks cg" "code_gen_ptr s0 < code_gen_buffer cg + code_gen_buffer_max_size cg"
    "slots_of (tb_log s0) = slots_of (tb_log s)"
  proof (cases ?full)
    case True
    then show ?thesis using that tb_flush_ok [OF assms(2)] assms(1) by (auto simp: sized_def)
  next
    case False
    then show ?thesis using that [of s] assms(2) by (auto simp: cache_inv_def)
  qed
  obtain r s1 where a: "tb_alloc cg s0 = (r, s1)" by fastforce
  have s1: "r \<noteq> None" "cache_inv cg s1" "unat (dift_code_top s1) = unat (dift_code_top s0) + 1" "code_gen_ptr s1 = code_gen_ptr s0"
    "length (slots_of (tb_log s1)) = length (slots_of (tb_log s0)) + 1"
    using tb_alloc_ok [OF s0(2) _ s0(4,5) a] s0(3) assms(3) by auto
  then obtain loc where loc: "r = Some loc" by auto
  have "tb_gen_code cg n s = Some (loc, s1\<lparr>code_gen_ptr := e (code_gen_ptr s1)\<rparr>)"
  proof (cases ?full)
    case True
    then have "tb_alloc cg s = (None, s)" by (auto simp: tb_alloc_def)
    then show ?thesis using True s0(1) a loc by (simp add: tb_gen_code_def e_def)
  next
    case False
    then have "s0 = s" using s0(1) by (simp split: if_splits)
    then show ?thesis using a loc by (simp add: tb_gen_code_def e_def)
  qed
  moreover have "cache_inv cg (s1\<lparr>code_gen_ptr := e (code_gen_ptr s1)\<rparr>)"
    using s1(2,4) s0(5) assms(1,4) align_bounds [of "code_gen_ptr s1" n]
    by (intro cache_inv_ptr) (auto simp: e_def sized_def cache_inv_def)
  ultimately show ?thesis using s1(3,5) s0(3,6) by auto
qed

lemma gen_blocks_ok:
  assumes "sized cg" "cache_inv cg s" "unat (dift_code_top s) + length ns \<le> CONFIG_MAX_TB_ESTI"
    "\<forall>n \<in> set ns. n + CODE_GEN_ALIGN \<le> TCG_MAX_OP_SIZE * OPC_BUF_SIZE"
  shows "\<exists>s'. gen_blocks cg ns s = Some s' \<and> cache_inv cg s' \<and> length (slots_of (tb_log s')) = length (slots_of (tb_log s)) + length ns"
  using assms(2-)
proof (induction ns arbitrary: s)
  case (Cons n ns)
  then obtain loc s1 where 1: "tb_gen_code cg n s = Some (loc, s1)" "cache_inv cg s1" "unat (dift_code_top s1) \<le> unat (dift_code_top s) + 1"
    "length (slots_of (tb_log s1)) = length (slots_of (tb_log s)) + 1"
    using tb_gen_code_ok [OF assms(1), of s n] by auto
  then show ?case using Cons.IH [of s1] Cons.prems by auto
qed simp

lemma flush_if:
  assumes "cache_inv cg s"
  shows "\<exists>s'. (if b then tb_flush cg s else Some s) = Some s' \<and> cache_inv cg s' \<and> (if b then dift_code_top s' = 0 else dift_code_top s' = dift_code_top s) \<and>
    slots_of (tb_log s') = slots_of (tb_log s)"
  using tb_flush_ok [OF assms] assms by auto

lemma pending_cleared:
  "cache_inv cg (s\<lparr>dift_switch_pending := b\<rparr>) = cache_inv cg s" "cache_inv cg (s\<lparr>hooks_pending := b\<rparr>) = cache_inv cg s"
  by (simp_all add: cache_inv_def)

lemma cpu_exec_checks_ok:
  assumes "cache_inv cg s"
  shows "\<exists>s'. cpu_exec_checks cg s = Some s' \<and> cache_inv cg s' \<and> unat (dift_code_top s') + 10000 \<le> CONFIG_MAX_TB_ESTI \<and>
    slots_of (tb_log s') = slots_of (tb_log s)"
proof -
  have top: "unat (dift_code_top s) \<le> CONFIG_MAX_TB_ESTI" using assms by (simp add: cache_inv_def)
  then have "unat (dift_code_top s + 10000) = unat (dift_code_top s) + 10000"
    by (simp add: unat_word_ariths CONFIG_MAX_TB_ESTI_def)
  then have w: "of_nat CONFIG_MAX_TB_ESTI < dift_code_top s + 10000 \<longleftrightarrow> CONFIG_MAX_TB_ESTI < unat (dift_code_top s) + 10000"
    by (simp add: word_less_nat_alt CONFIG_MAX_TB_ESTI_def)
  obtain s1 where 1: "(if of_nat CONFIG_MAX_TB_ESTI < dift_code_top s + 10000 then tb_flush cg s else Some s) = Some s1" "cache_inv cg s1"
    "unat (dift_code_top s1) + 10000 \<le> CONFIG_MAX_TB_ESTI" "slots_of (tb_log s1) = slots_of (tb_log s)"
    using flush_if [OF assms, of "of_nat CONFIG_MAX_TB_ESTI < dift_code_top s + 10000"] w
    by (auto simp: CONFIG_MAX_TB_ESTI_def split: if_splits)
  obtain s2 where 2: "(if dift_switch_pending s1 then map_option (dift_switch_pending_update (\<lambda>_. False)) (tb_flush cg s1) else Some s1) = Some s2"
    "cache_inv cg s2" "unat (dift_code_top s2) + 10000 \<le> CONFIG_MAX_TB_ESTI" "slots_of (tb_log s2) = slots_of (tb_log s)"
    using flush_if [OF 1(2), of "dift_switch_pending s1"] 1(2-4) by (auto simp: pending_cleared split: if_splits)
  obtain s3 where "(if hooks_pending s2 then map_option (hooks_pending_update (\<lambda>_. False)) (tb_flush cg s2) else Some s2) = Some s3"
    "cache_inv cg s3" "unat (dift_code_top s3) + 10000 \<le> CONFIG_MAX_TB_ESTI" "slots_of (tb_log s3) = slots_of (tb_log s)"
    using flush_if [OF 2(2), of "hooks_pending s2"] 2(2-4) by (auto simp: pending_cleared split: if_splits)
  then show ?thesis using 1(1) 2(1) by (simp add: cpu_exec_checks_def)
qed

lemma cache_request_ok: "cache_inv cg s \<Longrightarrow> cache_inv cg (fold cache_request rs s) \<and> tb_log (fold cache_request rs s) = tb_log s"
proof (induction rs arbitrary: s)
  case (Cons r rs)
  have "cache_inv cg (cache_request r s) \<and> tb_log (cache_request r s) = tb_log s"
    using Cons.prems by (cases r) (simp_all add: dift_enable_def dift_disable_def cache_inv_def)
  then show ?case using Cons.IH by simp
qed simp

lemma cache_rounds_ok:
  assumes "sized cg" "cache_inv cg s"
    "\<forall>r \<in> set rs. length (snd r) \<le> 10000 \<and> (\<forall>n \<in> set (snd r). n + CODE_GEN_ALIGN \<le> TCG_MAX_OP_SIZE * OPC_BUF_SIZE)"
  shows "\<exists>s'. cache_rounds cg rs s = Some s' \<and> cache_inv cg s' \<and>
    length (slots_of (tb_log s')) = length (slots_of (tb_log s)) + (\<Sum>r \<leftarrow> rs. length (snd r))"
  using assms(2,3)
proof (induction rs arbitrary: s)
  case (Cons r rs)
  obtain s1 where 1: "cpu_exec_checks cg (fold cache_request (fst r) s) = Some s1" "cache_inv cg s1"
    "unat (dift_code_top s1) + 10000 \<le> CONFIG_MAX_TB_ESTI" "slots_of (tb_log s1) = slots_of (tb_log s)"
    using cpu_exec_checks_ok cache_request_ok [OF Cons.prems(1), of "fst r"] by metis
  obtain s2 where 2: "gen_blocks cg (snd r) s1 = Some s2" "cache_inv cg s2"
    "length (slots_of (tb_log s2)) = length (slots_of (tb_log s1)) + length (snd r)"
    using gen_blocks_ok [OF assms(1) 1(2), of "snd r"] 1(3) Cons.prems(2) by auto
  show ?case using Cons.IH [OF 2(2)] Cons.prems(2) 1 2 by auto
qed simp

lemma cache_inv_init: "cache_inv cg (tcg_exec_init cg)"
  by (simp add: cache_inv_def tcg_exec_init_def fresh_slots_Nil)

text \<open>C32: Every block gets its own slot of \<^verbatim>\<open>dift_code_buffer\<close>. Start the emulator with a code buffer of any size
  \<^verbatim>\<open>code_gen_alloc\<close> chooses and run it for any number of rounds, each with requests to switch the tracking or to plant
  hooks, the checks of \<^verbatim>\<open>cpu_exec\<close> and up to 10000 generated blocks, whose code, aligned, fits in the room kept at the
  end of the code buffer (\<^verbatim>\<open>TCG_MAX_OP_SIZE * OPC_BUF_SIZE\<close>). Then no flush aborts and every block is generated. Each
  block gets a location at the start of one of the \<^verbatim>\<open>CONFIG_MAX_TB_ESTI\<close> slots of \<^verbatim>\<open>CONFIG_IF_CODES_PER_TB\<close> entries,
  so that its records stay inside the buffer, and between two blocks that get the same location \<^verbatim>\<open>tb_flush\<close> has called
  \<^verbatim>\<open>dift_sync\<close>: records the analysis thread may still read are not overwritten.
\<close>

theorem code_locations_in_buffer:
  assumes "\<forall>r \<in> set rs. length (snd r) \<le> 10000 \<and> (\<forall>n \<in> set (snd r). n + CODE_GEN_ALIGN \<le> TCG_MAX_OP_SIZE * OPC_BUF_SIZE)"
    "cg = code_gen_alloc buf ram_size tb_size"
  shows "\<exists>s. cache_rounds cg rs (tcg_exec_init cg) = Some s \<and>
    length (filter (\<lambda>e. e \<noteq> Synced) (tb_log s)) = (\<Sum>r \<leftarrow> rs. length (snd r)) \<and>
    (\<forall>loc. Slot loc \<in> set (tb_log s) \<longrightarrow> (\<exists>k < CONFIG_MAX_TB_ESTI. unat loc = k * CONFIG_IF_CODES_PER_TB)) \<and>
    (\<forall>xs ys zs loc. tb_log s = xs @ Slot loc # ys @ Slot loc # zs \<longrightarrow> Synced \<in> set ys)"
proof -
  obtain s where s: "cache_rounds cg rs (tcg_exec_init cg) = Some s" "cache_inv cg s"
    "length (slots_of (tb_log s)) = length (slots_of (tb_log (tcg_exec_init cg))) + (\<Sum>r \<leftarrow> rs. length (snd r))"
    using cache_rounds_ok [OF _ cache_inv_init assms(1)] sized_alloc assms(2) by blast
  have "\<exists>k < CONFIG_MAX_TB_ESTI. unat loc = k * CONFIG_IF_CODES_PER_TB" if "Slot loc \<in> set (tb_log s)" for loc
  proof -
    obtain k where "k < CONFIG_MAX_TB_ESTI" "loc = block_slot k" using s(2) \<open>Slot loc \<in> set (tb_log s)\<close> unfolding cache_inv_def by blast
    then show ?thesis using unat_block_slot [of k] by auto
  qed
  moreover have "\<forall>xs ys zs loc. tb_log s = xs @ Slot loc # ys @ Slot loc # zs \<longrightarrow> Synced \<in> set ys"
    using s(2) unfolding cache_inv_def fresh_slots_def by blast
  moreover have "length (filter (\<lambda>e. e \<noteq> Synced) (tb_log s)) = (\<Sum>r \<leftarrow> rs. length (snd r))"
    using s(3) by (simp add: slots_of_def tcg_exec_init_def)
  ultimately show ?thesis using s(1) by blast
qed

theorem code_locations_in_buffer_witness:
  "\<exists>s. cache_rounds (code_gen_alloc 0x10000 0x40000000 0) [([Enable_dift], [40, 1000]), ([Plant_hook], [200])]
      (tcg_exec_init (code_gen_alloc 0x10000 0x40000000 0)) = Some s \<and> length (filter (\<lambda>e. e \<noteq> Synced) (tb_log s)) = 3"
  using code_locations_in_buffer [of "[([Enable_dift], [40, 1000]), ([Plant_hook], [200])]" _ "0x10000" "0x40000000" 0, OF _ refl]
  by (auto simp: CODE_GEN_ALIGN_def TCG_MAX_OP_SIZE_def OPC_BUF_SIZE_def)

end
