(* ===== verification/UtHash.thy ===== *)
theory UtHash
  imports Prelude "HOL-Library.Multiset"
begin

text \<open>
  The intrusive hash table of \<^verbatim>\<open>include/uthash.h\<close>, which the out-of-box hooks and the system-call
  tracer keep their records in. A handle is the \<^verbatim>\<open>UT_hash_handle\<close> inside an element: the element it
  belongs to, its key (the bytes \<^verbatim>\<open>key\<close> points to, \<^verbatim>\<open>keylen\<close> of them) and the hash of the key. The
  chain of a bucket (\<^verbatim>\<open>hh_next\<close>, \<^verbatim>\<open>hh_prev\<close>) and the list of all elements in the order of their
  insertion (\<^verbatim>\<open>next\<close>, \<^verbatim>\<open>prev\<close>, \<^verbatim>\<open>tail\<close>) are lists. A table without elements does not exist: the head
  pointer is \<^verbatim>\<open>NULL\<close>, here \<open>None\<close>. The Bloom filter is configured out. A failing allocation ends the
  process (\<^verbatim>\<open>uthash_fatal\<close>) and is left out.
\<close>

type_synonym bytes = "u8 list"
type_synonym ptr = nat

section \<open>The hash function\<close>

definition HASH_JEN_MIX :: "u32 \<times> u32 \<times> u32 \<Rightarrow> u32 \<times> u32 \<times> u32" where
  "HASH_JEN_MIX = (\<lambda>(a, b, c).
     let a = (a - b - c) XOR drop_bit 13 c;
         b = (b - c - a) XOR push_bit 8 a;
         c = (c - a - b) XOR drop_bit 13 b;
         a = (a - b - c) XOR drop_bit 12 c;
         b = (b - c - a) XOR push_bit 16 a;
         c = (c - a - b) XOR drop_bit 5 b;
         a = (a - b - c) XOR drop_bit 3 c;
         b = (b - c - a) XOR push_bit 10 a;
         c = (c - a - b) XOR drop_bit 15 b
     in (a, b, c))"

text \<open>Byte \<open>n\<close> of the key, shifted.\<close>

definition key_byte :: "bytes \<Rightarrow> nat \<Rightarrow> nat \<Rightarrow> u32" where
  "key_byte k n s = push_bit s (ucast (k ! n))"

definition key_word :: "bytes \<Rightarrow> nat \<Rightarrow> u32" where
  "key_word k n = key_byte k n 0 + key_byte k (n + 1) 8 + key_byte k (n + 2) 16 + key_byte k (n + 3) 24"

function jen_blocks :: "bytes \<Rightarrow> u32 \<times> u32 \<times> u32 \<Rightarrow> bytes \<times> u32 \<times> u32 \<times> u32" where
  "jen_blocks k (i, j, h) =
     (if 12 \<le> length k
      then jen_blocks (drop 12 k) (HASH_JEN_MIX (i + key_word k 0, j + key_word k 4, h + key_word k 8))
      else (k, i, j, h))"
  by pat_completeness auto
termination by (relation "measure (\<lambda>(k, s). length k)") auto

text \<open>The cases of the final \<^verbatim>\<open>switch\<close> fall through: byte \<open>n\<close> counts when the rest is longer than \<open>n\<close>.\<close>

definition rest_byte :: "bytes \<Rightarrow> nat \<Rightarrow> nat \<Rightarrow> u32" where
  "rest_byte k n s = (if n < length k then key_byte k n s else 0)"

definition HASH_JEN :: "bytes \<Rightarrow> u32" where
  "HASH_JEN key =
     (case jen_blocks key (0x9e3779b9, 0x9e3779b9, 0xfeedbeef) of (k, i, j, h) \<Rightarrow>
        let h = h + of_nat (length key) + rest_byte k 10 24 + rest_byte k 9 16 + rest_byte k 8 8;
            j = j + rest_byte k 7 24 + rest_byte k 6 16 + rest_byte k 5 8 + rest_byte k 4 0;
            i = i + rest_byte k 3 24 + rest_byte k 2 16 + rest_byte k 1 8 + rest_byte k 0 0
        in snd (snd (HASH_JEN_MIX (i, j, h))))"

section \<open>Tables\<close>

record handle =
  elem :: ptr
  hkey :: bytes
  hashv :: u32

record UT_hash_bucket =
  chain :: "handle list"
  bkt_count :: u32
  expand_mult :: u32

record UT_hash_table =
  buckets :: "nat \<Rightarrow> UT_hash_bucket"
  num_buckets :: u32
  log2_num_buckets :: u32
  num_items :: u32
  app_order :: "handle list"
  ideal_chain_maxlen :: u32
  nonideal_items :: u32
  ineff_expands :: u32
  noexpand :: u32

definition HASH_INITIAL_NUM_BUCKETS :: u32 where "HASH_INITIAL_NUM_BUCKETS = 32"
definition HASH_INITIAL_NUM_BUCKETS_LOG2 :: u32 where "HASH_INITIAL_NUM_BUCKETS_LOG2 = 5"
definition HASH_BKT_CAPACITY_THRESH :: u32 where "HASH_BKT_CAPACITY_THRESH = 10"

definition HASH_TO_BKT :: "u32 \<Rightarrow> u32 \<Rightarrow> nat" where
  "HASH_TO_BKT hv num_bkts = unat (hv AND (num_bkts - 1))"

definition HASH_MAKE_TABLE :: UT_hash_table where
  "HASH_MAKE_TABLE =
     \<lparr>buckets = (\<lambda>_. \<lparr>chain = [], bkt_count = 0, expand_mult = 0\<rparr>), num_buckets = HASH_INITIAL_NUM_BUCKETS,
      log2_num_buckets = HASH_INITIAL_NUM_BUCKETS_LOG2, num_items = 0, app_order = [], ideal_chain_maxlen = 0,
      nonideal_items = 0, ineff_expands = 0, noexpand = 0\<rparr>"

primrec HASH_FIND_IN_BKT :: "bytes \<Rightarrow> handle list \<Rightarrow> ptr option" where
  "HASH_FIND_IN_BKT k [] = None"
| "HASH_FIND_IN_BKT k (h # hs) = (if hkey h = k then Some (elem h) else HASH_FIND_IN_BKT k hs)"

definition HASH_FIND :: "UT_hash_table option \<Rightarrow> bytes \<Rightarrow> ptr option" where
  "HASH_FIND head k =
     (case head of None \<Rightarrow> None
      | Some t \<Rightarrow> HASH_FIND_IN_BKT k (chain (buckets t (HASH_TO_BKT (HASH_JEN k) (num_buckets t)))))"

subsection \<open>Expansion\<close>

text \<open>Moving one handle to its bucket among twice as many.\<close>

definition move_handle :: "u32 \<Rightarrow> u32 \<Rightarrow> handle \<Rightarrow> (nat \<Rightarrow> UT_hash_bucket) \<times> u32 \<Rightarrow> (nat \<Rightarrow> UT_hash_bucket) \<times> u32" where
  "move_handle n ideal h = (\<lambda>(bs, nonideal).
     let i = HASH_TO_BKT (hashv h) n; b = bs i; c = bkt_count b + 1; over = ideal < c in
     (bs(i := \<lparr>chain = h # chain b, bkt_count = c, expand_mult = (if over then c div ideal else expand_mult b)\<rparr>),
      if over then nonideal + 1 else nonideal))"

definition HASH_EXPAND_BUCKETS :: "UT_hash_table \<Rightarrow> UT_hash_table" where
  "HASH_EXPAND_BUCKETS t =
     (let n = num_buckets t * 2;
          ideal = drop_bit (unat (log2_num_buckets t + 1)) (num_items t) + (if num_items t AND (n - 1) \<noteq> 0 then 1 else 0);
          old = concat (map (\<lambda>i. chain (buckets t i)) [0..<unat (num_buckets t)]);
          (bs, nonideal) = fold (move_handle n ideal) old (\<lambda>_. \<lparr>chain = [], bkt_count = 0, expand_mult = 0\<rparr>, 0);
          ineff = (if drop_bit 1 (num_items t) < nonideal then ineff_expands t + 1 else 0)
      in t\<lparr>buckets := bs, num_buckets := n, log2_num_buckets := log2_num_buckets t + 1, ideal_chain_maxlen := ideal,
           nonideal_items := nonideal, ineff_expands := ineff, noexpand := (if 1 < ineff then 1 else noexpand t)\<rparr>)"

definition HASH_ADD_TO_BKT :: "UT_hash_table \<Rightarrow> nat \<Rightarrow> handle \<Rightarrow> UT_hash_table" where
  "HASH_ADD_TO_BKT t i h =
     (let b = buckets t i;
          b' = b\<lparr>bkt_count := bkt_count b + 1, chain := h # chain b\<rparr>;
          t' = t\<lparr>buckets := (buckets t)(i := b')\<rparr>
      in if (expand_mult b' + 1) * HASH_BKT_CAPACITY_THRESH \<le> bkt_count b' \<and> noexpand t' \<noteq> 1
         then HASH_EXPAND_BUCKETS t' else t')"

definition HASH_ADD :: "UT_hash_table option \<Rightarrow> bytes \<Rightarrow> ptr \<Rightarrow> UT_hash_table option" where
  "HASH_ADD head k el =
     (let t = (case head of None \<Rightarrow> HASH_MAKE_TABLE | Some t \<Rightarrow> t);
          h = \<lparr>elem = el, hkey = k, hashv = HASH_JEN k\<rparr>;
          t1 = t\<lparr>app_order := app_order t @ [h], num_items := num_items t + 1\<rparr>
      in Some (HASH_ADD_TO_BKT t1 (HASH_TO_BKT (hashv h) (num_buckets t1)) h))"

subsection \<open>Deletion\<close>

definition HASH_DEL_IN_BKT :: "UT_hash_bucket \<Rightarrow> handle \<Rightarrow> UT_hash_bucket" where
  "HASH_DEL_IN_BKT b h = b\<lparr>bkt_count := bkt_count b - 1, chain := remove1 h (chain b)\<rparr>"

text \<open>The handle of an element; without one \<^verbatim>\<open>HASH_DELETE\<close> would follow pointers that were never set.\<close>

definition handle_of :: "UT_hash_table \<Rightarrow> ptr \<Rightarrow> handle option" where
  "handle_of t el = find (\<lambda>h. elem h = el) (app_order t)"

definition HASH_DELETE :: "UT_hash_table option \<Rightarrow> ptr \<Rightarrow> UT_hash_table option option" where
  "HASH_DELETE head el =
     do { t \<leftarrow> head;
          h \<leftarrow> handle_of t el;
          if length (app_order t) = 1 then Some None
          else let i = HASH_TO_BKT (hashv h) (num_buckets t) in
            Some (Some (t\<lparr>app_order := remove1 h (app_order t),
                          buckets := (buckets t)(i := HASH_DEL_IN_BKT (buckets t i) h),
                          num_items := num_items t - 1\<rparr>)) }"

definition HASH_CNT :: "UT_hash_table option \<Rightarrow> u32" where
  "HASH_CNT head = (case head of None \<Rightarrow> 0 | Some t \<Rightarrow> num_items t)"

section \<open>Invariant\<close>

definition all_handles :: "UT_hash_table \<Rightarrow> handle list" where
  "all_handles t = concat (map (\<lambda>i. chain (buckets t i)) [0..<unat (num_buckets t)])"

definition sized :: "UT_hash_table \<Rightarrow> nat \<Rightarrow> bool" where
  "sized t k \<longleftrightarrow> k \<le> 31 \<and> num_buckets t = 2 ^ k \<and> log2_num_buckets t = of_nat k"

text \<open>Every handle hangs in the bucket its hash names, and the counters count.\<close>

definition placed :: "UT_hash_table \<Rightarrow> bool" where
  "placed t \<longleftrightarrow>
     (\<forall>i < unat (num_buckets t). bkt_count (buckets t i) = of_nat (length (chain (buckets t i))) \<and>
        (\<forall>h \<in> set (chain (buckets t i)). HASH_TO_BKT (hashv h) (num_buckets t) = i))"

definition listed :: "UT_hash_table \<Rightarrow> bool" where
  "listed t \<longleftrightarrow>
     mset (all_handles t) = mset (app_order t) \<and> num_items t = of_nat (length (app_order t)) \<and>
     length (app_order t) < 2 ^ 32 \<and> (\<forall>h \<in> set (app_order t). hashv h = HASH_JEN (hkey h)) \<and>
     distinct (map hkey (app_order t)) \<and> distinct (map elem (app_order t))"

definition ht_inv :: "UT_hash_table option \<Rightarrow> bool" where
  "ht_inv head \<longleftrightarrow> (case head of None \<Rightarrow> True
     | Some t \<Rightarrow> (\<exists>k. sized t k) \<and> placed t \<and> listed t \<and> app_order t \<noteq> [])"

definition ht_map :: "UT_hash_table option \<Rightarrow> bytes \<Rightarrow> ptr option" where
  "ht_map head = (case head of None \<Rightarrow> Map.empty
     | Some t \<Rightarrow> map_of (map (\<lambda>h. (hkey h, elem h)) (app_order t)))"

text \<open>
  Room for one more element: below \<open>2\<^sup>3\<^sup>2 - 1\<close> elements, and the array of buckets can still be doubled.
  With \<open>2\<^sup>3\<^sup>1\<close> buckets it would take 32 GB already.
\<close>

definition ht_room :: "UT_hash_table option \<Rightarrow> bool" where
  "ht_room head \<longleftrightarrow> (case head of None \<Rightarrow> True
     | Some t \<Rightarrow> length (app_order t) + 1 < 2 ^ 32 \<and> log2_num_buckets t < 31)"

lemma option_eqI: "(\<And>e. a = Some e \<longleftrightarrow> b = Some e) \<Longrightarrow> a = b"
  by (cases a; cases b) auto

subsection \<open>Buckets\<close>

lemma HASH_TO_BKT_mod: "k \<le> 31 \<Longrightarrow> HASH_TO_BKT hv (2 ^ k) = unat hv mod 2 ^ k"
proof -
  have "(2 :: u32) ^ k - 1 = mask k" by (simp add: mask_eq_exp_minus_1)
  then show "HASH_TO_BKT hv (2 ^ k) = unat hv mod 2 ^ k"
    by (simp only: HASH_TO_BKT_def flip: take_bit_eq_mask) (simp only: unsigned_take_bit_eq, simp add: take_bit_eq_mod)
qed

lemma unat_two_power: "k \<le> 31 \<Longrightarrow> unat (2 ^ k :: u32) = 2 ^ k"
proof -
  assume "k \<le> 31"
  then have "(2 :: nat) ^ k < 2 ^ 32" by (intro power_strict_increasing) simp_all
  then show "unat (2 ^ k :: u32) = 2 ^ k" using unat_of_nat [where 'a = 32, of "2 ^ k"] by (simp add: take_bit_nat_eq_self)
qed

lemma sized_bkt:
  assumes "sized t k"
  shows "unat (num_buckets t) = 2 ^ k" "HASH_TO_BKT hv (num_buckets t) = unat hv mod 2 ^ k"
    "HASH_TO_BKT hv (num_buckets t) < unat (num_buckets t)"
  using assms by (simp_all add: sized_def HASH_TO_BKT_mod unat_two_power)

lemma find_in_bkt: "HASH_FIND_IN_BKT k hs = map_of (map (\<lambda>h. (hkey h, elem h)) hs) k"
  by (induction hs) auto

lemma in_all_handles: "h \<in> set (all_handles t) \<longleftrightarrow> (\<exists>i < unat (num_buckets t). h \<in> set (chain (buckets t i)))"
  by (auto simp: all_handles_def)

lemma listed_set: "listed t \<Longrightarrow> set (all_handles t) = set (app_order t)"
  unfolding listed_def using mset_eq_setD by blast

lemma handle_in_bucket:
  assumes "sized t k" "placed t" "listed t"
  shows "h \<in> set (chain (buckets t (HASH_TO_BKT (HASH_JEN (hkey h)) (num_buckets t)))) \<longleftrightarrow> h \<in> set (app_order t)"
proof
  let ?i = "HASH_TO_BKT (HASH_JEN (hkey h)) (num_buckets t)"
  assume "h \<in> set (chain (buckets t ?i))"
  then have "h \<in> set (all_handles t)" using sized_bkt(3) [OF assms(1)] by (auto simp: in_all_handles)
  then show "h \<in> set (app_order t)" using listed_set [OF assms(3)] by simp
next
  let ?i = "HASH_TO_BKT (HASH_JEN (hkey h)) (num_buckets t)"
  assume h: "h \<in> set (app_order t)"
  then have "h \<in> set (all_handles t)" using listed_set [OF assms(3)] by simp
  then obtain i where i: "i < unat (num_buckets t)" "h \<in> set (chain (buckets t i))" by (auto simp: in_all_handles)
  moreover have "hashv h = HASH_JEN (hkey h)" using h assms(3) by (simp add: listed_def)
  ultimately have "?i = i" using assms(2) unfolding placed_def by metis
  with i show "h \<in> set (chain (buckets t ?i))" by simp
qed

lemma map_of_distinct:
  assumes "distinct (map hkey hs)"
  shows "map_of (map (\<lambda>h. (hkey h, elem h)) hs) k = Some e \<longleftrightarrow> (\<exists>h \<in> set hs. hkey h = k \<and> elem h = e)"
  using assms by (induction hs) (auto simp: image_iff)

lemma chain_distinct:
  assumes "listed t" "i < unat (num_buckets t)"
  shows "distinct (map hkey (chain (buckets t i)))"
proof -
  have "distinct (map hkey (all_handles t))"
    using assms(1) by (metis listed_def mset_map distinct_count_atmost_1 mset_eq_imp_distinct_iff)
  then show ?thesis
    using assms(2) by (auto simp: all_handles_def map_concat distinct_concat_iff)
qed

text \<open>\<^verbatim>\<open>HASH_FIND\<close> finds exactly what is in the table.\<close>

lemma HASH_FIND_eq:
  assumes "ht_inv head"
  shows "HASH_FIND head k = ht_map head k"
proof (cases head)
  case (Some t)
  obtain n where n: "sized t n" "placed t" "listed t" using assms Some by (auto simp: ht_inv_def)
  let ?i = "HASH_TO_BKT (HASH_JEN k) (num_buckets t)"
  have d: "distinct (map hkey (chain (buckets t ?i)))" "distinct (map hkey (app_order t))"
    using chain_distinct [OF n(3) sized_bkt(3) [OF n(1)]] n(3) by (simp_all add: listed_def)
  have "HASH_FIND head k = Some e \<longleftrightarrow> ht_map head k = Some e" for e
    using handle_in_bucket [OF n] by (simp add: Some HASH_FIND_def ht_map_def find_in_bkt map_of_distinct d) metis
  then show ?thesis by (rule option_eqI)
qed (simp add: HASH_FIND_def ht_map_def)

subsection \<open>Expansion\<close>

lemma count_concat_upt:
  "count (mset (concat (map g [0..<n]))) x = (\<Sum>i<n. count (mset (g i)) x)"
  by (induction n) simp_all

lemma count_filter_eq: "count (mset (filter (\<lambda>h. f h = i) hs)) x = (if f x = i then count (mset hs) x else 0)"
  by (induction hs) auto

lemma mset_partition:
  assumes "\<And>i. i < n \<Longrightarrow> mset (g i) = mset (filter (\<lambda>h. f h = i) hs)" "\<forall>h \<in> set hs. f h < n"
  shows "mset (concat (map g [0..<n])) = mset hs"
proof (rule multiset_eqI)
  fix x
  have "count (mset (concat (map g [0..<n]))) x = (\<Sum>i<n. if i = f x then count (mset hs) x else 0)"
    unfolding count_concat_upt by (rule sum.cong) (auto simp: assms(1) count_filter_eq)
  also have "\<dots> = (if f x < n then count (mset hs) x else 0)" by simp
  also have "\<dots> = count (mset hs) x" using assms(2) by (cases "x \<in> set hs") (simp_all add: count_mset_0_iff)
  finally show "count (mset (concat (map g [0..<n]))) x = count (mset hs) x" .
qed

text \<open>Moving all handles sorts them by their new bucket, newest first.\<close>

lemma fold_move_handle:
  "chain (fst (fold (move_handle n ideal) hs (bs, m)) i) = rev (filter (\<lambda>h. HASH_TO_BKT (hashv h) n = i) hs) @ chain (bs i)"
  "bkt_count (fst (fold (move_handle n ideal) hs (bs, m)) i) =
     of_nat (length (filter (\<lambda>h. HASH_TO_BKT (hashv h) n = i) hs)) + bkt_count (bs i)"
  by (induction hs arbitrary: bs m) (auto simp: move_handle_def Let_def)

lemma expand_buckets:
  "chain (buckets (HASH_EXPAND_BUCKETS t) i) = rev (filter (\<lambda>h. HASH_TO_BKT (hashv h) (num_buckets t * 2) = i) (all_handles t))"
  "bkt_count (buckets (HASH_EXPAND_BUCKETS t) i) =
     of_nat (length (filter (\<lambda>h. HASH_TO_BKT (hashv h) (num_buckets t * 2) = i) (all_handles t)))"
  "num_buckets (HASH_EXPAND_BUCKETS t) = num_buckets t * 2" "log2_num_buckets (HASH_EXPAND_BUCKETS t) = log2_num_buckets t + 1"
  "app_order (HASH_EXPAND_BUCKETS t) = app_order t" "num_items (HASH_EXPAND_BUCKETS t) = num_items t"
  by (simp_all add: HASH_EXPAND_BUCKETS_def Let_def split_beta fold_move_handle flip: all_handles_def)

lemma expand_sized:
  assumes "sized t k" "log2_num_buckets t < 31"
  shows "sized (HASH_EXPAND_BUCKETS t) (Suc k)"
proof -
  have "of_nat k < (31 :: u32)" "k \<le> 31" using assms by (simp_all add: sized_def)
  then have "k < 31" by (cases "k = 31") simp_all
  then show ?thesis using assms(1) by (simp add: sized_def expand_buckets mult.commute add.commute)
qed

lemma expand_keeps:
  assumes "sized t k" "listed t" "log2_num_buckets t < 31"
  shows "placed (HASH_EXPAND_BUCKETS t)" "listed (HASH_EXPAND_BUCKETS t)"
proof -
  let ?e = "HASH_EXPAND_BUCKETS t"
  have "mset (all_handles ?e) = mset (all_handles t)" unfolding all_handles_def [of ?e]
    by (rule mset_partition [where f = "\<lambda>h. HASH_TO_BKT (hashv h) (num_buckets ?e)"])
      (simp_all add: expand_buckets(1-3) sized_bkt(3) [OF expand_sized [OF assms(1,3)], unfolded expand_buckets(3)])
  then show "listed ?e" using assms(2) by (simp add: listed_def expand_buckets)
  show "placed ?e" by (simp add: placed_def expand_buckets)
qed

text \<open>The ideal chain length, by which the expansion divides, is not zero for a table that is not empty.\<close>

lemma ideal_chain_maxlen_positive:
  assumes "sized t k" "num_items t \<noteq> 0" "log2_num_buckets t < 31"
  shows "ideal_chain_maxlen (HASH_EXPAND_BUCKETS t) \<noteq> 0"
proof -
  let ?q = "drop_bit (Suc k) (num_items t)" and ?e = "HASH_EXPAND_BUCKETS t"
  have e: "sized ?e (Suc k)" by (rule expand_sized [OF assms(1,3)])
  then have k: "Suc k \<le> 31" by (simp add: sized_def)
  have low: "num_items t AND (num_buckets t * 2 - 1) = take_bit (Suc k) (num_items t)"
    using assms(1) by (simp add: sized_def take_bit_eq_mask mask_eq_exp_minus_1 mult.commute)
  have "log2_num_buckets t + 1 = of_nat (Suc k)" using assms(1) by (simp add: sized_def)
  then have "unat (log2_num_buckets t + 1) = Suc k"
    using k by (simp only: unat_of_nat) (simp add: take_bit_nat_eq_self)
  then have i: "ideal_chain_maxlen ?e = ?q + (if take_bit (Suc k) (num_items t) \<noteq> 0 then 1 else 0)"
    by (simp add: HASH_EXPAND_BUCKETS_def Let_def split_beta low)
  have "?q + 1 \<noteq> 0"
  proof
    assume "?q + 1 = 0"
    then have "?q = - 1" by (simp add: eq_neg_iff_add_eq_0)
    then have "bit ?q 31 = bit (- 1 :: u32) 31" by simp
    then show False by (auto simp: bit_simps dest: bit_imp_le_length)
  qed
  moreover have "?q = 0 \<Longrightarrow> take_bit (Suc k) (num_items t) \<noteq> 0"
    using assms(2) bits_ident [of "Suc k" "num_items t"] by auto
  ultimately show ?thesis by (auto simp: i)
qed

subsection \<open>Insertion\<close>

lemma concat_upd:
  assumes "i < n"
  shows "mset (concat (map (\<lambda>j. chain ((bs(i := b\<lparr>chain := c\<rparr>)) j)) [0..<n])) + mset (chain (bs i)) =
    mset (concat (map (\<lambda>j. chain (bs j)) [0..<n])) + mset c"
  using assms by (induction n) (auto simp: less_Suc_eq intro!: arg_cong [where f = "\<lambda>l. mset (concat l)"])

text \<open>The table with the handle in its list and its bucket, before any expansion.\<close>

definition hung :: "UT_hash_table \<Rightarrow> handle \<Rightarrow> UT_hash_table" where
  "hung t h = (let i = HASH_TO_BKT (hashv h) (num_buckets t); b = buckets t i in
     t\<lparr>app_order := app_order t @ [h], num_items := num_items t + 1,
       buckets := (buckets t)(i := b\<lparr>bkt_count := bkt_count b + 1, chain := h # chain b\<rparr>)\<rparr>)"

lemma HASH_ADD_hung:
  assumes "h = \<lparr>elem = el, hkey = k, hashv = HASH_JEN k\<rparr>" "t = (case head of None \<Rightarrow> HASH_MAKE_TABLE | Some t \<Rightarrow> t)"
  shows "HASH_ADD head k el = Some (hung t h) \<or> HASH_ADD head k el = Some (HASH_EXPAND_BUCKETS (hung t h))"
  unfolding HASH_ADD_def HASH_ADD_TO_BKT_def hung_def Let_def assms(2) [symmetric] by (simp add: assms(1))

lemma hung_keeps:
  assumes "sized t k" "placed t" "listed t" "hashv h = HASH_JEN (hkey h)" "length (app_order t) + 1 < 2 ^ 32"
    "hkey h \<notin> hkey ` set (app_order t)" "elem h \<notin> elem ` set (app_order t)"
  shows "sized (hung t h) k" "placed (hung t h)" "listed (hung t h)"
proof -
  let ?i = "HASH_TO_BKT (hashv h) (num_buckets t)"
  show "sized (hung t h) k" using assms(1) by (simp add: hung_def sized_def Let_def)
  show "placed (hung t h)" using assms(2) by (auto simp: hung_def placed_def Let_def)
  have "mset (all_handles (hung t h)) + mset (chain (buckets t ?i)) = mset (all_handles t) + mset (h # chain (buckets t ?i))"
    using concat_upd [OF sized_bkt(3) [OF assms(1)], of "buckets t" "hashv h"]
    by (simp add: all_handles_def hung_def Let_def)
  then have "mset (all_handles (hung t h)) = add_mset h (mset (app_order t))"
    using assms(3) by (simp add: listed_def)
  then show "listed (hung t h)" using assms(3-7) by (simp add: listed_def hung_def Let_def)
qed

lemma make_table: "sized HASH_MAKE_TABLE 5" "placed HASH_MAKE_TABLE" "listed HASH_MAKE_TABLE"
  by (simp_all add: HASH_MAKE_TABLE_def sized_def placed_def listed_def all_handles_def HASH_INITIAL_NUM_BUCKETS_def
      HASH_INITIAL_NUM_BUCKETS_LOG2_def)

lemma ht_map_Some:
  assumes "ht_inv head" "head = Some t"
  shows "ht_map head k = Some e \<longleftrightarrow> (\<exists>h \<in> set (app_order t). hkey h = k \<and> elem h = e)"
  using assms by (simp add: ht_inv_def listed_def ht_map_def map_of_distinct)

lemma map_of_handles_None: "map_of (map (\<lambda>h. (hkey h, elem h)) hs) k = None \<longleftrightarrow> k \<notin> hkey ` set hs"
  by (simp add: map_of_eq_None_iff image_image)

lemma ht_map_app_order:
  assumes "app_order t' = app_order t @ [\<lparr>elem = el, hkey = k, hashv = hv\<rparr>]" "k \<notin> hkey ` set (app_order t)"
  shows "ht_map (Some t') = (map_of (map (\<lambda>h. (hkey h, elem h)) (app_order t)))(k \<mapsto> el)"
proof -
  have "dom (map_of (map (\<lambda>h. (hkey h, elem h)) (app_order t))) \<inter> dom [k \<mapsto> el] = {}"
    using assms(2) by (simp add: domIff map_of_handles_None)
  from map_add_comm [OF this] show ?thesis by (simp add: ht_map_def assms(1))
qed

text \<open>Insertion of a new key and a new element keeps the invariant, with expansion or without, and extends the map.\<close>

lemma HASH_ADD_ok:
  assumes "ht_inv head" "ht_room head" "ht_map head k = None" "\<forall>k'. ht_map head k' \<noteq> Some el"
  shows "ht_inv (HASH_ADD head k el)" "ht_map (HASH_ADD head k el) = (ht_map head)(k \<mapsto> el)"
proof -
  define t where "t = (case head of None \<Rightarrow> HASH_MAKE_TABLE | Some t \<Rightarrow> t)"
  define h where "h = \<lparr>elem = el, hkey = k, hashv = HASH_JEN k\<rparr>"
  obtain n where n: "sized t n" "placed t" "listed t" "log2_num_buckets t < 31" "length (app_order t) + 1 < 2 ^ 32"
    "ht_map head = map_of (map (\<lambda>h. (hkey h, elem h)) (app_order t))"
    using make_table assms(1,2) by (cases head) (auto simp: t_def ht_inv_def ht_room_def ht_map_def HASH_MAKE_TABLE_def
        HASH_INITIAL_NUM_BUCKETS_LOG2_def)
  have fresh: "k \<notin> hkey ` set (app_order t)" "el \<notin> elem ` set (app_order t)"
    using assms(3,4) n(3) by (auto simp: n(6) map_of_eq_None_iff image_image map_of_distinct listed_def)
  have hung: "sized (hung t h) n" "placed (hung t h)" "listed (hung t h)"
    by (rule hung_keeps [OF n(1-3) _ n(5)]; use fresh in \<open>simp add: h_def\<close>)+
  have l: "log2_num_buckets (hung t h) < 31" "app_order (hung t h) = app_order t @ [h]"
    using n(4) by (simp_all add: hung_def Let_def)
  have "HASH_ADD head k el \<in> {Some (hung t h), Some (HASH_EXPAND_BUCKETS (hung t h))}"
    using HASH_ADD_hung [OF h_def t_def] by blast
  moreover have "(\<exists>m. sized t' m) \<and> placed t' \<and> listed t' \<and> app_order t' = app_order t @ [h]"
    if "t' \<in> {hung t h, HASH_EXPAND_BUCKETS (hung t h)}" for t'
    using that hung l(2) expand_sized [OF hung(1) l(1)] expand_keeps [OF hung(1,3) l(1)] expand_buckets(5) by auto
  ultimately obtain t' where t': "HASH_ADD head k el = Some t'" "\<exists>m. sized t' m" "placed t'" "listed t'"
      "app_order t' = app_order t @ [h]"
    by (metis insert_iff singletonD)
  show "ht_inv (HASH_ADD head k el)" using t' by (simp add: ht_inv_def)
  show "ht_map (HASH_ADD head k el) = (ht_map head)(k \<mapsto> el)"
    unfolding t'(1) n(6) by (rule ht_map_app_order [OF t'(5) [unfolded h_def] fresh(1)])
qed

subsection \<open>Deletion\<close>

lemma distinct_map_remove1: "distinct (map f xs) \<Longrightarrow> distinct (map f (remove1 x xs))"
  by (auto simp: distinct_map distinct_remove1 intro: inj_on_diff)

lemma map_of_remove1:
  assumes "distinct (map hkey hs)" "h \<in> set hs"
  shows "map_of (map (\<lambda>h. (hkey h, elem h)) (remove1 h hs)) = (map_of (map (\<lambda>h. (hkey h, elem h)) hs))(hkey h := None)"
proof
  fix x
  have "set (remove1 h hs) = set hs - {h}" using assms(1) by (simp add: set_remove1_eq distinct_map)
  moreover have "h' = h" if "h' \<in> set hs" "hkey h' = hkey h" for h'
    using assms that by (metis distinct_map inj_onD)
  ultimately have "map_of (map (\<lambda>h. (hkey h, elem h)) (remove1 h hs)) x = Some e \<longleftrightarrow>
      ((map_of (map (\<lambda>h. (hkey h, elem h)) hs))(hkey h := None)) x = Some e" for e
    using assms by (auto simp: map_of_distinct distinct_map_remove1)
  then show "map_of (map (\<lambda>h. (hkey h, elem h)) (remove1 h hs)) x =
      ((map_of (map (\<lambda>h. (hkey h, elem h)) hs))(hkey h := None)) x"
    by (rule option_eqI)
qed

lemma of_nat_length_remove1:
  "h \<in> set hs \<Longrightarrow> (of_nat (length (remove1 h hs)) :: u32) = of_nat (length hs) - 1"
  by (cases "length hs") (auto simp: length_remove1)

text \<open>The table with the handle taken out.\<close>

definition unhung :: "UT_hash_table \<Rightarrow> handle \<Rightarrow> UT_hash_table" where
  "unhung t h = (let i = HASH_TO_BKT (hashv h) (num_buckets t) in
     t\<lparr>app_order := remove1 h (app_order t), buckets := (buckets t)(i := HASH_DEL_IN_BKT (buckets t i) h),
       num_items := num_items t - 1\<rparr>)"

lemma placed_upd:
  assumes "placed t" "num_buckets t' = num_buckets t" "buckets t' = (buckets t)(i := b)"
    "bkt_count b = of_nat (length (chain b))" "set (chain b) \<subseteq> set (chain (buckets t i))"
  shows "placed t'"
  unfolding placed_def assms(2,3)
proof (intro allI impI conjI ballI)
  fix j assume j: "j < unat (num_buckets t)"
  have P: "bkt_count (buckets t j) = of_nat (length (chain (buckets t j)))"
    "\<And>x. x \<in> set (chain (buckets t j)) \<Longrightarrow> HASH_TO_BKT (hashv x) (num_buckets t) = j"
    using assms(1) j unfolding placed_def by blast+
  show "bkt_count (((buckets t)(i := b)) j) = of_nat (length (chain (((buckets t)(i := b)) j)))" using P(1) assms(4) by simp
  fix x assume "x \<in> set (chain (((buckets t)(i := b)) j))"
  then show "HASH_TO_BKT (hashv x) (num_buckets t) = j" using P(2) assms(5) by (cases "j = i") auto
qed

lemma bucket_counts:
  assumes "sized t k" "placed t"
  shows "bkt_count (buckets t (HASH_TO_BKT hv (num_buckets t))) = of_nat (length (chain (buckets t (HASH_TO_BKT hv (num_buckets t)))))"
  using sized_bkt(3) [OF assms(1)] assms(2) unfolding placed_def by blast

lemma unhung_keeps:
  assumes "sized t k" "placed t" "listed t" "h \<in> set (app_order t)"
  shows "sized (unhung t h) k" "placed (unhung t h)" "listed (unhung t h)"
proof -
  let ?i = "HASH_TO_BKT (hashv h) (num_buckets t)"
  have h: "h \<in> set (chain (buckets t ?i))"
    using handle_in_bucket [OF assms(1-3), of h] assms(3,4) by (simp add: listed_def)
  show "sized (unhung t h) k" using assms(1) by (simp add: unhung_def sized_def Let_def)
  show "placed (unhung t h)"
    by (rule placed_upd [OF assms(2), of _ ?i "HASH_DEL_IN_BKT (buckets t ?i) h"])
      (simp_all add: unhung_def Let_def HASH_DEL_IN_BKT_def of_nat_length_remove1 [OF h] set_remove1_subset bucket_counts [OF assms(1,2)])
  have "mset (all_handles (unhung t h)) + mset (chain (buckets t ?i)) = mset (all_handles t) + (mset (chain (buckets t ?i)) - {#h#})"
    using concat_upd [OF sized_bkt(3) [OF assms(1), of "hashv h"], where bs = "buckets t" and c = "remove1 h (chain (buckets t ?i))"]
    by (simp add: all_handles_def unhung_def Let_def HASH_DEL_IN_BKT_def)
  moreover obtain D where "mset (chain (buckets t ?i)) = add_mset h D" using h by (metis multi_member_split set_mset_mset)
  ultimately have "add_mset h (mset (all_handles (unhung t h))) = mset (all_handles t)" by simp
  then have "mset (all_handles (unhung t h)) = mset (remove1 h (app_order t))"
    using assms(3) by (metis add_mset_remove_trivial listed_def mset_remove1)
  moreover have "set (remove1 h (app_order t)) \<subseteq> set (app_order t)" by (rule set_remove1_subset)
  moreover have "length (remove1 h (app_order t)) \<le> length (app_order t)" by (simp add: length_remove1)
  ultimately show "listed (unhung t h)"
    using assms(3,4) unfolding listed_def unhung_def Let_def
    by (simp add: of_nat_length_remove1 distinct_map_remove1 subset_iff del: mset_remove1)
qed

lemma handle_of_Some:
  assumes "listed t" "h \<in> set (app_order t)"
  shows "handle_of t (elem h) = Some h"
proof -
  obtain h' where h': "handle_of t (elem h) = Some h'"
    using assms(2) by (cases "handle_of t (elem h)") (auto simp: handle_of_def find_None_iff)
  then have "h' \<in> set (app_order t)" "elem h' = elem h"
    unfolding handle_of_def by (auto simp: find_Some_iff)
  moreover have "inj_on elem (set (app_order t))" using assms(1) by (simp add: listed_def distinct_map)
  ultimately have "h' = h" using assms(2) by (simp add: inj_on_def)
  with h' show ?thesis by simp
qed

text \<open>Deletion of an element removes its key and nothing else.\<close>

lemma HASH_DELETE_ok:
  assumes "ht_inv head" "ht_map head k = Some el"
  shows "\<exists>head'. HASH_DELETE head el = Some head' \<and> ht_inv head' \<and> ht_map head' = (ht_map head)(k := None)"
proof -
  obtain t where t: "head = Some t" using assms(2) by (cases head) (auto simp: ht_map_def)
  then obtain n where n: "sized t n" "placed t" "listed t" using assms(1) by (auto simp: ht_inv_def)
  obtain h where h: "h \<in> set (app_order t)" "hkey h = k" "elem h = el"
    using assms(2) ht_map_Some [OF assms(1) t] by auto
  have del: "HASH_DELETE head el = Some (if length (app_order t) = 1 then None else Some (unhung t h))"
    using handle_of_Some [OF n(3) h(1)] by (simp add: t h HASH_DELETE_def unhung_def Let_def)
  have map: "map_of (map (\<lambda>h. (hkey h, elem h)) (remove1 h (app_order t))) = (ht_map head)(k := None)"
    using map_of_remove1 [OF _ h(1)] n(3) by (simp add: t h(2) ht_map_def listed_def)
  show ?thesis
  proof (cases "length (app_order t) = 1")
    case True
    then have "remove1 h (app_order t) = []" using h(1) by (cases "app_order t") auto
    then show ?thesis using True del map by (simp add: ht_inv_def ht_map_def)
  next
    case False
    then have "app_order (unhung t h) \<noteq> []" using h(1) by (cases "app_order t") (auto simp: unhung_def Let_def)
    then have "ht_inv (Some (unhung t h))" unfolding ht_inv_def using unhung_keeps [OF n h(1)] by simp blast
    moreover have "app_order (unhung t h) = remove1 h (app_order t)" by (simp add: unhung_def Let_def)
    then have "ht_map (Some (unhung t h)) = (ht_map head)(k := None)"
      by (simp only: ht_map_def [of "Some (unhung t h)"] option.case map)
    ultimately show ?thesis using False del by simp
  qed
qed

lemma HASH_CNT_zero:
  assumes "ht_inv head"
  shows "HASH_CNT head = 0 \<longleftrightarrow> (\<forall>k. ht_map head k = None)"
proof (cases head)
  case (Some t)
  then have "app_order t \<noteq> []" "num_items t = of_nat (length (app_order t))" "length (app_order t) < 2 ^ 32"
    using assms by (simp_all add: ht_inv_def listed_def)
  moreover from this have "unat (num_items t) = length (app_order t)" by (simp add: unat_of_nat take_bit_nat_eq_self)
  ultimately have "num_items t \<noteq> 0" "hd (app_order t) \<in> set (app_order t)" by auto
  moreover from this have "ht_map head (hkey (hd (app_order t))) = Some (elem (hd (app_order t)))"
    by (auto simp: ht_map_Some [OF assms Some])
  ultimately show ?thesis using Some by (metis HASH_CNT_def option.distinct(1) option.simps(5))
qed (simp add: HASH_CNT_def ht_map_def)

section \<open>The contract of a keyed table\<close>

text \<open>
  What the users of \<^verbatim>\<open>uthash.h\<close> rely on: a finite map from keys to elements, no element under two keys.
\<close>

locale keyed_table =
  fixes find :: "'h \<Rightarrow> bytes \<Rightarrow> ptr option" and add :: "'h \<Rightarrow> bytes \<Rightarrow> ptr \<Rightarrow> 'h" and del :: "'h \<Rightarrow> ptr \<Rightarrow> 'h option"
    and cnt :: "'h \<Rightarrow> u32" and inv :: "'h \<Rightarrow> bool" and room :: "'h \<Rightarrow> bool" and nil :: 'h
  assumes inv_nil: "inv nil" and find_nil: "find nil k = None"
    and inv_add: "inv h \<Longrightarrow> room h \<Longrightarrow> find h k = None \<Longrightarrow> \<forall>k'. find h k' \<noteq> Some e \<Longrightarrow> inv (add h k e)"
    and find_add: "inv h \<Longrightarrow> room h \<Longrightarrow> find h k = None \<Longrightarrow> \<forall>k'. find h k' \<noteq> Some e \<Longrightarrow> find (add h k e) = (find h)(k \<mapsto> e)"
    and del: "inv h \<Longrightarrow> find h k = Some e \<Longrightarrow> \<exists>h'. del h e = Some h' \<and> inv h' \<and> find h' = (find h)(k := None)"
    and inj: "inv h \<Longrightarrow> find h k = Some e \<Longrightarrow> find h k' = Some e \<Longrightarrow> k = k'"
    and cnt: "inv h \<Longrightarrow> cnt h = 0 \<longleftrightarrow> find h = Map.empty"
begin

lemma del_add:
  assumes "inv h" "room h" "find h k = None" "\<forall>k'. find h k' \<noteq> Some e"
  shows "\<exists>h'. del (add h k e) e = Some h' \<and> inv h' \<and> find h' = find h"
proof -
  have f: "find (add h k e) = (find h)(k \<mapsto> e)" by (rule find_add [OF assms])
  then have "\<exists>h'. del (add h k e) e = Some h' \<and> inv h' \<and> find h' = (find (add h k e))(k := None)"
    by (intro del inv_add assms) simp
  moreover have "(find (add h k e))(k := None) = find h" using assms(3) by (auto simp: f)
  ultimately show ?thesis by simp
qed

text \<open>Looking up, and adding what is missing, as the users do.\<close>

lemma find_or_add:
  assumes "inv h" "room h" "\<forall>k'. find h k' \<noteq> Some e"
    and h'_def: "h' = (case find h k of None \<Rightarrow> add h k e | Some _ \<Rightarrow> h)"
  shows "inv h' \<and> find h' = (find h)(k \<mapsto> (case find h k of None \<Rightarrow> e | Some e' \<Rightarrow> e'))"
proof (cases "find h k")
  case None then show ?thesis using inv_add [OF assms(1,2) None assms(3)] find_add [OF assms(1,2) None assms(3)] by (simp add: h'_def)
next
  case (Some e') then show ?thesis using assms(1) by (simp add: h'_def fun_upd_idem)
qed

text \<open>A table is empty after the deletion exactly if it had only this element.\<close>

lemma cnt_del:
  assumes "inv h" "find h k = Some e" "del h e = Some h'"
  shows "cnt h' = 0 \<longleftrightarrow> dom (find h) = {k}"
proof -
  have "inv h'" "find h' = (find h)(k := None)" using del [OF assms(1,2)] assms(3) by auto
  moreover have "k \<in> dom (find h)" using assms(2) by auto
  ultimately show ?thesis using cnt [of h'] by (auto simp: dom_def fun_eq_iff split: if_splits)
qed

end

lemma ht_map_inj:
  assumes "ht_inv head" "ht_map head k = Some e" "ht_map head k' = Some e"
  shows "k = k'"
proof -
  obtain t where t: "head = Some t" using assms(2) by (cases head) (auto simp: ht_map_def)
  then have "inj_on elem (set (app_order t))" using assms(1) by (simp add: ht_inv_def listed_def distinct_map)
  then show ?thesis using assms(2,3) by (auto simp: ht_map_Some [OF assms(1) t] inj_on_def)
qed

interpretation ut: keyed_table HASH_FIND HASH_ADD HASH_DELETE HASH_CNT ht_inv ht_room None
proof (unfold_locales, goal_cases)
  case (3 h k e) then show ?case using HASH_ADD_ok(1) [of h k e] by (simp add: HASH_FIND_eq)
next
  case (4 h k e) then show ?case
    using HASH_ADD_ok [of h k e] by (simp add: HASH_FIND_eq fun_eq_iff)
next
  case (5 h k e) then obtain h' where "HASH_DELETE h e = Some h'" "ht_inv h'" "ht_map h' = (ht_map h)(k := None)"
    using HASH_DELETE_ok [of h k e] by (auto simp: HASH_FIND_eq)
  then show ?case using 5(1) by (auto simp: HASH_FIND_eq fun_eq_iff)
next
  case (6 h k e k') then show ?case using ht_map_inj [of h k e k'] by (simp add: HASH_FIND_eq)
next
  case (7 h) then show ?case using HASH_CNT_zero [of h] by (simp add: HASH_FIND_eq fun_eq_iff)
qed (simp_all add: ht_inv_def HASH_FIND_def)

text \<open>C11: The hash tables of \<^verbatim>\<open>uthash.h\<close> implement finite maps from byte strings to elements. In a well-formed
  table \<^verbatim>\<open>HASH_FIND\<close> returns what the map has; \<^verbatim>\<open>HASH_ADD\<close> of a new element under a new key extends
  the map by this pair, whether or not the insertion makes the table double its buckets; \<^verbatim>\<open>HASH_DELETE\<close> of an
  element removes its key only; both keep the table well-formed; and \<^verbatim>\<open>HASH_CNT\<close> is zero for the empty map only.
\<close>

theorem uthash_implements_map:
  assumes "ht_inv head"
  shows "(\<forall>k. HASH_FIND head k = ht_map head k) \<and>
    (\<forall>k el. ht_room head \<and> ht_map head k = None \<and> el \<notin> ran (ht_map head) \<longrightarrow>
       ht_inv (HASH_ADD head k el) \<and> ht_map (HASH_ADD head k el) = (ht_map head)(k \<mapsto> el)) \<and>
    (\<forall>k el. ht_map head k = Some el \<longrightarrow>
       (\<exists>head'. HASH_DELETE head el = Some head' \<and> ht_inv head' \<and> ht_map head' = (ht_map head)(k := None))) \<and>
    (HASH_CNT head = 0 \<longleftrightarrow> ht_map head = Map.empty)"
  using assms HASH_FIND_eq HASH_ADD_ok HASH_DELETE_ok HASH_CNT_zero by (simp add: ran_def fun_eq_iff)

theorem uthash_implements_map_witness:
  "ht_inv None \<and> ht_inv (HASH_ADD None [1, 2, 3] 7) \<and> HASH_FIND (HASH_ADD None [1, 2, 3] 7) [1, 2, 3] = Some 7 \<and>
   (\<exists>head'. HASH_DELETE (HASH_ADD None [1, 2, 3] 7) 7 = Some head' \<and> ht_map head' = Map.empty)"
proof -
  have n: "ht_inv None" "ht_room None" "ht_map None = Map.empty" by (simp_all add: ht_inv_def ht_room_def ht_map_def)
  have a: "ht_inv (HASH_ADD None [1, 2, 3] 7)" "ht_map (HASH_ADD None [1, 2, 3] 7) = [[1, 2, 3] \<mapsto> 7]"
    using uthash_implements_map [OF n(1)] n by auto
  have d: "([[1, 2, 3] \<mapsto> 7] :: bytes \<Rightarrow> ptr option)([1, 2, 3] := None) = Map.empty" by auto
  from a(2) have k: "ht_map (HASH_ADD None [1, 2, 3] 7) [1, 2, 3] = Some 7" by simp
  have "HASH_FIND (HASH_ADD None [1, 2, 3] 7) [1, 2, 3] = Some 7" using uthash_implements_map [OF a(1)] k by metis
  moreover have "\<exists>head'. HASH_DELETE (HASH_ADD None [1, 2, 3] 7) 7 = Some head' \<and> ht_map head' = Map.empty"
    using uthash_implements_map [OF a(1)] k a(2) d by metis
  ultimately show ?thesis using n(1) a(1) by blast
qed

end
