(* ===== verification/UtList.thy ===== *)
theory UtList
imports Prelude
begin

text \<open>
  The singly linked lists of \<^verbatim>\<open>include/utlist.h\<close>, which the registries of the extensions are built from: the
  macros \<^verbatim>\<open>LL_APPEND\<close>, \<^verbatim>\<open>LL_DELETE\<close> and \<^verbatim>\<open>LL_FOREACH\<close> on the store of the \<^verbatim>\<open>next\<close> fields. A loop along a
  cycle does not return (\<^const>\<open>None\<close>). A list in the store is related to the sequence of its elements; appending and
  deleting act on the sequence, and several lists can live in one store.
\<close>

section \<open>The macros\<close>

type_synonym nexts = "nat \<Rightarrow> nat option"

text \<open>\<^verbatim>\<open>while (_tmp->next) { _tmp = _tmp->next; }\<close>\<close>

partial_function (option) ll_last :: "nexts \<Rightarrow> nat \<Rightarrow> nat option" where
  "ll_last nx p = (case nx p of None \<Rightarrow> Some p | Some q \<Rightarrow> ll_last nx q)"

text \<open>\<^verbatim>\<open>while (_tmp->next && (_tmp->next != (del))) { _tmp = _tmp->next; }\<close>\<close>

partial_function (option) ll_before :: "nexts \<Rightarrow> nat \<Rightarrow> nat \<Rightarrow> nat option" where
  "ll_before nx d p = (case nx p of None \<Rightarrow> Some p | Some q \<Rightarrow> if q = d then Some p else ll_before nx d q)"

text \<open>\<^verbatim>\<open>for(el=head;el;el=(el)->next)\<close>: the elements visited by a body that leaves the list alone.\<close>

partial_function (option) LL_FOREACH :: "nexts \<Rightarrow> nat option \<Rightarrow> nat list option" where
  "LL_FOREACH nx head = (case head of None \<Rightarrow> Some []
     | Some p \<Rightarrow> Option.bind (LL_FOREACH nx (nx p)) (\<lambda>ps. Some (p # ps)))"

declare ll_last.simps [code] ll_before.simps [code] LL_FOREACH.simps [code]

definition LL_APPEND :: "nexts \<Rightarrow> nat option \<Rightarrow> nat \<Rightarrow> (nat option \<times> nexts) option" where
  "LL_APPEND nx head add =
     (let nx1 = nx(add := None) in
      case head of None \<Rightarrow> Some (Some add, nx1)
      | Some h \<Rightarrow> do { t \<leftarrow> ll_last nx1 h; Some (head, nx1(t := Some add)) })"

definition LL_DELETE :: "nexts \<Rightarrow> nat option \<Rightarrow> nat \<Rightarrow> (nat option \<times> nexts) option" where
  "LL_DELETE nx head del =
     (if head = Some del then Some (nx del, nx)
      else do { h \<leftarrow> head;
                t \<leftarrow> ll_before nx del h;
                Some (head, if nx t \<noteq> None then nx(t := nx del) else nx) })"

text \<open>\<^verbatim>\<open>calloc\<close> is given the addresses in use; it returns another one, or fails.\<close>

type_synonym callocs = "(nat \<Rightarrow> bool) \<Rightarrow> nat option"

definition calloc_ok :: "callocs \<Rightarrow> bool" where
  "calloc_ok calloc \<longleftrightarrow> (\<forall>used p. calloc used = Some p \<longrightarrow> \<not> used p)"

definition first_free :: callocs where
  "first_free used = find (\<lambda>p. \<not> used p) [1, 2, 3]"

lemma first_free_ok: "calloc_ok first_free"
  by (auto simp: calloc_ok_def first_free_def split: if_splits)

section \<open>Lists in the store\<close>

primrec ll :: "nexts \<Rightarrow> nat option \<Rightarrow> nat list \<Rightarrow> bool" where
  "ll nx p [] \<longleftrightarrow> p = None"
| "ll nx p (x # xs) \<longleftrightarrow> p = Some x \<and> ll nx (nx x) xs"

lemma ll_fun: "ll nx p xs \<Longrightarrow> ll nx p ys \<Longrightarrow> xs = ys"
proof (induction xs arbitrary: p ys)
  case (Cons x xs) then show ?case by (cases ys) auto
qed (case_tac ys, auto)

lemma ll_append: "ll nx p (xs @ y # ys) \<Longrightarrow> ll nx (Some y) (y # ys)"
  by (induction xs arbitrary: p) auto

lemma ll_distinct: "ll nx p xs \<Longrightarrow> distinct xs"
proof (induction xs arbitrary: p)
  case (Cons x xs)
  then have "distinct xs" by auto
  moreover have "x \<notin> set xs"
  proof
    assume "x \<in> set xs"
    then obtain us vs where "xs = us @ x # vs" by (auto dest: split_list)
    with Cons.prems have "ll nx (Some x) (x # vs)" "ll nx (Some x) (x # us @ x # vs)" using ll_append [of nx "nx x" us x vs] by auto
    from ll_fun [OF this] show False by simp
  qed
  ultimately show ?case by simp
qed simp

lemma ll_frame: "ll nx p xs \<Longrightarrow> a \<notin> set xs \<Longrightarrow> ll (nx(a := v)) p xs"
  by (induction xs arbitrary: p) auto

lemma ll_last_eq: "ll nx (Some x) (x # xs) \<Longrightarrow> ll_last nx x = Some (last (x # xs))"
  by (induction xs arbitrary: x) (auto simp: ll_last.simps)

lemma ll_set_last:
  "ll nx p (xs @ [y]) \<Longrightarrow> a \<notin> set (xs @ [y]) \<Longrightarrow> nx a = None \<Longrightarrow> distinct (xs @ [y]) \<Longrightarrow> ll (nx(y := Some a)) p (xs @ [y, a])"
  by (induction xs arbitrary: p) auto

lemma LL_FOREACH_eq: "ll nx p xs \<Longrightarrow> LL_FOREACH nx p = Some xs"
  by (induction xs arbitrary: p) (auto simp: LL_FOREACH.simps)

lemma LL_APPEND_ok:
  assumes "ll nx head xs" "a \<notin> set xs"
  shows "\<exists>head' nx'. LL_APPEND nx head a = Some (head', nx') \<and> ll nx' head' (xs @ [a]) \<and> (\<forall>b. b \<notin> set xs \<union> {a} \<longrightarrow> nx' b = nx b)"
proof (cases xs)
  case Nil then show ?thesis using assms by (simp add: LL_APPEND_def)
next
  case (Cons x ys)
  let ?nx = "nx(a := None)" and ?y = "last (x # ys)"
  have l: "ll ?nx (Some x) (x # ys)" "head = Some x" using ll_frame [OF assms] assms(1) Cons by auto
  have s: "x # ys = butlast (x # ys) @ [?y]" by simp
  have "ll (?nx(?y := Some a)) (Some x) (butlast (x # ys) @ [?y, a])"
    using l(1) ll_distinct [OF l(1)] assms(2) Cons s by (intro ll_set_last) (metis, metis, simp, metis)
  then have "ll (?nx(?y := Some a)) (Some x) (xs @ [a])" using Cons s by (metis append.assoc append_Cons append_Nil)
  moreover have "?y \<in> set xs" using Cons last_in_set [of "x # ys"] by simp
  ultimately show ?thesis using ll_last_eq [OF l(1)] by (auto simp: LL_APPEND_def l(2) Let_def)
qed

lemma ll_before_eq:
  "ll nx (Some x) (x # xs @ d # ys) \<Longrightarrow> d \<notin> set (x # xs) \<Longrightarrow> ll_before nx d x = Some (last (x # xs))"
  by (induction xs arbitrary: x) (auto simp: ll_before.simps)

lemma ll_unlink:
  "ll nx p (xs @ y # d # ys) \<Longrightarrow> distinct (xs @ y # d # ys) \<Longrightarrow> ll (nx(y := nx d)) p (xs @ y # ys)"
  by (induction xs arbitrary: p) (auto intro: ll_frame)

lemma LL_DELETE_ok:
  assumes "ll nx head xs" "d \<in> set xs"
  shows "\<exists>head' nx'. LL_DELETE nx head d = Some (head', nx') \<and> ll nx' head' (remove1 d xs) \<and> (\<forall>b. b \<notin> set xs \<longrightarrow> nx' b = nx b)"
proof -
  obtain us vs where x: "xs = us @ d # vs" "d \<notin> set us" using assms(2) by (metis split_list_first)
  have dist: "distinct xs" by (rule ll_distinct [OF assms(1)])
  have r: "remove1 d xs = us @ vs" using x by (simp add: remove1_append)
  show ?thesis
  proof (cases us)
    case Nil then show ?thesis using assms(1) x r by (auto simp: LL_DELETE_def)
  next
    case (Cons u ws)
    let ?y = "last (u # ws)"
    have h: "head = Some u" "u \<noteq> d" "ll nx (Some u) (u # ws @ d # vs)" using assms(1) x Cons by auto
    have s: "u # ws = butlast (u # ws) @ [?y]" by simp
    have "ll nx head (butlast (u # ws) @ ?y # d # vs)" "distinct (butlast (u # ws) @ ?y # d # vs)"
      using assms(1) dist x Cons s by (metis append.assoc append_Cons append_Nil)+
    from ll_unlink [OF this] have "ll (nx(?y := nx d)) head (us @ vs)"
      using Cons s by (metis append.assoc append_Cons append_Nil)
    moreover have "nx ?y = Some d" using ll_append [of nx head "butlast (u # ws)" ?y "d # vs"] assms(1) x Cons s
      by (metis append.assoc append_Cons append_Nil ll.simps(2))
    moreover have "?y \<in> set xs" using x Cons last_in_set [of "u # ws"] by simp
    ultimately show ?thesis using ll_before_eq [OF h(3)] x(2) Cons r h(1,2) by (auto simp: LL_DELETE_def)
  qed
qed

section \<open>Several lists in one store\<close>

text \<open>
  What the users rely on: an operation on one list acts on its sequence and leaves alone the \<^verbatim>\<open>next\<close> fields of all
  other elements. A family of lists without common elements is then updated one list at a time.
\<close>

locale record_lists =
  fixes rep :: "'n \<Rightarrow> 'p option \<Rightarrow> 'p list \<Rightarrow> bool" and app :: "'n \<Rightarrow> 'p option \<Rightarrow> 'p \<Rightarrow> ('p option \<times> 'n) option"
    and del :: "'n \<Rightarrow> 'p option \<Rightarrow> 'p \<Rightarrow> ('p option \<times> 'n) option" and agree :: "'p set \<Rightarrow> 'n \<Rightarrow> 'n \<Rightarrow> bool"
  assumes app: "rep n h xs \<Longrightarrow> x \<notin> set xs \<Longrightarrow> \<exists>h' n'. app n h x = Some (h', n') \<and> rep n' h' (xs @ [x]) \<and> agree (set xs \<union> {x}) n n'"
    and del: "rep n h xs \<Longrightarrow> x \<in> set xs \<Longrightarrow> \<exists>h' n'. del n h x = Some (h', n') \<and> rep n' h' (remove1 x xs) \<and> agree (set xs) n n'"
    and frame: "rep n h xs \<Longrightarrow> agree A n n' \<Longrightarrow> set xs \<inter> A = {} \<Longrightarrow> rep n' h xs"
begin

lemma family_app:
  assumes "\<forall>i. rep n (hds i) (xs i)" "\<forall>i j. i \<noteq> j \<longrightarrow> set (xs i) \<inter> set (xs j) = {}" "\<forall>i. x \<notin> set (xs i)"
  shows "\<exists>h' n'. app n (hds j) x = Some (h', n') \<and> (\<forall>i. rep n' ((hds(j := h')) i) ((xs(j := xs j @ [x])) i))"
proof -
  obtain h' n' where a: "app n (hds j) x = Some (h', n')" "rep n' h' (xs j @ [x])" "agree (set (xs j) \<union> {x}) n n'"
    using app [of n "hds j" "xs j" x] assms(1,3) by blast
  have "rep n' (hds i) (xs i)" if "i \<noteq> j" for i
    using frame [OF _ a(3)] assms that by blast
  with a show ?thesis by auto
qed

lemma family_del:
  assumes "\<forall>i. rep n (hds i) (xs i)" "\<forall>i j. i \<noteq> j \<longrightarrow> set (xs i) \<inter> set (xs j) = {}" "x \<in> set (xs j)"
  shows "\<exists>h' n'. del n (hds j) x = Some (h', n') \<and> (\<forall>i. rep n' ((hds(j := h')) i) ((xs(j := remove1 x (xs j))) i))"
proof -
  obtain h' n' where a: "del n (hds j) x = Some (h', n')" "rep n' h' (remove1 x (xs j))" "agree (set (xs j)) n n'"
    using del [of n "hds j" "xs j" x] assms(1,3) by blast
  have "rep n' (hds i) (xs i)" if "i \<noteq> j" for i
    using frame [OF _ a(3)] assms that by blast
  with a show ?thesis by auto
qed

end

definition same_outside :: "nat set \<Rightarrow> nexts \<Rightarrow> nexts \<Rightarrow> bool" where
  "same_outside A nx nx' \<longleftrightarrow> (\<forall>b. b \<notin> A \<longrightarrow> nx' b = nx b)"

lemma ll_same: "ll nx p xs \<Longrightarrow> same_outside A nx nx' \<Longrightarrow> set xs \<inter> A = {} \<Longrightarrow> ll nx' p xs"
  by (induction xs arbitrary: p) (auto simp: same_outside_def)

interpretation lls: record_lists ll LL_APPEND LL_DELETE same_outside
proof (unfold_locales, goal_cases)
  case (1 n h xs x) then show ?case using LL_APPEND_ok [of n h xs x] by (simp add: same_outside_def)
next
  case (2 n h xs x) then show ?case using LL_DELETE_ok [of n h xs x] by (simp add: same_outside_def)
next
  case (3 n h xs A n') then show ?case by (rule ll_same)
qed

end
