(* ===== verification/Obhook.thy ===== *)
theory Obhook
imports UtHash UtList
begin

text \<open>
  Out-of-box hooks: \<^verbatim>\<open>ext/obhook/obhook.c\<close>, the run-time dispatcher \<^verbatim>\<open>helper_obhook_dispatcher\<close> of
  \<^verbatim>\<open>target-i386/mba_helper.c\<close>, and the place of \<^verbatim>\<open>target-i386/translate.c\<close> that plants it. A hook hangs in a hash
  table of addresses inside a hash table of processes, in a linked list per address, and in the table of descriptors;
  the records live in stores that allocation and \<^verbatim>\<open>free\<close> act on. Reading a record that is not allocated is
  \<^const>\<open>None\<close>. The operations are shown to implement a plain list of hooks in the order of their registration.
\<close>

section \<open>Data\<close>

datatype OBHOOK_ERRNO =
    OBHOOK_ERR_FAIL | OBHOOK_ERR_FULL_HOOK | OBHOOK_ERR_INVALID_CR3 | OBHOOK_ERR_INVALID_ADDR
  | OBHOOK_ERR_INVALID_LABEL | OBHOOK_ERR_INVALID_CALLBACK | OBHOOK_ERR_INVALID_DESCRIPTOR

definition MAX_NM_OBHOOK :: nat where "MAX_NM_OBHOOK = 65535"
definition MAX_SZ_OBHOOK_LABEL :: nat where "MAX_SZ_OBHOOK_LABEL = 16"
definition MASK_KERN_ADDR :: u64 where "MASK_KERN_ADDR = 0xffff000000000000"

record obhk_ht_record =
  ht_addr :: u64
  ht_cr3 :: u64
  proc_obhk_tbl :: "UT_hash_table option"
  cb_list :: "ptr option"

text \<open>The \<^verbatim>\<open>next\<close> field is kept apart, in the store of the lists.\<close>

record obhk_cb_record =
  cb_ht_rec :: ptr
  uniq_d :: u16
  cb_enabled :: bool
  cb_universal :: bool
  cb_label :: string
  cb_func :: ptr
  cb_arg :: u64

record obhook_context =
  hook_tbl :: "UT_hash_table option"
  index_tbl :: "nat \<Rightarrow> ptr option"
  top_d :: int
  ht_recs :: "ptr \<Rightarrow> obhk_ht_record option"
  cb_recs :: "ptr \<Rightarrow> obhk_cb_record option"
  cb_next :: nexts
  obhook_errno :: OBHOOK_ERRNO
  obhook_pending_hooks :: bool

definition obhk_ctx :: obhook_context where
  "obhk_ctx = \<lparr>hook_tbl = None, index_tbl = Map.empty, top_d = -1, ht_recs = Map.empty, cb_recs = Map.empty,
     cb_next = Map.empty, obhook_errno = OBHOOK_ERR_FAIL, obhook_pending_hooks = False\<rparr>"

text \<open>The bytes of a \<^verbatim>\<open>target_ulong\<close> in memory, the keys of both tables.\<close>

definition ulong_key :: "u64 \<Rightarrow> bytes" where
  "ulong_key w = map (\<lambda>i. ucast (drop_bit (8 * i) w)) [0..<8]"

definition in_use :: "obhook_context \<Rightarrow> ptr \<Rightarrow> bool" where
  "in_use s p \<longleftrightarrow> ht_recs s p \<noteq> None \<or> cb_recs s p \<noteq> None"

section \<open>Operations\<close>

function get_obhook_descriptor_from :: "(nat \<Rightarrow> ptr option) \<Rightarrow> nat \<Rightarrow> int" where
  "get_obhook_descriptor_from tbl i =
     (if i < MAX_NM_OBHOOK then if tbl i = None then int i else get_obhook_descriptor_from tbl (i + 1) else -1)"
  by pat_completeness auto
termination by (relation "measure (\<lambda>(_, i). MAX_NM_OBHOOK - i)") auto

declare get_obhook_descriptor_from.simps [simp del]

definition get_obhook_descriptor :: "obhook_context \<Rightarrow> int" where
  "get_obhook_descriptor s = get_obhook_descriptor_from (index_tbl s) 0"

definition is_kern_addr :: "u64 \<Rightarrow> bool" where
  "is_kern_addr a \<longleftrightarrow> a AND MASK_KERN_ADDR = MASK_KERN_ADDR"

definition obhook_fail :: "OBHOOK_ERRNO \<Rightarrow> obhook_context \<Rightarrow> (int \<times> obhook_context) option" where
  "obhook_fail e s = Some (-1, s\<lparr>obhook_errno := e\<rparr>)"

definition toggle_obhk :: "int \<Rightarrow> bool \<Rightarrow> obhook_context \<Rightarrow> (int \<times> obhook_context) option" where
  "toggle_obhk d b s =
     (if d < 0 \<or> int MAX_NM_OBHOOK \<le> d then obhook_fail OBHOOK_ERR_INVALID_DESCRIPTOR s
      else case index_tbl s (nat d) of None \<Rightarrow> obhook_fail OBHOOK_ERR_INVALID_DESCRIPTOR s
      | Some p \<Rightarrow> do { r \<leftarrow> cb_recs s p; Some (0, s\<lparr>cb_recs := (cb_recs s)(p \<mapsto> r\<lparr>cb_enabled := b\<rparr>)\<rparr>) })"

text \<open>The record of a process in the first table, made if it is missing.\<close>

definition process_record :: "callocs \<Rightarrow> u64 \<Rightarrow> obhook_context \<Rightarrow> ptr option \<times> obhook_context" where
  "process_record calloc c s =
     (case HASH_FIND (hook_tbl s) (ulong_key c) of Some p \<Rightarrow> (Some p, s)
      | None \<Rightarrow> (case calloc (in_use s) of None \<Rightarrow> (None, s\<lparr>obhook_errno := OBHOOK_ERR_FAIL\<rparr>)
         | Some p \<Rightarrow> (Some p, s\<lparr>ht_recs := (ht_recs s)(p \<mapsto> \<lparr>ht_addr = 0, ht_cr3 = c, proc_obhk_tbl = None, cb_list = None\<rparr>),
                              hook_tbl := HASH_ADD (hook_tbl s) (ulong_key c) p\<rparr>)))"

text \<open>The record of an address in the table of a process, made if it is missing.\<close>

definition address_record :: "callocs \<Rightarrow> ptr \<Rightarrow> u64 \<Rightarrow> u64 \<Rightarrow> obhook_context \<Rightarrow> (ptr option \<times> obhook_context) option" where
  "address_record calloc p c a s =
     do { r \<leftarrow> ht_recs s p;
          case HASH_FIND (proc_obhk_tbl r) (ulong_key a) of Some q \<Rightarrow> Some (Some q, s)
          | None \<Rightarrow> (case calloc (in_use s) of None \<Rightarrow> Some (None, s\<lparr>obhook_errno := OBHOOK_ERR_FAIL\<rparr>)
             | Some q \<Rightarrow> Some (Some q, s\<lparr>ht_recs := (ht_recs s)
                 (q \<mapsto> \<lparr>ht_addr = a, ht_cr3 = c, proc_obhk_tbl = None, cb_list = None\<rparr>,
                  p \<mapsto> r\<lparr>proc_obhk_tbl := HASH_ADD (proc_obhk_tbl r) (ulong_key a) q\<rparr>)\<rparr>)) }"

text \<open>
  The callback record, appended to the list of its address. The label is copied with \<^verbatim>\<open>strncpy\<close>, which reads through
  the pointer even when it is null.
\<close>

definition callback_record ::
  "callocs \<Rightarrow> ptr \<Rightarrow> int \<Rightarrow> string option \<Rightarrow> ptr \<Rightarrow> u64 \<Rightarrow> obhook_context \<Rightarrow> (int \<times> obhook_context) option" where
  "callback_record calloc q new_d lbl cb arg s =
     (case calloc (in_use s) of None \<Rightarrow> obhook_fail OBHOOK_ERR_FAIL s
      | Some b \<Rightarrow>
          do { r \<leftarrow> ht_recs s q;
               l \<leftarrow> lbl;
               (head, nx) \<leftarrow> LL_APPEND (cb_next s) (cb_list r) b;
               let d = (word_of_int new_d :: u16);
               Some (uint d, s\<lparr>cb_recs := (cb_recs s)(b \<mapsto>
                   \<lparr>cb_ht_rec = q, uniq_d = d, cb_enabled = True, cb_universal = (ht_cr3 r = 0),
                    cb_label = take MAX_SZ_OBHOOK_LABEL l, cb_func = cb, cb_arg = arg\<rparr>),
                 cb_next := nx, ht_recs := (ht_recs s)(q \<mapsto> r\<lparr>cb_list := head\<rparr>),
                 index_tbl := (index_tbl s)(unat d := Some b), obhook_pending_hooks := True,
                 top_d := (if top_d s < new_d then new_d else top_d s)\<rparr>) })"

definition add_obhk_internal ::
  "callocs \<Rightarrow> u64 \<Rightarrow> u64 \<Rightarrow> string option \<Rightarrow> ptr option \<Rightarrow> u64 \<Rightarrow> obhook_context \<Rightarrow> (int \<times> obhook_context) option" where
  "add_obhk_internal calloc c a lbl cb arg s =
     (let new_d = get_obhook_descriptor s in
      if new_d = -1 then obhook_fail OBHOOK_ERR_FULL_HOOK s
      else if c = 0 \<and> \<not> is_kern_addr a then obhook_fail OBHOOK_ERR_INVALID_ADDR s
      else if lbl \<noteq> None \<and> MAX_SZ_OBHOOK_LABEL \<le> length (the lbl) then obhook_fail OBHOOK_ERR_INVALID_LABEL s
      else case cb of None \<Rightarrow> obhook_fail OBHOOK_ERR_INVALID_CALLBACK s
      | Some f \<Rightarrow>
         (case process_record calloc c s of (None, s1) \<Rightarrow> Some (-1, s1)
          | (Some p, s1) \<Rightarrow> do { (q, s2) \<leftarrow> address_record calloc p c a s1;
              case q of None \<Rightarrow> Some (-1, s2) | Some q \<Rightarrow> callback_record calloc q new_d lbl f arg s2 }))"

definition get_obhk_cb_internal :: "u64 \<Rightarrow> u64 \<Rightarrow> obhook_context \<Rightarrow> ptr option option" where
  "get_obhk_cb_internal c a s =
     (case HASH_FIND (hook_tbl s) (ulong_key c) of None \<Rightarrow> Some None
      | Some p \<Rightarrow> do { r \<leftarrow> ht_recs s p;
          case HASH_FIND (proc_obhk_tbl r) (ulong_key a) of None \<Rightarrow> Some None
          | Some q \<Rightarrow> do { r' \<leftarrow> ht_recs s q; Some (cb_list r') } })"

definition obhook_add_process ::
  "callocs \<Rightarrow> u64 \<Rightarrow> u64 \<Rightarrow> string option \<Rightarrow> ptr option \<Rightarrow> u64 \<Rightarrow> obhook_context \<Rightarrow> (int \<times> obhook_context) option" where
  "obhook_add_process calloc c a lbl cb arg s =
     (if c = 0 then obhook_fail OBHOOK_ERR_INVALID_CR3 s else add_obhk_internal calloc c a lbl cb arg s)"

definition obhook_add_universal ::
  "callocs \<Rightarrow> u64 \<Rightarrow> string option \<Rightarrow> ptr option \<Rightarrow> u64 \<Rightarrow> obhook_context \<Rightarrow> (int \<times> obhook_context) option" where
  "obhook_add_universal calloc a lbl cb arg s = add_obhk_internal calloc 0 a lbl cb arg s"

text \<open>The part of \<^verbatim>\<open>obhook_delete\<close> that removes the record of an address, and of a process, without hooks.\<close>

definition drop_address_record :: "ptr \<Rightarrow> obhook_context \<Rightarrow> obhook_context option" where
  "drop_address_record q s =
     do { r \<leftarrow> ht_recs s q;
          p \<leftarrow> HASH_FIND (hook_tbl s) (ulong_key (ht_cr3 r));
          pr \<leftarrow> ht_recs s p;
          t \<leftarrow> HASH_DELETE (proc_obhk_tbl pr) q;
          let s1 = s\<lparr>ht_recs := (ht_recs s)(p \<mapsto> pr\<lparr>proc_obhk_tbl := t\<rparr>, q := None)\<rparr>;
          if HASH_CNT t = 0
          then do { t' \<leftarrow> HASH_DELETE (hook_tbl s1) p;
                    Some (s1\<lparr>hook_tbl := t', ht_recs := (ht_recs s1)(p := None)\<rparr>) }
          else Some s1 }"

definition obhook_delete :: "int \<Rightarrow> obhook_context \<Rightarrow> (int \<times> obhook_context) option" where
  "obhook_delete d s =
     (if d < 0 \<or> int MAX_NM_OBHOOK \<le> d then obhook_fail OBHOOK_ERR_INVALID_DESCRIPTOR s
      else case index_tbl s (nat d) of None \<Rightarrow> obhook_fail OBHOOK_ERR_INVALID_DESCRIPTOR s
      | Some b \<Rightarrow>
          do { cb \<leftarrow> cb_recs s b;
               let q = cb_ht_rec cb;
               r \<leftarrow> ht_recs s q;
               (head, nx) \<leftarrow> LL_DELETE (cb_next s) (cb_list r) b;
               let s1 = s\<lparr>cb_next := nx, ht_recs := (ht_recs s)(q \<mapsto> r\<lparr>cb_list := head\<rparr>)\<rparr>;
               s2 \<leftarrow> (if head = None then drop_address_record q s1 else Some s1);
               Some (0, s2\<lparr>index_tbl := (index_tbl s2)(nat d := None), cb_recs := (cb_recs s2)(b := None)\<rparr>) })"

definition obhook_enable :: "int \<Rightarrow> obhook_context \<Rightarrow> (int \<times> obhook_context) option" where
  "obhook_enable d s = toggle_obhk d True s"

definition obhook_disable :: "int \<Rightarrow> obhook_context \<Rightarrow> (int \<times> obhook_context) option" where
  "obhook_disable d s = toggle_obhk d False s"

text \<open>The list heads the lookups return, with the state for \<^verbatim>\<open>obhook_errno\<close>.\<close>

definition obhook_getcbs_univ :: "u64 \<Rightarrow> obhook_context \<Rightarrow> (ptr option \<times> obhook_context) option" where
  "obhook_getcbs_univ a s =
     (if \<not> is_kern_addr a then Some (None, s\<lparr>obhook_errno := OBHOOK_ERR_INVALID_ADDR\<rparr>)
      else map_option (\<lambda>l. (l, s)) (get_obhk_cb_internal 0 a s))"

definition obhook_getcbs_proc :: "u64 \<Rightarrow> u64 \<Rightarrow> obhook_context \<Rightarrow> (ptr option \<times> obhook_context) option" where
  "obhook_getcbs_proc c a s =
     (if c = 0 then Some (None, s\<lparr>obhook_errno := OBHOOK_ERR_INVALID_CR3\<rparr>)
      else map_option (\<lambda>l. (l, s)) (get_obhk_cb_internal c a s))"

section \<open>The registry behind the tables\<close>

text \<open>The record of a process, the record of an address, and the head of the list at an address.\<close>

definition process_at :: "obhook_context \<Rightarrow> u64 \<Rightarrow> ptr option" where
  "process_at s c = HASH_FIND (hook_tbl s) (ulong_key c)"

definition address_at :: "obhook_context \<Rightarrow> u64 \<Rightarrow> u64 \<Rightarrow> ptr option" where
  "address_at s c a = do { p \<leftarrow> process_at s c; r \<leftarrow> ht_recs s p; HASH_FIND (proc_obhk_tbl r) (ulong_key a) }"

definition list_at :: "obhook_context \<Rightarrow> u64 \<times> u64 \<Rightarrow> ptr option" where
  "list_at s = (\<lambda>(c, a). do { q \<leftarrow> address_at s c a; r \<leftarrow> ht_recs s q; cb_list r })"

text \<open>Well-formed tables: the keys are those of the records, and every record is in its table.\<close>

definition address_ok :: "obhook_context \<Rightarrow> u64 \<Rightarrow> u64 \<Rightarrow> ptr \<Rightarrow> bool" where
  "address_ok s c a q \<longleftrightarrow> (\<exists>r. ht_recs s q = Some r \<and> ht_cr3 r = c \<and> ht_addr r = a) \<and> (\<forall>k. HASH_FIND (hook_tbl s) k \<noteq> Some q)"

definition process_ok :: "obhook_context \<Rightarrow> u64 \<Rightarrow> ptr \<Rightarrow> bool" where
  "process_ok s c p \<longleftrightarrow> (\<exists>r. ht_recs s p = Some r \<and> ht_cr3 r = c \<and> ht_inv (proc_obhk_tbl r) \<and>
     (\<forall>k q. HASH_FIND (proc_obhk_tbl r) k = Some q \<longrightarrow> (\<exists>a. k = ulong_key a \<and> address_ok s c a q)))"

definition tables_ok :: "obhook_context \<Rightarrow> bool" where
  "tables_ok s \<longleftrightarrow> ht_inv (hook_tbl s) \<and>
     (\<forall>k p. HASH_FIND (hook_tbl s) k = Some p \<longrightarrow> (\<exists>c. k = ulong_key c \<and> process_ok s c p)) \<and>
     (\<forall>p. ht_recs s p \<noteq> None \<longrightarrow> (\<exists>c. process_at s c = Some p) \<or> (\<exists>c a. address_at s c a = Some p))"

text \<open>A registered hook as the caller thinks of it.\<close>

record hook =
  hk_cr3 :: u64
  hk_addr :: u64
  hk_label :: string
  hk_func :: ptr
  hk_arg :: u64
  hk_enabled :: bool

type_synonym registry = "(nat \<times> hook) list"

definition hooks_at :: "registry \<Rightarrow> u64 \<times> u64 \<Rightarrow> registry" where
  "hooks_at l = (\<lambda>(c, a). filter (\<lambda>(d, h). hk_cr3 h = c \<and> hk_addr h = a) l)"

definition hook_ok :: "obhook_context \<Rightarrow> nat \<Rightarrow> hook \<Rightarrow> bool" where
  "hook_ok s d h \<longleftrightarrow> (hk_cr3 h = 0 \<longrightarrow> is_kern_addr (hk_addr h)) \<and> (\<exists>b q. index_tbl s d = Some b \<and> address_at s (hk_cr3 h) (hk_addr h) = Some q \<and>
     cb_recs s b = Some \<lparr>cb_ht_rec = q, uniq_d = of_nat d, cb_enabled = hk_enabled h, cb_universal = (hk_cr3 h = 0),
       cb_label = hk_label h, cb_func = hk_func h, cb_arg = hk_arg h\<rparr>)"

definition hook_ptrs :: "obhook_context \<Rightarrow> registry \<Rightarrow> ptr list" where
  "hook_ptrs s l = map (\<lambda>(d, h). the (index_tbl s d)) l"

definition hooks_ok :: "obhook_context \<Rightarrow> registry \<Rightarrow> bool" where
  "hooks_ok s l \<longleftrightarrow> distinct (map fst l) \<and>
     (\<forall>(d, h) \<in> set l. d < MAX_NM_OBHOOK \<and> int d \<le> top_d s \<and> hook_ok s d h) \<and>
     (\<forall>d b. index_tbl s d = Some b \<longrightarrow> d \<in> fst ` set l) \<and>
     (\<forall>b. cb_recs s b \<noteq> None \<longrightarrow> (\<exists>d. index_tbl s d = Some b))"

definition represents :: "obhook_context \<Rightarrow> registry \<Rightarrow> bool" where
  "represents s l \<longleftrightarrow> tables_ok s \<and> hooks_ok s l \<and> (\<forall>ca. ll (cb_next s) (list_at s ca) (hook_ptrs s (hooks_at l ca)))"

text \<open>
  The records that hold nothing: of an address without hooks, of a process without addresses. \<^verbatim>\<open>elsewhere\<close> says that
  two states differ only in the records of one address and of its process.
\<close>

definition empty_addresses :: "obhook_context \<Rightarrow> (u64 \<times> u64) set" where
  "empty_addresses s = {(c, a). address_at s c a \<noteq> None \<and> list_at s (c, a) = None}"

definition empty_processes :: "obhook_context \<Rightarrow> u64 set" where
  "empty_processes s = {c. process_at s c \<noteq> None \<and> (\<forall>a. address_at s c a = None)}"

definition elsewhere :: "u64 \<Rightarrow> u64 \<Rightarrow> obhook_context \<Rightarrow> obhook_context \<Rightarrow> bool" where
  "elsewhere c a s s' \<longleftrightarrow> (\<forall>c'. c' \<noteq> c \<longrightarrow> process_at s' c' = process_at s c') \<and>
     (\<forall>c' a'. (c', a') \<noteq> (c, a) \<longrightarrow> address_at s' c' a' = address_at s c' a' \<and> list_at s' (c', a') = list_at s (c', a'))"

subsection \<open>Keys\<close>

lemma ulong_key_inj [simp]: "ulong_key v = ulong_key w \<longleftrightarrow> v = w"
proof
  assume e: "ulong_key v = ulong_key w"
  show "v = w"
  proof (rule bit_word_eqI)
    fix n assume n: "n < LENGTH(64)"
    then have "n div 8 < 8" by simp
    then have "ulong_key v ! (n div 8) = (ucast (drop_bit (8 * (n div 8)) v) :: u8)"
      "ulong_key w ! (n div 8) = (ucast (drop_bit (8 * (n div 8)) w) :: u8)" by (simp_all add: ulong_key_def del: upt_rec_numeral)
    then have "bit (ucast (drop_bit (8 * (n div 8)) v) :: u8) (n mod 8) = bit (ucast (drop_bit (8 * (n div 8)) w) :: u8) (n mod 8)"
      using e by simp
    then show "bit v n = bit w n" by (simp add: bit_simps)
  qed
qed simp

lemma in_use_recs: "\<not> in_use s p \<Longrightarrow> ht_recs s p = None \<and> cb_recs s p = None"
  by (simp add: in_use_def)

subsection \<open>What well-formed tables give\<close>

lemma process_at_ok: "tables_ok s \<Longrightarrow> process_at s c = Some p \<Longrightarrow> process_ok s c p"
  unfolding tables_ok_def process_at_def by force

lemma address_at_ok:
  assumes "tables_ok s" "address_at s c a = Some q"
  shows "address_ok s c a q"
proof -
  obtain p where "process_at s c = Some p" using assms(2) by (auto simp: address_at_def bind_eq_Some_conv)
  then show ?thesis
    using process_at_ok [OF assms(1), of c p] assms(2) by (fastforce simp: process_ok_def address_at_def bind_eq_Some_conv)
qed

lemma address_at_inj:
  "tables_ok s \<Longrightarrow> address_at s c a = Some q \<Longrightarrow> address_at s c' a' = Some q \<Longrightarrow> c' = c \<and> a' = a"
  using address_at_ok [of s c a q] address_at_ok [of s c' a' q] by (auto simp: address_ok_def)

lemma process_not_address: "tables_ok s \<Longrightarrow> process_at s c = Some p \<Longrightarrow> address_at s c' a' \<noteq> Some p"
  by (auto dest!: address_at_ok simp: address_ok_def process_at_def)

lemma elsewhere_trans: "elsewhere c a s s' \<Longrightarrow> elsewhere c a s' s'' \<Longrightarrow> elsewhere c a s s''"
  by (simp add: elsewhere_def)

lemma elsewhere_same: "process_at s' = process_at s \<Longrightarrow> address_at s' = address_at s \<Longrightarrow> list_at s' = list_at s \<Longrightarrow> elsewhere c a s s'"
  by (simp add: elsewhere_def)

text \<open>A change that leaves no empty record where it happened leaves no new empty record at all.\<close>

lemma no_new_empties:
  assumes "elsewhere c a s s'" "address_at s' c a \<noteq> None \<longrightarrow> list_at s' (c, a) \<noteq> None"
    "(\<forall>a'. address_at s' c a' = None) \<longrightarrow> process_at s' c = None"
  shows "empty_addresses s' \<subseteq> empty_addresses s \<and> empty_processes s' \<subseteq> empty_processes s"
proof (intro conjI subsetI)
  fix x assume "x \<in> empty_addresses s'"
  moreover from this have "x \<noteq> (c, a)" using assms(2) by (auto simp: empty_addresses_def)
  ultimately show "x \<in> empty_addresses s" using assms(1) by (cases x) (auto simp: empty_addresses_def elsewhere_def)
next
  fix x assume x: "x \<in> empty_processes s'"
  then have "x \<noteq> c" using assms(3) by (auto simp: empty_processes_def)
  then show "x \<in> empty_processes s" using x assms(1) by (auto simp: empty_processes_def elsewhere_def)
qed

text \<open>Two states with the same records at each address have the same registry.\<close>

lemma represents_cong:
  assumes "represents s l" "tables_ok s'" "\<And>c a q. address_at s c a = Some q \<Longrightarrow> address_at s' c a = Some q"
    "list_at s' = list_at s" "index_tbl s' = index_tbl s" "cb_recs s' = cb_recs s" "cb_next s' = cb_next s" "top_d s' = top_d s"
  shows "represents s' l"
proof -
  have "hook_ok s' d h" if "hook_ok s d h" for d h using that assms(3,5,6) by (auto simp: hook_ok_def)
  then show ?thesis using assms(1,2,4-8) by (auto simp: represents_def hooks_ok_def hook_ptrs_def)
qed

lemma tables_same:
  assumes "hook_tbl s' = hook_tbl s" "ht_recs s' = ht_recs s"
  shows "tables_ok s' = tables_ok s" "address_at s' = address_at s" "list_at s' = list_at s"
proof -
  have "process_at s' = process_at s" by (simp add: process_at_def assms fun_eq_iff)
  moreover from this show "address_at s' = address_at s" by (simp add: address_at_def assms fun_eq_iff)
  moreover have "process_ok s' = process_ok s" by (simp add: process_ok_def address_ok_def assms fun_eq_iff)
  ultimately show "tables_ok s' = tables_ok s" "list_at s' = list_at s" by (simp_all add: tables_ok_def list_at_def assms)
qed

lemma represents_errno: "represents (s\<lparr>obhook_errno := e\<rparr>) l \<longleftrightarrow> represents s l"
  using tables_same [of "s\<lparr>obhook_errno := e\<rparr>" s] by (simp add: represents_def hooks_ok_def hook_ok_def hook_ptrs_def)

lemma elsewhere_errno: "elsewhere c a s (s\<lparr>obhook_errno := e\<rparr>)"
  using tables_same [of "s\<lparr>obhook_errno := e\<rparr>" s] by (intro elsewhere_same) (simp_all add: process_at_def fun_eq_iff)

section \<open>Registration\<close>

lemma descriptor_from:
  "(\<exists>d. get_obhook_descriptor_from tbl i = int d \<and> i \<le> d \<and> d < MAX_NM_OBHOOK \<and> tbl d = None \<and> (\<forall>j. i \<le> j \<and> j < d \<longrightarrow> tbl j \<noteq> None)) \<or>
   get_obhook_descriptor_from tbl i = -1 \<and> (\<forall>j. i \<le> j \<and> j < MAX_NM_OBHOOK \<longrightarrow> tbl j \<noteq> None)"
proof (induction tbl i rule: get_obhook_descriptor_from.induct)
  case (1 tbl i)
  show ?case
  proof (cases "i < MAX_NM_OBHOOK \<and> tbl i \<noteq> None")
    case True
    then have "get_obhook_descriptor_from tbl i = get_obhook_descriptor_from tbl (i + 1)"
      by (auto simp: get_obhook_descriptor_from.simps [of tbl i])
    moreover have "tbl j \<noteq> None" if "i \<le> j" "\<not> i + 1 \<le> j" for j using that True by (simp add: not_less_eq_eq)
    ultimately show ?thesis using 1 True by (metis Suc_eq_plus1 Suc_leD)
  next
    case False then show ?thesis by (auto simp: get_obhook_descriptor_from.simps [of tbl i])
  qed
qed

lemma calloc_fresh: "calloc_ok calloc \<Longrightarrow> calloc (in_use s) = Some p \<Longrightarrow> ht_recs s p = None \<and> cb_recs s p = None"
  unfolding calloc_ok_def using in_use_recs by blast

lemma process_ok_frame:
  assumes "process_ok s c p" "\<And>q r. ht_recs s q = Some r \<Longrightarrow> ht_recs s' q = Some r"
    "\<And>k q. HASH_FIND (hook_tbl s') k = Some q \<Longrightarrow> HASH_FIND (hook_tbl s) k = Some q \<or> ht_recs s q = None"
  shows "process_ok s' c p"
proof -
  have "address_ok s' c a q" if "address_ok s c a q" for a q using that assms(2,3) unfolding address_ok_def by fastforce
  then show ?thesis using assms(1,2) unfolding process_ok_def by blast
qed

lemma new_process:
  assumes "tables_ok s" "process_at s c = None" "ht_recs s p = None" "ht_room (hook_tbl s)"
    "s' = s\<lparr>ht_recs := (ht_recs s)(p \<mapsto> \<lparr>ht_addr = 0, ht_cr3 = c, proc_obhk_tbl = None, cb_list = None\<rparr>),
            hook_tbl := HASH_ADD (hook_tbl s) (ulong_key c) p\<rparr>"
  shows "tables_ok s' \<and> process_at s' = (process_at s)(c \<mapsto> p) \<and> address_at s' = address_at s"
proof -
  have nf: "\<forall>k. HASH_FIND (hook_tbl s) k \<noteq> Some p" using assms(1,3) unfolding tables_ok_def process_ok_def by force
  have inv: "ht_inv (hook_tbl s')" and F: "HASH_FIND (hook_tbl s') = (HASH_FIND (hook_tbl s))(ulong_key c \<mapsto> p)"
    using assms(1,2,4,5) nf ut.inv_add ut.find_add by (simp_all add: tables_ok_def process_at_def)
  have R: "ht_recs s' = (ht_recs s)(p \<mapsto> \<lparr>ht_addr = 0, ht_cr3 = c, proc_obhk_tbl = None, cb_list = None\<rparr>)"
    by (simp add: assms(5))
  have P: "process_at s' = (process_at s)(c \<mapsto> p)" by (rule ext) (simp add: process_at_def F)
  have A: "address_at s' c' a = address_at s c' a" for c' a
  proof (cases "process_at s c'")
    case None then show ?thesis by (simp add: address_at_def P R ut.find_nil)
  next
    case (Some p') then show ?thesis using process_at_ok [OF assms(1) Some] assms(2,3)
      by (auto simp: address_at_def P R process_ok_def)
  qed
  have "process_ok s' c' p'" if "process_ok s c' p'" for c' p'
    by (rule process_ok_frame [OF that]) (use assms(3) in \<open>auto simp: F R split: if_splits\<close>)
  moreover have "process_ok s' c p" by (simp add: process_ok_def R ut.inv_nil ut.find_nil)
  ultimately have "\<forall>k p. HASH_FIND (hook_tbl s') k = Some p \<longrightarrow> (\<exists>c. k = ulong_key c \<and> process_ok s' c p)"
    using assms(1) unfolding tables_ok_def F by (metis fun_upd_apply option.inject)
  moreover have "(\<exists>c. process_at s' c = Some q) \<or> (\<exists>c a. address_at s' c a = Some q)" if "ht_recs s' q \<noteq> None" for q
    using that assms(1,2) unfolding tables_ok_def A P R by (metis fun_upd_apply option.distinct(1))
  ultimately have "tables_ok s'" using inv unfolding tables_ok_def by blast
  then show ?thesis using P A by (auto simp: fun_eq_iff)
qed

lemma process_record_ok:
  assumes "represents s l" "calloc_ok calloc" "ht_room (hook_tbl s)" "process_record calloc c s = (p, s')"
  shows "represents s' l \<and> p = process_at s' c \<and> elsewhere c a s s'"
proof (cases "process_at s c = None \<and> calloc (in_use s) \<noteq> None")
  case True
  then obtain p0 where c: "calloc (in_use s) = Some p0" by auto
  have s': "p = Some p0" "s' = s\<lparr>ht_recs := (ht_recs s)(p0 \<mapsto> \<lparr>ht_addr = 0, ht_cr3 = c, proc_obhk_tbl = None, cb_list = None\<rparr>),
      hook_tbl := HASH_ADD (hook_tbl s) (ulong_key c) p0\<rparr>"
    using assms(4) True c by (simp_all add: process_record_def process_at_def)
  have t: "tables_ok s" "ht_recs s p0 = None" using assms(1) calloc_fresh [OF assms(2) c] by (simp_all add: represents_def)
  have n: "tables_ok s'" "process_at s' = (process_at s)(c \<mapsto> p0)" "address_at s' = address_at s"
    using new_process [OF t(1) _ t(2) assms(3) s'(2)] True by auto
  have L: "list_at s' (c', a) = list_at s (c', a)" for c' a
  proof (cases "address_at s c' a")
    case (Some q)
    then have "ht_recs s' q = ht_recs s q" using address_at_ok [OF t(1) Some] t(2) by (auto simp: address_ok_def s'(2))
    then show ?thesis using Some by (simp add: list_at_def n(3))
  qed (simp add: list_at_def n(3))
  then have "represents s' l" by (intro represents_cong [OF assms(1) n(1)]) (simp_all add: n(3), auto simp: s'(2))
  moreover have "elsewhere c a s s'" using L by (simp add: elsewhere_def n(2,3))
  ultimately show ?thesis using n(2) s'(1) by simp
next
  case False
  then have "s' = s \<and> p = process_at s c \<or> s' = s\<lparr>obhook_errno := OBHOOK_ERR_FAIL\<rparr> \<and> p = None \<and> process_at s c = None"
    using assms(4) by (auto simp: process_record_def process_at_def split: option.splits)
  then show ?thesis using assms(1) represents_errno [of OBHOOK_ERR_FAIL s l] elsewhere_errno [of c a s OBHOOK_ERR_FAIL]
      elsewhere_same [of s s c a] by (auto simp: process_at_def)
qed

lemma address_ok_same:
  "address_ok s c a q \<Longrightarrow> hook_tbl s' = hook_tbl s \<Longrightarrow> ht_recs s' q = ht_recs s q \<Longrightarrow> address_ok s' c a q"
  by (simp add: address_ok_def)

lemma process_ok_cong:
  assumes "process_ok s c p" "ht_recs s' p = ht_recs s p" "\<And>a q. address_ok s c a q \<Longrightarrow> address_ok s' c a q"
  shows "process_ok s' c p"
  using assms unfolding process_ok_def by fastforce

lemma process_cr3: "process_ok s c p \<Longrightarrow> process_ok s c' p \<Longrightarrow> c = c'"
  by (auto simp: process_ok_def)

lemma new_address:
  assumes "tables_ok s" "process_at s c = Some p" "ht_recs s p = Some r" "address_at s c a = None" "ht_recs s q = None"
    "ht_room (proc_obhk_tbl r)"
    "s' = s\<lparr>ht_recs := (ht_recs s)(q \<mapsto> \<lparr>ht_addr = a, ht_cr3 = c, proc_obhk_tbl = None, cb_list = None\<rparr>,
                                p \<mapsto> r\<lparr>proc_obhk_tbl := HASH_ADD (proc_obhk_tbl r) (ulong_key a) q\<rparr>)\<rparr>"
  shows "tables_ok s' \<and> process_at s' = process_at s \<and> address_at s' = (address_at s)(c := (address_at s c)(a \<mapsto> q))"
proof -
  have pok: "process_ok s c p" by (rule process_at_ok [OF assms(1,2)])
  have nf: "\<forall>k. HASH_FIND (proc_obhk_tbl r) k \<noteq> Some q" "p \<noteq> q" "\<forall>k. HASH_FIND (hook_tbl s) k \<noteq> Some q"
    using pok assms(1,3,5) by (force simp: process_ok_def address_ok_def tables_ok_def)+
  have none: "HASH_FIND (proc_obhk_tbl r) (ulong_key a) = None" using assms(2-4) by (simp add: address_at_def)
  have rinv: "ht_inv (proc_obhk_tbl r)" "ht_cr3 r = c" using pok assms(3) by (auto simp: process_ok_def)
  define t where "t = HASH_ADD (proc_obhk_tbl r) (ulong_key a) q"
  have inv: "ht_inv t" and F: "HASH_FIND t = (HASH_FIND (proc_obhk_tbl r))(ulong_key a \<mapsto> q)"
    unfolding t_def by (rule ut.inv_add ut.find_add; use rinv assms(6) none nf in simp)+
  have R: "ht_recs s' = (ht_recs s)(q \<mapsto> \<lparr>ht_addr = a, ht_cr3 = c, proc_obhk_tbl = None, cb_list = None\<rparr>,
      p \<mapsto> r\<lparr>proc_obhk_tbl := t\<rparr>)" and H: "hook_tbl s' = hook_tbl s" by (simp_all add: assms(7) t_def)
  have P: "process_at s' = process_at s" by (rule ext) (simp add: process_at_def H)
  have old: "address_ok s' c' a' q'" if "address_ok s c' a' q'" for c' a' q'
    using that assms(2,5) by (intro address_ok_same [OF that H]) (auto simp: address_ok_def R process_at_def)
  have "address_ok s' c a q" using nf by (simp add: address_ok_def R H)
  moreover have "\<exists>a. k = ulong_key a \<and> address_ok s c a q'" if "HASH_FIND (proc_obhk_tbl r) k = Some q'" for k q'
    using that pok assms(3) by (auto simp: process_ok_def)
  ultimately have "\<exists>a. k = ulong_key a \<and> address_ok s' c a q'" if "HASH_FIND t k = Some q'" for k q'
    using that old by (cases "k = ulong_key a") (fastforce simp: F)+
  then have "process_ok s' c p" using inv rinv(2) by (simp add: process_ok_def R)
  moreover have "process_ok s' c' p'" if "process_ok s c' p'" "p' \<noteq> p" for c' p'
    by (rule process_ok_cong [OF that(1)]) (use old that assms(5) in \<open>auto simp: R process_ok_def\<close>)
  ultimately have pok': "\<forall>k p. HASH_FIND (hook_tbl s') k = Some p \<longrightarrow> (\<exists>c. k = ulong_key c \<and> process_ok s' c p)"
    using assms(1) pok process_cr3 unfolding tables_ok_def H by metis
  have A: "address_at s' c' a' = ((address_at s)(c := (address_at s c)(a \<mapsto> q))) c' a'" for c' a'
  proof (cases "c' = c")
    case True then show ?thesis using assms(2,3) by (simp add: address_at_def P R F)
  next
    case False
    then have "p' \<noteq> p \<and> p' \<noteq> q" if "process_at s c' = Some p'" for p'
      using process_at_ok [OF assms(1) that] pok process_cr3 assms(5) by (auto simp: process_ok_def)
    then show ?thesis using False by (auto simp: address_at_def P R split: option.splits Option.bind_splits)
  qed
  have "(\<exists>c. process_at s' c = Some x) \<or> (\<exists>c a. address_at s' c a = Some x)" if "ht_recs s' x \<noteq> None" for x
    using that assms(1,2,4) unfolding tables_ok_def A P R by (metis fun_upd_apply option.distinct(1))
  then have "tables_ok s'" using pok' assms(1) H unfolding tables_ok_def by metis
  then show ?thesis using P A by (auto simp: fun_eq_iff)
qed

lemma address_record_ok:
  assumes "represents s l" "calloc_ok calloc" "process_at s c = Some p" "ht_recs s p = Some r" "ht_room (proc_obhk_tbl r)"
  shows "\<exists>q s'. address_record calloc p c a s = Some (q, s') \<and> represents s' l \<and> q = address_at s' c a \<and> elsewhere c a s s'"
proof (cases "address_at s c a = None \<and> calloc (in_use s) \<noteq> None")
  case True
  then obtain q where q: "calloc (in_use s) = Some q" by auto
  define s' where "s' = s\<lparr>ht_recs := (ht_recs s)(q \<mapsto> \<lparr>ht_addr = a, ht_cr3 = c, proc_obhk_tbl = None, cb_list = None\<rparr>,
      p \<mapsto> r\<lparr>proc_obhk_tbl := HASH_ADD (proc_obhk_tbl r) (ulong_key a) q\<rparr>)\<rparr>"
  have rec: "address_record calloc p c a s = Some (Some q, s')"
    using True q assms(3,4) by (simp add: address_record_def address_at_def s'_def)
  have t: "tables_ok s" "ht_recs s q = None" using assms(1) calloc_fresh [OF assms(2) q] by (simp_all add: represents_def)
  have n: "tables_ok s'" "address_at s' = (address_at s)(c := (address_at s c)(a \<mapsto> q))" "process_at s' = process_at s"
    using new_address [OF t(1) assms(3,4) _ t(2) assms(5) s'_def] True by auto
  have q': "ht_recs s' q = Some \<lparr>ht_addr = a, ht_cr3 = c, proc_obhk_tbl = None, cb_list = None\<rparr>"
    using t(2) assms(4) by (auto simp: s'_def)
  have "ht_recs s' q' = ht_recs s q'" if "address_at s c' a' = Some q'" for c' a' q'
    using address_at_ok [OF t(1) that] t(2) assms(3) by (auto simp: address_ok_def process_at_def s'_def)
  then have L: "list_at s' (c', a') = list_at s (c', a')" for c' a'
    using True q' by (cases "address_at s c' a'") (auto simp: list_at_def n(2))
  then have "represents s' l"
    by (intro represents_cong [OF assms(1) n(1)]) (use True in \<open>auto simp: n(2)\<close>, auto simp: s'_def)
  moreover have "elsewhere c a s s'" using L by (auto simp: elsewhere_def n(2,3))
  ultimately show ?thesis using n(2) rec by simp
next
  case False
  then have "address_record calloc p c a s = Some (address_at s c a, s) \<or> address_at s c a = None \<and>
      address_record calloc p c a s = Some (None, s\<lparr>obhook_errno := OBHOOK_ERR_FAIL\<rparr>)"
    using assms(3,4) by (auto simp: address_record_def address_at_def process_at_def split: option.splits)
  then show ?thesis using assms(1) represents_errno [of OBHOOK_ERR_FAIL s l] elsewhere_errno [of c a s OBHOOK_ERR_FAIL]
      elsewhere_same [of s s c a] tables_same(2) [of "s\<lparr>obhook_errno := OBHOOK_ERR_FAIL\<rparr>" s] by auto
qed

subsection \<open>The lists of callbacks\<close>

lemma hook_okD:
  assumes "hooks_ok s l" "(d, h) \<in> set l"
  shows "d < MAX_NM_OBHOOK" "int d \<le> top_d s" "hook_ok s d h"
  using assms by (auto simp: hooks_ok_def)

lemma hook_fun: "hooks_ok s l \<Longrightarrow> (d, h) \<in> set l \<Longrightarrow> (d, h') \<in> set l \<Longrightarrow> h = h'"
  by (auto simp: hooks_ok_def dest: eq_key_imp_eq_value)

lemma of_nat_descriptor:
  assumes "d < MAX_NM_OBHOOK"
  shows "unat (of_nat d :: u16) = d"
proof -
  have "d < 2 ^ 16" using assms by (simp add: MAX_NM_OBHOOK_def)
  then show ?thesis by (simp add: unat_of_nat take_bit_nat_eq_self)
qed

text \<open>The descriptor is in the record, so different hooks have different records.\<close>

lemma index_inj:
  assumes "hooks_ok s l" "(d, h) \<in> set l" "(d', h') \<in> set l" "index_tbl s d = index_tbl s d'"
  shows "d = d'"
proof -
  obtain b b' where "cb_recs s b = Some b'" "uniq_d b' = of_nat d" "uniq_d b' = of_nat d'"
    using hook_okD(3) [OF assms(1,2)] hook_okD(3) [OF assms(1,3)] assms(4) by (auto simp: hook_ok_def)
  then show ?thesis using of_nat_descriptor hook_okD(1) assms by metis
qed

lemma in_hook_ptrs:
  assumes "hooks_ok s l" "b \<in> set (hook_ptrs s (hooks_at l (c, a)))"
  obtains d h where "(d, h) \<in> set l" "hk_cr3 h = c" "hk_addr h = a" "index_tbl s d = Some b" "cb_recs s b \<noteq> None"
proof -
  obtain d h where h: "(d, h) \<in> set l" "hk_cr3 h = c" "hk_addr h = a" "b = the (index_tbl s d)"
    using assms(2) by (auto simp: hook_ptrs_def hooks_at_def)
  then show thesis using that [of d h] hook_okD(3) [OF assms(1) h(1)] by (auto simp: hook_ok_def)
qed

lemma ptrs_disjoint:
  assumes "hooks_ok s l" "i \<noteq> j"
  shows "set (hook_ptrs s (hooks_at l i)) \<inter> set (hook_ptrs s (hooks_at l j)) = {}"
proof -
  obtain c a c' a' where i: "i = (c, a)" "j = (c', a')" by (cases i, cases j)
  have False if b: "b \<in> set (hook_ptrs s (hooks_at l i))" "b \<in> set (hook_ptrs s (hooks_at l j))" for b
  proof -
    obtain d h where h: "(d, h) \<in> set l" "hk_cr3 h = c" "hk_addr h = a" "index_tbl s d = Some b"
      using in_hook_ptrs [OF assms(1) b(1) [unfolded i]] by metis
    obtain d' h' where h': "(d', h') \<in> set l" "hk_cr3 h' = c'" "hk_addr h' = a'" "index_tbl s d' = Some b"
      using in_hook_ptrs [OF assms(1) b(2) [unfolded i]] by metis
    have "d = d'" using index_inj [OF assms(1) h(1) h'(1)] h(4) h'(4) by simp
    then have "h = h'" using hook_fun [OF assms(1) h(1)] h'(1) by simp
    then show False using h h' i assms(2) by simp
  qed
  then show ?thesis by blast
qed

text \<open>Only the head of a list in the record of an address changes.\<close>

lemma set_cb_list:
  assumes "tables_ok s" "address_at s c a = Some q" "ht_recs s q = Some r"
    "ht_recs s' = (ht_recs s)(q \<mapsto> r\<lparr>cb_list := x\<rparr>)" "hook_tbl s' = hook_tbl s"
  shows "tables_ok s' \<and> process_at s' = process_at s \<and> address_at s' = address_at s \<and> list_at s' = (list_at s)((c, a) := x)"
proof -
  have P: "process_at s' = process_at s" by (rule ext) (simp add: process_at_def assms(5))
  have np: "process_at s c' \<noteq> Some q" for c' using process_not_address [OF assms(1)] assms(2) by blast
  have A: "address_at s' c' a' = address_at s c' a'" for c' a'
    using np by (cases "process_at s c'") (auto simp: address_at_def P assms(4))
  have ok: "address_ok s' c' a' q'" if "address_ok s c' a' q'" for c' a' q'
    using that assms(3) by (auto simp: address_ok_def assms(4,5))
  have "process_ok s' c' p" if "process_ok s c' p" "p \<noteq> q" for c' p
    by (rule process_ok_cong [OF that(1)]) (use ok that(2) assms(4) in auto)
  moreover have "p \<noteq> q" if "HASH_FIND (hook_tbl s) k = Some p" for k p
    using address_at_ok [OF assms(1,2)] that by (auto simp: address_ok_def)
  ultimately have "\<forall>k p. HASH_FIND (hook_tbl s') k = Some p \<longrightarrow> (\<exists>c. k = ulong_key c \<and> process_ok s' c p)"
    using assms(1) unfolding tables_ok_def assms(5) by metis
  moreover have "(\<exists>c. process_at s' c = Some x) \<or> (\<exists>c a. address_at s' c a = Some x)" if "ht_recs s' x \<noteq> None" for x
    using that assms(1-3) unfolding tables_ok_def A P assms(4) by (metis fun_upd_apply option.distinct(1))
  ultimately have "tables_ok s'" using assms(1,5) unfolding tables_ok_def by metis
  moreover have "list_at s' ca = ((list_at s)((c, a) := x)) ca" for ca
  proof (cases "ca = (c, a)")
    case True then show ?thesis using assms(2) by (simp add: list_at_def A assms(4))
  next
    case False
    obtain c' a' where ca: "ca = (c', a')" by (cases ca)
    have "q' \<noteq> q" if "address_at s c' a' = Some q'" for q'
      using address_at_inj [OF assms(1,2), of c' a'] that False ca by auto
    then show ?thesis using False ca by (cases "address_at s c' a'") (auto simp: list_at_def A assms(4))
  qed
  ultimately show ?thesis using A P by (auto simp: fun_eq_iff)
qed

lemma hook_ptrs_cong: "(\<And>d h. (d, h) \<in> set l \<Longrightarrow> index_tbl s' d = index_tbl s d) \<Longrightarrow> hook_ptrs s' l = hook_ptrs s l"
  by (auto simp: hook_ptrs_def)

lemma hooks_ok_snoc:
  assumes "hooks_ok s l" "index_tbl s d = None" "d < MAX_NM_OBHOOK" "cb_recs s b = None" "address_at s' = address_at s"
    "index_tbl s' = (index_tbl s)(d \<mapsto> b)" "top_d s' = max (top_d s) (int d)"
    "address_at s (hk_cr3 h) (hk_addr h) = Some q"
    "cb_recs s' = (cb_recs s)(b \<mapsto> \<lparr>cb_ht_rec = q, uniq_d = of_nat d, cb_enabled = hk_enabled h, cb_universal = (hk_cr3 h = 0),
       cb_label = hk_label h, cb_func = hk_func h, cb_arg = hk_arg h\<rparr>)"
    "hk_cr3 h = 0 \<longrightarrow> is_kern_addr (hk_addr h)"
  shows "hooks_ok s' (l @ [(d, h)])"
proof -
  have new: "d \<notin> fst ` set l" using assms(1,2) by (auto simp: hooks_ok_def hook_ok_def)
  have "hook_ok s' d' h'" if "hook_ok s d' h'" for d' h'
    using that assms(2,4) by (auto simp: hook_ok_def assms(5,6,9))
  moreover have "hook_ok s' d h" using assms(10) by (simp add: hook_ok_def assms(5,6,8,9))
  moreover have "\<exists>d'. index_tbl s' d' = Some b'" if "cb_recs s' b' \<noteq> None" for b'
    using that assms(1,2) by (auto simp: hooks_ok_def assms(6,9) split: if_splits) (metis option.distinct(1))
  ultimately show ?thesis using assms(1,3) new by (auto simp: hooks_ok_def assms(6,7) split: if_splits)
qed

lemma callback_record_ok:
  assumes "represents s l" "calloc_ok calloc" "address_at s c a = Some q" "index_tbl s d = None" "d < MAX_NM_OBHOOK"
    "length lab < MAX_SZ_OBHOOK_LABEL" "c = 0 \<longrightarrow> is_kern_addr a"
  shows "callback_record calloc q (int d) (Some lab) cb arg s = Some (-1, s\<lparr>obhook_errno := OBHOOK_ERR_FAIL\<rparr>) \<and> calloc (in_use s) = None \<or>
    (\<exists>s'. callback_record calloc q (int d) (Some lab) cb arg s = Some (int d, s') \<and> obhook_pending_hooks s' \<and> elsewhere c a s s' \<and>
      represents s' (l @ [(d, \<lparr>hk_cr3 = c, hk_addr = a, hk_label = lab, hk_func = cb, hk_arg = arg, hk_enabled = True\<rparr>)]))"
proof (cases "calloc (in_use s)")
  case None then show ?thesis by (simp add: callback_record_def obhook_fail_def)
next
  case (Some b)
  let ?h = "\<lparr>hk_cr3 = c, hk_addr = a, hk_label = lab, hk_func = cb, hk_arg = arg, hk_enabled = True\<rparr>"
  have t: "tables_ok s" "hooks_ok s l" "cb_recs s b = None"
    using assms(1) calloc_fresh [OF assms(2) Some] by (simp_all add: represents_def)
  obtain r where r: "ht_recs s q = Some r" "ht_cr3 r = c" using address_at_ok [OF t(1) assms(3)] by (auto simp: address_ok_def)
  have ca: "list_at s (c, a) = cb_list r" using assms(3) r by (simp add: list_at_def)
  define xs where "xs = (\<lambda>i. hook_ptrs s (hooks_at l i))"
  have "\<forall>i. b \<notin> set (xs i)" using in_hook_ptrs [OF t(2), of b] t(3) unfolding xs_def by (metis surj_pair)
  moreover have "\<forall>i. ll (cb_next s) (list_at s i) (xs i)" using assms(1) by (simp add: represents_def xs_def)
  moreover have "\<forall>i j. i \<noteq> j \<longrightarrow> set (xs i) \<inter> set (xs j) = {}" using ptrs_disjoint [OF t(2)] by (simp add: xs_def)
  ultimately have "\<exists>h' n'. LL_APPEND (cb_next s) (list_at s (c, a)) b = Some (h', n') \<and>
      (\<forall>i. ll n' (((list_at s)((c, a) := h')) i) ((xs((c, a) := xs (c, a) @ [b])) i))"
    by (intro lls.family_app)
  then obtain hd' nx where app: "LL_APPEND (cb_next s) (cb_list r) b = Some (hd', nx)"
    "\<forall>i. ll nx (((list_at s)((c, a) := hd')) i) ((xs((c, a) := xs (c, a) @ [b])) i)"
    unfolding ca by (elim exE conjE)
  let ?w = "word_of_int (int d) :: u16"
  have w: "?w = of_nat d" "unat (of_nat d :: u16) = d" "uint (of_nat d :: u16) = int d"
    using of_nat_descriptor [OF assms(5)] by (simp, simp, metis uint_nat)
  define s' where "s' = s\<lparr>cb_recs := (cb_recs s)(b \<mapsto>
      \<lparr>cb_ht_rec = q, uniq_d = of_nat d, cb_enabled = True, cb_universal = (c = 0), cb_label = lab, cb_func = cb, cb_arg = arg\<rparr>),
      cb_next := nx, ht_recs := (ht_recs s)(q \<mapsto> r\<lparr>cb_list := hd'\<rparr>), index_tbl := (index_tbl s)(d := Some b),
      obhook_pending_hooks := True, top_d := (if top_d s < int d then int d else top_d s)\<rparr>"
  have rec: "callback_record calloc q (int d) (Some lab) cb arg s = Some (int d, s')"
    using assms(6) unfolding callback_record_def Some by (simp add: r app(1) w s'_def)
  have S: "tables_ok s'" "address_at s' = address_at s" "list_at s' = (list_at s)((c, a) := hd')" "process_at s' = process_at s"
    using set_cb_list [OF t(1) assms(3) r(1), of s' hd'] by (simp_all add: s'_def)
  have "hooks_ok s' (l @ [(d, ?h)])"
    by (rule hooks_ok_snoc [OF t(2) assms(4,5) t(3) S(2)]) (use assms(7) in \<open>simp_all add: s'_def assms(3)\<close>)
  moreover have "hook_ptrs s' (hooks_at (l @ [(d, ?h)]) i) = (xs((c, a) := xs (c, a) @ [b])) i" for i
  proof -
    have "hook_ptrs s' (hooks_at l i) = xs i" unfolding xs_def
      using t(2) assms(4) by (intro hook_ptrs_cong) (auto simp: s'_def hooks_at_def hooks_ok_def hook_ok_def split_beta)
    moreover have "hook_ptrs s' (hooks_at (l @ [(d, ?h)]) i) = hook_ptrs s' (hooks_at l i) @ (if i = (c, a) then [b] else [])"
      by (cases i) (auto simp: hook_ptrs_def hooks_at_def s'_def)
    ultimately show ?thesis by simp
  qed
  ultimately have "represents s' (l @ [(d, ?h)])" using S app(2) by (simp add: represents_def s'_def)
  moreover have "elsewhere c a s s'" by (simp add: elsewhere_def S)
  ultimately show ?thesis using rec by (simp add: s'_def)
qed

section \<open>Deletion\<close>

lemma delete_address:
  assumes "tables_ok s" "process_at s c = Some p" "ht_recs s p = Some r" "address_at s c a = Some q"
    "HASH_DELETE (proc_obhk_tbl r) q = Some t"
    "ht_recs s' = (ht_recs s)(p \<mapsto> r\<lparr>proc_obhk_tbl := t\<rparr>, q := None)" "hook_tbl s' = hook_tbl s"
  shows "tables_ok s' \<and> process_at s' = process_at s \<and> address_at s' = (address_at s)(c := (address_at s c)(a := None)) \<and>
    HASH_FIND t = (HASH_FIND (proc_obhk_tbl r))(ulong_key a := None) \<and> ht_inv t \<and> p \<noteq> q"
proof -
  have pok: "process_ok s c p" and qok: "address_ok s c a q" by (rule process_at_ok [OF assms(1,2)] address_at_ok [OF assms(1,4)])+
  have pq: "p \<noteq> q" using assms(2) qok by (auto simp: address_ok_def process_at_def)
  have rinv: "ht_inv (proc_obhk_tbl r)" "ht_cr3 r = c" using pok assms(3) by (auto simp: process_ok_def)
  have "HASH_FIND (proc_obhk_tbl r) (ulong_key a) = Some q" using assms(2-4) by (simp add: address_at_def)
  from ut.del [OF rinv(1) this] have F: "HASH_FIND t = (HASH_FIND (proc_obhk_tbl r))(ulong_key a := None)" and tinv: "ht_inv t"
    using assms(5) by auto
  have P: "process_at s' = process_at s" by (rule ext) (simp add: process_at_def assms(7))
  have old: "address_ok s' c' a' q'" if "address_ok s c' a' q'" "(c', a') \<noteq> (c, a)" for c' a' q'
    using that qok assms(2) by (intro address_ok_same [OF that(1) assms(7)]) (auto simp: address_ok_def assms(6) process_at_def)
  have "\<exists>a. k = ulong_key a \<and> address_ok s c a q'" if "HASH_FIND (proc_obhk_tbl r) k = Some q'" for k q'
    using that pok assms(3) by (auto simp: process_ok_def)
  then have "\<exists>a. k = ulong_key a \<and> address_ok s' c a q'" if "HASH_FIND t k = Some q'" for k q'
    using that old by (cases "k = ulong_key a") (fastforce simp: F)+
  then have "process_ok s' c p" using tinv rinv(2) pq by (simp add: process_ok_def assms(6))
  moreover have "process_ok s' c' p'" if "process_ok s c' p'" "p' \<noteq> p" "c' \<noteq> c" "p' \<noteq> q" for c' p'
    by (rule process_ok_cong [OF that(1)]) (use old that in \<open>auto simp: assms(6)\<close>)
  moreover have "p' \<noteq> q" if "HASH_FIND (hook_tbl s) k = Some p'" for k p' using that qok by (auto simp: address_ok_def)
  moreover have "p' = p" if "HASH_FIND (hook_tbl s) (ulong_key c) = Some p'" for p' using that assms(2) by (simp add: process_at_def)
  ultimately have pok': "\<forall>k p. HASH_FIND (hook_tbl s') k = Some p \<longrightarrow> (\<exists>c. k = ulong_key c \<and> process_ok s' c p)"
    using assms(1) pok process_cr3 unfolding tables_ok_def assms(7) by metis
  have A: "address_at s' c' a' = ((address_at s)(c := (address_at s c)(a := None))) c' a'" for c' a'
  proof (cases "c' = c")
    case True then show ?thesis using assms(2,3) pq by (simp add: address_at_def P assms(6) F)
  next
    case False
    then have "p' \<noteq> p \<and> p' \<noteq> q" if "process_at s c' = Some p'" for p'
      using process_at_ok [OF assms(1) that] pok process_cr3 qok that by (auto simp: address_ok_def process_at_def)
    then show ?thesis using False by (cases "process_at s c'") (auto simp: address_at_def P assms(6))
  qed
  have "(\<exists>c. process_at s' c = Some x) \<or> (\<exists>c a. address_at s' c a = Some x)" if x: "ht_recs s' x \<noteq> None" for x
  proof -
    have "x \<noteq> q" "ht_recs s x \<noteq> None" using x assms(3) by (auto simp: assms(6) split: if_splits)
    then consider c' where "process_at s c' = Some x" | c' a' where "address_at s c' a' = Some x" "(c', a') \<noteq> (c, a)"
      using assms(1,4) unfolding tables_ok_def by (metis option.inject prod.inject)
    then show ?thesis by cases (auto simp: A P)
  qed
  then have "tables_ok s'" using pok' assms(1,7) unfolding tables_ok_def by metis
  then show ?thesis using P A F tinv pq by (auto simp: fun_eq_iff)
qed

lemma delete_process:
  assumes "tables_ok s" "process_at s c = Some p" "ht_recs s p = Some r" "HASH_FIND (proc_obhk_tbl r) = Map.empty"
  shows "\<exists>t. HASH_DELETE (hook_tbl s) p = Some t \<and>
    (\<forall>s'. hook_tbl s' = t \<and> ht_recs s' = (ht_recs s)(p := None) \<longrightarrow>
      tables_ok s' \<and> address_at s' = address_at s \<and> process_at s' = (process_at s)(c := None))"
proof -
  have inv: "ht_inv (hook_tbl s)" using assms(1) by (simp add: tables_ok_def)
  obtain t where t: "HASH_DELETE (hook_tbl s) p = Some t" "ht_inv t" "HASH_FIND t = (HASH_FIND (hook_tbl s))(ulong_key c := None)"
    using ut.del [OF inv assms(2) [unfolded process_at_def]] by auto
  have "tables_ok s' \<and> address_at s' = address_at s \<and> process_at s' = (process_at s)(c := None)" if s': "hook_tbl s' = t" "ht_recs s' = (ht_recs s)(p := None)" for s'
  proof -
    have P: "process_at s' = (process_at s)(c := None)" by (rule ext) (simp add: process_at_def s'(1) t(3))
    have other: "p' \<noteq> p" if "HASH_FIND (hook_tbl s) k = Some p'" "k \<noteq> ulong_key c" for k p'
      using ut.inj [OF inv that(1)] that(2) assms(2) by (auto simp: process_at_def)
    have none: "address_at s c a = None" for a using assms(2-4) by (simp add: address_at_def)
    have "address_ok s' c' a' q'" if "address_ok s c' a' q'" for c' a' q'
      using that assms(2) by (auto simp: address_ok_def s' t(3) process_at_def)
    then have "process_ok s' c' p'" if "process_ok s c' p'" "p' \<noteq> p" for c' p'
      using that by (intro process_ok_cong [OF that(1)]) (auto simp: s')
    then have pok: "\<forall>k p. HASH_FIND (hook_tbl s') k = Some p \<longrightarrow> (\<exists>c. k = ulong_key c \<and> process_ok s' c p)"
      using assms(1) other unfolding tables_ok_def s'(1) t(3) by (metis fun_upd_apply option.distinct(1))
    have A: "address_at s' c' a' = address_at s c' a'" for c' a'
    proof (cases "process_at s' c'")
      case None then show ?thesis using none by (cases "c' = c") (auto simp: address_at_def P)
    next
      case (Some p')
      then have "p' \<noteq> p" using other [of "ulong_key c'" p'] by (auto simp: P process_at_def split: if_splits)
      then show ?thesis using Some by (auto simp: address_at_def P s'(2) split: if_splits)
    qed
    have "(\<exists>c. process_at s' c = Some x) \<or> (\<exists>c a. address_at s' c a = Some x)" if "ht_recs s' x \<noteq> None" for x
    proof -
      have "x \<noteq> p" "ht_recs s x \<noteq> None" using that by (auto simp: s'(2) split: if_splits)
      then show ?thesis using assms(1,2) unfolding tables_ok_def A P by (metis fun_upd_apply option.inject)
    qed
    then have "tables_ok s'" using pok t(2) s'(1) unfolding tables_ok_def by metis
    then show ?thesis using A P by (auto simp: fun_eq_iff)
  qed
  then show ?thesis using t(1) by blast
qed

lemma drop_address_record_ok:
  assumes "tables_ok s" "address_at s c a = Some q" "list_at s (c, a) = None"
  shows "\<exists>s'. drop_address_record q s = Some s' \<and> tables_ok s' \<and> address_at s' = (address_at s)(c := (address_at s c)(a := None)) \<and>
    list_at s' = list_at s \<and> (\<forall>c'. c' \<noteq> c \<longrightarrow> process_at s' c' = process_at s c') \<and>
    ((\<forall>a'. address_at s' c a' = None) \<longrightarrow> process_at s' c = None) \<and> (\<exists>t h. s' = s\<lparr>hook_tbl := t, ht_recs := h\<rparr>)"
proof -
  obtain p r where p: "process_at s c = Some p" "ht_recs s p = Some r" "HASH_FIND (proc_obhk_tbl r) (ulong_key a) = Some q"
    using assms(2) by (auto simp: address_at_def bind_eq_Some_conv)
  obtain rq where rq: "ht_recs s q = Some rq" "ht_cr3 rq = c" using address_at_ok [OF assms(1,2)] by (auto simp: address_ok_def)
  have "ht_inv (proc_obhk_tbl r)" using process_at_ok [OF assms(1) p(1)] p(2) by (auto simp: process_ok_def)
  then obtain t where t: "HASH_DELETE (proc_obhk_tbl r) q = Some t" using ut.del p(3) by blast
  define s1 where "s1 = s\<lparr>ht_recs := (ht_recs s)(p \<mapsto> r\<lparr>proc_obhk_tbl := t\<rparr>, q := None)\<rparr>"
  have d: "tables_ok s1" "process_at s1 = process_at s" "address_at s1 = (address_at s)(c := (address_at s c)(a := None))"
    "HASH_FIND t = (HASH_FIND (proc_obhk_tbl r))(ulong_key a := None)" "ht_inv t" "p \<noteq> q"
    using delete_address [OF assms(1) p(1,2) assms(2) t, of s1] by (auto simp: s1_def)
  have drop: "drop_address_record q s = (if HASH_CNT t = 0
      then do { t' \<leftarrow> HASH_DELETE (hook_tbl s1) p; Some (s1\<lparr>hook_tbl := t', ht_recs := (ht_recs s1)(p := None)\<rparr>) } else Some s1)"
    using p rq t by (simp add: drop_address_record_def process_at_def s1_def Let_def)
  have keep: "list_at s' = list_at s"
    if "address_at s' = address_at s1" "\<And>x. x \<noteq> p \<Longrightarrow> x \<noteq> q \<Longrightarrow> ht_recs s' x = ht_recs s x" for s'
  proof
    fix ca :: "u64 \<times> u64"
    obtain c' a' where ca: "ca = (c', a')" by (cases ca)
    show "list_at s' ca = list_at s ca"
    proof (cases "ca = (c, a)")
      case True then show ?thesis using assms(3) by (simp add: list_at_def that(1) d(3))
    next
      case False
      then have "x \<noteq> p \<and> x \<noteq> q" if "address_at s c' a' = Some x" for x
        using address_at_inj [OF assms(1,2), of c' a'] process_not_address [OF assms(1) p(1)] ca that by auto
      then show ?thesis using False that by (cases "address_at s c' a'") (auto simp: list_at_def ca d(3))
    qed
  qed
  show ?thesis
  proof (cases "HASH_CNT t = 0")
    case False
    moreover have "list_at s1 = list_at s" by (rule keep) (simp_all add: s1_def)
    moreover have "s1 = s\<lparr>hook_tbl := hook_tbl s, ht_recs := ht_recs s1\<rparr>" by (simp add: s1_def)
    moreover have "drop_address_record q s = Some s1" using False by (simp add: drop)
    moreover have "\<exists>a'. address_at s1 c a' \<noteq> None"
    proof -
      obtain k x where k: "HASH_FIND t k = Some x" using False ut.cnt [OF d(5)] by fastforce
      have "process_ok s1 c p" using process_at_ok [OF d(1)] d(2) p(1) by simp
      then obtain a' where "k = ulong_key a'" using k d(6) by (auto simp: process_ok_def s1_def)
      then show ?thesis using k p(1) d(2,6) by (auto simp: address_at_def s1_def)
    qed
    ultimately show ?thesis using d(1,2,3) by metis
  next
    case True
    then have "HASH_FIND t = Map.empty" using ut.cnt [OF d(5)] by simp
    then obtain t' where t': "HASH_DELETE (hook_tbl s1) p = Some t'"
      "\<And>s'. hook_tbl s' = t' \<Longrightarrow> ht_recs s' = (ht_recs s1)(p := None) \<Longrightarrow> tables_ok s' \<and> address_at s' = address_at s1 \<and>
        process_at s' = (process_at s)(c := None)"
      using delete_process [OF d(1), of c p "r\<lparr>proc_obhk_tbl := t\<rparr>"] p(1) d(2,6) by (auto simp: s1_def)
    define s2 where "s2 = s1\<lparr>hook_tbl := t', ht_recs := (ht_recs s1)(p := None)\<rparr>"
    have s2: "tables_ok s2" "address_at s2 = address_at s1" "process_at s2 = (process_at s)(c := None)" using t'(2) [of s2] by (simp_all add: s2_def)
    then have "list_at s2 = list_at s" by (intro keep) (simp_all add: s1_def s2_def)
    moreover have "drop_address_record q s = Some s2" using True t'(1) by (simp add: drop s2_def)
    moreover have "s2 = s\<lparr>hook_tbl := t', ht_recs := ht_recs s2\<rparr>" by (simp add: s2_def s1_def)
    moreover have "process_at s2 c = None" "\<forall>c'. c' \<noteq> c \<longrightarrow> process_at s2 c' = process_at s c'" by (simp_all add: s2(3))
    ultimately show ?thesis using s2(1,2) d(3) by metis
  qed
qed

definition delete_spec :: "nat \<Rightarrow> registry \<Rightarrow> registry" where
  "delete_spec d l = filter (\<lambda>(d', h). d' \<noteq> d) l"

lemma hooks_at_delete: "hooks_at (delete_spec d l) i = delete_spec d (hooks_at l i)"
  by (cases i) (auto simp: hooks_at_def delete_spec_def split_beta conj_ac)

lemma hook_ptrs_delete:
  assumes "hooks_ok s l" "(d, h) \<in> set l" "index_tbl s d = Some b" "set l' \<subseteq> set l" "distinct (map fst l')"
  shows "hook_ptrs s (delete_spec d l') = remove1 b (hook_ptrs s l')"
  using assms(4,5)
proof (induction l')
  case (Cons x l')
  obtain d' h' where x: "x = (d', h')" by (cases x)
  then have "index_tbl s d' \<noteq> None" using hook_okD(3) [OF assms(1), of d' h'] Cons.prems(1) by (auto simp: hook_ok_def)
  then have i: "the (index_tbl s d') = b \<longleftrightarrow> d' = d"
    using index_inj [OF assms(1,2), of d' h'] x Cons.prems(1) assms(3) by auto
  have "delete_spec d l' = l'" if "d \<notin> fst ` set l'" using that by (force simp: delete_spec_def filter_id_conv)
  then show ?case using Cons x i by (cases "d' = d") (simp_all add: hook_ptrs_def delete_spec_def)
qed (simp_all add: hook_ptrs_def delete_spec_def)

lemma hooks_ok_delete:
  assumes "hooks_ok s l" "(d, h) \<in> set l" "index_tbl s d = Some b"
    "\<And>d' h'. (d', h') \<in> set l \<Longrightarrow> d' \<noteq> d \<Longrightarrow> address_at s' (hk_cr3 h') (hk_addr h') = address_at s (hk_cr3 h') (hk_addr h')"
    "index_tbl s' = (index_tbl s)(d := None)" "top_d s' = top_d s" "cb_recs s' = (cb_recs s)(b := None)"
  shows "hooks_ok s' (delete_spec d l)"
proof -
  have "hook_ok s' d' h'" if h': "(d', h') \<in> set l" "d' \<noteq> d" for d' h'
  proof -
    obtain b' q where b': "index_tbl s d' = Some b'" "address_at s (hk_cr3 h') (hk_addr h') = Some q"
      "cb_recs s b' = Some \<lparr>cb_ht_rec = q, uniq_d = of_nat d', cb_enabled = hk_enabled h', cb_universal = (hk_cr3 h' = 0),
         cb_label = hk_label h', cb_func = hk_func h', cb_arg = hk_arg h'\<rparr>"
      using hook_okD(3) [OF assms(1) h'(1)] by (auto simp: hook_ok_def)
    then have "b' \<noteq> b" using index_inj [OF assms(1) h'(1) assms(2)] h'(2) assms(3) by auto
    moreover have "hk_cr3 h' = 0 \<longrightarrow> is_kern_addr (hk_addr h')" using hook_okD(3) [OF assms(1) h'(1)] by (simp add: hook_ok_def)
    ultimately show ?thesis using b' h' assms(4) [OF h'] by (simp add: hook_ok_def assms(5,7))
  qed
  then have "\<forall>(d', h') \<in> set (delete_spec d l). d' < MAX_NM_OBHOOK \<and> int d' \<le> top_d s' \<and> hook_ok s' d' h'"
    using hook_okD(1,2) [OF assms(1)] by (auto simp: delete_spec_def assms(6))
  moreover have "\<exists>d'. index_tbl s' d' = Some b'" if "cb_recs s' b' \<noteq> None" for b'
  proof -
    have "b' \<noteq> b" "cb_recs s b' \<noteq> None" using that by (auto simp: assms(7) split: if_splits)
    moreover from this obtain d' where "index_tbl s d' = Some b'" using assms(1) unfolding hooks_ok_def by blast
    ultimately have "index_tbl s' d' = Some b'" using assms(3) by (auto simp: assms(5))
    then show ?thesis by blast
  qed
  moreover have "d' \<in> fst ` set (delete_spec d l)" if "index_tbl s' d' = Some b'" for d' b'
  proof -
    have "d' \<noteq> d" "index_tbl s d' = Some b'" using that by (auto simp: assms(5) split: if_splits)
    moreover from this have "d' \<in> fst ` set l" using assms(1) unfolding hooks_ok_def by blast
    ultimately show ?thesis by (auto simp: delete_spec_def image_iff)
  qed
  moreover have "distinct (map fst (delete_spec d l))" using assms(1) by (simp add: hooks_ok_def delete_spec_def distinct_map_filter)
  ultimately show ?thesis unfolding hooks_ok_def by blast
qed

text \<open>Taking the callback out of its list.\<close>

lemma unlink_hook:
  assumes "represents s l" "(d, h) \<in> set l" "index_tbl s d = Some b"
  shows "\<exists>hd' nx. LL_DELETE (cb_next s) (list_at s (hk_cr3 h, hk_addr h)) b = Some (hd', nx) \<and>
    (\<forall>i. ll nx (((list_at s)((hk_cr3 h, hk_addr h) := hd')) i) (hook_ptrs s (hooks_at (delete_spec d l) i)))"
proof -
  have t: "hooks_ok s l" using assms(1) by (simp add: represents_def)
  let ?ca = "(hk_cr3 h, hk_addr h)"
  define xs where "xs = (\<lambda>i. hook_ptrs s (hooks_at l i))"
  have b: "b \<in> set (xs ?ca)" using assms(2,3) by (force simp: xs_def hook_ptrs_def hooks_at_def)
  moreover have "\<forall>i. ll (cb_next s) (list_at s i) (xs i)" using assms(1) by (simp add: represents_def xs_def)
  moreover have "\<forall>i j. i \<noteq> j \<longrightarrow> set (xs i) \<inter> set (xs j) = {}" using ptrs_disjoint [OF t] by (simp add: xs_def)
  ultimately have "\<exists>h' n'. LL_DELETE (cb_next s) (list_at s ?ca) b = Some (h', n') \<and>
      (\<forall>i. ll n' (((list_at s)(?ca := h')) i) ((xs(?ca := remove1 b (xs ?ca))) i))"
    by (intro lls.family_del)
  moreover have eq: "(xs(?ca := remove1 b (xs ?ca))) i = hook_ptrs s (hooks_at (delete_spec d l) i)" for i
  proof -
    have sub: "set (hooks_at l i) \<subseteq> set l" "distinct (map fst (hooks_at l i))"
      using t by (cases i, auto simp: hooks_at_def hooks_ok_def distinct_map_filter)+
    have "hook_ptrs s (hooks_at (delete_spec d l) i) = remove1 b (xs i)"
      unfolding hooks_at_delete xs_def by (rule hook_ptrs_delete [OF t assms(2,3) sub])
    moreover have "remove1 b (xs i) = xs i" if "i \<noteq> ?ca"
      using ptrs_disjoint [OF t that] b by (intro remove1_idem) (auto simp: xs_def)
    ultimately show ?thesis by simp
  qed
  ultimately show ?thesis by (simp only: eq)
qed

text \<open>Dropping the records that have become empty.\<close>

lemma drop_if_empty:
  assumes "tables_ok s" "address_at s c a = Some q" "list_at s (c, a) = hd'"
  shows "\<exists>s'. (if hd' = None then drop_address_record q s else Some s) = Some s' \<and> tables_ok s' \<and> list_at s' = list_at s \<and>
    (\<forall>c' a'. hd' \<noteq> None \<or> (c', a') \<noteq> (c, a) \<longrightarrow> address_at s' c' a' = address_at s c' a') \<and>
    (\<forall>c'. c' \<noteq> c \<longrightarrow> process_at s' c' = process_at s c') \<and> (hd' = None \<longrightarrow> address_at s' c a = None) \<and>
    ((\<forall>a'. address_at s' c a' = None) \<longrightarrow> process_at s' c = None) \<and> (\<exists>t h. s' = s\<lparr>hook_tbl := t, ht_recs := h\<rparr>)"
proof (cases "hd' = None")
  case True
  then obtain s' where "drop_address_record q s = Some s'" "tables_ok s'" "address_at s' = (address_at s)(c := (address_at s c)(a := None))"
    "list_at s' = list_at s" "\<forall>c'. c' \<noteq> c \<longrightarrow> process_at s' c' = process_at s c'"
    "(\<forall>a'. address_at s' c a' = None) \<longrightarrow> process_at s' c = None" "\<exists>t h. s' = s\<lparr>hook_tbl := t, ht_recs := h\<rparr>"
    using drop_address_record_ok [OF assms(1,2)] assms(3) by metis
  then show ?thesis using True by (intro exI [of _ s'] conjI) simp_all
next
  case False
  moreover have "\<exists>t h. s = s\<lparr>hook_tbl := t, ht_recs := h\<rparr>" by (rule exI [of _ "hook_tbl s"], rule exI [of _ "ht_recs s"]) simp
  moreover have "\<not> (\<forall>a'. address_at s c a' = None)" using assms(2) by auto
  ultimately show ?thesis using assms(1) by (intro exI [of _ s] conjI) auto
qed

lemma obhook_delete_ok:
  assumes "represents s l" "(d, h) \<in> set l"
  shows "\<exists>s'. obhook_delete (int d) s = Some (0, s') \<and> represents s' (delete_spec d l) \<and> obhook_errno s' = obhook_errno s \<and>
    cb_recs s' (the (index_tbl s d)) = None \<and> empty_addresses s' \<subseteq> empty_addresses s \<and> empty_processes s' \<subseteq> empty_processes s"
proof -
  have t: "tables_ok s" "hooks_ok s l" using assms(1) by (simp_all add: represents_def)
  let ?ca = "(hk_cr3 h, hk_addr h)"
  obtain b q cb where b: "index_tbl s d = Some b" "address_at s (hk_cr3 h) (hk_addr h) = Some q" "cb_recs s b = Some cb" "cb_ht_rec cb = q"
    using hook_okD(3) [OF t(2) assms(2)] by (auto simp: hook_ok_def)
  have d: "d < MAX_NM_OBHOOK" by (rule hook_okD(1) [OF t(2) assms(2)])
  obtain r where r: "ht_recs s q = Some r" using address_at_ok [OF t(1) b(2)] by (auto simp: address_ok_def)
  have ca: "list_at s ?ca = cb_list r" using b(2) r by (simp add: list_at_def)
  obtain hd' nx where del: "LL_DELETE (cb_next s) (cb_list r) b = Some (hd', nx)"
    "\<forall>i. ll nx (((list_at s)(?ca := hd')) i) (hook_ptrs s (hooks_at (delete_spec d l) i))"
    using unlink_hook [OF assms b(1)] unfolding ca by (elim exE conjE)
  define s1 where "s1 = s\<lparr>cb_next := nx, ht_recs := (ht_recs s)(q \<mapsto> r\<lparr>cb_list := hd'\<rparr>)\<rparr>"
  have S: "tables_ok s1" "address_at s1 = address_at s" "list_at s1 = (list_at s)(?ca := hd')" "process_at s1 = process_at s"
    using set_cb_list [OF t(1) b(2) r, of s1 hd'] by (simp_all add: s1_def)
  obtain s2 where s2: "(if hd' = None then drop_address_record q s1 else Some s1) = Some s2" "tables_ok s2" "list_at s2 = list_at s1"
      "\<And>c a. hd' \<noteq> None \<or> (c, a) \<noteq> ?ca \<Longrightarrow> address_at s2 c a = address_at s c a" "\<exists>t h. s2 = s1\<lparr>hook_tbl := t, ht_recs := h\<rparr>"
      "\<forall>c'. c' \<noteq> hk_cr3 h \<longrightarrow> process_at s2 c' = process_at s c'" "hd' = None \<longrightarrow> address_at s2 (hk_cr3 h) (hk_addr h) = None"
      "(\<forall>a'. address_at s2 (hk_cr3 h) a' = None) \<longrightarrow> process_at s2 (hk_cr3 h) = None"
    using drop_if_empty [OF S(1), of "hk_cr3 h" "hk_addr h" q hd'] b(2) S(2-4) by auto
  define s' where "s' = s2\<lparr>index_tbl := (index_tbl s2)(d := None), cb_recs := (cb_recs s2)(b := None)\<rparr>"
  have eq: "obhook_delete (int d) s = Some (0, s')"
    using d b r del(1) s2(1) by (cases hd') (auto simp: obhook_delete_def s'_def s1_def)
  have f: "index_tbl s2 = index_tbl s" "cb_recs s2 = cb_recs s" "cb_next s2 = nx" "top_d s2 = top_d s" "obhook_errno s2 = obhook_errno s"
    using s2(5) by (auto simp: s1_def)
  have A: "tables_ok s'" "address_at s' = address_at s2" "list_at s' = list_at s2"
    using tables_same [of s' s2] s2(2) by (simp_all add: s'_def)
  have "hd' \<noteq> None \<or> (hk_cr3 h', hk_addr h') \<noteq> ?ca" if h': "(d', h') \<in> set l" "d' \<noteq> d" for d' h'
  proof -
    have "(d', h') \<in> set (hooks_at (delete_spec d l) (hk_cr3 h', hk_addr h'))" using h' by (auto simp: hooks_at_def delete_spec_def)
    then show ?thesis using del(2) [rule_format, of ?ca] by (cases "hooks_at (delete_spec d l) ?ca") (auto simp: hook_ptrs_def)
  qed
  then have "hooks_ok s' (delete_spec d l)"
    by (intro hooks_ok_delete [OF t(2) assms(2) b(1)]) (simp_all add: A(2) s2(4), simp_all add: s'_def f)
  moreover have "hook_ptrs s' (hooks_at (delete_spec d l) i) = hook_ptrs s (hooks_at (delete_spec d l) i)" for i
    by (rule hook_ptrs_cong, cases i) (auto simp: s'_def f hooks_at_def delete_spec_def)
  ultimately have "represents s' (delete_spec d l)"
    using A(1,3) del(2) s2(3) S(3) unfolding represents_def by (simp add: s'_def f)
  moreover have "empty_addresses s' \<subseteq> empty_addresses s \<and> empty_processes s' \<subseteq> empty_processes s"
  proof (rule no_new_empties [of "hk_cr3 h" "hk_addr h"])
    have P: "process_at s' = process_at s2" by (simp add: process_at_def fun_eq_iff s'_def)
    show "elsewhere (hk_cr3 h) (hk_addr h) s s'" by (auto simp: elsewhere_def P A s2(3,4,6) S(3))
    show "address_at s' (hk_cr3 h) (hk_addr h) \<noteq> None \<longrightarrow> list_at s' ?ca \<noteq> None" using s2(7) by (auto simp: A s2(3) S(3))
    show "(\<forall>a'. address_at s' (hk_cr3 h) a' = None) \<longrightarrow> process_at s' (hk_cr3 h) = None" using s2(8) by (simp add: P A)
  qed
  ultimately show ?thesis using eq by (simp add: s'_def f b(1))
qed

section \<open>Enabling, disabling and lookup\<close>

definition toggle_spec :: "nat \<Rightarrow> bool \<Rightarrow> registry \<Rightarrow> registry" where
  "toggle_spec d e l = map (\<lambda>(d', h). (d', if d' = d then h\<lparr>hk_enabled := e\<rparr> else h)) l"

lemma hooks_at_toggle: "hooks_at (toggle_spec d e l) i = toggle_spec d e (hooks_at l i)"
  by (cases i) (induction l, auto simp: hooks_at_def toggle_spec_def)

lemma hook_ptrs_toggle: "hook_ptrs s (toggle_spec d e l) = hook_ptrs s l"
  by (induction l) (auto simp: hook_ptrs_def toggle_spec_def)

lemma toggle_obhk_ok:
  assumes "represents s l" "(d, h) \<in> set l"
  shows "\<exists>s'. toggle_obhk (int d) e s = Some (0, s') \<and> represents s' (toggle_spec d e l) \<and> obhook_errno s' = obhook_errno s \<and>
    empty_addresses s' \<subseteq> empty_addresses s \<and> empty_processes s' \<subseteq> empty_processes s"
proof -
  have t: "tables_ok s" "hooks_ok s l" using assms(1) by (simp_all add: represents_def)
  obtain b r where b: "index_tbl s d = Some b" "cb_recs s b = Some r"
    using hook_okD(3) [OF t(2) assms(2)] by (auto simp: hook_ok_def)
  define s' where "s' = s\<lparr>cb_recs := (cb_recs s)(b \<mapsto> r\<lparr>cb_enabled := e\<rparr>)\<rparr>"
  have A: "tables_ok s' = tables_ok s" "address_at s' = address_at s" "list_at s' = list_at s" by (rule tables_same; simp add: s'_def)+
  have R: "index_tbl s' = index_tbl s" "cb_recs s' = (cb_recs s)(b \<mapsto> r\<lparr>cb_enabled := e\<rparr>)" by (simp_all add: s'_def)
  have h: "hook_ok s' d' (if d' = d then h'\<lparr>hk_enabled := e\<rparr> else h')" if h': "(d', h') \<in> set l" for d' h'
  proof -
    obtain b' where b': "index_tbl s d' = Some b'" using hook_okD(3) [OF t(2) h'] by (auto simp: hook_ok_def)
    then have "b' = b \<longleftrightarrow> d' = d" using index_inj [OF t(2) h' assms(2)] b(1) by auto
    then show ?thesis using hook_okD(3) [OF t(2) h'] b b' by (cases "d' = d") (auto simp: hook_ok_def A R)
  qed
  have f: "map fst (toggle_spec d e l) = map fst l" by (simp add: toggle_spec_def split_beta comp_def)
  have "\<forall>(d', h') \<in> set (toggle_spec d e l). d' < MAX_NM_OBHOOK \<and> int d' \<le> top_d s' \<and> hook_ok s' d' h'"
    using h hook_okD(1,2) [OF t(2)] by (auto simp: toggle_spec_def s'_def)
  moreover have "fst ` set (toggle_spec d e l) = fst ` set l" using f by (metis list.set_map)
  moreover have "index_tbl s' = index_tbl s" "\<And>x. cb_recs s' x \<noteq> None \<longleftrightarrow> cb_recs s x \<noteq> None" using b by (auto simp: s'_def)
  ultimately have "hooks_ok s' (toggle_spec d e l)" using t(2) f unfolding hooks_ok_def by simp
  then have "represents s' (toggle_spec d e l)"
    using assms(1) A by (simp add: represents_def hooks_at_toggle hook_ptrs_toggle) (simp add: s'_def hook_ptrs_def)
  moreover have "process_at s' = process_at s" by (simp add: process_at_def fun_eq_iff s'_def)
  then have "empty_addresses s' = empty_addresses s" "empty_processes s' = empty_processes s"
    by (simp_all add: empty_addresses_def empty_processes_def A)
  ultimately show ?thesis using b hook_okD(1) [OF t(2) assms(2)] by (simp add: toggle_obhk_def s'_def)
qed

lemma free_descriptor:
  assumes "represents s l"
  shows "index_tbl s d = None \<longleftrightarrow> d \<notin> fst ` set l"
proof
  have h: "hooks_ok s l" using assms by (simp add: represents_def)
  show "index_tbl s d = None" if "d \<notin> fst ` set l"
    using that h unfolding hooks_ok_def by (cases "index_tbl s d") blast+
  show "d \<notin> fst ` set l" if "index_tbl s d = None" using that hook_okD(3) [OF h] by (fastforce simp: hook_ok_def)
qed

text \<open>The list at an address, walked as the users walk it, is the hooks there in the order of their registration.\<close>

lemma get_obhk_cb_internal_ok:
  assumes "represents s l"
  shows "get_obhk_cb_internal c a s = Some (list_at s (c, a))"
    "LL_FOREACH (cb_next s) (list_at s (c, a)) = Some (hook_ptrs s (hooks_at l (c, a)))"
proof -
  have t: "tables_ok s" using assms by (simp add: represents_def)
  show "get_obhk_cb_internal c a s = Some (list_at s (c, a))"
  proof (cases "process_at s c")
    case None then show ?thesis by (simp add: get_obhk_cb_internal_def list_at_def address_at_def flip: process_at_def)
  next
    case (Some p)
    then obtain r where r: "ht_recs s p = Some r" using process_at_ok [OF t Some] by (auto simp: process_ok_def)
    show ?thesis
    proof (cases "address_at s c a")
      case None then show ?thesis using Some r by (simp add: get_obhk_cb_internal_def list_at_def address_at_def flip: process_at_def)
    next
      case (Some q)
      then show ?thesis using \<open>process_at s c = Some p\<close> r address_at_ok [OF t Some]
        by (auto simp: get_obhk_cb_internal_def list_at_def address_at_def address_ok_def simp flip: process_at_def)
    qed
  qed
  show "LL_FOREACH (cb_next s) (list_at s (c, a)) = Some (hook_ptrs s (hooks_at l (c, a)))"
    using assms by (intro LL_FOREACH_eq) (simp add: represents_def)
qed

section \<open>The calls of the interface\<close>

datatype obhook_call =
    Add_process u64 u64 "string option" "ptr option" u64
  | Add_universal u64 "string option" "ptr option" u64
  | Delete int | Enable int | Disable int

fun run_call :: "callocs \<Rightarrow> obhook_call \<Rightarrow> obhook_context \<Rightarrow> (int \<times> obhook_context) option" where
  "run_call calloc (Add_process c a lbl cb arg) s = obhook_add_process calloc c a lbl cb arg s"
| "run_call calloc (Add_universal a lbl cb arg) s = obhook_add_universal calloc a lbl cb arg s"
| "run_call calloc (Delete d) s = obhook_delete d s"
| "run_call calloc (Enable d) s = obhook_enable d s"
| "run_call calloc (Disable d) s = obhook_disable d s"

text \<open>
  What a call means for the list of hooks: the value it returns, the error it sets, if any, and the new list. An
  addition takes the smallest free descriptor, or fails because \<^verbatim>\<open>calloc\<close> does.
\<close>

fun add_error :: "u64 \<Rightarrow> u64 \<Rightarrow> string \<Rightarrow> ptr option \<Rightarrow> registry \<Rightarrow> OBHOOK_ERRNO option" where
  "add_error c a lab cb l =
     (if \<forall>d < MAX_NM_OBHOOK. d \<in> fst ` set l then Some OBHOOK_ERR_FULL_HOOK
      else if c = 0 \<and> \<not> is_kern_addr a then Some OBHOOK_ERR_INVALID_ADDR
      else if MAX_SZ_OBHOOK_LABEL \<le> length lab then Some OBHOOK_ERR_INVALID_LABEL
      else if cb = None then Some OBHOOK_ERR_INVALID_CALLBACK else None)"

inductive registry_add :: "bool \<Rightarrow> u64 \<Rightarrow> u64 \<Rightarrow> string \<Rightarrow> ptr option \<Rightarrow> u64 \<Rightarrow> registry \<Rightarrow> int \<Rightarrow> OBHOOK_ERRNO option \<Rightarrow> registry \<Rightarrow> bool" for may_fail where
  refused: "add_error c a lab cb l = Some e \<Longrightarrow> registry_add may_fail c a lab cb arg l (-1) (Some e) l"
| no_memory: "add_error c a lab cb l = None \<Longrightarrow> may_fail \<Longrightarrow> registry_add may_fail c a lab cb arg l (-1) (Some OBHOOK_ERR_FAIL) l"
| added: "add_error c a lab (Some f) l = None \<Longrightarrow> d < MAX_NM_OBHOOK \<Longrightarrow> d \<notin> fst ` set l \<Longrightarrow> \<forall>j < d. j \<in> fst ` set l \<Longrightarrow>
    registry_add may_fail c a lab (Some f) arg l (int d) None
      (l @ [(d, \<lparr>hk_cr3 = c, hk_addr = a, hk_label = lab, hk_func = f, hk_arg = arg, hk_enabled = True\<rparr>)])"

definition known :: "int \<Rightarrow> registry \<Rightarrow> bool" where
  "known d l \<longleftrightarrow> 0 \<le> d \<and> nat d \<in> fst ` set l"

inductive registry_step :: "bool \<Rightarrow> obhook_call \<Rightarrow> registry \<Rightarrow> int \<Rightarrow> OBHOOK_ERRNO option \<Rightarrow> registry \<Rightarrow> bool" for may_fail where
  process: "c \<noteq> 0 \<Longrightarrow> registry_add may_fail c a lab cb arg l v e l' \<Longrightarrow> registry_step may_fail (Add_process c a (Some lab) cb arg) l v e l'"
| no_process: "registry_step may_fail (Add_process 0 a lbl cb arg) l (-1) (Some OBHOOK_ERR_INVALID_CR3) l"
| universal: "registry_add may_fail 0 a lab cb arg l v e l' \<Longrightarrow> registry_step may_fail (Add_universal a (Some lab) cb arg) l v e l'"
| deleted: "known d l \<Longrightarrow> registry_step may_fail (Delete d) l 0 None (delete_spec (nat d) l)"
| enabled: "known d l \<Longrightarrow> registry_step may_fail (Enable d) l 0 None (toggle_spec (nat d) True l)"
| disabled: "known d l \<Longrightarrow> registry_step may_fail (Disable d) l 0 None (toggle_spec (nat d) False l)"
| unknown: "\<not> known d l \<Longrightarrow> call \<in> {Delete d, Enable d, Disable d} \<Longrightarrow>
    registry_step may_fail call l (-1) (Some OBHOOK_ERR_INVALID_DESCRIPTOR) l"

text \<open>The tables can grow by one element each.\<close>

definition roomy :: "obhook_context \<Rightarrow> bool" where
  "roomy s \<longleftrightarrow> ht_room (hook_tbl s) \<and> (\<forall>p r. ht_recs s p = Some r \<longrightarrow> ht_room (proc_obhk_tbl r))"

definition labelled :: "obhook_call \<Rightarrow> bool" where
  "labelled call \<longleftrightarrow> (case call of Add_process c a lbl cb arg \<Rightarrow> lbl \<noteq> None | Add_universal a lbl cb arg \<Rightarrow> lbl \<noteq> None | _ \<Rightarrow> True)"

text \<open>
  What a call does to the rest of the state. A call that succeeds keeps the error number and leaves no new empty record,
  a failed allocation touches no hook, and every other error changes the error number only.
\<close>

definition tables_only :: "obhook_context \<Rightarrow> obhook_context \<Rightarrow> bool" where
  "tables_only s s' \<longleftrightarrow> (\<exists>t h e. s' = s\<lparr>hook_tbl := t, ht_recs := h, obhook_errno := e\<rparr>)"

definition effect_of :: "OBHOOK_ERRNO option \<Rightarrow> obhook_context \<Rightarrow> obhook_context \<Rightarrow> bool" where
  "effect_of e s s' \<longleftrightarrow> (case e of
     None \<Rightarrow> obhook_errno s' = obhook_errno s \<and> empty_addresses s' \<subseteq> empty_addresses s \<and> empty_processes s' \<subseteq> empty_processes s
   | Some x \<Rightarrow> if x = OBHOOK_ERR_FAIL then obhook_errno s' = x \<and> tables_only s s' else s' = s\<lparr>obhook_errno := x\<rparr>)"

lemma tables_onlyI: "s\<lparr>hook_tbl := hook_tbl s', ht_recs := ht_recs s', obhook_errno := obhook_errno s'\<rparr> = s' \<Longrightarrow> tables_only s s'"
  by (metis tables_only_def)

lemma tables_only_trans: "tables_only s s' \<Longrightarrow> tables_only s' s'' \<Longrightarrow> tables_only s s''"
  unfolding tables_only_def by force

lemma tables_only_keeps: "tables_only s s' \<Longrightarrow> index_tbl s' = index_tbl s"
  by (auto simp: tables_only_def)

lemma process_record_frame:
  assumes "process_record calloc c s = (p, s')" "roomy s"
  shows "tables_only s s'"
    "p = None \<Longrightarrow> obhook_errno s' = OBHOOK_ERR_FAIL \<and> (\<exists>used. calloc used = None)"
    "p \<noteq> None \<Longrightarrow> obhook_errno s' = obhook_errno s" "ht_recs s' x = Some r \<Longrightarrow> ht_room (proc_obhk_tbl r)"
  using assms by (auto simp: process_record_def roomy_def ht_room_def split: option.splits if_splits intro: tables_onlyI)

lemma address_record_frame:
  assumes "address_record calloc p c a s = Some (q, s')"
  shows "tables_only s s'" "q = None \<Longrightarrow> obhook_errno s' = OBHOOK_ERR_FAIL \<and> (\<exists>used. calloc used = None)"
    "q \<noteq> None \<Longrightarrow> obhook_errno s' = obhook_errno s"
  using assms by (auto simp: address_record_def bind_eq_Some_conv split: option.splits intro: tables_onlyI)

lemma callback_record_frame:
  assumes "callback_record calloc q d lbl cb arg s = Some (v, s')" "0 \<le> v"
  shows "obhook_errno s' = obhook_errno s"
  using assms by (auto simp: callback_record_def obhook_fail_def bind_eq_Some_conv Let_def split: option.splits)

lemma descriptor_full:
  assumes "represents s l"
  shows "get_obhook_descriptor s = -1 \<longleftrightarrow> (\<forall>d < MAX_NM_OBHOOK. d \<in> fst ` set l)"
    "get_obhook_descriptor s \<noteq> -1 \<Longrightarrow> \<exists>d. get_obhook_descriptor s = int d \<and> d < MAX_NM_OBHOOK \<and> index_tbl s d = None \<and>
       d \<notin> fst ` set l \<and> (\<forall>j < d. j \<in> fst ` set l)"
  using descriptor_from [of "index_tbl s" 0] free_descriptor [OF assms] by (auto simp: get_obhook_descriptor_def)

lemma represents_list: "represents s l \<Longrightarrow> list_at s (c, a) = None \<longleftrightarrow> hooks_at l (c, a) = []"
proof -
  assume "represents s l"
  then have "ll (cb_next s) (list_at s (c, a)) (hook_ptrs s (hooks_at l (c, a)))" by (simp add: represents_def)
  then show ?thesis by (cases "hooks_at l (c, a)") (auto simp: hook_ptrs_def)
qed

lemma registration:
  assumes "represents s l" "calloc_ok calloc" "roomy s" "index_tbl s d = None" "d < MAX_NM_OBHOOK" "d \<notin> fst ` set l"
    "\<forall>j < d. j \<in> fst ` set l" "add_error c a lab (Some f) l = None" "process_record calloc c s = (p, s1)"
  shows "\<exists>v e s' l'. (case p of None \<Rightarrow> Some (-1, s1) | Some p \<Rightarrow> do { (q, s2) \<leftarrow> address_record calloc p c a s1;
      case q of None \<Rightarrow> Some (-1, s2) | Some q \<Rightarrow> callback_record calloc q (int d) (Some lab) f arg s2 }) = Some (v, s') \<and>
    registry_add (\<exists>used. calloc used = None) c a lab (Some f) arg l v e l' \<and> represents s' l' \<and>
    effect_of e s s'"
proof -
  have r1: "represents s1 l" "p = process_at s1 c" "elsewhere c a s s1"
    using process_record_ok [OF assms(1,2) _ assms(9)] assms(3) by (auto simp: roomy_def)
  note f1 = process_record_frame [OF assms(9,3)]
  have fail: "\<exists>e l'. registry_add (\<exists>used. calloc used = None) c a lab (Some f) arg l (-1) e l' \<and> represents s' l' \<and>
      effect_of e s s'"
    if "\<exists>used. calloc used = None" "represents s' l" "obhook_errno s' = OBHOOK_ERR_FAIL" "tables_only s s'" for s'
    using that by (intro exI [of _ "Some OBHOOK_ERR_FAIL"] exI [of _ l] conjI no_memory [OF assms(8)]) (simp_all add: effect_of_def)
  show ?thesis
  proof (cases p)
    case None
    then show ?thesis using fail [of s1] f1(1,2) r1(1) by auto
  next
    case p: (Some p')
    obtain r where r: "ht_recs s1 p' = Some r"
      using process_at_ok [of s1 c p'] r1 p by (auto simp: represents_def process_ok_def)
    have "process_at s1 c = Some p'" using r1(2) p by simp
    then obtain q s2 where q: "address_record calloc p' c a s1 = Some (q, s2)" "represents s2 l" "q = address_at s2 c a" "elsewhere c a s1 s2"
      using address_record_ok [OF r1(1) assms(2) _ r f1(4) [OF r], of c a] by auto
    note f2 = address_record_frame [OF q(1)]
    have t2: "tables_only s s2" by (rule tables_only_trans [OF f1(1) f2(1)])
    show ?thesis
    proof (cases q)
      case None then show ?thesis using fail [of s2] p q(1,2) f2(2) t2 by auto
    next
      case (Some q')
      have i: "index_tbl s2 d = None" "length lab < MAX_SZ_OBHOOK_LABEL" "c = 0 \<longrightarrow> is_kern_addr a"
        using tables_only_keeps [OF t2] assms(4,8) by (auto split: if_splits)
      consider "callback_record calloc q' (int d) (Some lab) f arg s2 = Some (-1, s2\<lparr>obhook_errno := OBHOOK_ERR_FAIL\<rparr>)" "calloc (in_use s2) = None"
        | s' where "callback_record calloc q' (int d) (Some lab) f arg s2 = Some (int d, s')" "elsewhere c a s2 s'"
          "represents s' (l @ [(d, \<lparr>hk_cr3 = c, hk_addr = a, hk_label = lab, hk_func = f, hk_arg = arg, hk_enabled = True\<rparr>)])"
        using callback_record_ok [OF q(2) assms(2) _ i(1) assms(5) i(2,3), of q' f arg] q(3) Some by auto
      then show ?thesis
      proof cases
        case 1
        then have "\<exists>used. calloc used = None" by blast
        moreover have "tables_only s (s2\<lparr>obhook_errno := OBHOOK_ERR_FAIL\<rparr>)" by (rule tables_only_trans [OF t2]) (simp add: tables_onlyI)
        ultimately show ?thesis using fail [of "s2\<lparr>obhook_errno := OBHOOK_ERR_FAIL\<rparr>"] 1 p q(1,2) Some by (auto simp: represents_errno)
      next
        case 2
        have l': "list_at s' (c, a) \<noteq> None" using represents_list [OF 2(3), of c a] by (simp add: hooks_at_def)
        then have "address_at s' c a \<noteq> None" by (cases "address_at s' c a") (simp_all add: list_at_def)
        then have "empty_addresses s' \<subseteq> empty_addresses s \<and> empty_processes s' \<subseteq> empty_processes s"
          using l' elsewhere_trans [OF elsewhere_trans [OF r1(3) q(4)] 2(2)] by (intro no_new_empties) auto
        moreover have "obhook_errno s' = obhook_errno s" using callback_record_frame [OF 2(1)] f1(3) f2(3) p Some by simp
        ultimately have "effect_of None s s'" by (simp add: effect_of_def)
        then have "\<exists>e l'. registry_add (\<exists>used. calloc used = None) c a lab (Some f) arg l (int d) e l' \<and> represents s' l' \<and>
            effect_of e s s'"
          using 2(3) added [OF assms(8,5,6,7), of "\<exists>used. calloc used = None" arg] by blast
        then show ?thesis using p q(1) Some 2(1) by auto
      qed
    qed
  qed
qed

lemma add_obhk_internal_ok:
  assumes "represents s l" "calloc_ok calloc" "roomy s"
  shows "\<exists>v e s' l'. add_obhk_internal calloc c a (Some lab) cb arg s = Some (v, s') \<and>
    registry_add (\<exists>used. calloc used = None) c a lab cb arg l v e l' \<and> represents s' l' \<and>
    effect_of e s s'"
proof (cases "add_error c a lab cb l")
  case (Some x)
  have "add_obhk_internal calloc c a (Some lab) cb arg s = Some (-1, s\<lparr>obhook_errno := x\<rparr>)"
    using Some descriptor_full(1) [OF assms(1)]
    by (auto simp: add_obhk_internal_def obhook_fail_def Let_def split: if_splits option.splits)
  moreover have "represents (s\<lparr>obhook_errno := x\<rparr>) l" using assms(1) by (simp add: represents_errno)
  ultimately show ?thesis
    by (intro exI [of _ "-1"] exI [of _ "Some x"] exI [of _ "s\<lparr>obhook_errno := x\<rparr>"] exI [of _ l] conjI refused [OF Some])
      (use Some in \<open>auto simp: effect_of_def split: if_splits\<close>)
next
  case None
  obtain f where f: "cb = Some f" using None by (cases cb) (auto split: if_splits)
  have n: "get_obhook_descriptor s \<noteq> -1" using None descriptor_full(1) [OF assms(1)] by (auto split: if_splits)
  then obtain d where d: "get_obhook_descriptor s = int d" "d < MAX_NM_OBHOOK" "index_tbl s d = None"
    "d \<notin> fst ` set l" "\<forall>j < d. j \<in> fst ` set l" using descriptor_full(2) [OF assms(1)] by blast
  obtain p s1 where p: "process_record calloc c s = (p, s1)" by fastforce
  have "add_obhk_internal calloc c a (Some lab) cb arg s = (case p of None \<Rightarrow> Some (-1, s1) | Some p \<Rightarrow>
      do { (q, s2) \<leftarrow> address_record calloc p c a s1;
           case q of None \<Rightarrow> Some (-1, s2) | Some q \<Rightarrow> callback_record calloc q (int d) (Some lab) f arg s2 })"
    using None n by (auto simp: add_obhk_internal_def Let_def d(1) f p split: if_splits option.splits)
  then show ?thesis using registration [OF assms d(3,2,4,5) None [unfolded f] p] f by simp
qed

lemma unknown_descriptor:
  assumes "represents s l" "\<not> known d l"
  shows "obhook_delete d s = obhook_fail OBHOOK_ERR_INVALID_DESCRIPTOR s" "toggle_obhk d b s = obhook_fail OBHOOK_ERR_INVALID_DESCRIPTOR s"
  using assms free_descriptor [OF assms(1), of "nat d"]
  by (auto simp: obhook_delete_def toggle_obhk_def known_def split: option.splits)

lemma represents_empty: "represents obhk_ctx []"
  by (auto simp: represents_def obhk_ctx_def tables_ok_def hooks_ok_def hook_ptrs_def hooks_at_def list_at_def
      address_at_def process_at_def ut.inv_nil ut.find_nil)

lemma known_hook: "known d l \<Longrightarrow> \<exists>n h. d = int n \<and> (n, h) \<in> set l"
  by (auto simp: known_def) (metis int_nat_eq)

lemma unknown_step:
  assumes "represents s l" "\<not> known d l" "call \<in> {Delete d, Enable d, Disable d}"
  shows "\<exists>v e s' l'. run_call calloc call s = Some (v, s') \<and> registry_step b call l v e l' \<and> represents s' l' \<and>
    effect_of e s s'"
proof -
  have "run_call calloc call s = Some (-1, s\<lparr>obhook_errno := OBHOOK_ERR_INVALID_DESCRIPTOR\<rparr>)"
    using assms(3) unknown_descriptor [OF assms(1,2)] by (auto simp: obhook_enable_def obhook_disable_def obhook_fail_def)
  then show ?thesis
    using assms(1) unknown [OF assms(2,3)] by (fastforce simp: represents_errno effect_of_def)
qed

lemma known_step:
  assumes "represents s l" "known d l" "call \<in> {Delete d, Enable d, Disable d}"
  shows "\<exists>v e s' l'. run_call calloc call s = Some (v, s') \<and> registry_step b call l v e l' \<and> represents s' l' \<and>
    effect_of e s s'"
proof -
  obtain n h where d: "d = int n" "(n, h) \<in> set l" using known_hook [OF assms(2)] by blast
  note s = deleted [OF assms(2)] enabled [OF assms(2)] disabled [OF assms(2)]
  consider "call = Delete d" | "call = Enable d" | "call = Disable d" using assms(3) by blast
  then show ?thesis
  proof cases
    case 1 then show ?thesis using obhook_delete_ok [OF assms(1) d(2)] s(1) [of b] d(1) by (fastforce simp: effect_of_def)
  next
    case 2 then show ?thesis using toggle_obhk_ok [OF assms(1) d(2), of True] s(2) [of b] d(1) by (fastforce simp: obhook_enable_def effect_of_def)
  next
    case 3 then show ?thesis using toggle_obhk_ok [OF assms(1) d(2), of False] s(3) [of b] d(1) by (fastforce simp: obhook_disable_def effect_of_def)
  qed
qed

text \<open>C9: The hook interface implements a list of hooks. In a state that represents a list of hooks every call
  (\<^verbatim>\<open>obhook_add_process\<close>, \<^verbatim>\<open>obhook_add_universal\<close>, \<^verbatim>\<open>obhook_delete\<close>, \<^verbatim>\<open>obhook_enable\<close>, \<^verbatim>\<open>obhook_disable\<close>)
  returns, without reading a record that is not allocated, the value and the error the list specification gives, and
  leaves a state that represents the list it gives: an addition appends the hook under the smallest free descriptor, a
  deletion removes it, enabling and disabling change its flag. A call that succeeds keeps \<^verbatim>\<open>obhook_errno\<close> and leaves no
  record of an address without hooks, and no record of a process without addresses, that was not there before: a deletion
  removes the records it empties. A call refused because of its arguments or because the index table is full changes
  nothing but \<^verbatim>\<open>obhook_errno\<close>. An addition for which \<^verbatim>\<open>calloc\<close> fails keeps every hook, but the tables may keep the
  records allocated before the failure. The conditions: \<^verbatim>\<open>calloc\<close> returns unused records, the hash tables have room for
  another element (\<^verbatim>\<open>roomy\<close>), and an addition passes a label (\<^verbatim>\<open>labelled\<close>; a null label crashes).
\<close>

theorem obhook_implements_registry:
  assumes "represents s l" "calloc_ok calloc" "roomy s" "labelled call"
  shows "\<exists>v e s' l'. run_call calloc call s = Some (v, s') \<and> registry_step (\<exists>used. calloc used = None) call l v e l' \<and>
    represents s' l' \<and> effect_of e s s'"
proof (cases call)
  case (Add_process c a lbl cb arg)
  then obtain lab where lab: "lbl = Some lab" using assms(4) by (cases lbl) (auto simp: labelled_def)
  show ?thesis
  proof (cases "c = 0")
    case True
    have "run_call calloc call s = Some (-1, s\<lparr>obhook_errno := OBHOOK_ERR_INVALID_CR3\<rparr>)"
      using True Add_process by (simp add: obhook_add_process_def obhook_fail_def)
    then show ?thesis using no_process assms(1) True Add_process by (fastforce simp: represents_errno effect_of_def)
  next
    case False
    then show ?thesis
      using add_obhk_internal_ok [OF assms(1-3), of c a lab cb arg] process Add_process lab by (fastforce simp: obhook_add_process_def)
  qed
next
  case (Add_universal a lbl cb arg)
  then obtain lab where "lbl = Some lab" using assms(4) by (cases lbl) (auto simp: labelled_def)
  then show ?thesis
    using add_obhk_internal_ok [OF assms(1-3), of 0 a lab cb arg] universal Add_universal by (fastforce simp: obhook_add_universal_def)
qed (use known_step [OF assms(1)] unknown_step [OF assms(1)] in blast)+

theorem obhook_implements_registry_witness:
  "\<exists>v e s' l'. run_call first_free (Add_universal 0xfffff80000001000 (Some ''syscall'') (Some 7) 0) obhk_ctx = Some (v, s') \<and>
     registry_step (\<exists>used. first_free used = None) (Add_universal 0xfffff80000001000 (Some ''syscall'') (Some 7) 0) [] v e l' \<and>
     represents s' l' \<and> effect_of e obhk_ctx s'"
proof (rule obhook_implements_registry [OF represents_empty])
  show "calloc_ok first_free" by (rule first_free_ok)
  show "roomy obhk_ctx" by (simp add: roomy_def obhk_ctx_def ht_room_def)
  show "labelled (Add_universal 0xfffff80000001000 (Some ''syscall'') (Some 7) 0)" by (simp add: labelled_def)
qed

text \<open>
  The label may be null according to \<^verbatim>\<open>obhook.h\<close>, but the copy of the label reads through it: a registration that
  passes all checks and gets its memory does not survive.
\<close>

lemma obhook_null_label:
  "obhook_add_universal first_free 0xfffff80000001000 None (Some 7) 0 obhk_ctx = None"
proof -
  have d: "get_obhook_descriptor obhk_ctx = 0"
    by (simp add: get_obhook_descriptor_def get_obhook_descriptor_from.simps [of _ 0] MAX_NM_OBHOOK_def obhk_ctx_def)
  have k: "is_kern_addr 0xfffff80000001000" by (simp add: is_kern_addr_def MASK_KERN_ADDR_def)
  have c: "hook_tbl obhk_ctx = None" "ht_recs obhk_ctx = Map.empty" "cb_recs obhk_ctx = Map.empty" by (simp_all add: obhk_ctx_def)
  show ?thesis
    by (simp add: obhook_add_universal_def add_obhk_internal_def Let_def d k c process_record_def address_record_def callback_record_def
        first_free_def in_use_def ut.find_nil)
qed

text \<open>
  An addition whose second allocation fails leaves the record of the process, without addresses, in the first table: it
  stays there until a hook of the process is added and deleted again.
\<close>

lemma obhook_failed_calloc:
  "\<exists>s'. obhook_add_process (\<lambda>used. if used 1 then None else Some 1) 0x1aa000 0x401000 (Some ''start'') (Some 7) 0 obhk_ctx = Some (-1, s') \<and>
     0x1aa000 \<in> empty_processes s'"
proof -
  define s' where "s' = obhk_ctx\<lparr>ht_recs := [1 \<mapsto> \<lparr>ht_addr = 0, ht_cr3 = 0x1aa000, proc_obhk_tbl = None, cb_list = None\<rparr>],
    hook_tbl := HASH_ADD None (ulong_key 0x1aa000) 1\<rparr>"
  have d: "get_obhook_descriptor obhk_ctx = 0"
    by (simp add: get_obhook_descriptor_def get_obhook_descriptor_from.simps [of _ 0] MAX_NM_OBHOOK_def obhk_ctx_def)
  have "process_record (\<lambda>used. if used 1 then None else Some 1) 0x1aa000 obhk_ctx = (Some 1, s')"
    by (simp add: process_record_def s'_def in_use_def obhk_ctx_def ut.find_nil)
  moreover have "address_record (\<lambda>used. if used 1 then None else Some 1) 1 0x1aa000 0x401000 s' = Some (None, s'\<lparr>obhook_errno := OBHOOK_ERR_FAIL\<rparr>)"
    by (simp add: address_record_def s'_def in_use_def ut.find_nil)
  moreover have "HASH_FIND (hook_tbl s') (ulong_key 0x1aa000) = Some 1"
    using ut.find_add [OF ut.inv_nil, of "ulong_key 0x1aa000" 1] by (simp add: s'_def ht_room_def ut.find_nil)
  then have "0x1aa000 \<in> empty_processes (s'\<lparr>obhook_errno := OBHOOK_ERR_FAIL\<rparr>)"
    by (simp add: empty_processes_def process_at_def address_at_def) (simp add: s'_def ut.find_nil)
  ultimately show ?thesis by (simp add: obhook_add_process_def add_obhk_internal_def d MAX_SZ_OBHOOK_LABEL_def)
qed

section \<open>Dispatch\<close>

text \<open>
  The loop of \<^verbatim>\<open>helper_obhook_dispatcher\<close>: a callback gets the hooks and the machine, and may change both. The
  \<^verbatim>\<open>next\<close> field is read after the callback has returned.
\<close>

type_synonym 'm callback = "ptr \<Rightarrow> u64 \<Rightarrow> obhook_context \<times> 'm \<Rightarrow> obhook_context \<times> 'm"

partial_function (option) call_hooks ::
  "'m callback \<Rightarrow> ptr option \<Rightarrow> obhook_context \<times> 'm \<Rightarrow> (obhook_context \<times> 'm) option" where
  "call_hooks run p w =
     (case p of None \<Rightarrow> Some w
      | Some b \<Rightarrow> Option.bind (cb_recs (fst w) b) (\<lambda>r.
          let w1 = (if cb_enabled r then run (cb_func r) (cb_arg r) w else w) in
          if cb_recs (fst w1) b = None then None else call_hooks run (cb_next (fst w1) b) w1))"

declare call_hooks.simps [code]

definition helper_obhook_dispatcher ::
  "'m callback \<Rightarrow> ('m \<Rightarrow> u64) \<Rightarrow> ('m \<Rightarrow> u64) \<Rightarrow> obhook_context \<times> 'm \<Rightarrow> (obhook_context \<times> 'm) option" where
  "helper_obhook_dispatcher run eip cr w =
     do { (l1, s1) \<leftarrow> obhook_getcbs_univ (eip (snd w)) (fst w);
          w1 \<leftarrow> call_hooks run l1 (s1, snd w);
          (l2, s2) \<leftarrow> obhook_getcbs_proc (cr (snd w1)) (eip (snd w1)) (fst w1);
          call_hooks run l2 (s2, snd w1) }"

text \<open>The calls a list of hooks makes, and the run of callbacks that leave the hooks alone.\<close>

definition enabled_calls :: "registry \<Rightarrow> (ptr \<times> u64) list" where
  "enabled_calls l = map (\<lambda>(d, h). (hk_func h, hk_arg h)) (filter (\<lambda>(d, h). hk_enabled h) l)"

definition universal_calls :: "registry \<Rightarrow> u64 \<Rightarrow> (ptr \<times> u64) list" where
  "universal_calls l e = (if is_kern_addr e then enabled_calls (hooks_at l (0, e)) else [])"

definition process_calls :: "registry \<Rightarrow> u64 \<Rightarrow> u64 \<Rightarrow> (ptr \<times> u64) list" where
  "process_calls l c e = (if c = 0 then [] else enabled_calls (hooks_at l (c, e)))"

definition callbacks :: "(ptr \<Rightarrow> u64 \<Rightarrow> 'm \<Rightarrow> 'm) \<Rightarrow> 'm callback" where
  "callbacks act = (\<lambda>f x (s, m). (s, act f x m))"

definition acts :: "(ptr \<Rightarrow> u64 \<Rightarrow> 'm \<Rightarrow> 'm) \<Rightarrow> (ptr \<times> u64) list \<Rightarrow> 'm \<Rightarrow> 'm" where
  "acts act cs m = fold (\<lambda>(f, x). act f x) cs m"

lemma callbacks_apply [simp]: "callbacks act f x (s, m) = (s, act f x m)"
  by (simp add: callbacks_def)

lemma call_hooks_eq:
  assumes "hooks_ok s l" "set l' \<subseteq> set l" "ll (cb_next s) p (hook_ptrs s l')"
  shows "call_hooks (callbacks act) p (s, m) = Some (s, acts act (enabled_calls l') m)"
  using assms(2,3)
proof (induction l' arbitrary: p m)
  case Nil then show ?case by (simp add: hook_ptrs_def call_hooks.simps acts_def enabled_calls_def)
next
  case (Cons x l')
  obtain d h where x: "x = (d, h)" by (cases x)
  then obtain b q where b: "index_tbl s d = Some b" "cb_recs s b = Some \<lparr>cb_ht_rec = q, uniq_d = of_nat d,
      cb_enabled = hk_enabled h, cb_universal = (hk_cr3 h = 0), cb_label = hk_label h, cb_func = hk_func h, cb_arg = hk_arg h\<rparr>"
    using hook_okD(3) [OF assms(1), of d h] Cons.prems(1) by (auto simp: hook_ok_def)
  then have p: "p = Some b" "ll (cb_next s) (cb_next s b) (hook_ptrs s l')" using Cons.prems(2) x by (simp_all add: hook_ptrs_def)
  have "call_hooks (callbacks act) (cb_next s b) (s, m') = Some (s, acts act (enabled_calls l') m')" for m'
    using Cons.IH Cons.prems(1) p(2) by simp
  then show ?case using b x p(1) by (simp add: call_hooks.simps [of _ "Some b"] acts_def enabled_calls_def)
qed

lemma getcbs_ok:
  assumes "represents s l"
  shows "\<exists>s'. obhook_getcbs_univ e s = Some (if is_kern_addr e then list_at s' (0, e) else None, s') \<and> represents s' l"
    "\<exists>s'. obhook_getcbs_proc c e s = Some (if c \<noteq> 0 then list_at s' (c, e) else None, s') \<and> represents s' l"
  using assms get_obhk_cb_internal_ok(1) [OF assms]
  by (auto simp: obhook_getcbs_univ_def obhook_getcbs_proc_def represents_errno)

lemma call_list_at:
  assumes "represents s l"
  shows "call_hooks (callbacks act) (if b then list_at s ca else None) (s, m) =
    Some (s, acts act (if b then enabled_calls (hooks_at l ca) else []) m)"
proof (cases b)
  case True
  have "set (hooks_at l ca) \<subseteq> set l" by (cases ca) (auto simp: hooks_at_def)
  then show ?thesis using True assms call_hooks_eq [of s l "hooks_at l ca" "list_at s ca"] by (cases ca) (simp add: represents_def)
qed (simp add: call_hooks.simps acts_def)

lemma dispatcher_calls:
  assumes "represents s l" "m1 = acts act (universal_calls l (eip m)) m"
  shows "\<exists>s'. helper_obhook_dispatcher (callbacks act) eip cr (s, m) =
    Some (s', acts act (process_calls l (cr m1) (eip m1)) m1) \<and> represents s' l"
proof -
  obtain s1 where 1: "obhook_getcbs_univ (eip m) s = Some (if is_kern_addr (eip m) then list_at s1 (0, eip m) else None, s1)" "represents s1 l"
    using getcbs_ok(1) [OF assms(1)] by blast
  obtain s2 where 2: "obhook_getcbs_proc (cr m1) (eip m1) s1 = Some (if cr m1 \<noteq> 0 then list_at s2 (cr m1, eip m1) else None, s2)" "represents s2 l"
    using getcbs_ok(2) [OF 1(2)] by blast
  have "call_hooks (callbacks act) (if is_kern_addr (eip m) then list_at s1 (0, eip m) else None) (s1, m) = Some (s1, m1)"
    by (simp only: call_list_at [OF 1(2)] assms(2) universal_calls_def)
  moreover have "call_hooks (callbacks act) (if cr m1 \<noteq> 0 then list_at s2 (cr m1, eip m1) else None) (s2, m1) =
      Some (s2, acts act (process_calls l (cr m1) (eip m1)) m1)"
    by (simp only: call_list_at [OF 2(2)] process_calls_def if_not_P if_P not_not) simp
  ultimately show ?thesis using 1(1) 2 by (simp add: helper_obhook_dispatcher_def del: if_not_P if_P)
qed

lemma acts_log: "acts (\<lambda>f x m. m @ [(f, x)]) cs m = m @ cs"
  by (induction cs arbitrary: m) (auto simp: acts_def)

lemma dispatch_log:
  assumes "represents s l"
  shows "\<exists>s'. helper_obhook_dispatcher (callbacks (\<lambda>f x m. m @ [(f, x)])) (\<lambda>_. pc) (\<lambda>_. c) (s, []) =
    Some (s', universal_calls l pc @ process_calls l c pc)"
  using dispatcher_calls [OF assms refl, where act = "\<lambda>f x m. m @ [(f, x)]" and eip = "\<lambda>_. pc" and m = "[]" and cr = "\<lambda>_. c"] by (auto simp: acts_log)

text \<open>C27: The dispatcher calls the right hooks. Run at an instruction, with callbacks that leave the hooks themselves
  alone, it calls every enabled universal hook at the instruction pointer, if this is a kernel address, and then every
  enabled hook of the current process there, each once, with its argument and in the order of registration, and nothing
  else; it reads no record that is not allocated, and it returns.
\<close>

theorem obhook_dispatch:
  assumes "represents s l" "m1 = acts act (universal_calls l (eip m)) m"
  shows "\<exists>s'. helper_obhook_dispatcher (callbacks act) eip cr (s, m) =
    Some (s', acts act (process_calls l (cr m1) (eip m1)) m1) \<and> represents s' l"
  by (intro dispatcher_calls assms)

section \<open>The check of the translator\<close>

definition TARGET_PAGE_MASK :: u64 where "TARGET_PAGE_MASK = NOT 0xfff"

text \<open>
  The physical address behind an address of a process. The walk of the page tables by
  \<^verbatim>\<open>cpu_get_phys_page_debug\<close> is a parameter: the physical page of a page under a \<^verbatim>\<open>CR3\<close> value.
\<close>

definition paddr :: "(u64 \<Rightarrow> u64 \<Rightarrow> u64) \<Rightarrow> u64 \<Rightarrow> u64 \<Rightarrow> u64" where
  "paddr phys c a = phys c (a AND TARGET_PAGE_MASK) + (a AND NOT TARGET_PAGE_MASK)"

function hook_here_from :: "(u64 \<Rightarrow> u64 \<Rightarrow> u64) \<Rightarrow> obhook_context \<Rightarrow> u64 \<Rightarrow> u64 \<Rightarrow> nat \<Rightarrow> bool option" where
  "hook_here_from phys s current_cr3 paddr_pc i =
     (if i < MAX_NM_OBHOOK \<and> int i \<le> top_d s
      then (case index_tbl s i of None \<Rightarrow> hook_here_from phys s current_cr3 paddr_pc (i + 1)
        | Some b \<Rightarrow> Option.bind (cb_recs s b) (\<lambda>cb. Option.bind (ht_recs s (cb_ht_rec cb)) (\<lambda>r.
            if paddr_pc = paddr phys (if ht_cr3 r = 0 then current_cr3 else ht_cr3 r) (ht_addr r) then Some True
            else hook_here_from phys s current_cr3 paddr_pc (i + 1))))
      else Some False)"
  by pat_completeness auto
termination by (relation "measure (\<lambda>(_, _, _, _, i). MAX_NM_OBHOOK - i)") auto

declare hook_here_from.simps [simp del]

text \<open>Whether \<^verbatim>\<open>disas_insn\<close> generates the call of the dispatcher for the instruction at an address.\<close>

definition plants_dispatcher :: "(u64 \<Rightarrow> u64 \<Rightarrow> u64) \<Rightarrow> obhook_context \<Rightarrow> u64 \<Rightarrow> u64 \<Rightarrow> bool option" where
  "plants_dispatcher phys s current_cr3 pc = hook_here_from phys s current_cr3 (paddr phys current_cr3 pc) 0"

definition hook_here :: "(u64 \<Rightarrow> u64 \<Rightarrow> u64) \<Rightarrow> u64 \<Rightarrow> u64 \<Rightarrow> hook \<Rightarrow> bool" where
  "hook_here phys c pp h \<longleftrightarrow> pp = paddr phys (if hk_cr3 h = 0 then c else hk_cr3 h) (hk_addr h)"

lemma hook_here_from_eq:
  assumes "represents s l"
  shows "hook_here_from phys s c pp i = Some (\<exists>d h. (d, h) \<in> set l \<and> i \<le> d \<and> hook_here phys c pp h)"
  using assms
proof (induction phys s c pp i rule: hook_here_from.induct)
  case H: (1 phys s c pp i)
  have h: "hooks_ok s l" "tables_ok s" using H.prems by (simp_all add: represents_def)
  let ?P = "\<lambda>i. \<exists>d h. (d, h) \<in> set l \<and> i \<le> d \<and> hook_here phys c pp h"
  consider (out) "\<not> (i < MAX_NM_OBHOOK \<and> int i \<le> top_d s)"
    | (free) "i < MAX_NM_OBHOOK" "int i \<le> top_d s" "index_tbl s i = None"
    | (used) b where "i < MAX_NM_OBHOOK" "int i \<le> top_d s" "index_tbl s i = Some b" by fastforce
  then show ?case
  proof cases
    case out
    then have "\<not> ?P i" using hook_okD(1,2) [OF h(1)] by force
    then show ?thesis using out by (auto simp: hook_here_from.simps [of phys s c pp i])
  next
    case free
    then have "i \<notin> fst ` set l" using free_descriptor [OF H.prems] by simp
    then have "d \<noteq> i" if "(d, h) \<in> set l" for d h using that by force
    then have "?P i = ?P (i + 1)" by (metis Suc_eq_plus1 le_SucI le_eq_less_or_eq less_eq_Suc_le)
    then show ?thesis using free H.IH(1) H.prems by (simp add: hook_here_from.simps [of phys s c pp i])
  next
    case used
    then obtain h' where h': "(i, h') \<in> set l" using free_descriptor [OF H.prems, of i] by force
    obtain q r where q: "cb_recs s b = Some r" "cb_ht_rec r = q" "address_at s (hk_cr3 h') (hk_addr h') = Some q"
      using hook_okD(3) [OF h(1) h'] used(3) by (auto simp: hook_ok_def)
    obtain r' where r': "ht_recs s q = Some r'" "ht_cr3 r' = hk_cr3 h'" "ht_addr r' = hk_addr h'"
      using address_at_ok [OF h(2) q(3)] by (auto simp: address_ok_def)
    have "h = h' \<or> i + 1 \<le> d" if "(d, h) \<in> set l" "i \<le> d" for d h
      using that hook_fun [OF h(1) h', of h] by (cases "d = i") auto
    then have "?P i \<longleftrightarrow> hook_here phys c pp h' \<or> ?P (i + 1)" using h' by (metis add_leD1 order_refl)
    moreover have "hook_here phys c pp h' \<longleftrightarrow> pp = paddr phys (if ht_cr3 r' = 0 then c else ht_cr3 r') (ht_addr r')"
      by (simp add: hook_here_def r')
    ultimately show ?thesis using used q r' H.IH(2) H.prems by (simp add: hook_here_from.simps [of phys s c pp i])
  qed
qed

lemma enabled_call: "(d, h) \<in> set l \<Longrightarrow> hk_enabled h \<Longrightarrow> (hk_func h, hk_arg h) \<in> set (enabled_calls l)"
  by (force simp: enabled_calls_def)

text \<open>C10: A registered hook fires. The translator generates the call of the dispatcher for an instruction exactly if the
  physical address of a registered hook is that of the instruction; in particular for the address of each hook of the
  current process and each universal hook, whichever descriptors were deleted before. The dispatcher called there, with
  the instruction pointer at the hook, then calls the hook if it is enabled.
\<close>

theorem obhook_fires:
  assumes "represents s l"
  shows "plants_dispatcher phys s c pc = Some (\<exists>d h. (d, h) \<in> set l \<and> hook_here phys c (paddr phys c pc) h) \<and>
    (\<forall>(d, h) \<in> set l. hk_enabled h \<and> hk_addr h = pc \<and> hk_cr3 h \<in> {0, c} \<longrightarrow>
       plants_dispatcher phys s c pc = Some True \<and>
       (\<exists>s' cs. helper_obhook_dispatcher (callbacks (\<lambda>f x m. m @ [(f, x)])) (\<lambda>_. pc) (\<lambda>_. c) (s, []) = Some (s', cs) \<and>
          (hk_func h, hk_arg h) \<in> set cs))"
proof -
  have P: "plants_dispatcher phys s c pc = Some (\<exists>d h. (d, h) \<in> set l \<and> hook_here phys c (paddr phys c pc) h)"
    using hook_here_from_eq [OF assms] by (simp add: plants_dispatcher_def)
  have "plants_dispatcher phys s c pc = Some True \<and>
      (\<exists>s' cs. helper_obhook_dispatcher (callbacks (\<lambda>f x m. m @ [(f, x)])) (\<lambda>_. pc) (\<lambda>_. c) (s, []) = Some (s', cs) \<and>
        (hk_func h, hk_arg h) \<in> set cs)"
    if h: "(d, h) \<in> set l" "hk_enabled h" "hk_addr h = pc" "hk_cr3 h \<in> {0, c}" for d h
  proof -
    have "hook_here phys c (paddr phys c pc) h" using h(3,4) by (auto simp: hook_here_def)
    moreover have "(d, h) \<in> set (hooks_at l (hk_cr3 h, pc))" using h(1,3) by (simp add: hooks_at_def)
    then have "(hk_func h, hk_arg h) \<in> set (universal_calls l pc @ process_calls l c pc)"
      using enabled_call [OF _ h(2)] h(3,4) hook_okD(3) [OF _ h(1), of s] assms
      by (auto simp: universal_calls_def process_calls_def hook_ok_def represents_def)
    moreover obtain s' where "helper_obhook_dispatcher (callbacks (\<lambda>f x m. m @ [(f, x)])) (\<lambda>_. pc) (\<lambda>_. c) (s, []) =
        Some (s', universal_calls l pc @ process_calls l c pc)"
      using dispatch_log [OF assms] by blast
    ultimately show ?thesis using P h(1) by auto
  qed
  then show ?thesis using P by blast
qed

text \<open>One universal hook, for the examples.\<close>

definition one_hook :: registry where
  "one_hook = [(0, \<lparr>hk_cr3 = 0, hk_addr = 0xfffff80000001000, hk_label = ''syscall'', hk_func = 7, hk_arg = 5, hk_enabled = True\<rparr>)]"

definition one_hook_ctx :: obhook_context where
  "one_hook_ctx = snd (the (obhook_add_universal first_free 0xfffff80000001000 (Some ''syscall'') (Some 7) 5 obhk_ctx))"

lemma one_hook_represented: "represents one_hook_ctx one_hook"
proof -
  have o: "calloc_ok first_free" "roomy obhk_ctx"
    by (auto simp: first_free_ok roomy_def obhk_ctx_def ht_room_def)
  obtain v e s' l' where r: "add_obhk_internal first_free 0 0xfffff80000001000 (Some ''syscall'') (Some 7) 5 obhk_ctx = Some (v, s')"
    "registry_add (\<exists>used. first_free used = None) 0 0xfffff80000001000 ''syscall'' (Some 7) 5 [] v e l'" "represents s' l'"
    using add_obhk_internal_ok [OF represents_empty o] by blast
  have c: "hook_tbl obhk_ctx = None" "ht_recs obhk_ctx = Map.empty" "cb_recs obhk_ctx = Map.empty" by (simp_all add: obhk_ctx_def)
  have d: "get_obhook_descriptor obhk_ctx = 0" "is_kern_addr 0xfffff80000001000"
    by (simp_all add: get_obhook_descriptor_def get_obhook_descriptor_from.simps [of _ 0] MAX_NM_OBHOOK_def obhk_ctx_def
        is_kern_addr_def MASK_KERN_ADDR_def)
  have "map_option fst (add_obhk_internal first_free 0 0xfffff80000001000 (Some ''syscall'') (Some 7) 5 obhk_ctx) = Some 0"
    by (simp add: add_obhk_internal_def Let_def d c process_record_def address_record_def callback_record_def
        first_free_def in_use_def ut.find_nil MAX_SZ_OBHOOK_LABEL_def LL_APPEND_def)
  then have "v = 0" using r(1) by simp
  with r(2) have "l' = one_hook" by (auto simp: one_hook_def elim!: registry_add.cases)
  then show ?thesis using r(1,3) by (simp add: one_hook_ctx_def obhook_add_universal_def)
qed

theorem obhook_dispatch_witness:
  "represents one_hook_ctx one_hook \<and>
   (\<exists>s'. helper_obhook_dispatcher (callbacks (\<lambda>f x m. m @ [(f, x)])) (\<lambda>_. 0xfffff80000001000) (\<lambda>_. 0x1aa000) (one_hook_ctx, []) =
      Some (s', [(7, 5)]))"
proof -
  have k: "is_kern_addr 0xfffff80000001000" by (simp add: is_kern_addr_def MASK_KERN_ADDR_def)
  have c: "universal_calls one_hook 0xfffff80000001000 = [(7, 5)]" "process_calls one_hook 0x1aa000 0xfffff80000001000 = []"
    by (simp_all add: universal_calls_def process_calls_def enabled_calls_def hooks_at_def one_hook_def k)
  show ?thesis
    using obhook_dispatch [OF one_hook_represented refl, where act = "\<lambda>f x m. m @ [(f, x)]" and m = "[]" and
        eip = "\<lambda>_. 0xfffff80000001000" and cr = "\<lambda>_. 0x1aa000"] one_hook_represented
    by (auto simp: c acts_log)
qed

theorem obhook_fires_witness:
  "represents one_hook_ctx one_hook \<and> plants_dispatcher (\<lambda>_ page. page) one_hook_ctx 0x1aa000 0xfffff80000001000 = Some True"
  using obhook_fires [OF one_hook_represented, of "\<lambda>_ page. page" "0x1aa000" "0xfffff80000001000"] one_hook_represented
  by (simp add: one_hook_def hook_here_def)

text \<open>
  A callback may delete its own hook: nothing in the interface forbids it. The loop of the dispatcher then reads the
  \<^verbatim>\<open>next\<close> field of the record \<^verbatim>\<open>obhook_delete\<close> has freed.
\<close>

lemma obhook_self_delete:
  assumes "represents s l" "hooks_at l (0, e) = (d, h) # rest" "hk_enabled h" "is_kern_addr e"
    "\<And>m. run (hk_func h) (hk_arg h) (s, m) = (snd (the (obhook_delete (int d) s)), m)"
  shows "helper_obhook_dispatcher run (\<lambda>_. e) cr (s, m) = None"
proof -
  have h: "hooks_ok s l" "(d, h) \<in> set l"
    using assms(1) assms(2) [THEN arg_cong, of set] by (auto simp: represents_def hooks_at_def)
  obtain b r where b: "index_tbl s d = Some b" "cb_recs s b = Some r" "cb_enabled r" "cb_func r = hk_func h" "cb_arg r = hk_arg h"
    using hook_okD(3) [OF h] assms(3) by (auto simp: hook_ok_def)
  have "ll (cb_next s) (list_at s (0, e)) (hook_ptrs s ((d, h) # rest))" using assms(1,2) by (metis represents_def)
  then have p: "list_at s (0, e) = Some b" using b(1) by (simp add: hook_ptrs_def)
  obtain s' where "obhook_delete (int d) s = Some (0, s')" "cb_recs s' b = None"
    using obhook_delete_ok [OF assms(1) h(2)] b(1) by auto
  then have "call_hooks run (Some b) (s, m) = None" using b assms(5) by (simp add: call_hooks.simps [of run "Some b"])
  then show ?thesis
    using get_obhk_cb_internal_ok(1) [OF assms(1)] assms(4) p by (simp add: helper_obhook_dispatcher_def obhook_getcbs_univ_def)
qed

end
