(* ===== verification/Tracer.thy ===== *)
theory Tracer
imports UtList
begin

text \<open>
  The execution tracer: \<^verbatim>\<open>ext/tracer/tracer.c\<close> and its dispatchers \<^verbatim>\<open>helper_tracer_dispatcher\<close> (every
  instruction) and \<^verbatim>\<open>helper_btracer_dispatcher\<close> (every block) of \<^verbatim>\<open>target-i386/mba_helper.c\<close>. The records hang in
  six linked lists. Reading a record that is not allocated is \<^const>\<open>None\<close>. The operations are shown to implement one
  list of tracers numbered in the order of their creation.
\<close>

section \<open>Data\<close>

datatype TRACER_ERRNO = TRACER_ERR_FAIL | TRACER_INVALID_GRANULARITY | TRACER_INVALID_ID | TRACER_MAX_TRACER_ID

definition TRACER_GRANULARITY_INSTR :: int where "TRACER_GRANULARITY_INSTR = 0"

definition TRACER_GRANULARITY_CODEBLOCK :: int where "TRACER_GRANULARITY_CODEBLOCK = 1"

definition MAX_SZ_TRACER_LABEL :: nat where "MAX_SZ_TRACER_LABEL = 16"

text \<open>
  The \<^verbatim>\<open>next\<close> field is kept apart, in the store of the lists. The label is the content of the array, which
  \<^verbatim>\<open>strncpy\<close> leaves without a terminator when it is full.
\<close>

record tracer_cb_record =
  tr_uid :: u16
  tr_enabled :: int
  tr_cr3 :: u64
  tr_is_universal :: bool
  tr_is_kernel_trace :: bool
  tr_granularity :: int
  tr_label :: string
  tr_cb_func :: nat
  tr_cb_arg :: u64

text \<open>The six list heads of \<^verbatim>\<open>struct tracer_context\<close>.\<close>

datatype tracer_list =
    process_tracer | universal_kernel_tracer | universal_tracer
  | process_btracer | universal_kernel_btracer | universal_btracer

record tracer_context =
  serial_num :: int
  tracer_head :: "tracer_list \<Rightarrow> nat option"
  tracer_recs :: "nat \<Rightarrow> tracer_cb_record option"
  tracer_next :: nexts
  g_error_no :: TRACER_ERRNO

definition tracer_ctx :: tracer_context where
  "tracer_ctx = \<lparr>serial_num = 0, tracer_head = Map.empty, tracer_recs = Map.empty, tracer_next = Map.empty, g_error_no = TRACER_ERR_FAIL\<rparr>"

definition tracer_is_kern_addr :: "u64 \<Rightarrow> bool" where
  "tracer_is_kern_addr a \<longleftrightarrow> a AND 0xffff000000000000 = 0xffff000000000000"

section \<open>Operations\<close>

partial_function (option) get_tracer_in_list :: "(nat \<Rightarrow> tracer_cb_record option) \<Rightarrow> nexts \<Rightarrow> nat option \<Rightarrow> int \<Rightarrow> nat option option" where
  "get_tracer_in_list recs nx head uid =
     (case head of None \<Rightarrow> Some None
      | Some p \<Rightarrow> Option.bind (recs p) (\<lambda>r. if uid = uint (tr_uid r) then Some (Some p) else get_tracer_in_list recs nx (nx p) uid))"

declare get_tracer_in_list.simps [code]

text \<open>\<^verbatim>\<open>get_tracer\<close> tries the lists one after the other.\<close>

primrec get_tracer_in :: "tracer_list list \<Rightarrow> int \<Rightarrow> tracer_context \<Rightarrow> nat option option" where
  "get_tracer_in [] uid t = Some None"
| "get_tracer_in (w # ws) uid t =
     Option.bind (get_tracer_in_list (tracer_recs t) (tracer_next t) (tracer_head t w) uid) (\<lambda>rec.
       if rec \<noteq> None then Some rec else get_tracer_in ws uid t)"

definition get_tracer :: "int \<Rightarrow> tracer_context \<Rightarrow> (nat option \<times> tracer_context) option" where
  "get_tracer uid t =
     do { rec \<leftarrow> get_tracer_in [process_tracer, universal_kernel_tracer, universal_tracer, process_btracer,
                             universal_kernel_btracer, universal_btracer] uid t;
          Some (rec, if rec = None then t\<lparr>g_error_no := TRACER_INVALID_ID\<rparr> else t) }"

definition tracer_get_tracer_label :: "int \<Rightarrow> tracer_context \<Rightarrow> (string option \<times> tracer_context) option" where
  "tracer_get_tracer_label uid t =
     do { (rec, t) \<leftarrow> get_tracer uid t;
          case rec of None \<Rightarrow> Some (None, t) | Some p \<Rightarrow> do { r \<leftarrow> tracer_recs t p; Some (Some (tr_label r), t) } }"

definition tracer_get_tracer_status :: "int \<Rightarrow> tracer_context \<Rightarrow> (int \<times> tracer_context) option" where
  "tracer_get_tracer_status uid t =
     do { (rec, t) \<leftarrow> get_tracer uid t;
          case rec of None \<Rightarrow> Some (-1, t) | Some p \<Rightarrow> do { r \<leftarrow> tracer_recs t p; Some (tr_enabled r, t) } }"

definition set_enabled :: "int \<Rightarrow> int \<Rightarrow> tracer_context \<Rightarrow> (int \<times> tracer_context) option" where
  "set_enabled v uid t =
     do { (rec, t) \<leftarrow> get_tracer uid t;
          case rec of None \<Rightarrow> Some (-1, t)
          | Some p \<Rightarrow> do { r \<leftarrow> tracer_recs t p; Some (1, t\<lparr>tracer_recs := (tracer_recs t)(p \<mapsto> r\<lparr>tr_enabled := v\<rparr>)\<rparr>) } }"

definition tracer_disable_tracer :: "int \<Rightarrow> tracer_context \<Rightarrow> (int \<times> tracer_context) option" where
  "tracer_disable_tracer uid t = set_enabled 0 uid t"

definition tracer_enable_tracer :: "int \<Rightarrow> tracer_context \<Rightarrow> (int \<times> tracer_context) option" where
  "tracer_enable_tracer uid t = set_enabled 1 uid t"

text \<open>The list a tracer goes to.\<close>

definition tracer_list_of :: "int \<Rightarrow> u64 \<Rightarrow> bool \<Rightarrow> tracer_list" where
  "tracer_list_of g c k =
     (if g = TRACER_GRANULARITY_INSTR
      then (if c \<noteq> 0 then process_tracer else if k then universal_kernel_tracer else universal_tracer)
      else (if c \<noteq> 0 then process_btracer else if k then universal_kernel_btracer else universal_btracer))"

text \<open>
  The record comes from \<^verbatim>\<open>calloc\<close>, whose result is not checked: without memory the first assignment goes through a
  null pointer, as \<^verbatim>\<open>strncpy\<close> does without a label.
\<close>

definition add_tracer_internal ::
  "callocs \<Rightarrow> u64 \<Rightarrow> string option \<Rightarrow> bool \<Rightarrow> int \<Rightarrow> nat \<Rightarrow> u64 \<Rightarrow> tracer_context \<Rightarrow>
   (int \<times> tracer_context) option" where
  "add_tracer_internal calloc c lbl is_kernel g cb arg t =
     (if g \<noteq> TRACER_GRANULARITY_INSTR \<and> g \<noteq> TRACER_GRANULARITY_CODEBLOCK
      then Some (-1, t\<lparr>g_error_no := TRACER_INVALID_GRANULARITY\<rparr>)
      else if serial_num t = 65535 then Some (-1, t\<lparr>g_error_no := TRACER_MAX_TRACER_ID\<rparr>)
      else do {
        p \<leftarrow> calloc (\<lambda>p. tracer_recs t p \<noteq> None);
        l \<leftarrow> lbl;
        let n = serial_num t + 1;
        let r = \<lparr>tr_uid = word_of_int n, tr_enabled = 0, tr_cr3 = c, tr_is_universal = (c = 0), tr_is_kernel_trace = is_kernel,
                 tr_granularity = g, tr_label = take MAX_SZ_TRACER_LABEL l, tr_cb_func = cb, tr_cb_arg = arg\<rparr>;
        let w = tracer_list_of g c is_kernel;
        (head, nx) \<leftarrow> LL_APPEND (tracer_next t) (tracer_head t w) p;
        Some (uint (tr_uid r), t\<lparr>serial_num := n, tracer_recs := (tracer_recs t)(p \<mapsto> r), tracer_next := nx,
                                 tracer_head := (tracer_head t)(w := head)\<rparr>) })"

text \<open>\<^verbatim>\<open>default_callback\<close> stands for a missing callback; its argument is dropped.\<close>

definition tracer_add_inst_tracer ::
  "callocs \<Rightarrow> nat \<Rightarrow> u64 \<Rightarrow> string option \<Rightarrow> bool \<Rightarrow> nat option \<Rightarrow> u64 \<Rightarrow> tracer_context \<Rightarrow> (int \<times> tracer_context) option" where
  "tracer_add_inst_tracer calloc default_callback c lbl is_kernel cb arg t =
     (case cb of None \<Rightarrow> add_tracer_internal calloc c lbl is_kernel TRACER_GRANULARITY_INSTR default_callback 0 t
      | Some f \<Rightarrow> add_tracer_internal calloc c lbl is_kernel TRACER_GRANULARITY_INSTR f arg t)"

definition tracer_add_block_tracer ::
  "callocs \<Rightarrow> nat \<Rightarrow> u64 \<Rightarrow> string option \<Rightarrow> bool \<Rightarrow> nat option \<Rightarrow> u64 \<Rightarrow> tracer_context \<Rightarrow> (int \<times> tracer_context) option" where
  "tracer_add_block_tracer calloc default_callback c lbl is_kernel cb arg t =
     (case cb of None \<Rightarrow> add_tracer_internal calloc c lbl is_kernel TRACER_GRANULARITY_CODEBLOCK default_callback 0 t
      | Some f \<Rightarrow> add_tracer_internal calloc c lbl is_kernel TRACER_GRANULARITY_CODEBLOCK f arg t)"

text \<open>
  \<^verbatim>\<open>LL_FOREACH_SAFE\<close> reads \<^verbatim>\<open>next\<close> before the body; \<^verbatim>\<open>LL_DELETE\<close> of the head, in a local variable, does not
  touch the store.
\<close>

partial_function (option) tracer_clean_up_by_list ::
  "nexts \<Rightarrow> nat option \<Rightarrow> (nat \<Rightarrow> tracer_cb_record option) \<Rightarrow> (nat \<Rightarrow> tracer_cb_record option) option" where
  "tracer_clean_up_by_list nx head recs =
     (case head of None \<Rightarrow> Some recs
      | Some p \<Rightarrow> if recs p = None then None else tracer_clean_up_by_list nx (nx p) (recs(p := None)))"

declare tracer_clean_up_by_list.simps [code]

primrec clean_up_lists :: "tracer_list list \<Rightarrow> tracer_context \<Rightarrow> tracer_context option" where
  "clean_up_lists [] t = Some t"
| "clean_up_lists (w # ws) t =
     Option.bind (tracer_clean_up_by_list (tracer_next t) (tracer_head t w) (tracer_recs t)) (\<lambda>recs.
       clean_up_lists ws (t\<lparr>tracer_recs := recs, tracer_head := (tracer_head t)(w := None)\<rparr>))"

definition tracer_clean_up :: "tracer_context \<Rightarrow> (int \<times> tracer_context) option" where
  "tracer_clean_up t =
     do { t \<leftarrow> clean_up_lists [process_tracer, universal_tracer, universal_kernel_tracer, process_btracer,
                             universal_btracer, universal_kernel_btracer] t;
          Some (0, t\<lparr>serial_num := 0\<rparr>) }"

section \<open>Dispatch\<close>

text \<open>
  A callback gets the CPU (here the machine, and with it the tracers), the two addresses and its argument, and may
  change the tracers as well as the machine. \<^verbatim>\<open>LL_FOREACH\<close> reads the \<^verbatim>\<open>next\<close> field after the callback has returned.
\<close>

type_synonym 'm tracer_callback = "nat \<Rightarrow> u64 \<Rightarrow> u64 \<Rightarrow> u64 \<Rightarrow> tracer_context \<times> 'm \<Rightarrow> tracer_context \<times> 'm"

partial_function (option) call_tracers ::
  "'m tracer_callback \<Rightarrow> ('m \<Rightarrow> tracer_cb_record \<Rightarrow> bool) \<Rightarrow> u64 \<Rightarrow> u64 \<Rightarrow> nat option \<Rightarrow> tracer_context \<times> 'm \<Rightarrow>
   (tracer_context \<times> 'm) option" where
  "call_tracers run cond pc_start pc_end p w =
     (case p of None \<Rightarrow> Some w
      | Some b \<Rightarrow> Option.bind (tracer_recs (fst w) b) (\<lambda>r.
          let w1 = (if cond (snd w) r then run (tr_cb_func r) pc_start pc_end (tr_cb_arg r) w else w) in
          if tracer_recs (fst w1) b = None then None
          else call_tracers run cond pc_start pc_end (tracer_next (fst w1) b) w1))"

declare call_tracers.simps [code]

definition this_process :: "('m \<Rightarrow> u64) \<Rightarrow> 'm \<Rightarrow> tracer_cb_record \<Rightarrow> bool" where
  "this_process cr m r \<longleftrightarrow> cr m = tr_cr3 r \<and> tr_enabled r = 1"

definition any_process :: "'m \<Rightarrow> tracer_cb_record \<Rightarrow> bool" where
  "any_process m r \<longleftrightarrow> tr_enabled r = 1"

definition call_list ::
  "'m tracer_callback \<Rightarrow> bool \<Rightarrow> ('m \<Rightarrow> tracer_cb_record \<Rightarrow> bool) \<Rightarrow> u64 \<Rightarrow> u64 \<Rightarrow> tracer_list \<Rightarrow> tracer_context \<times> 'm \<Rightarrow>
   (tracer_context \<times> 'm) option" where
  "call_list run b cond pc_start pc_end w x =
     (if tracer_head (fst x) w \<noteq> None \<and> b then call_tracers run cond pc_start pc_end (tracer_head (fst x) w) x else Some x)"

definition helper_tracer_dispatcher ::
  "'m tracer_callback \<Rightarrow> ('m \<Rightarrow> u64) \<Rightarrow> u64 \<Rightarrow> tracer_context \<times> 'm \<Rightarrow> (tracer_context \<times> 'm) option" where
  "helper_tracer_dispatcher run cr pc x =
     do { x \<leftarrow> call_list run (\<not> tracer_is_kern_addr pc) (this_process cr) pc 0 process_tracer x;
          x \<leftarrow> call_list run (tracer_is_kern_addr pc) any_process pc 0 universal_kernel_tracer x;
          call_list run (\<not> tracer_is_kern_addr pc) any_process pc 0 universal_tracer x }"

definition helper_btracer_dispatcher ::
  "'m tracer_callback \<Rightarrow> ('m \<Rightarrow> u64) \<Rightarrow> u64 \<Rightarrow> u64 \<Rightarrow> tracer_context \<times> 'm \<Rightarrow> (tracer_context \<times> 'm) option" where
  "helper_btracer_dispatcher run cr bstart bend x =
     do { x \<leftarrow> call_list run (\<not> tracer_is_kern_addr bstart) (this_process cr) bstart bend process_btracer x;
          x \<leftarrow> call_list run (tracer_is_kern_addr bstart) any_process bstart bend universal_kernel_btracer x;
          call_list run (\<not> tracer_is_kern_addr bstart) any_process bstart bend universal_btracer x }"

text \<open>The monitor command \<^verbatim>\<open>list_tracer\<close> prints the records of the lists, here returned.\<close>

definition show_tracer_list_info :: "tracer_list \<Rightarrow> tracer_context \<Rightarrow> tracer_cb_record list option" where
  "show_tracer_list_info w t =
     do { ps \<leftarrow> LL_FOREACH (tracer_next t) (tracer_head t w); those (map (tracer_recs t) ps) }"

definition tracer_list_callback :: "tracer_context \<Rightarrow> (tracer_cb_record list \<times> tracer_cb_record list) option" where
  "tracer_list_callback t =
     do { i1 \<leftarrow> show_tracer_list_info process_tracer t;
          i2 \<leftarrow> show_tracer_list_info universal_tracer t;
          i3 \<leftarrow> show_tracer_list_info universal_kernel_tracer t;
          b1 \<leftarrow> show_tracer_list_info process_btracer t;
          b2 \<leftarrow> show_tracer_list_info universal_btracer t;
          b3 \<leftarrow> show_tracer_list_info universal_kernel_btracer t;
          Some (i1 @ i2 @ i3, b1 @ b2 @ b3) }"

section \<open>The list of tracers behind the six lists\<close>

definition in_list :: "tracer_list \<Rightarrow> nat \<times> tracer_cb_record \<Rightarrow> bool" where
  "in_list w = (\<lambda>(p, r). tracer_list_of (tr_granularity r) (tr_cr3 r) (tr_is_kernel_trace r) = w)"

definition tracer_at :: "tracer_context \<Rightarrow> (nat \<times> tracer_cb_record) list \<Rightarrow> bool" where
  "tracer_at t prs \<longleftrightarrow> serial_num t = int (length prs) \<and> length prs \<le> 65535 \<and> distinct (map fst prs) \<and>
     (\<forall>(p, r) \<in> set prs. tracer_recs t p = Some r) \<and> (\<forall>p. tracer_recs t p \<noteq> None \<longrightarrow> p \<in> fst ` set prs) \<and>
     map (\<lambda>(p, r). uint (tr_uid r)) prs = map (\<lambda>i. int i + 1) [0..<length prs] \<and>
     (\<forall>w. ll (tracer_next t) (tracer_head t w) (map fst (filter (in_list w) prs)))"

definition tracer_rep :: "tracer_context \<Rightarrow> tracer_cb_record list \<Rightarrow> bool" where
  "tracer_rep t l \<longleftrightarrow> (\<exists>prs. l = map snd prs \<and> tracer_at t prs)"

subsection \<open>Looking up\<close>

lemma get_tracer_in_list_eq:
  assumes "ll nx head (map fst q)" "\<forall>(p, r) \<in> set q. recs p = Some r"
  shows "get_tracer_in_list recs nx head uid = Some (map_option fst (find (\<lambda>(p, r). uint (tr_uid r) = uid) q))"
  using assms by (induction q arbitrary: head) (auto simp: get_tracer_in_list.simps)

lemma find_append: "find P (xs @ ys) = (case find P xs of None \<Rightarrow> find P ys | Some x \<Rightarrow> Some x)"
  by (induction xs) auto

lemma get_tracer_in_eq:
  assumes "tracer_at t prs"
  shows "get_tracer_in ws uid t =
    Some (map_option fst (find (\<lambda>(p, r). uint (tr_uid r) = uid) (concat (map (\<lambda>w. filter (in_list w) prs) ws))))"
proof (induction ws)
  case (Cons w ws)
  have "get_tracer_in_list (tracer_recs t) (tracer_next t) (tracer_head t w) uid =
      Some (map_option fst (find (\<lambda>(p, r). uint (tr_uid r) = uid) (filter (in_list w) prs)))"
    using assms by (intro get_tracer_in_list_eq) (auto simp: tracer_at_def)
  then show ?case using Cons by (auto simp: find_append split: option.splits)
qed simp

lemma find_unique:
  assumes "\<And>x y. x \<in> set xs \<Longrightarrow> y \<in> set xs \<Longrightarrow> P x \<Longrightarrow> P y \<Longrightarrow> x = y" "x \<in> set xs" "P x"
  shows "find P xs = Some x"
proof -
  obtain y where y: "find P xs = Some y" using assms(2,3) by (cases "find P xs") (auto simp: find_None_iff)
  then have "y \<in> set xs" "P y" by (auto simp: find_Some_iff)
  then show ?thesis using y assms by blast
qed

lemma tracer_uid:
  assumes "tracer_at t prs" "i < length prs"
  shows "uint (tr_uid (snd (prs ! i))) = int i + 1"
proof -
  have "map (\<lambda>(p, r). uint (tr_uid r)) prs ! i = map (\<lambda>i. int i + 1) [0..<length prs] ! i"
    using assms(1) by (simp add: tracer_at_def)
  then show ?thesis using assms(2) by (simp add: split_beta)
qed

lemma get_tracer_eq:
  assumes "tracer_at t prs"
  shows "get_tracer uid t = Some (if 1 \<le> uid \<and> uid \<le> int (length prs) then (Some (fst (prs ! nat (uid - 1))), t)
    else (None, t\<lparr>g_error_no := TRACER_INVALID_ID\<rparr>))"
proof -
  let ?ws = "[process_tracer, universal_kernel_tracer, universal_tracer, process_btracer, universal_kernel_btracer, universal_btracer]"
  let ?xs = "concat (map (\<lambda>w. filter (in_list w) prs) ?ws)" and ?P = "\<lambda>(p, r). uint (tr_uid r) = uid"
  have "\<exists>w \<in> set ?ws. in_list w x" for x
    by (cases x) (auto simp: in_list_def tracer_list_of_def split: if_splits)
  then have set: "set ?xs = set prs" by auto
  have ix: "?P (prs ! i) \<longleftrightarrow> int i + 1 = uid" if "i < length prs" for i
    using tracer_uid [OF assms that] by (simp add: split_beta)
  have "find ?P ?xs = (if 1 \<le> uid \<and> uid \<le> int (length prs) then Some (prs ! nat (uid - 1)) else None)"
  proof (cases "1 \<le> uid \<and> uid \<le> int (length prs)")
    case True
    then have i: "nat (uid - 1) < length prs" by linarith
    have "x = y" if "x \<in> set ?xs" "y \<in> set ?xs" "?P x" "?P y" for x y
      using that ix unfolding set in_set_conv_nth by (metis add_right_cancel of_nat_eq_iff)
    then have "find ?P ?xs = Some (prs ! nat (uid - 1))"
      by (rule find_unique) (use i ix True set in auto)
    then show ?thesis using True by simp
  next
    case False
    then have "\<not> ?P x" if "x \<in> set ?xs" for x using that ix unfolding set in_set_conv_nth by force
    then have "find ?P ?xs = None" by (simp only: find_None_iff) blast
    then show ?thesis using False by auto
  qed
  then show ?thesis unfolding get_tracer_def get_tracer_in_eq [OF assms] by simp
qed

lemma get_tracer_rec:
  assumes "tracer_at t prs" "i < length prs"
  shows "tracer_recs t (fst (prs ! i)) = Some (snd (prs ! i))"
  using assms nth_mem [OF assms(2)] by (cases "prs ! i") (auto simp: tracer_at_def)

subsection \<open>Changing one tracer\<close>

lemma in_list_enabled: "in_list w (p, r\<lparr>tr_enabled := v\<rparr>) = in_list w (p, r)"
  by (simp add: in_list_def)

lemma filter_update:
  assumes "i < length xs" "P y = P (xs ! i)" "f y = f (xs ! i)"
  shows "map f (filter P (xs[i := y])) = map f (filter P xs)"
  using assms
proof (induction xs arbitrary: i)
  case (Cons x xs) then show ?case by (cases i) simp_all
qed simp

lemma map_update_same: "i < length xs \<Longrightarrow> f y = f (xs ! i) \<Longrightarrow> map f (xs[i := y]) = map f xs"
  using filter_update [of i xs "\<lambda>_. True" y f] by simp

lemma set_enabled_eq:
  assumes "tracer_at t prs"
  shows "\<exists>t'. set_enabled v uid t = Some (if 1 \<le> uid \<and> uid \<le> int (length prs) then 1 else -1, t') \<and>
    g_error_no t' = (if 1 \<le> uid \<and> uid \<le> int (length prs) then g_error_no t else TRACER_INVALID_ID) \<and>
    tracer_at t' (if 1 \<le> uid \<and> uid \<le> int (length prs)
      then prs[nat (uid - 1) := (fst (prs ! nat (uid - 1)), (snd (prs ! nat (uid - 1)))\<lparr>tr_enabled := v\<rparr>)] else prs)"
proof (cases "1 \<le> uid \<and> uid \<le> int (length prs)")
  case True
  define i where "i = nat (uid - 1)"
  have i: "i < length prs" using True by (auto simp: i_def)
  obtain p r where pr: "prs ! i = (p, r)" by (cases "prs ! i")
  define t' where "t' = t\<lparr>tracer_recs := (tracer_recs t)(p \<mapsto> r\<lparr>tr_enabled := v\<rparr>)\<rparr>"
  let ?prs = "prs[i := (p, r\<lparr>tr_enabled := v\<rparr>)]"
  have d: "distinct (map fst prs)" "p \<in> fst ` set prs" using assms i pr nth_mem [OF i] by (force simp: tracer_at_def)+
  have m: "map fst (filter (in_list w) ?prs) = map fst (filter (in_list w) prs)" for w
    using i pr by (intro filter_update) (simp_all add: in_list_enabled)
  have f: "map fst ?prs = map fst prs" using pr by (intro map_update_same [OF i]) simp
  have u: "map (\<lambda>(p, r). uint (tr_uid r)) ?prs = map (\<lambda>(p, r). uint (tr_uid r)) prs"
    using pr by (intro map_update_same [OF i]) simp
  have "tracer_recs t' q = Some x" if x: "(q, x) \<in> set ?prs" for q x
  proof -
    obtain j where j: "j < length prs" "?prs ! j = (q, x)" using x by (auto simp: in_set_conv_nth)
    have "map fst prs ! j = q" "map fst prs ! i = p" using j pr i unfolding f [symmetric] by simp_all
    then have "q = p \<longleftrightarrow> j = i" using j(1) i d(1) nth_eq_iff_index_eq [of "map fst prs" j i] by auto
    then show ?thesis using j get_tracer_rec [OF assms j(1)] by (cases "j = i") (auto simp: t'_def)
  qed
  moreover have "fst ` set ?prs = fst ` set prs" using f by (metis list.set_map)
  ultimately have "tracer_at t' ?prs"
    using assms m f u d(2) by (auto simp: tracer_at_def) (auto simp: t'_def split: if_splits)
  moreover have "set_enabled v uid t = Some (1, t')"
    using True pr get_tracer_rec [OF assms i] by (simp add: set_enabled_def get_tracer_eq [OF assms] t'_def flip: i_def)
  ultimately show ?thesis using True pr by (simp add: t'_def flip: i_def)
next
  case False
  then show ?thesis using assms by (auto simp: set_enabled_def get_tracer_eq [OF assms] tracer_at_def)
qed

lemma tracer_lists_disjoint:
  assumes "tracer_at t prs" "w \<noteq> w'"
  shows "set (map fst (filter (in_list w) prs)) \<inter> set (map fst (filter (in_list w') prs)) = {}"
proof -
  have "distinct (map fst prs)" using assms(1) by (simp add: tracer_at_def)
  then have "r = r'" if "(x, r) \<in> set prs" "(x, r') \<in> set prs" for x r r'
    using that by (rule eq_key_imp_eq_value)
  then show ?thesis using assms(2) by (auto simp: in_list_def) blast
qed

subsection \<open>Adding a tracer\<close>

definition new_tracer :: "nat \<Rightarrow> u64 \<Rightarrow> string \<Rightarrow> bool \<Rightarrow> int \<Rightarrow> nat \<Rightarrow> u64 \<Rightarrow> tracer_cb_record" where
  "new_tracer n c lab k g cb arg = \<lparr>tr_uid = of_nat n, tr_enabled = 0, tr_cr3 = c, tr_is_universal = (c = 0), tr_is_kernel_trace = k,
     tr_granularity = g, tr_label = take MAX_SZ_TRACER_LABEL lab, tr_cb_func = cb, tr_cb_arg = arg\<rparr>"

lemma in_list_new: "in_list w (p, new_tracer n c lab k g cb arg) \<longleftrightarrow> w = tracer_list_of g c k"
  by (auto simp: in_list_def new_tracer_def)

lemma uint_of_nat_u16: "n \<le> 65535 \<Longrightarrow> uint (of_nat n :: u16) = int n"
  by (simp add: uint_nat unat_of_nat take_bit_nat_eq_self)

definition granularity :: "int \<Rightarrow> bool" where
  "granularity g \<longleftrightarrow> g = TRACER_GRANULARITY_INSTR \<or> g = TRACER_GRANULARITY_CODEBLOCK"

lemma add_tracer_eq:
  assumes "tracer_at t prs" "calloc_ok calloc" "length prs < 65535" "granularity g" "calloc (\<lambda>p. tracer_recs t p \<noteq> None) = Some p"
  shows "\<exists>t'. add_tracer_internal calloc c (Some lab) k g cb arg t = Some (int (length prs) + 1, t') \<and>
    tracer_at t' (prs @ [(p, new_tracer (length prs + 1) c lab k g cb arg)]) \<and> g_error_no t' = g_error_no t"
proof -
  let ?w = "tracer_list_of g c k" and ?r = "new_tracer (length prs + 1) c lab k g cb arg"
  have fresh: "tracer_recs t p = None" using assms(2) [unfolded calloc_ok_def, rule_format, OF assms(5)] by simp
  then have p: "p \<notin> fst ` set prs" using assms(1) by (force simp: tracer_at_def)
  define xs where "xs = (\<lambda>w. map fst (filter (in_list w) prs))"
  have "\<forall>w. ll (tracer_next t) (tracer_head t w) (xs w)" using assms(1) by (simp add: tracer_at_def xs_def)
  moreover have "\<forall>w w'. w \<noteq> w' \<longrightarrow> set (xs w) \<inter> set (xs w') = {}" using tracer_lists_disjoint [OF assms(1)] by (simp add: xs_def)
  moreover have "\<forall>w. p \<notin> set (xs w)" using p by (auto simp: xs_def)
  ultimately obtain h nx where app: "LL_APPEND (tracer_next t) (tracer_head t ?w) p = Some (h, nx)"
    "\<forall>w. ll nx (((tracer_head t)(?w := h)) w) ((xs(?w := xs ?w @ [p])) w)"
    using lls.family_app [of "tracer_next t" "tracer_head t" xs p ?w] by blast
  define t' where "t' = t\<lparr>serial_num := serial_num t + 1, tracer_recs := (tracer_recs t)(p \<mapsto> ?r), tracer_next := nx,
      tracer_head := (tracer_head t)(?w := h)\<rparr>"
  have s: "serial_num t = int (length prs)" using assms(1) by (simp add: tracer_at_def)
  have u: "uint (of_nat (length prs) + 1 :: u16) = int (length prs) + 1"
    using uint_of_nat_u16 [of "length prs + 1"] assms(3) by (simp add: add.commute)
  then have u': "uint (1 + of_nat (length prs) :: u16) = 1 + int (length prs)" by (simp add: add.commute)
  have add: "add_tracer_internal calloc c (Some lab) k g cb arg t = Some (int (length prs) + 1, t')"
    using assms(3-5) s app(1) unfolding add_tracer_internal_def by (simp add: granularity_def Let_def u u' t'_def new_tracer_def add.commute)
  have at: "distinct (map fst prs)" "\<forall>(q, x) \<in> set prs. tracer_recs t q = Some x"
    "\<forall>q. tracer_recs t q \<noteq> None \<longrightarrow> q \<in> fst ` set prs"
    "map (\<lambda>(p, r). uint (tr_uid r)) prs = map (\<lambda>i. int i + 1) [0..<length prs]"
    using assms(1) by (simp_all add: tracer_at_def)
  have "tracer_at t' (prs @ [(p, ?r)])"
    unfolding tracer_at_def
  proof (intro conjI)
    show "\<forall>w. ll (tracer_next t') (tracer_head t' w) (map fst (filter (in_list w) (prs @ [(p, ?r)])))"
    proof
      fix w show "ll (tracer_next t') (tracer_head t' w) (map fst (filter (in_list w) (prs @ [(p, ?r)])))"
        using app(2) [rule_format, of w] by (simp add: t'_def xs_def in_list_new split: if_splits)
    qed
    show "\<forall>(q, x) \<in> set (prs @ [(p, ?r)]). tracer_recs t' q = Some x"
    proof -
      have "tracer_recs t' q = Some x" if "(q, x) \<in> set prs" for q x
        using that at(2) p by (cases "q = p") (force simp: t'_def)+
      then show ?thesis by (auto simp: t'_def)
    qed
    show "\<forall>q. tracer_recs t' q \<noteq> None \<longrightarrow> q \<in> fst ` set (prs @ [(p, ?r)])"
      using at(3) by (simp add: t'_def)
    show "map (\<lambda>(p, r). uint (tr_uid r)) (prs @ [(p, ?r)]) = map (\<lambda>i. int i + 1) [0..<length (prs @ [(p, ?r)])]"
      using at(4) u' by (simp add: new_tracer_def)
  qed (use at(1) s assms(3) p in \<open>simp_all add: t'_def\<close>)
  then show ?thesis using add by (simp add: t'_def)
qed

subsection \<open>Cleaning up\<close>

lemma clean_up_by_list_eq:
  assumes "ll nx head ps" "\<forall>p \<in> set ps. recs p \<noteq> None"
  shows "tracer_clean_up_by_list nx head recs = Some (\<lambda>p. if p \<in> set ps then None else recs p)"
  using assms ll_distinct [OF assms(1)]
proof (induction ps arbitrary: head recs)
  case Nil then show ?case by (simp add: tracer_clean_up_by_list.simps)
next
  case (Cons p ps)
  have "tracer_clean_up_by_list nx (nx p) (recs(p := None)) = Some (\<lambda>q. if q \<in> set ps then None else (recs(p := None)) q)"
    using Cons by (intro Cons.IH) auto
  then show ?case using Cons.prems by (auto simp: tracer_clean_up_by_list.simps [of nx "Some p"] fun_eq_iff)
qed

lemma clean_up_lists_eq:
  assumes "\<forall>w \<in> set ws. ll (tracer_next t) (tracer_head t w) (xs w) \<and> (\<forall>p \<in> set (xs w). tracer_recs t p \<noteq> None)"
    "\<forall>w w'. w \<noteq> w' \<longrightarrow> set (xs w) \<inter> set (xs w') = {}" "distinct ws"
  shows "clean_up_lists ws t = Some (t\<lparr>tracer_recs := (\<lambda>p. if \<exists>w \<in> set ws. p \<in> set (xs w) then None else tracer_recs t p),
    tracer_head := (\<lambda>w. if w \<in> set ws then None else tracer_head t w)\<rparr>)"
  using assms(1,3)
proof (induction ws arbitrary: t)
  case (Cons w ws)
  define t1 where "t1 = t\<lparr>tracer_recs := (\<lambda>p. if p \<in> set (xs w) then None else tracer_recs t p), tracer_head := (tracer_head t)(w := None)\<rparr>"
  have "tracer_clean_up_by_list (tracer_next t) (tracer_head t w) (tracer_recs t) = Some (\<lambda>p. if p \<in> set (xs w) then None else tracer_recs t p)"
    using Cons.prems by (intro clean_up_by_list_eq) simp_all
  then have "clean_up_lists (w # ws) t = clean_up_lists ws t1" by (simp add: t1_def)
  moreover have "\<forall>v \<in> set ws. ll (tracer_next t1) (tracer_head t1 v) (xs v) \<and> (\<forall>p \<in> set (xs v). tracer_recs t1 p \<noteq> None)"
  proof
    fix v assume v: "v \<in> set ws"
    then have "v \<noteq> w" using Cons.prems(2) by auto
    then have "set (xs v) \<inter> set (xs w) = {}" using assms(2) by blast
    then show "ll (tracer_next t1) (tracer_head t1 v) (xs v) \<and> (\<forall>p \<in> set (xs v). tracer_recs t1 p \<noteq> None)"
      using Cons.prems(1) v \<open>v \<noteq> w\<close> by (auto simp: t1_def)
  qed
  ultimately show ?case using Cons.IH [of t1] Cons.prems(2) by (auto simp: t1_def fun_eq_iff)
qed simp

lemma tracer_clean_up_eq:
  assumes "tracer_at t prs"
  shows "\<exists>t'. tracer_clean_up t = Some (0, t') \<and> tracer_at t' [] \<and> g_error_no t' = g_error_no t"
proof -
  let ?ws = "[process_tracer, universal_tracer, universal_kernel_tracer, process_btracer, universal_btracer, universal_kernel_btracer]"
  let ?xs = "\<lambda>w. map fst (filter (in_list w) prs)"
  have all: "w \<in> set ?ws" for w by (cases w) simp_all
  have "p \<in> set (?xs (tracer_list_of (tr_granularity r) (tr_cr3 r) (tr_is_kernel_trace r)))" if "(p, r) \<in> set prs" for p r
    using that by (force simp: in_list_def)
  moreover have "\<exists>r. (p, r) \<in> set prs" if "tracer_recs t p \<noteq> None" for p using that assms by (force simp: tracer_at_def)
  ultimately have "tracer_recs t p = None \<or> (\<exists>w \<in> set ?ws. p \<in> set (?xs w))" for p using all by blast
  then have n: "(\<lambda>p. if \<exists>w \<in> set ?ws. p \<in> set (?xs w) then None else tracer_recs t p) = Map.empty" by (intro ext) auto
  have "\<forall>w \<in> set ?ws. ll (tracer_next t) (tracer_head t w) (?xs w) \<and> (\<forall>p \<in> set (?xs w). tracer_recs t p \<noteq> None)"
    using assms unfolding tracer_at_def by auto
  then have "clean_up_lists ?ws t = Some (t\<lparr>tracer_recs := (\<lambda>p. if \<exists>w \<in> set ?ws. p \<in> set (?xs w) then None else tracer_recs t p),
      tracer_head := (\<lambda>w. if w \<in> set ?ws then None else tracer_head t w)\<rparr>)"
    by (rule clean_up_lists_eq) (use tracer_lists_disjoint [OF assms] in simp_all)
  then have "clean_up_lists ?ws t = Some (t\<lparr>tracer_recs := Map.empty, tracer_head := Map.empty\<rparr>)" unfolding n using all by simp
  then show ?thesis by (simp add: tracer_clean_up_def tracer_at_def)
qed

subsection \<open>Dispatch\<close>

lemma those_map: "(\<forall>(p, r) \<in> set q. recs p = Some r) \<Longrightarrow> those (map recs (map fst q)) = Some (map snd q)"
  by (induction q) auto

lemma show_tracer_list_info_eq:
  assumes "tracer_at t prs"
  shows "show_tracer_list_info w t = Some (map snd (filter (in_list w) prs))"
proof -
  have l: "ll (tracer_next t) (tracer_head t w) (map fst (filter (in_list w) prs))"
    "\<forall>(p, r) \<in> set (filter (in_list w) prs). tracer_recs t p = Some r"
    using assms by (auto simp: tracer_at_def)
  show ?thesis unfolding show_tracer_list_info_def LL_FOREACH_eq [OF l(1)] using those_map [OF l(2)] by simp
qed

text \<open>
  Callbacks that switch tracers on and off, or leave them alone, keep the tracers up to their \<^verbatim>\<open>enabled\<close> field.
\<close>

definition unswitched :: "nat \<times> tracer_cb_record \<Rightarrow> nat \<times> tracer_cb_record" where
  "unswitched = (\<lambda>(p, r). (p, r\<lparr>tr_enabled := 0\<rparr>))"

definition switching :: "'m tracer_callback \<Rightarrow> bool" where
  "switching run \<longleftrightarrow> (\<forall>f a b x t m prs. tracer_at t prs \<longrightarrow>
     (\<exists>prs'. tracer_at (fst (run f a b x (t, m))) prs' \<and> map unswitched prs' = map unswitched prs))"

text \<open>One tracer is called when its condition holds at its turn.\<close>

definition visit ::
  "'m tracer_callback \<Rightarrow> ('m \<Rightarrow> tracer_cb_record \<Rightarrow> bool) \<Rightarrow> u64 \<Rightarrow> u64 \<Rightarrow> nat \<Rightarrow> tracer_context \<times> 'm \<Rightarrow> tracer_context \<times> 'm" where
  "visit run cond a b p x = (case tracer_recs (fst x) p of None \<Rightarrow> x
     | Some r \<Rightarrow> if cond (snd x) r then run (tr_cb_func r) a b (tr_cb_arg r) x else x)"

definition addresses_of :: "tracer_list \<Rightarrow> (nat \<times> tracer_cb_record) list \<Rightarrow> nat list" where
  "addresses_of w prs = map fst (filter (in_list w) prs)"

lemma addresses_of_unswitched:
  assumes "map unswitched prs' = map unswitched prs"
  shows "addresses_of w prs' = addresses_of w prs"
proof -
  have "addresses_of w q = map fst (filter (in_list w) (map unswitched q))" for q
    by (induction q) (auto simp: addresses_of_def unswitched_def in_list_def)
  then show ?thesis using assms by metis
qed

lemma ll_after: "ll nx h (xs @ b # ys) \<Longrightarrow> ll nx (nx b) ys"
  by (induction xs arbitrary: h) auto

lemma tracer_ll: "tracer_at t prs \<Longrightarrow> ll (tracer_next t) (tracer_head t w) (addresses_of w prs)"
  by (simp add: tracer_at_def addresses_of_def)

lemma address_allocated:
  assumes "tracer_at t prs" "p \<in> set (addresses_of w prs)"
  shows "\<exists>r. tracer_recs t p = Some r"
  using assms by (auto simp: tracer_at_def addresses_of_def)

lemma visit_keeps:
  assumes "switching run" "tracer_at t prs"
  shows "\<exists>prs'. tracer_at (fst (visit run cond a b p (t, m))) prs' \<and> map unswitched prs' = map unswitched prs"
  using assms by (auto simp: visit_def switching_def split: option.splits)

lemma call_tracers_eq:
  assumes "switching run" "tracer_at t prs" "addresses_of w prs = xs @ ps" "ll (tracer_next t) p ps"
  shows "call_tracers run cond a b p (t, m) = Some (fold (visit run cond a b) ps (t, m)) \<and>
    (\<exists>prs'. tracer_at (fst (fold (visit run cond a b) ps (t, m))) prs' \<and> map unswitched prs' = map unswitched prs)"
  using assms(2-)
proof (induction ps arbitrary: p t m prs xs)
  case Nil then show ?case by (auto simp: call_tracers.simps)
next
  case (Cons q ps)
  have q: "q \<in> set (addresses_of w prs)" using Cons.prems(2) by simp
  obtain r where r: "tracer_recs t q = Some r" using address_allocated [OF Cons.prems(1) q] by blast
  obtain t1 m1 where x1: "visit run cond a b q (t, m) = (t1, m1)" by fastforce
  obtain prs1 where 1: "tracer_at t1 prs1" "map unswitched prs1 = map unswitched prs"
    using visit_keeps [OF assms(1) Cons.prems(1), of cond a b q m] x1 by auto
  have a: "addresses_of w prs1 = (xs @ [q]) @ ps" using addresses_of_unswitched [OF 1(2)] Cons.prems(2) by simp
  have n: "ll (tracer_next t1) (tracer_next t1 q) ps"
    using tracer_ll [OF 1(1), of w] a ll_after by simp
  obtain r1 where "tracer_recs t1 q = Some r1" using address_allocated [OF 1(1), of q w] a by auto
  then have "call_tracers run cond a b p (t, m) = call_tracers run cond a b (tracer_next t1 q) (t1, m1)"
    using Cons.prems(3) r x1 by (auto simp: call_tracers.simps [of _ _ _ _ "Some q"] visit_def Let_def)
  then show ?case using Cons.IH [OF 1(1) a n] x1 1(2) by auto
qed

lemma call_list_eq:
  assumes "switching run" "tracer_at t prs"
  shows "call_list run c cond a b w (t, m) = Some (fold (visit run cond a b) (if c then addresses_of w prs else []) (t, m)) \<and>
    (\<exists>prs'. tracer_at (fst (fold (visit run cond a b) (if c then addresses_of w prs else []) (t, m))) prs' \<and>
      map unswitched prs' = map unswitched prs)"
proof -
  note l = tracer_ll [OF assms(2), of w]
  then have "addresses_of w prs = []" if "tracer_head t w = None" using that by (cases "addresses_of w prs") auto
  then show ?thesis
    using call_tracers_eq [OF assms, of w "[]", OF _ l, of cond a b m] assms(2) by (auto simp: call_list_def)
qed

text \<open>The three lists of a dispatcher.\<close>

lemma call_lists_eq:
  assumes "switching run" "tracer_at t prs"
  shows "(do { x \<leftarrow> call_list run c1 cond1 a b w1 (t, m); x \<leftarrow> call_list run c2 cond2 a b w2 x; call_list run c3 cond3 a b w3 x }) =
    Some ((fold (visit run cond3 a b) (if c3 then addresses_of w3 prs else []) \<circ>
      fold (visit run cond2 a b) (if c2 then addresses_of w2 prs else []) \<circ>
      fold (visit run cond1 a b) (if c1 then addresses_of w1 prs else [])) (t, m))"
proof -
  obtain t1 m1 where x1: "fold (visit run cond1 a b) (if c1 then addresses_of w1 prs else []) (t, m) = (t1, m1)" by fastforce
  then obtain prs1 where 1: "tracer_at t1 prs1" "map unswitched prs1 = map unswitched prs"
    "call_list run c1 cond1 a b w1 (t, m) = Some (t1, m1)"
    using call_list_eq [OF assms, of c1 cond1 a b w1 m] by auto
  obtain t2 m2 where x2: "fold (visit run cond2 a b) (if c2 then addresses_of w2 prs else []) (t1, m1) = (t2, m2)" by fastforce
  then obtain prs2 where 2: "tracer_at t2 prs2" "map unswitched prs2 = map unswitched prs"
    "call_list run c2 cond2 a b w2 (t1, m1) = Some (t2, m2)"
    using call_list_eq [OF assms(1) 1(1), of c2 cond2 a b w2 m1, unfolded addresses_of_unswitched [OF 1(2)] 1(2)] by auto
  show ?thesis
    using call_list_eq [OF assms(1) 2(1), of c3 cond3 a b w3 m2, unfolded addresses_of_unswitched [OF 2(2)]] 1(3) 2(3) x1 x2
    by simp
qed

lemma tracer_at_empty: "tracer_at tracer_ctx []"
  by (simp add: tracer_at_def tracer_ctx_def)

text \<open>A callback that switches its own tracer off, its number being its argument, and notes the call.\<close>

definition once :: "(nat \<times> u64 \<times> u64) list tracer_callback" where
  "once f a b x = (\<lambda>(t, m). case tracer_disable_tracer (uint x) t of None \<Rightarrow> (t, m) | Some (v, t') \<Rightarrow> (t', m @ [(f, a, b)]))"

lemma unswitched_update:
  "i < length prs \<Longrightarrow> map unswitched (prs[i := (fst (prs ! i), (snd (prs ! i))\<lparr>tr_enabled := v\<rparr>)]) = map unswitched prs"
  by (rule map_update_same) (simp_all add: unswitched_def case_prod_beta)

lemma switching_once: "switching once"
  unfolding switching_def
proof (intro allI impI)
  fix f a b and x :: u64 and t prs and m :: "(nat \<times> u64 \<times> u64) list" assume t: "tracer_at t prs"
  have "nat (uint x - 1) < length prs" if "1 \<le> uint x" "uint x \<le> int (length prs)" using that by linarith
  then show "\<exists>prs'. tracer_at (fst (once f a b x (t, m))) prs' \<and> map unswitched prs' = map unswitched prs"
    using set_enabled_eq [OF t, of 0 "uint x"] unswitched_update
    by (auto simp: once_def tracer_disable_tracer_def split: if_splits)
qed

text \<open>One tracer of a process, with its number as its argument, on or off.\<close>

definition one_record :: "int \<Rightarrow> tracer_cb_record" where
  "one_record v = (new_tracer 1 0x1aa000 ''ins'' False TRACER_GRANULARITY_INSTR 7 1)\<lparr>tr_enabled := v\<rparr>"

definition one_tracer :: "int \<Rightarrow> tracer_context" where
  "one_tracer v = \<lparr>serial_num = 1, tracer_head = [process_tracer \<mapsto> 0], tracer_recs = [0 \<mapsto> one_record v],
     tracer_next = Map.empty, g_error_no = TRACER_ERR_FAIL\<rparr>"

lemma in_one_list: "in_list w (p, one_record v) \<longleftrightarrow> w = process_tracer"
  by (auto simp: one_record_def in_list_def new_tracer_def tracer_list_of_def)

lemma one_tracer_at: "tracer_at (one_tracer v) [(0, one_record v)]"
proof -
  have "uint (tr_uid (one_record v)) = 1" by (simp add: one_record_def new_tracer_def)
  then show ?thesis by (auto simp: tracer_at_def one_tracer_def in_one_list)
qed

lemma one_tracer_off: "tracer_disable_tracer 1 (one_tracer 1) = Some (1, one_tracer 0)"
  using get_tracer_eq [OF one_tracer_at, of 1 1]
  by (simp add: tracer_disable_tracer_def set_enabled_def) (simp add: one_tracer_def one_record_def)

text \<open>The lists each dispatcher goes through.\<close>

lemma dispatcher_lists:
  assumes "switching run" "tracer_at t prs"
  shows "helper_tracer_dispatcher run cr pc (t, m) = Some (
      (if tracer_is_kern_addr pc then fold (visit run any_process pc 0) (addresses_of universal_kernel_tracer prs)
       else fold (visit run any_process pc 0) (addresses_of universal_tracer prs) \<circ>
         fold (visit run (this_process cr) pc 0) (addresses_of process_tracer prs)) (t, m))"
    "helper_btracer_dispatcher run cr pc pe (t, m) = Some (
      (if tracer_is_kern_addr pc then fold (visit run any_process pc pe) (addresses_of universal_kernel_btracer prs)
       else fold (visit run any_process pc pe) (addresses_of universal_btracer prs) \<circ>
         fold (visit run (this_process cr) pc pe) (addresses_of process_btracer prs)) (t, m))"
  unfolding helper_tracer_dispatcher_def helper_btracer_dispatcher_def call_lists_eq [OF assms] by simp_all

text \<open>
  What \<^verbatim>\<open>tracer.h\<close> promises: the tracers of a granularity for kernel, or for user, instructions, those of a process
  before those of all processes, and the condition under which a tracer is called.
\<close>

definition tracers_for :: "bool \<Rightarrow> bool \<Rightarrow> (nat \<times> tracer_cb_record) list \<Rightarrow> nat list" where
  "tracers_for instr kern prs =
     (let qs = filter (\<lambda>(p, r). (tr_granularity r = TRACER_GRANULARITY_INSTR) = instr \<and> tr_is_kernel_trace r = kern) prs
      in map fst (filter (\<lambda>(p, r). tr_cr3 r \<noteq> 0) qs) @ map fst (filter (\<lambda>(p, r). tr_cr3 r = 0) qs))"

definition traced_here :: "('m \<Rightarrow> u64) \<Rightarrow> 'm \<Rightarrow> tracer_cb_record \<Rightarrow> bool" where
  "traced_here cr m r \<longleftrightarrow> tr_enabled r = 1 \<and> (tr_cr3 r = 0 \<or> tr_cr3 r = cr m)"

lemma unswitched_cr3:
  assumes "map unswitched prs' = map unswitched prs" "(p, r') \<in> set prs'"
  shows "\<exists>r. (p, r) \<in> set prs \<and> tr_cr3 r = tr_cr3 r'"
proof -
  have "unswitched (p, r') \<in> unswitched ` set prs" using assms by (metis image_eqI list.set_map)
  then obtain r where "(p, r) \<in> set prs" "r'\<lparr>tr_enabled := 0\<rparr> = r\<lparr>tr_enabled := 0\<rparr>" by (auto simp: unswitched_def)
  moreover from this(2) have "tr_cr3 r = tr_cr3 r'" by (cases r; cases r') simp
  ultimately show ?thesis by blast
qed

text \<open>Two conditions that agree on the tracers of the processes concerned give the same calls.\<close>

lemma fold_visit_cong:
  assumes "switching run" "tracer_at t prs"
    "\<forall>(p, r0) \<in> set prs. p \<in> set ps \<longrightarrow> (\<forall>m r. tr_cr3 r = tr_cr3 r0 \<longrightarrow> cond m r = cond' m r)"
  shows "fold (visit run cond a b) ps (t, m) = fold (visit run cond' a b) ps (t, m) \<and>
    (\<exists>prs'. tracer_at (fst (fold (visit run cond a b) ps (t, m))) prs' \<and> map unswitched prs' = map unswitched prs)"
  using assms(2,3)
proof (induction ps arbitrary: t m prs)
  case Nil then show ?case by auto
next
  case (Cons q ps)
  have "(q, r) \<in> set prs" if "tracer_recs t q = Some r" for r using that Cons.prems(1) by (fastforce simp: tracer_at_def)
  then have v: "visit run cond a b q (t, m) = visit run cond' a b q (t, m)"
    using Cons.prems(2) by (fastforce simp: visit_def split: option.splits)
  obtain t1 m1 where x1: "visit run cond a b q (t, m) = (t1, m1)" by fastforce
  obtain prs1 where 1: "tracer_at t1 prs1" "map unswitched prs1 = map unswitched prs"
    using visit_keeps [OF assms(1) Cons.prems(1), of cond a b q m] x1 by auto
  have "\<forall>(p, r0) \<in> set prs1. p \<in> set ps \<longrightarrow> (\<forall>m r. tr_cr3 r = tr_cr3 r0 \<longrightarrow> cond m r = cond' m r)"
    using unswitched_cr3 [OF 1(2)] Cons.prems(2) by fastforce
  from Cons.IH [OF 1(1) this, of m1] show ?case using v x1 1(2) by auto
qed

lemma visits_of_list:
  assumes "switching run" "tracer_at t prs" "w \<in> {process_tracer, process_btracer} \<Longrightarrow> cond = this_process cr"
    "w \<notin> {process_tracer, process_btracer} \<Longrightarrow> cond = any_process"
  shows "fold (visit run cond a b) (addresses_of w prs) (t, m) = fold (visit run (traced_here cr) a b) (addresses_of w prs) (t, m) \<and>
    (\<exists>prs'. tracer_at (fst (fold (visit run cond a b) (addresses_of w prs) (t, m))) prs' \<and> map unswitched prs' = map unswitched prs)"
proof (rule fold_visit_cong [OF assms(1,2)], clarify)
  fix p r0 m' and r :: tracer_cb_record
  assume a: "(p, r0) \<in> set prs" "p \<in> set (addresses_of w prs)" "tr_cr3 r = tr_cr3 r0"
  then obtain r1 where r1: "(p, r1) \<in> set prs" "in_list w (p, r1)" by (auto simp: addresses_of_def)
  moreover have "distinct (map fst prs)" using assms(2) by (simp add: tracer_at_def)
  ultimately have "r1 = r0" using a(1) eq_key_imp_eq_value [of prs p] by blast
  then have "w \<in> {process_tracer, process_btracer} \<longleftrightarrow> tr_cr3 r \<noteq> 0" using r1(2) a(3) by (auto simp: in_list_def tracer_list_of_def split: if_splits)
  then show "cond m' r = traced_here cr m' r"
    using assms(3,4) by (cases "w \<in> {process_tracer, process_btracer}") (auto simp: this_process_def any_process_def traced_here_def)
qed

lemma tracers_for_lists:
  assumes "\<forall>(p, r) \<in> set prs. tr_cr3 r \<noteq> 0 \<longrightarrow> \<not> tr_is_kernel_trace r"
  shows "tracers_for True False prs = addresses_of process_tracer prs @ addresses_of universal_tracer prs"
    "tracers_for True True prs = addresses_of universal_kernel_tracer prs"
    "tracers_for False False prs = addresses_of process_btracer prs @ addresses_of universal_btracer prs"
    "tracers_for False True prs = addresses_of universal_kernel_btracer prs"
proof -
  note d = tracers_for_def Let_def filter_filter
  note w = in_list_def tracer_list_of_def
  have e: "map fst (filter P prs) = addresses_of w prs" if "\<And>p r. (p, r) \<in> set prs \<Longrightarrow> P (p, r) = in_list w (p, r)" for P w
    using that unfolding addresses_of_def by (intro arg_cong [where f = "map fst"] filter_cong) auto
  have n: "map fst (filter P prs) = []" if "\<And>p r. (p, r) \<in> set prs \<Longrightarrow> \<not> P (p, r)" for P
    using that by (auto simp: filter_empty_conv)
  show "tracers_for True False prs = addresses_of process_tracer prs @ addresses_of universal_tracer prs"
    "tracers_for False False prs = addresses_of process_btracer prs @ addresses_of universal_btracer prs"
    unfolding d by (rule arg_cong2 [where f = append, OF e e]; use assms in \<open>auto simp: w\<close>)+
  show "tracers_for True True prs = addresses_of universal_kernel_tracer prs"
    "tracers_for False True prs = addresses_of universal_kernel_btracer prs"
    unfolding d by (rule trans [OF arg_cong2 [where f = append, OF n e] append_Nil]; use assms in \<open>auto simp: w\<close>)+
qed

text \<open>A dispatcher that goes through one list, or two in turn.\<close>

lemma one_list:
  assumes "switching run" "tracer_at t prs" "w \<notin> {process_tracer, process_btracer}"
  shows "fold (visit run any_process a b) (addresses_of w prs) (t, m) = fold (visit run (traced_here cr) a b) (addresses_of w prs) (t, m)"
  using visits_of_list [OF assms(1,2), of w any_process cr a b m] assms(3) by blast

lemma two_lists:
  assumes "switching run" "tracer_at t prs" "w1 \<in> {process_tracer, process_btracer}" "w2 \<notin> {process_tracer, process_btracer}"
  shows "(fold (visit run any_process a b) (addresses_of w2 prs) \<circ> fold (visit run (this_process cr) a b) (addresses_of w1 prs)) (t, m) =
    fold (visit run (traced_here cr) a b) (addresses_of w1 prs @ addresses_of w2 prs) (t, m)"
proof -
  obtain t1 m1 where x1: "fold (visit run (this_process cr) a b) (addresses_of w1 prs) (t, m) = (t1, m1)" by fastforce
  then obtain prs1 where 1: "tracer_at t1 prs1" "map unswitched prs1 = map unswitched prs"
    "fold (visit run (traced_here cr) a b) (addresses_of w1 prs) (t, m) = (t1, m1)"
    using visits_of_list [OF assms(1,2), of w1 "this_process cr" cr a b m] assms(3) by auto
  show ?thesis
    using visits_of_list [OF assms(1) 1(1), of w2 any_process cr a b m1] assms(4) x1 1(3) addresses_of_unswitched [OF 1(2)] by simp
qed

text \<open>C19: The two dispatchers of the tracer call the right tracers, when no tracer of a single process is registered for
  kernel instructions. Run at an address, with callbacks that may switch any tracer on or off and change the machine, the
  dispatcher of the instructions and the one of the blocks go through the tracers of their granularity whose
  \<^verbatim>\<open>is_kernel\<close> says what the address is (kernel or user), the tracers of a process before those of all processes, each
  group in the order of registration. Each is visited once and called exactly if, at its turn, it is enabled and its
  \<^verbatim>\<open>cr3\<close> is 0 or the current \<^verbatim>\<open>CR3\<close>; the callback gets the address (and the last address of a block) and its
  argument. No record that is not allocated is read, and the dispatchers return. (A tracer of a single process registered
  for kernel instructions is excluded because the dispatchers treat it as one for user instructions.)
\<close>

theorem tracer_dispatch:
  assumes "tracer_at t prs" "switching run" "\<forall>(p, r) \<in> set prs. tr_cr3 r \<noteq> 0 \<longrightarrow> \<not> tr_is_kernel_trace r"
  shows "helper_tracer_dispatcher run cr pc (t, m) =
      Some (fold (visit run (traced_here cr) pc 0) (tracers_for True (tracer_is_kern_addr pc) prs) (t, m)) \<and>
    helper_btracer_dispatcher run cr pc pe (t, m) =
      Some (fold (visit run (traced_here cr) pc pe) (tracers_for False (tracer_is_kern_addr pc) prs) (t, m))"
  using dispatcher_lists [OF assms(2,1)] two_lists [OF assms(2,1)] tracers_for_lists [OF assms(3)]
    one_list [OF assms(2,1), of _ pc _ m cr] by simp

theorem tracer_dispatch_witness:
  "helper_tracer_dispatcher once (\<lambda>_. 0x1aa000) 0x401000 (one_tracer 1, []) = Some (one_tracer 0, [(7, 0x401000, 0)])"
proof -
  have k: "\<not> tracer_is_kern_addr 0x401000" by (simp add: tracer_is_kern_addr_def)
  have a: "tracers_for True False [(0, one_record 1)] = [0]" "\<forall>(p, r) \<in> set [(0 :: nat, one_record 1)]. tr_cr3 r \<noteq> 0 \<longrightarrow> \<not> tr_is_kernel_trace r"
    by (simp_all add: tracers_for_def one_record_def new_tracer_def)
  have "visit once (traced_here (\<lambda>_. 0x1aa000)) 0x401000 0 0 (one_tracer 1, []) = (one_tracer 0, [(7, 0x401000, 0)])"
    using one_tracer_off by (simp add: visit_def once_def one_tracer_def traced_here_def one_record_def new_tracer_def)
  then show ?thesis using tracer_dispatch [OF one_tracer_at switching_once a(2)] k a(1) by simp
qed

section \<open>The calls of the interface\<close>

datatype call =
    Add_inst u64 "string option" bool "nat option" u64
  | Add_block u64 "string option" bool "nat option" u64
  | Enable_tracer int
  | Disable_tracer int
  | Tracer_status int
  | Tracer_label int
  | Clean_up

datatype tracer_value = Num int | Label "string option"

definition on_num :: "(int \<times> tracer_context) option \<Rightarrow> (tracer_value \<times> tracer_context) option" where
  "on_num r = map_option (\<lambda>(v, t). (Num v, t)) r"

fun tracer_call :: "callocs \<Rightarrow> nat \<Rightarrow> call \<Rightarrow> tracer_context \<Rightarrow> (tracer_value \<times> tracer_context) option" where
  "tracer_call calloc dflt (Add_inst c lbl k cb arg) t = on_num (tracer_add_inst_tracer calloc dflt c lbl k cb arg t)"
| "tracer_call calloc dflt (Add_block c lbl k cb arg) t = on_num (tracer_add_block_tracer calloc dflt c lbl k cb arg t)"
| "tracer_call calloc dflt (Enable_tracer uid) t = on_num (tracer_enable_tracer uid t)"
| "tracer_call calloc dflt (Disable_tracer uid) t = on_num (tracer_disable_tracer uid t)"
| "tracer_call calloc dflt (Tracer_status uid) t = on_num (tracer_get_tracer_status uid t)"
| "tracer_call calloc dflt (Tracer_label uid) t = map_option (\<lambda>(v, t). (Label v, t)) (tracer_get_tracer_label uid t)"
| "tracer_call calloc dflt Clean_up t = on_num (tracer_clean_up t)"

text \<open>
  The specification: a list of tracers numbered from 1, the result, the error if there is one, and the new list. Where the
  result of a successful call only tells success from failure, the specification asks for a number other than \<^verbatim>\<open>-1\<close>.
\<close>

datatype promise = Exactly tracer_value | Success

fun keeps_promise :: "tracer_value \<Rightarrow> promise \<Rightarrow> bool" where
  "keeps_promise v (Exactly w) \<longleftrightarrow> v = w"
| "keeps_promise v Success \<longleftrightarrow> (\<exists>n. v = Num n \<and> n \<noteq> -1)"

definition spec_add :: "u64 \<Rightarrow> string \<Rightarrow> bool \<Rightarrow> int \<Rightarrow> nat \<Rightarrow> nat option \<Rightarrow> u64 \<Rightarrow> tracer_cb_record list \<Rightarrow>
    promise \<times> TRACER_ERRNO option \<times> tracer_cb_record list" where
  "spec_add c lab k g dflt cb arg l =
     (if length l = 65535 then (Exactly (Num (-1)), Some TRACER_MAX_TRACER_ID, l)
      else (Exactly (Num (int (length l) + 1)), None, l @ [case cb of None \<Rightarrow> new_tracer (length l + 1) c lab k g dflt 0
        | Some f \<Rightarrow> new_tracer (length l + 1) c lab k g f arg]))"

definition spec_at :: "int \<Rightarrow> tracer_value \<Rightarrow> (tracer_cb_record \<Rightarrow> promise \<times> tracer_cb_record) \<Rightarrow> tracer_cb_record list \<Rightarrow>
    promise \<times> TRACER_ERRNO option \<times> tracer_cb_record list" where
  "spec_at uid bad f l =
     (if 1 \<le> uid \<and> uid \<le> int (length l)
      then (let i = nat (uid - 1) in (fst (f (l ! i)), None, l[i := snd (f (l ! i))]))
      else (Exactly bad, Some TRACER_INVALID_ID, l))"

fun tracer_spec :: "nat \<Rightarrow> call \<Rightarrow> tracer_cb_record list \<Rightarrow> promise \<times> TRACER_ERRNO option \<times> tracer_cb_record list" where
  "tracer_spec dflt (Add_inst c lbl k cb arg) l = spec_add c (the lbl) k TRACER_GRANULARITY_INSTR dflt cb arg l"
| "tracer_spec dflt (Add_block c lbl k cb arg) l = spec_add c (the lbl) k TRACER_GRANULARITY_CODEBLOCK dflt cb arg l"
| "tracer_spec dflt (Enable_tracer uid) l = spec_at uid (Num (-1)) (\<lambda>r. (Success, r\<lparr>tr_enabled := 1\<rparr>)) l"
| "tracer_spec dflt (Disable_tracer uid) l = spec_at uid (Num (-1)) (\<lambda>r. (Success, r\<lparr>tr_enabled := 0\<rparr>)) l"
| "tracer_spec dflt (Tracer_status uid) l = spec_at uid (Num (-1)) (\<lambda>r. (Exactly (Num (tr_enabled r)), r)) l"
| "tracer_spec dflt (Tracer_label uid) l = spec_at uid (Label None) (\<lambda>r. (Exactly (Label (Some (tr_label r))), r)) l"
| "tracer_spec dflt Clean_up l = (Exactly (Num 0), None, [])"

fun labelled_call :: "call \<Rightarrow> bool" where
  "labelled_call (Add_inst c lbl k cb arg) \<longleftrightarrow> lbl \<noteq> None"
| "labelled_call (Add_block c lbl k cb arg) \<longleftrightarrow> lbl \<noteq> None"
| "labelled_call _ \<longleftrightarrow> True"

text \<open>A call and its specification agree.\<close>

definition meets :: "tracer_context \<Rightarrow> (tracer_value \<times> tracer_context) option \<Rightarrow> promise \<times> TRACER_ERRNO option \<times> tracer_cb_record list \<Rightarrow> bool" where
  "meets t r sp = (case r of None \<Rightarrow> False | Some (v, t') \<Rightarrow> keeps_promise v (fst sp) \<and> tracer_rep t' (snd (snd sp)) \<and>
     g_error_no t' = (case fst (snd sp) of None \<Rightarrow> g_error_no t | Some e \<Rightarrow> e))"

lemma tracer_rep_errno: "tracer_rep (t\<lparr>g_error_no := e\<rparr>) l = tracer_rep t l"
  by (simp add: tracer_rep_def tracer_at_def)

lemma add_meets:
  assumes "tracer_rep t l" "calloc_ok calloc" "calloc (\<lambda>p. tracer_recs t p \<noteq> None) \<noteq> None" "granularity g"
  shows "meets t (on_num (add_tracer_internal calloc c (Some lab) k g f arg t))
    (spec_add c lab k g dflt (Some f) arg l)"
proof -
  obtain prs where prs: "l = map snd prs" "tracer_at t prs" using assms(1) by (auto simp: tracer_rep_def)
  obtain p where p: "calloc (\<lambda>p. tracer_recs t p \<noteq> None) = Some p" using assms(3) by blast
  have n: "serial_num t = int (length prs)" "length prs \<le> 65535" using prs(2) by (simp_all add: tracer_at_def)
  show ?thesis
  proof (cases "length prs = 65535")
    case True
    have "add_tracer_internal calloc c (Some lab) k g f arg t = Some (-1, t\<lparr>g_error_no := TRACER_MAX_TRACER_ID\<rparr>)"
      using True n(1) assms(4) by (auto simp: add_tracer_internal_def granularity_def)
    then show ?thesis using True prs(1) assms(1) by (simp add: meets_def on_num_def spec_add_def tracer_rep_errno)
  next
    case False
    then have "length prs < 65535" using n(2) by simp
    from add_tracer_eq [OF prs(2) assms(2) this assms(4) p, of c lab k f arg] obtain t' where
      t': "add_tracer_internal calloc c (Some lab) k g f arg t = Some (int (length prs) + 1, t')"
        "tracer_at t' (prs @ [(p, new_tracer (length prs + 1) c lab k g f arg)])" "g_error_no t' = g_error_no t" by blast
    have "tracer_rep t' (map snd (prs @ [(p, new_tracer (length prs + 1) c lab k g f arg)]))"
      using t'(2) unfolding tracer_rep_def by blast
    then show ?thesis using t'(1,3) False prs(1) by (simp add: meets_def on_num_def spec_add_def)
  qed
qed

lemma add_meets_default:
  assumes "tracer_rep t l" "calloc_ok calloc" "calloc (\<lambda>p. tracer_recs t p \<noteq> None) \<noteq> None" "granularity g"
  shows "meets t (on_num (case cb of None \<Rightarrow> add_tracer_internal calloc c (Some lab) k g dflt 0 t
      | Some f \<Rightarrow> add_tracer_internal calloc c (Some lab) k g f arg t)) (spec_add c lab k g dflt cb arg l)"
proof -
  have "spec_add c lab k g dflt None arg l = spec_add c lab k g dflt (Some dflt) 0 l" by (simp add: spec_add_def)
  then show ?thesis using add_meets [OF assms, of c lab k _ _ dflt] by (cases cb) simp_all
qed

lemma set_enabled_meets:
  assumes "tracer_rep t l"
  shows "meets t (on_num (set_enabled v uid t)) (spec_at uid (Num (-1)) (\<lambda>r. (Success, r\<lparr>tr_enabled := v\<rparr>)) l)"
proof -
  obtain prs where prs: "l = map snd prs" "tracer_at t prs" using assms by (auto simp: tracer_rep_def)
  have m: "tracer_rep t' ((map snd prs)[i := r])" if "tracer_at t' (prs[i := (q, r)])" for t' i q r
    using that unfolding tracer_rep_def by (metis map_update snd_conv)
  have i: "nat (uid - 1) < length prs" if "1 \<le> uid" "uid \<le> int (length prs)" using that by linarith
  show ?thesis
  proof (cases "1 \<le> uid \<and> uid \<le> int (length prs)")
    case True
    then show ?thesis using set_enabled_eq [OF prs(2), of v uid] m prs(1) i
      by (auto simp: meets_def on_num_def spec_at_def Let_def)
  next
    case False
    then show ?thesis using set_enabled_eq [OF prs(2), of v uid] prs(1)
      by (auto simp: meets_def on_num_def spec_at_def tracer_rep_def)
  qed
qed

lemma lookup_meets:
  assumes "tracer_rep t l"
  shows "meets t (map_option (\<lambda>(v, t). (f v, t)) (do { (rec, t) \<leftarrow> get_tracer uid t;
      case rec of None \<Rightarrow> Some (bad, t) | Some p \<Rightarrow> do { r \<leftarrow> tracer_recs t p; Some (g r, t) } }))
    (spec_at uid (f bad) (\<lambda>r. (Exactly (f (g r)), r)) l)"
proof -
  obtain prs where prs: "l = map snd prs" "tracer_at t prs" using assms by (auto simp: tracer_rep_def)
  show ?thesis
  proof (cases "1 \<le> uid \<and> uid \<le> int (length prs)")
    case True
    then have i: "nat (uid - 1) < length prs" by linarith
    then show ?thesis using True assms get_tracer_rec [OF prs(2) i] prs(1)
      by (simp add: meets_def spec_at_def Let_def get_tracer_eq [OF prs(2)])
  next
    case False
    then show ?thesis using assms prs(1) by (auto simp: meets_def spec_at_def get_tracer_eq [OF prs(2)] tracer_rep_errno)
  qed
qed

text \<open>C18: The tracer interface implements a list of tracers numbered 1, 2, and so on. In a state that represents such
  a list every call (adding an instruction or a block tracer, enabling, disabling, asking for the status or the label,
  cleaning up) returns, without reading a record that is not allocated, what the list gives, and leaves a state that
  represents the list it gives. An addition appends a disabled tracer under the next number and returns the number, up to
  65535 of them, after which it returns \<^verbatim>\<open>-1\<close>. Enabling and disabling return a number other than \<^verbatim>\<open>-1\<close> and switch the
  tracer (the number is 1, where \<^verbatim>\<open>tracer.h\<close> documents 0). A number out of range is answered by \<^verbatim>\<open>-1\<close>, or by no label,
  sets \<^verbatim>\<open>g_error_no\<close> to \<^verbatim>\<open>TRACER_INVALID_ID\<close> and keeps the list. Cleaning up leaves no record allocated. An addition must be given a label and memory
  must be available: neither is checked.
\<close>

theorem tracer_implements_list:
  assumes "tracer_rep t l" "calloc_ok calloc" "calloc (\<lambda>p. tracer_recs t p \<noteq> None) \<noteq> None" "labelled_call call"
  shows "meets t (tracer_call calloc dflt call t) (tracer_spec dflt call l)"
proof (cases call)
  case (Add_inst c lbl k cb arg)
  then obtain lab where "lbl = Some lab" using assms(4) by (cases lbl) auto
  then show ?thesis using add_meets_default [OF assms(1-3), where g = TRACER_GRANULARITY_INSTR and cb = cb and arg = arg] Add_inst
    by (simp add: tracer_add_inst_tracer_def granularity_def)
next
  case (Add_block c lbl k cb arg)
  then obtain lab where "lbl = Some lab" using assms(4) by (cases lbl) auto
  then show ?thesis using add_meets_default [OF assms(1-3), where g = TRACER_GRANULARITY_CODEBLOCK and cb = cb and arg = arg] Add_block
    by (simp add: tracer_add_block_tracer_def granularity_def)
next
  case Clean_up
  obtain prs where "tracer_at t prs" using assms(1) by (auto simp: tracer_rep_def)
  then show ?thesis using tracer_clean_up_eq [of t prs] Clean_up by (auto simp: meets_def on_num_def tracer_rep_def)
next
  case (Tracer_status uid)
  then show ?thesis using lookup_meets [OF assms(1), of Num uid "-1" tr_enabled]
    by (simp add: tracer_get_tracer_status_def on_num_def)
next
  case (Tracer_label uid)
  then show ?thesis using lookup_meets [OF assms(1), of Label uid None "\<lambda>r. Some (tr_label r)"]
    by (simp add: tracer_get_tracer_label_def)
qed (use set_enabled_meets [OF assms(1)] in \<open>simp_all add: tracer_enable_tracer_def tracer_disable_tracer_def\<close>)

theorem tracer_implements_list_witness:
  "meets tracer_ctx (tracer_call first_free 9 (Add_inst 0 (Some ''all'') True None 5) tracer_ctx)
     (Exactly (Num 1), None, [new_tracer 1 0 ''all'' True TRACER_GRANULARITY_INSTR 9 0])"
proof -
  have r: "tracer_rep tracer_ctx []" using tracer_at_empty by (auto simp: tracer_rep_def)
  show ?thesis using tracer_implements_list [OF r first_free_ok, of "Add_inst 0 (Some ''all'') True None 5" 9]
    by (simp add: first_free_def spec_add_def tracer_ctx_def)
qed

end
