(* ===== verification/Systrace.thy ===== *)
theory Systrace
imports UtHash UtList
begin

text \<open>
  The system-call tracer, \<^verbatim>\<open>ext/systrace/systrace.c\<close>. The tracers live in a table of slots and a linked list; the
  calls that have not returned yet live in a hash table (\<^verbatim>\<open>uthash.h\<close>) under a code of their thread. What the guest
  looks like (\<^verbatim>\<open>ext/memfrs\<close>: whether its type information is loaded, the number of stack arguments of each call, the
  current thread, reading its memory) is a parameter. Reading a record that is not allocated, or past a table, is
  \<^const>\<open>None\<close>.
\<close>

section \<open>Data\<close>

definition MAX_NM_SYSTRACE :: nat where "MAX_NM_SYSTRACE = 65536"

definition MAX_SZ_SYSTRACE_LABEL :: nat where "MAX_SZ_SYSTRACE_LABEL = 16"

definition SYSCALL_ALL :: int where "SYSCALL_ALL = -1"

definition CR3_ALL :: u64 where "CR3_ALL = 0"

datatype SYSTRACE_ERRNO =
    SYSTRACE_ERR_FAIL | SYSTRACE_ERR_FULL_TRACE | SYSTRACE_ERR_CREATE_FAIL | SYSTRACE_ERR_INVALID_HANDLE | SYSTRACE_ERR_INTERNAL_BROKEN

record systrace_record =
  st_id :: int
  st_label :: string
  st_syscall_number :: int
  st_callback :: nat
  st_cr3 :: u64
  st_is_entry :: bool
  st_cb_args :: u64

record syscall_context =
  context_key :: u64
  ctx_syscall_number :: int
  argument_arr :: "u64 list"

text \<open>The \<^verbatim>\<open>next\<close> fields, the records and the contexts are kept in stores.\<close>

record sys_context =
  records :: "nat \<Rightarrow> ptr option"
  g_syscall_ctx :: "UT_hash_table option"
  g_ssdt_info :: "int list option"
  ll_records :: "ptr option"
  st_recs :: "ptr \<Rightarrow> systrace_record option"
  st_next :: nexts
  ctx_recs :: "ptr \<Rightarrow> syscall_context option"
  systrace_errno :: SYSTRACE_ERRNO

definition sys_ctx :: sys_context where
  "sys_ctx = \<lparr>records = Map.empty, g_syscall_ctx = None, g_ssdt_info = None, ll_records = None, st_recs = Map.empty,
     st_next = Map.empty, ctx_recs = Map.empty, systrace_errno = SYSTRACE_ERR_FAIL\<rparr>"

text \<open>The registers the tracer reads. A callback may change them, and whatever else the machine has.\<close>

record cpu_env =
  env_eax :: u64
  env_ecx :: u64
  env_edx :: u64
  env_r8 :: u64
  env_r9 :: u64
  env_esp :: u64
  env_cr3 :: u64

text \<open>
  \<^verbatim>\<open>memfrs_check_struct_info\<close> and \<^verbatim>\<open>memfrs_check_globalvar_info\<close>; \<^verbatim>\<open>memfrs_enum_ssdt_list\<close> (the
  \<^verbatim>\<open>argnum_on_stack\<close> of each entry); the \<^verbatim>\<open>unique_thread\<close> of \<^verbatim>\<open>memfrs_get_current_thread\<close>; the eight bytes that
  \<^verbatim>\<open>memfrs_get_virmem_content\<close> leaves for a \<^verbatim>\<open>CR3\<close> and an address.
\<close>

record 'e guest =
  info_loaded :: "'e \<Rightarrow> bool"
  enum_ssdt_list :: "'e \<Rightarrow> int list option"
  unique_thread :: "'e \<Rightarrow> u64"
  virmem_u64 :: "'e \<Rightarrow> u64 \<Rightarrow> u64 \<Rightarrow> u64"

section \<open>Registering tracers\<close>

definition systrace_fail :: "SYSTRACE_ERRNO \<Rightarrow> sys_context \<Rightarrow> (int \<times> sys_context) option" where
  "systrace_fail e s = Some (-1, s\<lparr>systrace_errno := e\<rparr>)"

text \<open>Without a label \<^verbatim>\<open>strncpy\<close> reads through the null pointer.\<close>

definition new_record ::
  "callocs \<Rightarrow> int \<Rightarrow> string option \<Rightarrow> u64 \<Rightarrow> int \<Rightarrow> bool \<Rightarrow> nat \<Rightarrow> u64 \<Rightarrow> sys_context \<Rightarrow> (ptr option \<times> sys_context) option" where
  "new_record calloc i label c num is_entry cb args s =
     (case calloc (\<lambda>p. st_recs s p \<noteq> None) of None \<Rightarrow> Some (None, s)
      | Some p \<Rightarrow> do {
          l \<leftarrow> label;
          Some (Some p, s\<lparr>st_recs := (st_recs s)(p \<mapsto> \<lparr>st_id = i, st_label = take MAX_SZ_SYSTRACE_LABEL l,
            st_syscall_number = num, st_callback = cb, st_cr3 = c, st_is_entry = is_entry, st_cb_args = args\<rparr>)\<rparr>) })"

text \<open>The loop that looks for an empty slot.\<close>

function empty_slot :: "(nat \<Rightarrow> ptr option) \<Rightarrow> nat \<Rightarrow> nat" where
  "empty_slot tbl i = (if i < MAX_NM_SYSTRACE \<and> tbl i \<noteq> None then empty_slot tbl (i + 1) else i)"
  by pat_completeness auto
termination by (relation "measure (\<lambda>(_, i). MAX_NM_SYSTRACE - i)") auto

declare empty_slot.simps [simp del]

definition systrace_add ::
  "callocs \<Rightarrow> string option \<Rightarrow> u64 \<Rightarrow> int \<Rightarrow> bool \<Rightarrow> nat \<Rightarrow> u64 \<Rightarrow> sys_context \<Rightarrow> (int \<times> sys_context) option" where
  "systrace_add calloc label target_cr3 target_syscall_number is_entry callback cb_args s =
     (let new_handle = empty_slot (records s) 0 in
      if new_handle = MAX_NM_SYSTRACE then systrace_fail SYSTRACE_ERR_FULL_TRACE s
      else do {
        (rec, s) \<leftarrow> new_record calloc (int new_handle) label target_cr3 target_syscall_number is_entry callback cb_args s;
        case rec of None \<Rightarrow> systrace_fail SYSTRACE_ERR_CREATE_FAIL s
        | Some p \<Rightarrow> do {
            (head, nx) \<leftarrow> LL_APPEND (st_next s) (ll_records s) p;
            Some (int new_handle, s\<lparr>ll_records := head, st_next := nx, records := (records s)(new_handle \<mapsto> p)\<rparr>) } })"

text \<open>\<^verbatim>\<open>LL_FOREACH_SAFE\<close> up to the record, if it is in the list.\<close>

partial_function (option) in_records :: "(ptr \<Rightarrow> systrace_record option) \<Rightarrow> nexts \<Rightarrow> ptr option \<Rightarrow> ptr \<Rightarrow> ptr option option" where
  "in_records recs nx p target =
     (case p of None \<Rightarrow> Some None
      | Some q \<Rightarrow> Option.bind (recs q) (\<lambda>r. if q = target then Some (Some q) else in_records recs nx (nx q) target))"

declare in_records.simps [code]

text \<open>The handle is not checked against the size of the table.\<close>

definition systrace_delete :: "int \<Rightarrow> sys_context \<Rightarrow> (int \<times> sys_context) option" where
  "systrace_delete h s =
     (if h < 0 \<or> int MAX_NM_SYSTRACE \<le> h then None
      else case records s (nat h) of None \<Rightarrow> systrace_fail SYSTRACE_ERR_INVALID_HANDLE s
      | Some target \<Rightarrow> do {
          found \<leftarrow> in_records (st_recs s) (st_next s) (ll_records s) target;
          case found of Some rec \<Rightarrow> do {
            (head, nx) \<leftarrow> LL_DELETE (st_next s) (ll_records s) rec;
            Some (0, s\<lparr>ll_records := head, st_next := nx, records := (records s)(nat h := None),
                       st_recs := (st_recs s)(rec := None)\<rparr>) }
          | None \<Rightarrow> systrace_fail SYSTRACE_ERR_INTERNAL_BROKEN s })"

text \<open>The records that \<^verbatim>\<open>systrace_list\<close> prints.\<close>

definition systrace_list :: "sys_context \<Rightarrow> systrace_record list option" where
  "systrace_list s = do { ps \<leftarrow> LL_FOREACH (st_next s) (ll_records s); those (map (st_recs s) ps) }"

section \<open>Events\<close>

definition context_code :: "u64 \<Rightarrow> u64 \<Rightarrow> u64" where
  "context_code c tid = push_bit (32 - 12) c OR tid"

text \<open>\<^verbatim>\<open>HASH_ADD_INT\<close> and \<^verbatim>\<open>HASH_FIND_INT\<close> take the first \<^verbatim>\<open>sizeof(int)\<close> bytes of the field for the key.\<close>

definition int_key :: "u64 \<Rightarrow> bytes" where
  "int_key k = map (\<lambda>i. ucast (drop_bit (8 * i) k)) [0, 1, 2, 3]"

text \<open>The arguments: four in registers and the rest on the stack, if the table knows the call.\<close>

definition arguments :: "('x cpu_env_scheme) guest \<Rightarrow> int list \<Rightarrow> nat \<Rightarrow> 'x cpu_env_scheme \<Rightarrow> u64 list" where
  "arguments g ssdt num e =
     [env_ecx e, env_edx e, env_r8 e, env_r9 e] @
     (if num < length ssdt then map (\<lambda>i. virmem_u64 g e (env_cr3 e) (env_esp e + 0x28 + of_nat i * 8)) [0..<nat (ssdt ! num)] else [])"

text \<open>Without the table of system calls, and without memory, the function goes through a null pointer.\<close>

definition gen_syscall_context ::
  "('x cpu_env_scheme) guest \<Rightarrow> callocs \<Rightarrow> nat \<Rightarrow> 'x cpu_env_scheme \<Rightarrow> sys_context \<Rightarrow> (ptr \<times> sys_context) option" where
  "gen_syscall_context g malloc num e s =
     do { ssdt \<leftarrow> g_ssdt_info s;
          p \<leftarrow> malloc (\<lambda>p. ctx_recs s p \<noteq> None);
          Some (p, s\<lparr>ctx_recs := (ctx_recs s)(p \<mapsto> \<lparr>context_key = context_code (env_cr3 e) (unique_thread g e),
            ctx_syscall_number = int num, argument_arr = arguments g ssdt num e\<rparr>)\<rparr>) }"

definition free_context :: "ptr option \<Rightarrow> sys_context \<Rightarrow> sys_context option" where
  "free_context ctx s =
     (case ctx of None \<Rightarrow> Some s
      | Some p \<Rightarrow> do {
          c \<leftarrow> ctx_recs s p;
          tbl \<leftarrow> HASH_DELETE (g_syscall_ctx s) p;
          Some (s\<lparr>g_syscall_ctx := tbl, ctx_recs := (ctx_recs s)(p := None)\<rparr>) })"

text \<open>A callback gets whether it is an entry, its argument and the context, and may change the tracers and the machine.\<close>

type_synonym 'x systrace_cb =
  "nat \<Rightarrow> bool \<Rightarrow> u64 \<Rightarrow> syscall_context \<Rightarrow> sys_context \<times> 'x cpu_env_scheme \<Rightarrow> sys_context \<times> 'x cpu_env_scheme"

text \<open>Whether a tracer is called; on a return the number is that of the context, if there is one.\<close>

definition matches :: "bool \<Rightarrow> u64 \<Rightarrow> syscall_context option \<Rightarrow> systrace_record \<Rightarrow> 'x cpu_env_scheme \<Rightarrow> bool" where
  "matches is_enter num c rec e \<longleftrightarrow>
     (st_cr3 rec = CR3_ALL \<or> st_cr3 rec = env_cr3 e) \<and>
     (if is_enter \<and> st_is_entry rec then st_syscall_number rec = SYSCALL_ALL \<or> word_of_int (st_syscall_number rec) = num
      else \<not> is_enter \<and> c \<noteq> None \<and> \<not> st_is_entry rec \<and>
        (st_syscall_number rec = SYSCALL_ALL \<or> st_syscall_number rec = ctx_syscall_number (the c)))"

text \<open>The context is read through its pointer each time.\<close>

definition context_at :: "ptr option \<Rightarrow> sys_context \<Rightarrow> syscall_context option option" where
  "context_at ctx s = (case ctx of None \<Rightarrow> Some None | Some p \<Rightarrow> map_option Some (ctx_recs s p))"

partial_function (option) call_systracers ::
  "'x systrace_cb \<Rightarrow> bool \<Rightarrow> u64 \<Rightarrow> ptr option \<Rightarrow> ptr option \<Rightarrow> sys_context \<times> 'x cpu_env_scheme \<Rightarrow>
   (sys_context \<times> 'x cpu_env_scheme) option" where
  "call_systracers run is_enter num ctx p w =
     (case p of None \<Rightarrow> Some w
      | Some b \<Rightarrow> Option.bind (st_recs (fst w) b) (\<lambda>rec. Option.bind (context_at ctx (fst w)) (\<lambda>c.
          let w1 = (if matches is_enter num c rec (snd w) then run (st_callback rec) is_enter (st_cb_args rec) (the c) w else w) in
          if st_recs (fst w1) b = None then None else call_systracers run is_enter num ctx (st_next (fst w1) b) w1)))"

declare call_systracers.simps [code]

definition event_callret ::
  "('x cpu_env_scheme) guest \<Rightarrow> callocs \<Rightarrow> 'x systrace_cb \<Rightarrow> bool \<Rightarrow> sys_context \<times> 'x cpu_env_scheme \<Rightarrow>
   (sys_context \<times> 'x cpu_env_scheme) option" where
  "event_callret g malloc run is_enter = (\<lambda>(s, e).
     let num = env_eax e AND 0xffff in
     if \<not> info_loaded g e then Some (s, e)
     else do {
       let s = (if g_ssdt_info s = None then s\<lparr>g_ssdt_info := enum_ssdt_list g e\<rparr> else s);
       (ctx, s) \<leftarrow> (if is_enter then do {
                     (p, s) \<leftarrow> gen_syscall_context g malloc (unat num) e s;
                     c \<leftarrow> ctx_recs s p;
                     Some (Some p, s\<lparr>g_syscall_ctx := HASH_ADD (g_syscall_ctx s) (int_key (context_key c)) p\<rparr>) }
                   else Some (HASH_FIND (g_syscall_ctx s) (int_key (context_code (env_cr3 e) (unique_thread g e))), s));
       (s, e) \<leftarrow> call_systracers run is_enter num ctx (ll_records s) (s, e);
       if \<not> is_enter then do { s \<leftarrow> free_context ctx s; Some (s, e) } else Some (s, e) })"

definition systrace_on_syscall ::
  "('x cpu_env_scheme) guest \<Rightarrow> callocs \<Rightarrow> 'x systrace_cb \<Rightarrow> sys_context \<times> 'x cpu_env_scheme \<Rightarrow>
   (sys_context \<times> 'x cpu_env_scheme) option" where
  "systrace_on_syscall g malloc run w = event_callret g malloc run True w"

definition systrace_on_sysret ::
  "('x cpu_env_scheme) guest \<Rightarrow> callocs \<Rightarrow> 'x systrace_cb \<Rightarrow> sys_context \<times> 'x cpu_env_scheme \<Rightarrow>
   (sys_context \<times> 'x cpu_env_scheme) option" where
  "systrace_on_sysret g malloc run w = event_callret g malloc run False w"

section \<open>The list of tracers\<close>

definition sys_at :: "sys_context \<Rightarrow> (ptr \<times> systrace_record) list \<Rightarrow> bool" where
  "sys_at s prs \<longleftrightarrow> ll (st_next s) (ll_records s) (map fst prs) \<and> (\<forall>p r. st_recs s p = Some r \<longleftrightarrow> (p, r) \<in> set prs) \<and>
     (\<forall>i p. records s i = Some p \<longleftrightarrow> (\<exists>r. (p, r) \<in> set prs \<and> st_id r = int i)) \<and> distinct (map (st_id \<circ> snd) prs) \<and>
     (\<forall>(p, r) \<in> set prs. 0 \<le> st_id r \<and> st_id r < int MAX_NM_SYSTRACE)"

definition systracers :: "sys_context \<Rightarrow> systrace_record list \<Rightarrow> bool" where
  "systracers s l \<longleftrightarrow> (\<exists>prs. l = map snd prs \<and> sys_at s prs)"

lemma sys_atD:
  assumes "sys_at s prs"
  shows "ll (st_next s) (ll_records s) (map fst prs)" "st_recs s p = Some r \<longleftrightarrow> (p, r) \<in> set prs"
    "records s i = Some p \<longleftrightarrow> (\<exists>r. (p, r) \<in> set prs \<and> st_id r = int i)" "distinct (map (st_id \<circ> snd) prs)"
    "(p, r) \<in> set prs \<Longrightarrow> 0 \<le> st_id r \<and> st_id r < int MAX_NM_SYSTRACE"
    "distinct (map fst prs)"
  using assms ll_distinct [of "st_next s" "ll_records s" "map fst prs"] unfolding sys_at_def by blast+

lemma empty_slot_ok:
  assumes "i \<le> MAX_NM_SYSTRACE" "\<forall>j < i. tbl j \<noteq> None"
  shows "empty_slot tbl i \<le> MAX_NM_SYSTRACE \<and> (\<forall>j < empty_slot tbl i. tbl j \<noteq> None) \<and>
    (empty_slot tbl i = MAX_NM_SYSTRACE \<or> tbl (empty_slot tbl i) = None)"
  using assms
proof (induction tbl i rule: empty_slot.induct)
  case H: (1 tbl i)
  show ?case
  proof (cases "i < MAX_NM_SYSTRACE \<and> tbl i \<noteq> None")
    case True
    then have "\<forall>j < i + 1. tbl j \<noteq> None" using H.prems(2) by (simp add: less_Suc_eq)
    then show ?thesis using H.IH [OF True] True by (simp add: empty_slot.simps [of tbl i])
  next
    case False
    then have "empty_slot tbl i = i" by (subst empty_slot.simps) (simp only: if_False)
    then show ?thesis using False H.prems by auto
  qed
qed

definition new_tracer_record :: "nat \<Rightarrow> string \<Rightarrow> u64 \<Rightarrow> int \<Rightarrow> bool \<Rightarrow> nat \<Rightarrow> u64 \<Rightarrow> systrace_record" where
  "new_tracer_record h l c num en cb args = \<lparr>st_id = int h, st_label = take MAX_SZ_SYSTRACE_LABEL l, st_syscall_number = num,
     st_callback = cb, st_cr3 = c, st_is_entry = en, st_cb_args = args\<rparr>"

text \<open>What the callers see: the tracers in the order of their creation, each with a handle.\<close>

inductive systrace_add_spec :: "bool \<Rightarrow> (nat \<Rightarrow> systrace_record) \<Rightarrow> systrace_record list \<Rightarrow> int \<Rightarrow> SYSTRACE_ERRNO option \<Rightarrow>
    systrace_record list \<Rightarrow> bool" for fails new l where
  full: "\<forall>h < MAX_NM_SYSTRACE. int h \<in> st_id ` set l \<Longrightarrow> systrace_add_spec fails new l (-1) (Some SYSTRACE_ERR_FULL_TRACE) l"
| nomem: "fails \<Longrightarrow> \<exists>h < MAX_NM_SYSTRACE. int h \<notin> st_id ` set l \<Longrightarrow> systrace_add_spec fails new l (-1) (Some SYSTRACE_ERR_CREATE_FAIL) l"
| added: "\<not> fails \<Longrightarrow> h < MAX_NM_SYSTRACE \<Longrightarrow> int h \<notin> st_id ` set l \<Longrightarrow> \<forall>j < h. int j \<in> st_id ` set l \<Longrightarrow>
    systrace_add_spec fails new l (int h) None (l @ [new h])"

definition set_errno :: "SYSTRACE_ERRNO option \<Rightarrow> sys_context \<Rightarrow> SYSTRACE_ERRNO" where
  "set_errno e s = (case e of None \<Rightarrow> systrace_errno s | Some x \<Rightarrow> x)"

lemma systracers_errno: "systracers (s\<lparr>systrace_errno := e\<rparr>) l = systracers s l"
  by (simp add: systracers_def sys_at_def)

lemma slot_used: "sys_at s prs \<Longrightarrow> records s i \<noteq> None \<longleftrightarrow> int i \<in> st_id ` set (map snd prs)"
  using sys_atD(3) [of s prs i] by force

lemma added_at:
  assumes "sys_at s prs" "p \<notin> fst ` set prs" "ll nx head (map fst prs @ [p])" "st_id r = int h" "h < MAX_NM_SYSTRACE"
    "int h \<notin> st_id ` set (map snd prs)"
  shows "sys_at (s\<lparr>st_recs := (st_recs s)(p \<mapsto> r), ll_records := head, st_next := nx, records := (records s)(h \<mapsto> p)\<rparr>) (prs @ [(p, r)])"
proof -
  note at = sys_atD [OF assms(1)]
  have "((st_recs s)(p \<mapsto> r)) q = Some x \<longleftrightarrow> (q, x) \<in> set (prs @ [(p, r)])" for q x
    using at(2) [of q x] assms(2) by (cases "q = p") force+
  moreover have "((records s)(h \<mapsto> p)) i = Some q \<longleftrightarrow> (\<exists>x. (q, x) \<in> set (prs @ [(p, r)]) \<and> st_id x = int i)" for i q
  proof (cases "i = h")
    case True
    then have "\<not> (\<exists>x. (q, x) \<in> set prs \<and> st_id x = int i)" using assms(6) by force
    then show ?thesis using True assms(4) by auto
  next
    case False
    then show ?thesis using at(3) [of i q] assms(4) by auto
  qed
  moreover have "distinct (map (st_id \<circ> snd) (prs @ [(p, r)]))" using at(4) assms(4,6) by (auto simp: image_image)
  moreover have "\<forall>(q, x) \<in> set (prs @ [(p, r)]). 0 \<le> st_id x \<and> st_id x < int MAX_NM_SYSTRACE" using at(5) assms(4,5) by auto
  ultimately show ?thesis using assms(3) unfolding sys_at_def by simp
qed

lemma systrace_add_ok:
  assumes "systracers s l" "calloc_ok calloc"
  shows "\<exists>v e s' l'. systrace_add calloc (Some lab) c num en cb args s = Some (v, s') \<and>
    systrace_add_spec (calloc (\<lambda>p. st_recs s p \<noteq> None) = None) (\<lambda>h. new_tracer_record h lab c num en cb args) l v e l' \<and>
    systracers s' l' \<and> systrace_errno s' = set_errno e s \<and> ctx_recs s' = ctx_recs s \<and> g_syscall_ctx s' = g_syscall_ctx s"
proof -
  obtain prs where prs: "l = map snd prs" "sys_at s prs" using assms(1) by (auto simp: systracers_def)
  define h where "h = empty_slot (records s) 0"
  have h: "h \<le> MAX_NM_SYSTRACE" "\<forall>j < h. records s j \<noteq> None" "h = MAX_NM_SYSTRACE \<or> records s h = None"
    using empty_slot_ok [of 0 "records s"] by (simp_all add: h_def)
  have used: "\<forall>j < h. int j \<in> st_id ` set l" using h(2) slot_used [OF prs(2)] prs(1) by simp
  have free: "\<exists>h < MAX_NM_SYSTRACE. int h \<notin> st_id ` set l" if "h < MAX_NM_SYSTRACE"
    using that h(3) slot_used [OF prs(2), of h] prs(1) by auto
  consider (full) "h = MAX_NM_SYSTRACE" | (nomem) "h < MAX_NM_SYSTRACE" "calloc (\<lambda>p. st_recs s p \<noteq> None) = None"
    | (some) p where "h < MAX_NM_SYSTRACE" "calloc (\<lambda>p. st_recs s p \<noteq> None) = Some p" using h(1) by fastforce
  then show ?thesis
  proof cases
    case full
    then have "systrace_add calloc (Some lab) c num en cb args s = Some (-1, s\<lparr>systrace_errno := SYSTRACE_ERR_FULL_TRACE\<rparr>)"
      by (simp add: systrace_add_def systrace_fail_def flip: h_def)
    moreover have "systrace_add_spec (calloc (\<lambda>p. st_recs s p \<noteq> None) = None) (\<lambda>h. new_tracer_record h lab c num en cb args) l (-1)
        (Some SYSTRACE_ERR_FULL_TRACE) l" using used full by (intro systrace_add_spec.full) simp
    ultimately show ?thesis using assms(1) systracers_errno [of SYSTRACE_ERR_FULL_TRACE s l] by (fastforce simp: set_errno_def)
  next
    case nomem
    then have "systrace_add calloc (Some lab) c num en cb args s = Some (-1, s\<lparr>systrace_errno := SYSTRACE_ERR_CREATE_FAIL\<rparr>)"
      by (simp add: systrace_add_def systrace_fail_def new_record_def flip: h_def)
    moreover note systrace_add_spec.nomem [OF nomem(2) free [OF nomem(1)], of "\<lambda>h. new_tracer_record h lab c num en cb args"]
    ultimately show ?thesis using assms(1) systracers_errno [of SYSTRACE_ERR_CREATE_FAIL s l] by (fastforce simp: set_errno_def)
  next
    case some
    let ?r = "new_tracer_record h lab c num en cb args"
    have "st_recs s p = None" using assms(2) [unfolded calloc_ok_def, rule_format, OF some(2)] by simp
    then have p: "p \<notin> fst ` set prs" using sys_atD(2) [OF prs(2), of p] by force
    obtain head nx where app: "LL_APPEND (st_next s) (ll_records s) p = Some (head, nx)" "ll nx head (map fst prs @ [p])"
      using LL_APPEND_ok [OF sys_atD(1) [OF prs(2)], of p] p by auto
    have fresh: "int h \<notin> st_id ` set l" using h(3) some(1) slot_used [OF prs(2), of h] prs(1) by simp
    define s' where "s' = s\<lparr>st_recs := (st_recs s)(p \<mapsto> ?r), ll_records := head, st_next := nx, records := (records s)(h \<mapsto> p)\<rparr>"
    have "systrace_add calloc (Some lab) c num en cb args s = Some (int h, s')"
      using some app(1) by (simp add: systrace_add_def new_record_def new_tracer_record_def s'_def flip: h_def)
    moreover have "sys_at s' (prs @ [(p, ?r)])"
      using added_at [OF prs(2) p app(2), of ?r h] fresh some(1) prs(1) by (simp add: s'_def new_tracer_record_def)
    then have "systracers s' (l @ [?r])" using prs(1) unfolding systracers_def
      by (intro exI [of _ "prs @ [(p, ?r)]"]) simp
    moreover have "calloc (\<lambda>p. st_recs s p \<noteq> None) \<noteq> None" using some(2) by simp
    moreover note systrace_add_spec.added [OF this some(1) fresh used, of "\<lambda>h. new_tracer_record h lab c num en cb args"]
    ultimately show ?thesis by (fastforce simp: set_errno_def s'_def)
  qed
qed

lemma in_records_eq:
  assumes "ll nx p ps" "\<forall>q \<in> set ps. recs q \<noteq> None"
  shows "in_records recs nx p target = Some (if target \<in> set ps then Some target else None)"
  using assms by (induction ps arbitrary: p) (auto simp: in_records.simps)

text \<open>A deletion, with a handle of the table.\<close>

definition systrace_delete_spec :: "int \<Rightarrow> systrace_record list \<Rightarrow> int \<times> SYSTRACE_ERRNO option \<times> systrace_record list" where
  "systrace_delete_spec h l =
     (if h \<in> st_id ` set l then (0, None, filter (\<lambda>r. st_id r \<noteq> h) l) else (-1, Some SYSTRACE_ERR_INVALID_HANDLE, l))"

lemma deleted_at:
  assumes "sys_at s prs" "(p, r) \<in> set prs" "ll nx head (remove1 p (map fst prs))"
  shows "sys_at (s\<lparr>ll_records := head, st_next := nx, records := (records s)(nat (st_id r) := None), st_recs := (st_recs s)(p := None)\<rparr>)
    (filter (\<lambda>(q, x). st_id x \<noteq> st_id r) prs)"
proof -
  note at = sys_atD [OF assms(1)]
  have inj: "inj_on (st_id \<circ> snd) (set prs)" using at(4) by (simp add: distinct_map)
  have one: "st_id x = st_id r \<longleftrightarrow> q = p" if "(q, x) \<in> set prs" for q x
    using eq_key_imp_eq_value [OF at(6), of p] inj_onD [OF inj _ that assms(2)] that assms(2) by auto
  have f: "filter (\<lambda>(q, x). st_id x \<noteq> st_id r) prs = filter (\<lambda>(q, x). q \<noteq> p) prs" using one by (intro filter_cong) auto
  have "map fst (filter (\<lambda>(q, x). q \<noteq> p) prs) = remove1 p (map fst prs)"
    unfolding distinct_remove1_removeAll [OF at(6)] by (simp add: removeAll_filter_not_eq filter_map comp_def case_prod_beta') (rule arg_cong [where f = "map fst"], rule filter_cong, auto)
  moreover have "((st_recs s)(p := None)) q = Some x \<longleftrightarrow> (q, x) \<in> set (filter (\<lambda>(q, x). q \<noteq> p) prs)" for q x using at(2) [of q x] by auto
  moreover have "((records s)(nat (st_id r) := None)) i = Some q \<longleftrightarrow> (\<exists>x. (q, x) \<in> set (filter (\<lambda>(q, x). q \<noteq> p) prs) \<and> st_id x = int i)" for i q
  proof -
    have "int i = st_id r \<longleftrightarrow> i = nat (st_id r)" using at(5) [OF assms(2)] by auto
    moreover have "(q, x) \<in> set prs \<and> st_id x = int i \<and> int i \<noteq> st_id r \<longleftrightarrow> (q, x) \<in> set prs \<and> st_id x = int i \<and> q \<noteq> p" for x
      using one [of q x] by auto
    ultimately show ?thesis using at(3) [of i q] by auto
  qed
  moreover have "distinct (map (st_id \<circ> snd) (filter (\<lambda>(q, x). q \<noteq> p) prs))" using at(4) by (rule distinct_map_filter)
  moreover have "\<forall>(q, x) \<in> set (filter (\<lambda>(q, x). q \<noteq> p) prs). 0 \<le> st_id x \<and> st_id x < int MAX_NM_SYSTRACE" using at(5) by auto
  ultimately show ?thesis using assms(3) unfolding f sys_at_def by simp
qed

lemma systrace_delete_ok:
  assumes "systracers s l" "0 \<le> h" "h < int MAX_NM_SYSTRACE"
  shows "\<exists>s'. systrace_delete h s = Some (fst (systrace_delete_spec h l), s') \<and> systracers s' (snd (snd (systrace_delete_spec h l))) \<and>
    systrace_errno s' = set_errno (fst (snd (systrace_delete_spec h l))) s \<and> ctx_recs s' = ctx_recs s \<and> g_syscall_ctx s' = g_syscall_ctx s"
proof -
  obtain prs where prs: "l = map snd prs" "sys_at s prs" using assms(1) by (auto simp: systracers_def)
  have used: "records s (nat h) \<noteq> None \<longleftrightarrow> h \<in> st_id ` set l" using slot_used [OF prs(2), of "nat h"] assms(2) prs(1) by simp
  show ?thesis
  proof (cases "records s (nat h)")
    case None
    then have "systrace_delete h s = Some (-1, s\<lparr>systrace_errno := SYSTRACE_ERR_INVALID_HANDLE\<rparr>)"
      using assms(2,3) by (simp add: systrace_delete_def systrace_fail_def)
    then show ?thesis using None used assms(1) by (simp add: systrace_delete_spec_def systracers_errno set_errno_def)
  next
    case (Some p)
    then obtain r where r: "(p, r) \<in> set prs" "st_id r = h" using sys_atD(3) [OF prs(2), of "nat h" p] assms(2) by auto
    have "p \<in> set (map fst prs)" using r(1) by force
    then obtain head nx where del: "LL_DELETE (st_next s) (ll_records s) p = Some (head, nx)" "ll nx head (remove1 p (map fst prs))"
      using LL_DELETE_ok [OF sys_atD(1) [OF prs(2)]] by blast
    define s' where "s' = s\<lparr>ll_records := head, st_next := nx, records := (records s)(nat (st_id r) := None), st_recs := (st_recs s)(p := None)\<rparr>"
    have "\<forall>q \<in> set (map fst prs). st_recs s q \<noteq> None" using sys_atD(2) [OF prs(2)] by force
    from in_records_eq [OF sys_atD(1) [OF prs(2)] this] have "systrace_delete h s = Some (0, s')"
      using Some \<open>p \<in> set (map fst prs)\<close> del(1) assms(2,3) r(2) by (simp add: systrace_delete_def s'_def)
    moreover have "systracers s' (filter (\<lambda>x. st_id x \<noteq> h) l)"
      using deleted_at [OF prs(2) r(1) del(2)] prs(1) r(2) unfolding systracers_def s'_def
      by (intro exI [of _ "filter (\<lambda>(q, x). st_id x \<noteq> st_id r) prs"]) (simp add: filter_map comp_def case_prod_beta')
    ultimately show ?thesis using Some used by (simp add: systrace_delete_spec_def set_errno_def s'_def)
  qed
qed


section \<open>The calls that have not returned\<close>

definition outstanding :: "sys_context \<Rightarrow> bytes \<Rightarrow> syscall_context option" where
  "outstanding s k = Option.bind (HASH_FIND (g_syscall_ctx s) k) (ctx_recs s)"

text \<open>Every allocated context is in the table, and nothing else is.\<close>

definition calls_ok :: "sys_context \<Rightarrow> bool" where
  "calls_ok s \<longleftrightarrow> ht_inv (g_syscall_ctx s) \<and> (\<forall>p. ctx_recs s p \<noteq> None \<longleftrightarrow> (\<exists>k. HASH_FIND (g_syscall_ctx s) k = Some p))"

lemma outstanding_None: "calls_ok s \<Longrightarrow> outstanding s k = None \<longleftrightarrow> HASH_FIND (g_syscall_ctx s) k = None"
  by (auto simp: outstanding_def calls_ok_def split: bind_splits)

lemma calls_add:
  fixes c :: syscall_context
  assumes "calls_ok s" "ht_room (g_syscall_ctx s)" "outstanding s k = None" "ctx_recs s p = None"
  assumes s'_def: "s' = s\<lparr>ctx_recs := (ctx_recs s)(p \<mapsto> c), g_syscall_ctx := HASH_ADD (g_syscall_ctx s) k p\<rparr>"
  shows "calls_ok s'" "outstanding s' = (outstanding s)(k \<mapsto> c)"
proof -
  have i: "ht_inv (g_syscall_ctx s)" using assms(1) by (simp add: calls_ok_def)
  have n: "HASH_FIND (g_syscall_ctx s) k = None" using outstanding_None [OF assms(1)] assms(3) by blast
  have e: "\<forall>k'. HASH_FIND (g_syscall_ctx s) k' \<noteq> Some p" using assms(1,4) unfolding calls_ok_def by blast
  have f: "HASH_FIND (HASH_ADD (g_syscall_ctx s) k p) = (HASH_FIND (g_syscall_ctx s))(k \<mapsto> p)" by (rule ut.find_add [OF i assms(2) n e])
  have "ctx_recs s q \<noteq> None \<longleftrightarrow> (\<exists>k'. HASH_FIND (g_syscall_ctx s) k' = Some q)" for q using assms(1) unfolding calls_ok_def by blast
  moreover have "(\<exists>k'. ((HASH_FIND (g_syscall_ctx s))(k \<mapsto> p)) k' = Some q) \<longleftrightarrow> q = p \<or> (\<exists>k'. HASH_FIND (g_syscall_ctx s) k' = Some q)" for q
    using n by (metis fun_upd_apply option.distinct(1) option.inject)
  ultimately show "calls_ok s'"
    unfolding calls_ok_def s'_def using ut.inv_add [OF i assms(2) n e] by (simp add: f)
  show "outstanding s' = (outstanding s)(k \<mapsto> c)"
  proof
    fix k'
    have "HASH_FIND (g_syscall_ctx s) k' \<noteq> Some p" using e by blast
    then show "outstanding s' k' = ((outstanding s)(k \<mapsto> c)) k'"
      by (cases "HASH_FIND (g_syscall_ctx s) k'") (auto simp: outstanding_def s'_def f)
  qed
qed

lemma calls_del:
  assumes "calls_ok s" "HASH_FIND (g_syscall_ctx s) k = Some p"
  shows "\<exists>s'. free_context (Some p) s = Some s' \<and> calls_ok s' \<and> outstanding s' = (outstanding s)(k := None) \<and>
    (\<exists>tbl. s' = s\<lparr>g_syscall_ctx := tbl, ctx_recs := (ctx_recs s)(p := None)\<rparr>)"
proof -
  have i: "ht_inv (g_syscall_ctx s)" using assms(1) by (simp add: calls_ok_def)
  obtain tbl where t: "HASH_DELETE (g_syscall_ctx s) p = Some tbl" "ht_inv tbl" "HASH_FIND tbl = (HASH_FIND (g_syscall_ctx s))(k := None)"
    using ut.del [OF i assms(2)] by blast
  have ok: "ctx_recs s q \<noteq> None \<longleftrightarrow> (\<exists>k'. HASH_FIND (g_syscall_ctx s) k' = Some q)" for q using assms(1) unfolding calls_ok_def by blast
  then obtain c where c: "ctx_recs s p = Some c" using assms(2) by blast
  have u: "HASH_FIND (g_syscall_ctx s) k' = Some p \<longleftrightarrow> k' = k" for k' using ut.inj [OF i assms(2)] assms(2) by blast
  define s' where "s' = s\<lparr>g_syscall_ctx := tbl, ctx_recs := (ctx_recs s)(p := None)\<rparr>"
  have "(\<exists>k'. ((HASH_FIND (g_syscall_ctx s))(k := None)) k' = Some q) \<longleftrightarrow> q \<noteq> p \<and> (\<exists>k'. HASH_FIND (g_syscall_ctx s) k' = Some q)" for q
    using u assms(2) by (metis fun_upd_apply option.distinct(1) option.inject)
  then have "calls_ok s'" unfolding calls_ok_def s'_def using t(2,3) ok by simp
  moreover have "outstanding s' = (outstanding s)(k := None)"
  proof
    fix k'
    show "outstanding s' k' = ((outstanding s)(k := None)) k'"
      using u [of k'] by (cases "HASH_FIND (g_syscall_ctx s) k'") (auto simp: outstanding_def s'_def t(3))
  qed
  moreover have "free_context (Some p) s = Some s'" by (simp add: free_context_def c t(1) s'_def)
  ultimately show ?thesis unfolding s'_def by blast
qed

section \<open>Events\<close>

text \<open>Callbacks that leave the tracers alone; what they do to the machine is arbitrary.\<close>

type_synonym 'x action = "nat \<Rightarrow> bool \<Rightarrow> u64 \<Rightarrow> syscall_context \<Rightarrow> 'x cpu_env_scheme \<Rightarrow> 'x cpu_env_scheme"

definition quiet :: "'x action \<Rightarrow> 'x systrace_cb" where
  "quiet act = (\<lambda>f b x c (s, e). (s, act f b x c e))"

definition visit_tracer ::
  "'x action \<Rightarrow> bool \<Rightarrow> u64 \<Rightarrow> syscall_context option \<Rightarrow> systrace_record \<Rightarrow> 'x cpu_env_scheme \<Rightarrow> 'x cpu_env_scheme" where
  "visit_tracer act is_enter num c r e =
     (if matches is_enter num c r e then act (st_callback r) is_enter (st_cb_args r) (the c) e else e)"

lemma call_systracers_eq:
  assumes "ll (st_next s) p (map fst q)" "\<forall>(p, r) \<in> set q. st_recs s p = Some r" "context_at ctx s = Some c"
  shows "call_systracers (quiet act) is_enter num ctx p (s, e) = Some (s, fold (visit_tracer act is_enter num c) (map snd q) e)"
  using assms(1,2)
proof (induction q arbitrary: p e)
  case Nil then show ?case by (simp add: call_systracers.simps)
next
  case (Cons x q)
  obtain a r where x: "x = (a, r)" by (cases x)
  then have p: "p = Some a" "ll (st_next s) (st_next s a) (map fst q)" "st_recs s a = Some r" using Cons.prems by auto
  have IH: "call_systracers (quiet act) is_enter num ctx (st_next s a) (s, e') = Some (s, fold (visit_tracer act is_enter num c) (map snd q) e')" for e'
    using Cons.IH p(2) Cons.prems(2) by simp
  show ?case using p(3) IH by (simp add: p(1) x call_systracers.simps [of _ _ _ _ "Some a"] assms(3) quiet_def visit_tracer_def [of act is_enter num c r e])
qed

text \<open>The key of a thread, the table of system calls and the context of a call.\<close>

definition thread_key :: "('x cpu_env_scheme) guest \<Rightarrow> 'x cpu_env_scheme \<Rightarrow> bytes" where
  "thread_key g e = int_key (context_code (env_cr3 e) (unique_thread g e))"

definition ssdt_of :: "('x cpu_env_scheme) guest \<Rightarrow> sys_context \<Rightarrow> 'x cpu_env_scheme \<Rightarrow> int list option" where
  "ssdt_of g s e = (case g_ssdt_info s of None \<Rightarrow> enum_ssdt_list g e | Some t \<Rightarrow> Some t)"

definition context_of :: "('x cpu_env_scheme) guest \<Rightarrow> int list \<Rightarrow> 'x cpu_env_scheme \<Rightarrow> syscall_context" where
  "context_of g ssdt e = \<lparr>context_key = context_code (env_cr3 e) (unique_thread g e),
     ctx_syscall_number = int (unat (env_eax e AND 0xffff)), argument_arr = arguments g ssdt (unat (env_eax e AND 0xffff)) e\<rparr>"

lemma systracers_frame:
  assumes "systracers s l" "ll_records s' = ll_records s" "st_next s' = st_next s" "st_recs s' = st_recs s" "records s' = records s"
  shows "systracers s' l"
  using assms by (simp add: systracers_def sys_at_def)

lemma systracers_call:
  assumes "systracers s l" "context_at ctx s = Some c"
  shows "call_systracers (quiet act) is_enter num ctx (ll_records s) (s, e) = Some (s, fold (visit_tracer act is_enter num c) l e)"
proof -
  obtain prs where prs: "l = map snd prs" "sys_at s prs" using assms(1) by (auto simp: systracers_def)
  show ?thesis unfolding prs(1)
    by (rule call_systracers_eq [OF sys_atD(1) [OF prs(2)] _ assms(2)]) (use sys_atD(2) [OF prs(2)] in blast)
qed

lemma on_syscall:
  assumes "systracers s l" "calls_ok s" "calloc_ok malloc" "malloc (\<lambda>p. ctx_recs s p \<noteq> None) = Some p" "ht_room (g_syscall_ctx s)"
    "info_loaded g e" "ssdt_of g s e = Some ssdt" "outstanding s (thread_key g e) = None"
  shows "\<exists>s'. systrace_on_syscall g malloc (quiet act) (s, e) =
      Some (s', fold (visit_tracer act True (env_eax e AND 0xffff) (Some (context_of g ssdt e))) l e) \<and>
    systracers s' l \<and> calls_ok s' \<and> outstanding s' = (outstanding s)(thread_key g e \<mapsto> context_of g ssdt e)"
proof -
  have fresh: "ctx_recs s p = None" using assms(3) [unfolded calloc_ok_def, rule_format, OF assms(4)] by simp
  define c where "c = context_of g ssdt e"
  define s1 where "s1 = s\<lparr>g_ssdt_info := Some ssdt\<rparr>"
  define s' where "s' = s1\<lparr>ctx_recs := (ctx_recs s1)(p \<mapsto> c), g_syscall_ctx := HASH_ADD (g_syscall_ctx s1) (thread_key g e) p\<rparr>"
  have s1: "(if g_ssdt_info s = None then s\<lparr>g_ssdt_info := enum_ssdt_list g e\<rparr> else s) = s1"
    using assms(7) by (auto simp: s1_def ssdt_of_def split: option.splits)
  have eq: "calls_ok s1" "ht_room (g_syscall_ctx s1)" "outstanding s1 = outstanding s" "ctx_recs s1 p = None" "g_ssdt_info s1 = Some ssdt"
    "malloc (\<lambda>p. ctx_recs s1 p \<noteq> None) = Some p"
    using assms(2,4,5) fresh by (simp_all add: s1_def calls_ok_def outstanding_def [abs_def])
  have s': "calls_ok s'" "outstanding s' = (outstanding s)(thread_key g e \<mapsto> c)"
    using calls_add [OF eq(1,2) _ eq(4) s'_def] assms(8) eq(3) by (simp_all add: s'_def)
  have "systracers s' l" by (rule systracers_frame [OF assms(1)]) (simp_all add: s'_def s1_def)
  note call = systracers_call [OF this, of "Some p" "Some c" act True "env_eax e AND 0xffff" e]
  have "systrace_on_syscall g malloc (quiet act) (s, e) =
      Some (s', fold (visit_tracer act True (env_eax e AND 0xffff) (Some c)) l e)"
    using call assms(6) eq(5,6)
    by (simp add: systrace_on_syscall_def event_callret_def Let_def s1 gen_syscall_context_def context_at_def
        s'_def c_def context_of_def thread_key_def)
  then show ?thesis using s' \<open>systracers s' l\<close> unfolding c_def by blast
qed

lemma on_sysret:
  assumes "systracers s l" "calls_ok s" "info_loaded g e"
  shows "\<exists>s'. systrace_on_sysret g malloc (quiet act) (s, e) =
      Some (s', fold (visit_tracer act False (env_eax e AND 0xffff) (outstanding s (thread_key g e))) l e) \<and>
    systracers s' l \<and> calls_ok s' \<and> outstanding s' = (outstanding s)(thread_key g e := None)"
proof -
  define s1 where "s1 = (if g_ssdt_info s = None then s\<lparr>g_ssdt_info := enum_ssdt_list g e\<rparr> else s)"
  have s1: "calls_ok s1" "outstanding s1 = outstanding s" "systracers s1 l"
    using assms(1,2) systracers_frame [OF assms(1), of s1] by (simp_all add: s1_def calls_ok_def outstanding_def [abs_def])
  define ctx where "ctx = HASH_FIND (g_syscall_ctx s1) (thread_key g e)"
  have c: "context_at ctx s1 = Some (outstanding s (thread_key g e))"
  proof (cases ctx)
    case None then show ?thesis using s1(2) by (simp add: context_at_def ctx_def outstanding_def flip: s1(2))
  next
    case (Some p)
    then have "ctx_recs s1 p \<noteq> None" using s1(1) unfolding calls_ok_def ctx_def by blast
    then show ?thesis using Some by (auto simp: context_at_def ctx_def outstanding_def simp flip: s1(2))
  qed
  have run: "systrace_on_sysret g malloc (quiet act) (s, e) = (case free_context ctx s1 of None \<Rightarrow> None
      | Some s' \<Rightarrow> Some (s', fold (visit_tracer act False (env_eax e AND 0xffff) (outstanding s (thread_key g e))) l e))"
    using systracers_call [OF s1(3) c, of act False "env_eax e AND 0xffff" e] assms(3)
    by (simp add: systrace_on_sysret_def event_callret_def Let_def ctx_def thread_key_def flip: s1_def split: option.splits)
  show ?thesis
  proof (cases ctx)
    case None
    then have "outstanding s (thread_key g e) = None" using s1(2) by (simp add: ctx_def outstanding_def flip: s1(2))
    then show ?thesis using run None s1 by (simp add: free_context_def fun_upd_idem)
  next
    case (Some p)
    then obtain s' tbl where "free_context (Some p) s1 = Some s'" "calls_ok s'" "outstanding s' = (outstanding s1)(thread_key g e := None)"
      "s' = s1\<lparr>g_syscall_ctx := tbl, ctx_recs := (ctx_recs s1)(p := None)\<rparr>"
      using calls_del [OF s1(1), of "thread_key g e" p] by (auto simp: ctx_def)
    moreover from this have "systracers s' l" by (intro systracers_frame [OF s1(3)]) simp_all
    ultimately show ?thesis using run Some s1(2) by simp
  qed
qed


text \<open>C17: The registration of system-call tracers implements a list with handles. \<^verbatim>\<open>systrace_add\<close> appends the tracer
  under the smallest free handle and returns it; it fails, changing only \<^verbatim>\<open>systrace_errno\<close>, when all 65536 handles
  are taken or no memory is left. \<^verbatim>\<open>systrace_delete\<close>, for a handle of the table, removes the tracer of the handle,
  frees its record and keeps the order of the others, or fails for a free handle; the list it searches always holds
  the record (\<^verbatim>\<open>SYSTRACE_ERR_INTERNAL_BROKEN\<close> is never set). The calls in progress are not touched, and a label must be
  given.
\<close>

theorem systrace_implements_list:
  assumes "systracers s l" "calloc_ok calloc" "0 \<le> h" "h < int MAX_NM_SYSTRACE"
  shows "(\<exists>v e s' l'. systrace_add calloc (Some lab) c num en cb args s = Some (v, s') \<and>
      systrace_add_spec (calloc (\<lambda>p. st_recs s p \<noteq> None) = None) (\<lambda>h. new_tracer_record h lab c num en cb args) l v e l' \<and>
      systracers s' l' \<and> systrace_errno s' = set_errno e s \<and> outstanding s' = outstanding s) \<and>
    (\<exists>s'. systrace_delete h s = Some (fst (systrace_delete_spec h l), s') \<and> systracers s' (snd (snd (systrace_delete_spec h l))) \<and>
      systrace_errno s' = set_errno (fst (snd (systrace_delete_spec h l))) s \<and> outstanding s' = outstanding s)"
  using systrace_add_ok [OF assms(1,2), of lab c num en cb args] systrace_delete_ok [OF assms(1,3,4)]
  by (fastforce simp: outstanding_def [abs_def])

text \<open>A state with one tracer, called on the return of any system call.\<close>

definition exit_tracer :: systrace_record where
  "exit_tracer = new_tracer_record 0 ''ret'' CR3_ALL SYSCALL_ALL False 9 0"

definition one_systracer :: sys_context where
  "one_systracer = sys_ctx\<lparr>records := [0 \<mapsto> 5], ll_records := Some 5, st_recs := [5 \<mapsto> exit_tracer]\<rparr>"

lemma one_systracer_ok: "systracers one_systracer [exit_tracer]" "calls_ok one_systracer" "outstanding one_systracer k = None"
proof -
  have "sys_at one_systracer [(5, exit_tracer)]"
    by (auto simp: sys_at_def one_systracer_def sys_ctx_def exit_tracer_def new_tracer_record_def MAX_NM_SYSTRACE_def)
  then show "systracers one_systracer [exit_tracer]" unfolding systracers_def by (intro exI [of _ "[(5, exit_tracer)]"]) simp
  show "calls_ok one_systracer" "outstanding one_systracer k = None"
    by (simp_all add: calls_ok_def outstanding_def one_systracer_def sys_ctx_def ut.inv_nil ut.find_nil)
qed

theorem systrace_implements_list_witness:
  "(\<exists>v e s' l'. systrace_add first_free (Some ''a'') 0 (-1) True 4 0 one_systracer = Some (v, s') \<and>
      systrace_add_spec (first_free (\<lambda>p. st_recs one_systracer p \<noteq> None) = None) (\<lambda>h. new_tracer_record h ''a'' 0 (-1) True 4 0)
        [exit_tracer] v e l' \<and>
      systracers s' l' \<and> systrace_errno s' = set_errno e one_systracer \<and> outstanding s' = outstanding one_systracer) \<and>
    (\<exists>s'. systrace_delete 0 one_systracer = Some (0, s') \<and> systracers s' [])"
proof -
  have "systrace_delete_spec 0 [exit_tracer] = (0, None, [])" by (simp add: systrace_delete_spec_def exit_tracer_def new_tracer_record_def)
  then show ?thesis
    using systrace_implements_list [OF one_systracer_ok(1) first_free_ok, of 0 "''a''" 0 "-1" True 4 0]
    by (simp add: MAX_NM_SYSTRACE_def) blast
qed

subsection \<open>Pairing of calls and returns\<close>

text \<open>What may happen between a call and its return: events of threads with other keys, and registrations.\<close>

inductive others :: "('x cpu_env_scheme) guest \<Rightarrow> callocs \<Rightarrow> 'x action \<Rightarrow> bytes \<Rightarrow> sys_context \<Rightarrow> sys_context \<Rightarrow> bool"
  for g malloc act k s where
  start: "others g malloc act k s s"
| syscall: "others g malloc act k s s1 \<Longrightarrow> thread_key g e \<noteq> k \<Longrightarrow> info_loaded g e \<Longrightarrow> ssdt_of g s1 e \<noteq> None \<Longrightarrow>
    outstanding s1 (thread_key g e) = None \<Longrightarrow> ht_room (g_syscall_ctx s1) \<Longrightarrow> malloc (\<lambda>p. ctx_recs s1 p \<noteq> None) \<noteq> None \<Longrightarrow>
    systrace_on_syscall g malloc (quiet act) (s1, e) = Some (s2, e') \<Longrightarrow> others g malloc act k s s2"
| sysret: "others g malloc act k s s1 \<Longrightarrow> thread_key g e \<noteq> k \<Longrightarrow> info_loaded g e \<Longrightarrow>
    systrace_on_sysret g malloc (quiet act) (s1, e) = Some (s2, e') \<Longrightarrow> others g malloc act k s s2"
| add: "others g malloc act k s s1 \<Longrightarrow> systrace_add malloc (Some lab) c num en cb args s1 = Some (v, s2) \<Longrightarrow> others g malloc act k s s2"
| delete: "others g malloc act k s s1 \<Longrightarrow> 0 \<le> h \<Longrightarrow> h < int MAX_NM_SYSTRACE \<Longrightarrow> systrace_delete h s1 = Some (v, s2) \<Longrightarrow>
    others g malloc act k s s2"

lemma calls_ok_frame:
  "calls_ok s \<Longrightarrow> ctx_recs s' = ctx_recs s \<Longrightarrow> g_syscall_ctx s' = g_syscall_ctx s \<Longrightarrow> calls_ok s' \<and> outstanding s' = outstanding s"
  by (simp add: calls_ok_def outstanding_def [abs_def])

lemma others_keep:
  assumes "others g malloc act k s s'" "calloc_ok malloc" "calls_ok s" "\<exists>l. systracers s l"
  shows "calls_ok s' \<and> outstanding s' k = outstanding s k \<and> (\<exists>l. systracers s' l)"
  using assms
proof (induction rule: others.induct)
  case (syscall s1 e s2 e')
  then obtain l ssdt p where "systracers s1 l" "ssdt_of g s1 e = Some ssdt" "malloc (\<lambda>p. ctx_recs s1 p \<noteq> None) = Some p" by blast
  then show ?case using on_syscall [of s1 l malloc p g e ssdt act] syscall by (auto simp: fun_upd_apply)
next
  case (sysret s1 e s2 e')
  then obtain l where "systracers s1 l" by blast
  then show ?case using on_sysret [of s1 l g e malloc act] sysret by auto
next
  case (add s1 lab c num en cb args v s2)
  then obtain l where "systracers s1 l" by blast
  then show ?case using systrace_add_ok [of s1 l malloc lab c num en cb args] add calls_ok_frame [of s1 s2] by auto
next
  case (delete s1 h v s2)
  then obtain l where "systracers s1 l" by blast
  then show ?case using systrace_delete_ok [of s1 l h] delete calls_ok_frame [of s1 s2] by auto
qed auto

text \<open>C16: Calls and returns are paired. When a thread makes a system call and has no call in progress under its key, the
  entry tracers that match the process and the number are called, in the order of their registration, with the number
  and the arguments of the call (four registers and the stack arguments the table of system calls announces). Whatever
  other threads do in between, and whichever tracers are added or removed, the return of the thread calls the exit
  tracers registered then that match the number of the call, with the number and the arguments the call had. The guest
  information must be loaded and memory available; callbacks must leave the tracers alone.
\<close>

theorem systrace_pairs_calls:
  assumes "systracers s l" "calls_ok s" "calloc_ok malloc" "malloc (\<lambda>p. ctx_recs s p \<noteq> None) = Some p" "ht_room (g_syscall_ctx s)"
    "info_loaded g e" "ssdt_of g s e = Some ssdt" "outstanding s (thread_key g e) = None"
  shows "\<exists>s1. systrace_on_syscall g malloc (quiet act) (s, e) =
      Some (s1, fold (visit_tracer act True (env_eax e AND 0xffff) (Some (context_of g ssdt e))) l e) \<and> systracers s1 l \<and>
    (\<forall>s2 e2. others g malloc act (thread_key g e) s1 s2 \<and> thread_key g e2 = thread_key g e \<and> info_loaded g e2 \<longrightarrow>
      (\<exists>l2. systracers s2 l2) \<and> (\<forall>l2. systracers s2 l2 \<longrightarrow> (\<exists>s3. systrace_on_sysret g malloc (quiet act) (s2, e2) =
        Some (s3, fold (visit_tracer act False (env_eax e2 AND 0xffff) (Some (context_of g ssdt e))) l2 e2))))"
proof -
  obtain s1 where s1: "systrace_on_syscall g malloc (quiet act) (s, e) =
      Some (s1, fold (visit_tracer act True (env_eax e AND 0xffff) (Some (context_of g ssdt e))) l e)"
    "systracers s1 l" "calls_ok s1" "outstanding s1 (thread_key g e) = Some (context_of g ssdt e)"
    using on_syscall [OF assms, of act] by auto
  have k: "calls_ok s2 \<and> outstanding s2 (thread_key g e) = Some (context_of g ssdt e) \<and> (\<exists>l2. systracers s2 l2)"
    if "others g malloc act (thread_key g e) s1 s2" for s2
    using others_keep [OF that assms(3) s1(3)] s1(2,4) by auto
  have "\<exists>s3. systrace_on_sysret g malloc (quiet act) (s2, e2) =
        Some (s3, fold (visit_tracer act False (env_eax e2 AND 0xffff) (Some (context_of g ssdt e))) l2 e2)"
    if "others g malloc act (thread_key g e) s1 s2" "thread_key g e2 = thread_key g e" "info_loaded g e2" "systracers s2 l2" for s2 e2 l2
    using on_sysret [OF that(4) _ that(3), of malloc act] k [OF that(1)] that(2) by auto
  then show ?thesis using s1(1,2) k by blast
qed

text \<open>A machine with a log, and a thread that makes call 3 with one argument on the stack.\<close>

record logged_env = cpu_env +
  called :: "(nat \<times> bool \<times> syscall_context) list"

definition log_call :: "\<lparr>called :: (nat \<times> bool \<times> syscall_context) list\<rparr> action" where
  "log_call f b x c e = e\<lparr>called := called e @ [(f, b, c)]\<rparr>"

definition some_guest :: "logged_env guest" where
  "some_guest = \<lparr>info_loaded = (\<lambda>_. True), enum_ssdt_list = (\<lambda>_. Some [0, 0, 0, 1]), unique_thread = (\<lambda>_. 0x1b4), virmem_u64 = (\<lambda>_ _ a. a)\<rparr>"

definition some_env :: logged_env where
  "some_env = \<lparr>env_eax = 3, env_ecx = 1, env_edx = 2, env_r8 = 3, env_r9 = 4, env_esp = 0x1000, env_cr3 = 0x1aa000, called = []\<rparr>"

definition some_context :: syscall_context where
  "some_context = \<lparr>context_key = context_code 0x1aa000 0x1b4, ctx_syscall_number = 3, argument_arr = [1, 2, 3, 4, 0x1028]\<rparr>"

theorem systrace_pairs_calls_witness:
  "\<exists>s1 s3. systrace_on_syscall some_guest first_free (quiet log_call) (one_systracer, some_env) = Some (s1, some_env) \<and>
    systrace_on_sysret some_guest first_free (quiet log_call) (s1, some_env) =
      Some (s3, some_env\<lparr>called := [(9, False, some_context)]\<rparr>)"
proof -
  have c: "context_of some_guest [0, 0, 0, 1] some_env = some_context"
    by (simp add: context_of_def some_guest_def some_env_def some_context_def arguments_def)
  have a: "env_eax some_env AND 0xffff = 3" by (simp add: some_env_def)
  have v: "fold (visit_tracer log_call True 3 (Some some_context)) [exit_tracer] some_env = some_env"
    "fold (visit_tracer log_call False 3 (Some some_context)) [exit_tracer] some_env = some_env\<lparr>called := [(9, False, some_context)]\<rparr>"
    by (simp_all add: visit_tracer_def matches_def exit_tracer_def new_tracer_record_def log_call_def some_env_def)
  have "first_free (\<lambda>p. ctx_recs one_systracer p \<noteq> None) = Some 1" "ht_room (g_syscall_ctx one_systracer)"
    "info_loaded some_guest some_env" "ssdt_of some_guest one_systracer some_env = Some [0, 0, 0, 1]"
    by (simp_all add: first_free_def one_systracer_def sys_ctx_def ht_room_def some_guest_def ssdt_of_def)
  from systrace_pairs_calls [OF one_systracer_ok(1,2) first_free_ok this one_systracer_ok(3), of log_call]
  obtain s1 where s1: "systrace_on_syscall some_guest first_free (quiet log_call) (one_systracer, some_env) = Some (s1, some_env)"
    "systracers s1 [exit_tracer]"
    "\<forall>s2 e2. others some_guest first_free log_call (thread_key some_guest some_env) s1 s2 \<and>
        thread_key some_guest e2 = thread_key some_guest some_env \<and> info_loaded some_guest e2 \<longrightarrow>
      (\<exists>l2. systracers s2 l2) \<and> (\<forall>l2. systracers s2 l2 \<longrightarrow> (\<exists>s3. systrace_on_sysret some_guest first_free (quiet log_call) (s2, e2) =
        Some (s3, fold (visit_tracer log_call False (env_eax e2 AND 0xffff) (Some some_context)) l2 e2)))"
    unfolding c a v by blast
  with s1(3) [rule_format, of s1 some_env] others.start \<open>info_loaded some_guest some_env\<close>
  have "\<exists>s3. systrace_on_sysret some_guest first_free (quiet log_call) (s1, some_env) =
      Some (s3, fold (visit_tracer log_call False 3 (Some some_context)) [exit_tracer] some_env)" unfolding a by blast
  then show ?thesis using s1(1) unfolding v by blast
qed

text \<open>The process is no part of the key: for page tables at a page boundary the first four bytes hold the thread only.\<close>

lemma int_key_thread:
  assumes "c AND 0xfff = 0"
  shows "int_key (context_code c t) = int_key t"
proof -
  have "take_bit 12 c = 0" using assms by (simp add: take_bit_eq_mask mask_eq_exp_minus_1)
  then have "\<not> bit c i" if "i < 12" for i using that by (metis bit_0_eq bit_take_bit_iff bot_apply bot_bool_def)
  then show ?thesis by (auto simp: int_key_def context_code_def bit_eq_iff bit_simps)
qed

end
