(* ===== verification/GuestMemory.thy ===== *)
theory GuestMemory
imports Prelude
begin

text \<open>
  Reading the memory of the guest: the walk of its page tables (\<^verbatim>\<open>x86_cpu_get_phys_page_debug\<close>,
  \<^verbatim>\<open>target-i386/helper.c\<close>), the access page by page (\<^verbatim>\<open>cpu_memory_rw_debug\<close>, \<^verbatim>\<open>exec.c\<close>) and the access under the
  page tables of another process (\<^verbatim>\<open>memfrs_get_virmem_content\<close>, \<^verbatim>\<open>ext/memfrs/memfrs.c\<close>). Physical memory is a function
  from addresses to bytes: regions of devices are left out.
\<close>

section \<open>Physical memory and the CPU\<close>

type_synonym phys_mem = "u64 \<Rightarrow> u8"

text \<open>The part of \<^verbatim>\<open>CPUX86State\<close> that addresses depend on.\<close>

record x86_cpu =
  cpu_cr0 :: u64
  cpu_cr3 :: u64
  cpu_cr4 :: u64
  cpu_hflags :: u32
  cpu_a20_mask :: u32

primrec le_word :: "u8 list \<Rightarrow> 'a::len word" where
  "le_word [] = 0"
| "le_word (b # bs) = ucast b OR push_bit 8 (le_word bs)"

definition phys_bytes :: "phys_mem \<Rightarrow> u64 \<Rightarrow> nat \<Rightarrow> u8 list" where
  "phys_bytes m a n = map (\<lambda>i. m (a + of_nat i)) [0..<n]"

definition ldq_phys :: "phys_mem \<Rightarrow> u64 \<Rightarrow> u64" where
  "ldq_phys m a = le_word (phys_bytes m a 8)"

definition ldl_phys :: "phys_mem \<Rightarrow> u64 \<Rightarrow> u32" where
  "ldl_phys m a = le_word (phys_bytes m a 4)"

definition phys_write :: "phys_mem \<Rightarrow> u64 \<Rightarrow> u8 list \<Rightarrow> phys_mem" where
  "phys_write m a bs = (\<lambda>x. if unat (x - a) < length bs then bs ! unat (x - a) else m x)"

definition CR0_PG_MASK :: u64 where "CR0_PG_MASK = 0x80000000"
definition CR4_PSE_MASK :: u64 where "CR4_PSE_MASK = 0x10"
definition CR4_PAE_MASK :: u64 where "CR4_PAE_MASK = 0x20"
definition HF_LMA_MASK :: u32 where "HF_LMA_MASK = 0x4000"
definition PG_PRESENT_MASK :: u64 where "PG_PRESENT_MASK = 1"
definition PG_PSE_MASK :: u64 where "PG_PSE_MASK = 0x80"
definition PG_ADDRESS_MASK :: u64 where "PG_ADDRESS_MASK = 0x000ffffffffff000"
definition PAGE_SIZE :: u64 where "PAGE_SIZE = 0x1000"
definition PAGE_MASK :: u64 where "PAGE_MASK = NOT 0xfff"

section \<open>The page tables\<close>

text \<open>\<^verbatim>\<open>a20_mask\<close> is a signed 32-bit field, extended when it meets an address.\<close>

definition a20 :: "x86_cpu \<Rightarrow> u64" where
  "a20 cpu = scast (cpu_a20_mask cpu)"

text \<open>The address of an entry: a table, and the index that some bits of the address make.\<close>

definition entry_addr :: "x86_cpu \<Rightarrow> u64 \<Rightarrow> nat \<Rightarrow> u64 \<Rightarrow> u64" where
  "entry_addr cpu tbl s addr = (tbl + push_bit 3 (drop_bit s addr AND 0x1ff)) AND a20 cpu"

definition present :: "u64 \<Rightarrow> bool" where
  "present e \<longleftrightarrow> e AND PG_PRESENT_MASK \<noteq> 0"

definition large :: "u64 \<Rightarrow> bool" where
  "large e \<longleftrightarrow> e AND PG_PSE_MASK \<noteq> 0"

text \<open>The lines behind \<^verbatim>\<open>out:\<close>.\<close>

definition page_frame :: "u64 \<Rightarrow> u64 \<Rightarrow> u64 \<Rightarrow> u64" where
  "page_frame pte page_size addr =
     pte AND (PG_ADDRESS_MASK AND NOT (page_size - 1)) OR ((addr AND PAGE_MASK) AND (page_size - 1))"

text \<open>The last two levels with 64-bit entries.\<close>

definition pae_tables :: "x86_cpu \<Rightarrow> phys_mem \<Rightarrow> u64 \<Rightarrow> u64 \<Rightarrow> u64" where
  "pae_tables cpu m pdpe addr =
     (let pde = ldq_phys m (entry_addr cpu (pdpe AND PG_ADDRESS_MASK) 21 addr) in
      if \<not> present pde then -1
      else let (page_size, pte) =
             (if large pde then (0x200000, pde)
              else (0x1000, ldq_phys m (entry_addr cpu (pde AND PG_ADDRESS_MASK) 12 addr))) in
        if \<not> present pte then -1 else page_frame pte page_size addr)"

text \<open>Four levels in long mode; \<^verbatim>\<open>sext\<close> is the sign of a canonical address.\<close>

definition long_mode_tables :: "x86_cpu \<Rightarrow> phys_mem \<Rightarrow> u64 \<Rightarrow> u64" where
  "long_mode_tables cpu m addr =
     (let sext = sint (ucast (signed_drop_bit 47 addr) :: u32) in
      if sext \<noteq> 0 \<and> sext \<noteq> -1 then -1
      else let pml4e = ldq_phys m (entry_addr cpu (cpu_cr3 cpu AND NOT 0xfff) 39 addr) in
        if \<not> present pml4e then -1
        else let pdpe = ldq_phys m (entry_addr cpu (pml4e AND PG_ADDRESS_MASK) 30 addr) in
          if \<not> present pdpe then -1
          else if large pdpe then page_frame pdpe 0x40000000 addr
          else pae_tables cpu m pdpe addr)"

text \<open>Two levels with 32-bit entries; \<^verbatim>\<open>pde\<close> has 32 bits, and its shift is a 32-bit shift.\<close>

definition legacy_tables :: "x86_cpu \<Rightarrow> phys_mem \<Rightarrow> u64 \<Rightarrow> u64" where
  "legacy_tables cpu m addr =
     (let pde = ldl_phys m (((cpu_cr3 cpu AND NOT 0xfff) + (drop_bit 20 addr AND 0xffc)) AND a20 cpu) in
      if \<not> present (ucast pde) then -1
      else if large (ucast pde) \<and> cpu_cr4 cpu AND CR4_PSE_MASK \<noteq> 0
      then page_frame (ucast (pde OR push_bit (32 - 13) (pde AND 0x1fe000)) AND a20 cpu) 0x400000 addr
      else let pte = ucast (ldl_phys m ((ucast (pde AND NOT 0xfff) + (drop_bit 10 addr AND 0xffc)) AND a20 cpu)) in
        if \<not> present pte then -1 else page_frame (pte AND a20 cpu) 0x1000 addr)"

definition x86_cpu_get_phys_page_debug :: "x86_cpu \<Rightarrow> phys_mem \<Rightarrow> u64 \<Rightarrow> u64" where
  "x86_cpu_get_phys_page_debug cpu m addr =
     (if cpu_cr0 cpu AND CR0_PG_MASK = 0 then page_frame (addr AND a20 cpu) 0x1000 addr
      else if cpu_cr4 cpu AND CR4_PAE_MASK \<noteq> 0
      then if cpu_hflags cpu AND HF_LMA_MASK \<noteq> 0 then long_mode_tables cpu m addr
           else let pdpe = ldq_phys m (((cpu_cr3 cpu AND NOT 0x1f) + (drop_bit 27 addr AND 0x18)) AND a20 cpu) in
             if \<not> present pdpe then -1 else pae_tables cpu m pdpe addr
      else legacy_tables cpu m addr)"

section \<open>Access page by page\<close>

lemma page_split: "(addr AND PAGE_MASK) + take_bit 12 addr = addr"
proof -
  have m: "(0xfff :: u64) = mask 12" by (simp add: mask_eq_exp_minus_1)
  have "(addr AND NOT (mask 12)) + take_bit 12 addr = (addr AND NOT (mask 12)) OR take_bit 12 addr"
    by (rule disjunctive_add_eq_or) (auto simp: bit_eq_iff bit_simps)
  also have "\<dots> = addr" by (auto simp: bit_eq_iff bit_simps)
  finally show ?thesis unfolding m PAGE_MASK_def .
qed

lemma addr_offset: "addr AND NOT PAGE_MASK = take_bit 12 addr"
  by (simp add: PAGE_MASK_def take_bit_eq_mask mask_eq_exp_minus_1)

lemma offset_less: "uint (take_bit 12 (addr :: u64)) < 0x1000" "unat (take_bit 12 addr) < 0x1000"
proof -
  show "uint (take_bit 12 (addr :: u64)) < 0x1000" using take_bit_int_less_exp [of 12 "uint addr"] by (simp add: unsigned_take_bit_eq)
  show "unat (take_bit 12 addr) < 0x1000" using take_bit_nat_less_exp [of 12 "unat addr"] by (simp add: unsigned_take_bit_eq)
qed

lemma page_room: "uint ((addr AND PAGE_MASK) + PAGE_SIZE - addr) = 0x1000 - uint (take_bit 12 addr)"
proof -
  have "addr AND PAGE_MASK = addr - take_bit 12 addr" using page_split [of addr] by (simp add: eq_diff_eq)
  then have "(addr AND PAGE_MASK) + PAGE_SIZE - addr = 0x1000 - take_bit 12 addr" by (simp add: PAGE_SIZE_def)
  then show ?thesis using offset_less(1) [of addr] by (simp add: uint_sub_if' word_le_def)
qed

text \<open>
  \<^verbatim>\<open>buf\<close> is the buffer from the current position on, and \<^verbatim>\<open>l\<close> the rest of the page or of the request. Both
  directions: a read fills the buffer, a write changes the memory, and with it perhaps the page tables.
\<close>

function cpu_memory_rw_debug :: "x86_cpu \<Rightarrow> phys_mem \<Rightarrow> u64 \<Rightarrow> u8 list \<Rightarrow> int \<Rightarrow> bool \<Rightarrow> int \<times> phys_mem \<times> u8 list" where
  "cpu_memory_rw_debug cpu m addr buf len is_write =
     (if 0 < len
      then let page = addr AND PAGE_MASK;
               phys_addr = x86_cpu_get_phys_page_debug cpu m page in
        if phys_addr = -1 then (-1, m, buf)
        else let l = min (uint (page + PAGE_SIZE - addr)) len;
                 phys_addr = phys_addr + (addr AND NOT PAGE_MASK) in
          if is_write
          then let (r, m', buf') = cpu_memory_rw_debug cpu (phys_write m phys_addr (take (nat l) buf)) (addr + word_of_int l)
                     (drop (nat l) buf) (len - l) is_write in
               (r, m', take (nat l) buf @ buf')
          else let (r, m', buf') = cpu_memory_rw_debug cpu m (addr + word_of_int l) (drop (nat l) buf) (len - l) is_write in
               (r, m', phys_bytes m phys_addr (nat l) @ buf')
      else (0, m, buf))"
  by pat_completeness auto
termination
proof (relation "measure (\<lambda>(_, _, _, _, len, _). nat len)", goal_cases)
  case (2 cpu m addr buf len is_write) then show ?case using offset_less(1) [of addr] by (simp add: page_room)
next
  case (3 cpu m addr buf len is_write) then show ?case using offset_less(1) [of addr] by (simp add: page_room)
qed simp

declare cpu_memory_rw_debug.simps [simp del]

text \<open>\<^verbatim>\<open>target_length\<close> is narrowed to \<^verbatim>\<open>int\<close> by the call.\<close>

definition memfrs_get_virmem_content :: "x86_cpu \<Rightarrow> phys_mem \<Rightarrow> u64 \<Rightarrow> u64 \<Rightarrow> u64 \<Rightarrow> u8 list \<Rightarrow> int \<times> u8 list" where
  "memfrs_get_virmem_content cpu m cr3 target_addr target_length buf =
     (let copied_cpu = (if cr3 \<noteq> 0 then cpu\<lparr>cpu_cr3 := cr3\<rparr> else cpu);
          (ret, _, buf') = cpu_memory_rw_debug copied_cpu m target_addr buf (sint (ucast target_length :: u32)) False
      in (if ret \<noteq> 0 then -1 else 0, buf'))"

section \<open>Byte by byte\<close>

text \<open>The byte at an address, if its page is mapped.\<close>

definition guest_byte :: "x86_cpu \<Rightarrow> phys_mem \<Rightarrow> u64 \<Rightarrow> u8 option" where
  "guest_byte cpu m a =
     (let p = x86_cpu_get_phys_page_debug cpu m (a AND PAGE_MASK) in
      if p = -1 then None else Some (m (p + (a AND NOT PAGE_MASK))))"

definition guest_bytes :: "x86_cpu \<Rightarrow> phys_mem \<Rightarrow> u64 \<Rightarrow> nat \<Rightarrow> u8 option list" where
  "guest_bytes cpu m a n = map (\<lambda>i. guest_byte cpu m (a + of_nat i)) [0..<n]"

lemma same_page:
  assumes "i + unat (take_bit 12 a) < 0x1000"
  shows "(a + of_nat i) AND PAGE_MASK = a AND PAGE_MASK" "(a + of_nat i) AND NOT PAGE_MASK = (a AND NOT PAGE_MASK) + of_nat i"
proof -
  have u: "unat (take_bit 12 x) = unat x mod 0x1000" for x :: u64
    by (simp only: unsigned_take_bit_eq) (simp add: take_bit_eq_mod)
  have "unat (take_bit 12 (a + of_nat i)) = (unat a + i) mod 0x1000"
    unfolding u using assms by (simp add: unat_word_ariths take_bit_eq_mod unat_of_nat mod_simps mod_mod_cancel)
  also have "\<dots> = (unat a mod 0x1000 + i) mod 0x1000" by (simp add: mod_simps)
  also have "\<dots> = unat (take_bit 12 a) + i" using assms unfolding u by simp
  also have "\<dots> = unat (take_bit 12 a + of_nat i)"
    using assms by (simp only: unat_word_ariths(1) unat_of_nat) (simp add: take_bit_eq_mod)
  finally have o: "take_bit 12 (a + of_nat i) = take_bit 12 a + of_nat i" by (simp only: unsigned_word_eqI word_unat_eq_iff)
  then show "(a + of_nat i) AND NOT PAGE_MASK = (a AND NOT PAGE_MASK) + of_nat i" by (simp only: addr_offset)
  show "(a + of_nat i) AND PAGE_MASK = a AND PAGE_MASK"
  proof -
    have "(a + of_nat i) AND PAGE_MASK = (a + of_nat i) - (take_bit 12 a + of_nat i)"
      using page_split [of "a + of_nat i"] unfolding o by (simp only: eq_diff_eq)
    also have "\<dots> = a - take_bit 12 a" by simp
    also have "\<dots> = a AND PAGE_MASK" using page_split [of a] by (simp only: diff_eq_eq)
    finally show ?thesis .
  qed
qed

lemma page_bytes:
  assumes "n + unat (take_bit 12 a) \<le> 0x1000" "p = x86_cpu_get_phys_page_debug cpu m (a AND PAGE_MASK)"
  shows "guest_bytes cpu m a n =
    (if p = -1 then replicate n None else map Some (phys_bytes m (p + (a AND NOT PAGE_MASK)) n))"
proof -
  have "guest_byte cpu m (a + of_nat i) = (if p = -1 then None else Some (m (p + (a AND NOT PAGE_MASK) + of_nat i)))" if "i < n" for i
  proof -
    have "i + unat (take_bit 12 a) < 0x1000" using that assms(1) by simp
    from same_page [OF this] show ?thesis by (simp add: guest_byte_def Let_def assms(2) add.assoc)
  qed
  then show ?thesis by (auto simp: guest_bytes_def phys_bytes_def map_replicate_const intro!: nth_equalityI)
qed

lemma guest_bytes_append: "guest_bytes cpu m a (k + n) = guest_bytes cpu m a k @ guest_bytes cpu m (a + of_nat k) n"
  by (auto simp: guest_bytes_def nth_append intro!: nth_equalityI)

lemma takeWhile_some: "takeWhile (\<lambda>v. v \<noteq> None) (map Some xs @ ys) = map Some xs @ takeWhile (\<lambda>v. v \<noteq> None) ys"
  by (induction xs) simp_all

text \<open>A read stops at the first byte that is not mapped.\<close>

lemma read_eq:
  assumes "len \<le> int (length buf)" "vs = takeWhile (\<lambda>v. v \<noteq> None) (guest_bytes cpu m addr (nat len))"
  shows "cpu_memory_rw_debug cpu m addr buf len False = (if length vs = nat len then 0 else -1, m, map the vs @ drop (length vs) buf)"
  using assms
proof (induction "nat len" arbitrary: addr buf len vs rule: less_induct)
  case less
  show ?case
  proof (cases "0 < len")
    case False
    then show ?thesis using less.prems by (simp add: cpu_memory_rw_debug.simps [of cpu m addr buf len] guest_bytes_def)
  next
    case True
    let ?p = "x86_cpu_get_phys_page_debug cpu m (addr AND PAGE_MASK)" and ?l = "min (uint ((addr AND PAGE_MASK) + PAGE_SIZE - addr)) len"
    define k where "k = nat ?l"
    define off where "off = unat (take_bit 12 addr)"
    have off: "uint ((addr AND PAGE_MASK) + PAGE_SIZE - addr) = 0x1000 - int off" "off < 0x1000"
      using offset_less(2) [of addr] unfolding page_room off_def by simp_all
    have l: "0 < ?l" "?l \<le> len" "k + off \<le> 0x1000" "int k = ?l" "0 < k"
      using True off(2) unfolding k_def off(1) by auto
    have split: "guest_bytes cpu m addr (nat len) = guest_bytes cpu m addr k @ guest_bytes cpu m (addr + of_nat k) (nat (len - ?l))"
      using guest_bytes_append [of cpu m addr k "nat (len - ?l)"] l by (simp add: nat_add_distrib [symmetric] k_def)
    note page = page_bytes [OF l(3) [unfolded off_def] refl, of cpu m]
    show ?thesis
    proof (cases "?p = -1")
      case True
      then have "vs = []" using less.prems(2) split page l(5) by (cases k) simp_all
      then show ?thesis using True \<open>0 < len\<close> by (simp add: cpu_memory_rw_debug.simps [of cpu m addr buf len])
    next
      case False
      let ?bs = "phys_bytes m (?p + (addr AND NOT PAGE_MASK)) k"
      define ws where "ws = takeWhile (\<lambda>v. v \<noteq> None) (guest_bytes cpu m (addr + of_nat k) (nat (len - ?l)))"
      have vs: "vs = map Some ?bs @ ws" unfolding less.prems(2) split page if_not_P [OF False] takeWhile_some ws_def ..
      have IH: "cpu_memory_rw_debug cpu m (addr + of_nat k) (drop k buf) (len - ?l) False =
          (if length ws = nat (len - ?l) then 0 else -1, m, map the ws @ drop (length ws) (drop k buf))"
        by (rule less.hyps) (use l less.prems(1) \<open>0 < len\<close> in \<open>auto simp: ws_def k_def\<close>)
      have "word_of_int ?l = (of_nat k :: u64)" using l(4) by (metis of_int_of_nat_eq)
      then have "cpu_memory_rw_debug cpu m addr buf len False =
          (if length ws = nat (len - ?l) then 0 else -1, m, ?bs @ map the ws @ drop (length ws) (drop k buf))"
        using False \<open>0 < len\<close> IH by (subst cpu_memory_rw_debug.simps) (simp add: Let_def flip: k_def)
      moreover have "length ws = nat (len - ?l) \<longleftrightarrow> length vs = nat len"
        using l vs by (auto simp: phys_bytes_def k_def)
      ultimately show ?thesis unfolding vs by (simp add: comp_def phys_bytes_def add.commute)
    qed
  qed
qed

section \<open>The walk as a radix tree\<close>

text \<open>
  A table of 512 entries of 8 bytes per level, named by the position of its nine bits in the address; at some levels an
  entry may map a large page. Bit 0 of an entry says whether it is present, bit 7 whether it maps a large page, and its
  bits 12 to 51 hold the address of the next table or of the page. The address is masked with the gate of line 20.
\<close>

definition bits :: "nat \<Rightarrow> nat \<Rightarrow> u64 \<Rightarrow> u64" where
  "bits lo hi w = take_bit (hi - lo) (drop_bit lo w)"

definition radix_frame :: "nat \<Rightarrow> u64 \<Rightarrow> u64 \<Rightarrow> u64" where
  "radix_frame s e addr = push_bit s (bits s 52 e) + push_bit 12 (bits 12 s addr)"

fun radix_walk :: "x86_cpu \<Rightarrow> phys_mem \<Rightarrow> u64 \<Rightarrow> u64 \<Rightarrow> (nat \<times> bool) list \<Rightarrow> u64" where
  "radix_walk cpu m addr tbl [] = -1"
| "radix_walk cpu m addr tbl ((s, may_be_large) # ls) =
     (let e = ldq_phys m ((tbl + 8 * bits s (s + 9) addr) AND a20 cpu) in
      if \<not> bit e 0 then -1
      else if ls = [] \<or> may_be_large \<and> bit e 7 then radix_frame s e addr
      else radix_walk cpu m addr (push_bit 12 (bits 12 52 e)) ls)"

lemma page_frame_slices:
  assumes "12 \<le> s" "s \<le> 30"
  shows "page_frame e (2 ^ s) addr = radix_frame s e addr"
proof -
  have m: "(0xfff :: u64) = mask 12" "PG_ADDRESS_MASK = mask 52 AND NOT (mask 12)"
    by (simp_all add: PG_ADDRESS_MASK_def mask_eq_exp_minus_1)
  have "radix_frame s e addr = push_bit s (bits s 52 e) OR push_bit 12 (bits 12 s addr)"
    unfolding radix_frame_def bits_def by (rule disjunctive_add) (use assms in \<open>auto simp: bit_simps\<close>)
  moreover have "page_frame e (2 ^ s) addr = push_bit s (bits s 52 e) OR push_bit 12 (bits 12 s addr)"
    using assms by (auto simp: page_frame_def PAGE_MASK_def bits_def m bit_eq_iff bit_simps simp flip: mask_eq_exp_minus_1)
  ultimately show ?thesis by simp
qed

lemma next_table: "e AND PG_ADDRESS_MASK = push_bit 12 (bits 12 52 e)"
proof -
  have "PG_ADDRESS_MASK = mask 52 AND NOT (mask 12)" by (simp add: PG_ADDRESS_MASK_def mask_eq_exp_minus_1)
  then show ?thesis by (auto simp: bits_def bit_eq_iff bit_simps)
qed

lemma entry_slices: "s \<le> 39 \<Longrightarrow> entry_addr cpu tbl s addr = (tbl + 8 * bits s (s + 9) addr) AND a20 cpu"
proof -
  have "drop_bit s addr AND 0x1ff = bits s (s + 9) addr" by (simp add: bits_def take_bit_eq_mask mask_eq_exp_minus_1)
  then show "s \<le> 39 \<Longrightarrow> ?thesis" by (simp add: entry_addr_def push_bit_eq_mult mult.commute)
qed

lemma flag_bits: "present e = bit e 0" "large e = bit e 7"
  by (simp_all add: present_def large_def PG_PRESENT_MASK_def PG_PSE_MASK_def bit_iff_and_push_bit_not_eq_0)

lemma page_frames:
  "page_frame e 0x1000 addr = radix_frame 12 e addr" "page_frame e 0x200000 addr = radix_frame 21 e addr"
  "page_frame e 0x40000000 addr = radix_frame 30 e addr"
  using page_frame_slices [of 12 e addr] page_frame_slices [of 21 e addr] page_frame_slices [of 30 e addr] by simp_all

lemmas radix_rules = entry_slices flag_bits next_table page_frames

definition canonical :: "u64 \<Rightarrow> bool" where
  "canonical addr \<longleftrightarrow> (\<forall>i \<in> {47..<64}. bit addr i = bit addr 63)"

lemma sint_zero_minus_one: "sint (w :: u32) \<in> {0, -1} \<longleftrightarrow> w = 0 \<or> w = -1"
proof -
  have "sint w = sint v \<longleftrightarrow> w = v" for v by (auto intro: signed_word_eqI)
  from this [of 0] this [of "-1"] show ?thesis by simp
qed

lemma sext_canonical:
  fixes addr :: u64
  shows "sint (ucast (signed_drop_bit 47 addr) :: u32) \<in> {0, -1} \<longleftrightarrow> canonical addr"
proof -
  let ?w = "ucast (signed_drop_bit 47 addr) :: u32"
  have b: "bit ?w i \<longleftrightarrow> i < 32 \<and> bit addr (if i < 17 then 47 + i else 63)" for i
    by (auto simp: bit_simps)
  have "sint ?w \<in> {0, -1} \<longleftrightarrow> ?w = 0 \<or> ?w = -1"
    by (rule sint_zero_minus_one)
  also have "\<dots> \<longleftrightarrow> (\<forall>i < 32. \<not> bit ?w i) \<or> (\<forall>i < 32. bit ?w i)" by (auto simp: bit_eq_iff)
  also have "\<dots> \<longleftrightarrow> (\<forall>i < 32. bit ?w i = bit ?w 31)" by auto
  also have "\<dots> \<longleftrightarrow> (\<forall>i < 17. bit addr (47 + i) = bit addr 63)"
  proof
    assume *: "\<forall>i < 32. bit ?w i = bit ?w 31"
    show "\<forall>i < 17. bit addr (47 + i) = bit addr 63"
    proof (intro allI impI)
      fix i :: nat assume "i < 17"
      then show "bit addr (47 + i) = bit addr 63" using * [rule_format, of i] b [of i] b [of 31] by simp
    qed
  next
    assume *: "\<forall>i < 17. bit addr (47 + i) = bit addr 63"
    have "bit ?w i = (i < 32 \<and> bit addr 63)" for i using * [rule_format, of i] b [of i] by simp
    then show "\<forall>i < 32. bit ?w i = bit ?w 31" by simp
  qed
  also have "\<dots> \<longleftrightarrow> canonical addr"
  proof -
    have "{47..<64} = (\<lambda>i. 47 + i) ` {..<17 :: nat}" by (simp add: lessThan_atLeast0 image_add_atLeastLessThan)
    then show ?thesis unfolding canonical_def by auto
  qed
  finally show ?thesis .
qed

definition long_mode_levels :: "(nat \<times> bool) list" where
  "long_mode_levels = [(39, False), (30, True), (21, True), (12, False)]"

definition long_mode :: "x86_cpu \<Rightarrow> bool" where
  "long_mode cpu \<longleftrightarrow> cpu_cr0 cpu AND CR0_PG_MASK \<noteq> 0 \<and> cpu_cr4 cpu AND CR4_PAE_MASK \<noteq> 0 \<and> cpu_hflags cpu AND HF_LMA_MASK \<noteq> 0"

lemma pae_tables_radix: "pae_tables cpu m pdpe addr = radix_walk cpu m addr (pdpe AND PG_ADDRESS_MASK) [(21, True), (12, False)]"
  by (simp add: pae_tables_def Let_def radix_rules)

lemma long_mode_radix:
  "long_mode_tables cpu m addr =
     (if canonical addr then radix_walk cpu m addr (cpu_cr3 cpu AND NOT 0xfff) long_mode_levels else -1)"
  using sext_canonical [of addr]
  by (simp add: long_mode_tables_def long_mode_levels_def pae_tables_radix Let_def radix_rules del: insert_iff) (auto simp: Let_def)

text \<open>A frame is a page address below \<open>2\<^sup>5\<^sup>2\<close>.\<close>

definition frame :: "u64 \<Rightarrow> bool" where
  "frame a \<longleftrightarrow> a = a AND PG_ADDRESS_MASK"

lemma page_frame_frame: "s \<le> 30 \<Longrightarrow> frame (page_frame pte (2 ^ s) addr)"
proof -
  assume "s \<le> 30"
  moreover have m: "(0xfff :: u64) = mask 12" "PG_ADDRESS_MASK = mask 52 AND NOT (mask 12)"
    by (simp_all add: PG_ADDRESS_MASK_def mask_eq_exp_minus_1)
  ultimately show "frame (page_frame pte (2 ^ s) addr)"
    by (auto simp: frame_def page_frame_def PAGE_MASK_def m bit_eq_iff bit_simps simp flip: mask_eq_exp_minus_1)
qed

lemma radix_walk_frame: "\<forall>(s, b) \<in> set ls. 12 \<le> s \<and> s \<le> 30 \<Longrightarrow> radix_walk cpu m addr tbl ls = -1 \<or> frame (radix_walk cpu m addr tbl ls)"
  by (induction cpu m addr tbl ls rule: radix_walk.induct) (auto simp: Let_def page_frame_frame simp flip: page_frame_slices)

lemma walk_frame: "x86_cpu_get_phys_page_debug cpu m addr = -1 \<or> frame (x86_cpu_get_phys_page_debug cpu m addr)"
proof -
  have p: "pae_tables cpu m e addr = -1 \<or> frame (pae_tables cpu m e addr)" for e
    unfolding pae_tables_radix by (rule radix_walk_frame) simp
  have f: "frame (page_frame e 0x1000 addr)" "frame (page_frame e 0x200000 addr)" "frame (page_frame e 0x400000 addr)"
    "frame (page_frame e 0x40000000 addr)" for e
    using page_frame_frame [of 12 e addr] page_frame_frame [of 21 e addr] page_frame_frame [of 22 e addr]
      page_frame_frame [of 30 e addr] by simp_all
  show ?thesis
    unfolding x86_cpu_get_phys_page_debug_def long_mode_tables_def legacy_tables_def Let_def using p f by auto
qed

text \<open>
  The 32-bit shift loses the address bits above the 32nd that a four-megabyte page can have: they are zero.
\<close>

lemma large_page_high_bits_lost: "push_bit (32 - 13) (pde AND 0x1fe000 :: u32) = 0"
proof -
  have "(0x1fe000 :: u32) = push_bit 13 0xff" by simp
  then have "push_bit (32 - 13) (pde AND 0x1fe000) = push_bit 19 pde AND push_bit 32 0xff" by (simp only: push_bit_and) simp
  moreover have "push_bit 32 x = 0" for x :: u32 by (rule bit_word_eqI) (simp add: bit_simps)
  ultimately show ?thesis by (simp only: and_zero_eq)
qed

lemma narrow: "uint x < 2 ^ 31 \<Longrightarrow> sint (ucast x :: u32) = uint x" for x :: u64
proof -
  assume l: "uint x < 2 ^ 31"
  have "take_bit 32 k = k" "signed_take_bit 31 k = k" if "0 \<le> k" "k < 2 ^ 31" for k :: int
    using that by (simp_all add: take_bit_int_eq_self signed_take_bit_int_eq_self)
  from this [OF _ l] show ?thesis by (simp add: sint_uint unsigned_ucast_eq)
qed

text \<open>C12: The walk of the page tables, written out level by level with jumps to a common end, is a lookup in a radix
  tree. In long mode an address that is not canonical is not mapped, and any other one is looked up through four tables
  of 512 entries, starting at \<^verbatim>\<open>CR3\<close>, where an entry of the second and third table may map a page of one gigabyte or
  of two megabytes: nine bits of the address select the entry, bits 12 to 51 of the entry name the next table, and the
  address of the page is made of the high bits of the last entry and the bits of the address above the page offset. In every mode the result is either -1 or the address of a physical page below \<open>2\<^sup>5\<^sup>2\<close>, so that
  -1 cannot be taken for a page.
\<close>

theorem page_walk_is_radix:
  "(long_mode cpu \<longrightarrow> x86_cpu_get_phys_page_debug cpu m addr =
      (if canonical addr then radix_walk cpu m addr (cpu_cr3 cpu AND NOT 0xfff) long_mode_levels else -1)) \<and>
   (x86_cpu_get_phys_page_debug cpu m addr = -1 \<or> frame (x86_cpu_get_phys_page_debug cpu m addr)) \<and> \<not> frame (-1)"
proof -
  have "\<not> frame (-1)" by (simp add: frame_def PG_ADDRESS_MASK_def)
  moreover have "x86_cpu_get_phys_page_debug cpu m addr =
      (if canonical addr then radix_walk cpu m addr (cpu_cr3 cpu AND NOT 0xfff) long_mode_levels else -1)" if "long_mode cpu"
    using that by (simp add: x86_cpu_get_phys_page_debug_def long_mode_def long_mode_radix)
  ultimately show ?thesis using walk_frame by blast
qed

text \<open>A machine in long mode whose page tables are empty, and one without paging.\<close>

definition long_cpu :: x86_cpu where
  "long_cpu = \<lparr>cpu_cr0 = 0x80000001, cpu_cr3 = 0x1000, cpu_cr4 = 0x20, cpu_hflags = 0x4000, cpu_a20_mask = -1\<rparr>"

definition real_cpu :: x86_cpu where
  "real_cpu = \<lparr>cpu_cr0 = 0, cpu_cr3 = 0, cpu_cr4 = 0, cpu_hflags = 0, cpu_a20_mask = -1\<rparr>"

theorem page_walk_is_radix_witness: "x86_cpu_get_phys_page_debug long_cpu (\<lambda>_. 0) 0x400000 = -1"
proof -
  have "ldq_phys (\<lambda>_. 0) a = 0" for a by (simp add: ldq_phys_def phys_bytes_def upt_rec)
  then have "radix_walk long_cpu (\<lambda>_. 0) 0x400000 0x1000 long_mode_levels = -1"
    by (simp add: long_mode_levels_def present_def)
  moreover have "long_mode long_cpu" "cpu_cr3 long_cpu AND NOT 0xfff = 0x1000"
    by (simp_all add: long_mode_def long_cpu_def CR0_PG_MASK_def CR4_PAE_MASK_def HF_LMA_MASK_def)
  ultimately show ?thesis using page_walk_is_radix [where cpu = long_cpu and m = "\<lambda>_. 0" and addr = "0x400000"] by simp
qed

text \<open>C13: Reading the memory of a process page by page gives what reading every byte through the page tables gives.
  \<^verbatim>\<open>memfrs_get_virmem_content\<close>, for a request below \<open>2\<^sup>3\<^sup>1\<close> bytes that fits the buffer, returns 0 and fills the
  buffer with the bytes at the addresses, under the page tables of the process asked for (the current one for
  \<^verbatim>\<open>CR3\<close> 0), exactly when all of them are mapped; otherwise it returns -1 and has filled the buffer up to the first
  byte that is not mapped. Bytes behind the request stay as they were; the address may wrap around.
\<close>

theorem virmem_is_bytewise:
  assumes "uint target_length < 2 ^ 31" "uint target_length \<le> int (length buf)"
    "vs = takeWhile (\<lambda>v. v \<noteq> None)
       (guest_bytes (if cr3 = 0 then cpu else cpu\<lparr>cpu_cr3 := cr3\<rparr>) m target_addr (unat target_length))"
  shows "memfrs_get_virmem_content cpu m cr3 target_addr target_length buf =
    (if length vs = unat target_length then 0 else -1, map the vs @ drop (length vs) buf)"
proof -
  have n: "nat (uint target_length) = unat target_length" by simp
  then show ?thesis
    using read_eq [OF assms(2) assms(3) [folded n]] narrow [OF assms(1)] by (cases "cr3 = 0") (simp_all add: memfrs_get_virmem_content_def Let_def)
qed

theorem virmem_is_bytewise_witness:
  "memfrs_get_virmem_content real_cpu (\<lambda>a. ucast a) 0 0xfff 2 [9, 9, 9] = (0, [0xff, 0, 9])"
proof -
  have "guest_bytes real_cpu (\<lambda>a. ucast a) 0xfff 2 = [Some 0xff, Some 0]"
    by (simp add: guest_bytes_def upt_rec guest_byte_def x86_cpu_get_phys_page_debug_def real_cpu_def page_frame_def a20_def
        CR0_PG_MASK_def PG_ADDRESS_MASK_def PAGE_MASK_def)
  then show ?thesis
    using virmem_is_bytewise [of 2 "[9, 9, 9]" "[Some 0xff, Some 0]" 0 real_cpu "\<lambda>a. ucast a" "0xfff"] by simp
qed

end
