(* ===== verification/Memfrs.thy ===== *)
theory Memfrs
imports GuestMemory "HOL-Library.Tree"
begin

text \<open>
  Reading the structures of the Windows kernel out of the guest: type information and nested fields
  (\<^verbatim>\<open>ext/memfrs/memfrs.c\<close>), unicode strings, the tree of virtual address descriptors (\<^verbatim>\<open>ext/memfrs/vad.c\<close>) and the list
  of processes (\<^verbatim>\<open>ext/memfrs/process.c\<close>). The type information comes from a JSON file (json-c): it is a parameter, a map
  from structures and fields to offsets. A variable that is read from the guest keeps its value when the read fails;
  what a variable holds before its first assignment is a parameter, too. Following a null pointer and leaving an array
  is \<^const>\<open>None\<close>.
\<close>

section \<open>Type information\<close>

record field_info =
  fi_offset :: int
  fi_type_name :: string
  fi_is_pointer :: bool

type_synonym fields = "string \<Rightarrow> field_info option"
type_synonym type_db = "(string \<Rightarrow> fields option) option"

definition memfrs_check_struct_info :: "type_db \<Rightarrow> bool" where
  "memfrs_check_struct_info db \<longleftrightarrow> db \<noteq> None"

definition memfrs_q_struct :: "type_db \<Rightarrow> string \<Rightarrow> fields option" where
  "memfrs_q_struct db ds_name = (case db of None \<Rightarrow> None | Some structs \<Rightarrow> structs ds_name)"

definition memfrs_q_field :: "fields option \<Rightarrow> string \<Rightarrow> field_info option" where
  "memfrs_q_field struc field_name = (case struc of None \<Rightarrow> None | Some fs \<Rightarrow> fs field_name)"

text \<open>\<^verbatim>\<open>jobject_type\<close>\<close>

definition field_type :: "type_db \<Rightarrow> field_info \<Rightarrow> fields option" where
  "field_type db info = memfrs_q_struct db (fi_type_name info)"

text \<open>The offset and the type of a field; a field that is not found is a null pointer.\<close>

definition q_offset :: "fields option \<Rightarrow> string \<Rightarrow> u64 option" where
  "q_offset struc name = map_option (\<lambda>info. word_of_int (fi_offset info)) (memfrs_q_field struc name)"

text \<open>
  The loop of \<^verbatim>\<open>memfrs_get_nested_field_offset\<close>; the output is written only on success. Offsets are of type \<^verbatim>\<open>int\<close>, whose
  sum wraps around at 32 bits.
\<close>

definition add_int :: "int \<Rightarrow> int \<Rightarrow> int" where
  "add_int a b = sint (word_of_int (a + b) :: u32)"

primrec nested_offset :: "type_db \<Rightarrow> fields option \<Rightarrow> int \<Rightarrow> string list \<Rightarrow> int option" where
  "nested_offset db struct_type offset [] = Some offset"
| "nested_offset db struct_type offset (f # fs) =
     (case memfrs_q_field struct_type f of None \<Rightarrow> None
      | Some info \<Rightarrow> nested_offset db (field_type db info) (add_int offset (fi_offset info)) fs)"

definition memfrs_get_nested_field_offset :: "type_db \<Rightarrow> int \<Rightarrow> string \<Rightarrow> string list \<Rightarrow> int \<times> int" where
  "memfrs_get_nested_field_offset db out struct_type_name fs =
     (case memfrs_q_struct db struct_type_name of None \<Rightarrow> (-1, out)
      | Some s \<Rightarrow> (case nested_offset db (Some s) 0 fs of None \<Rightarrow> (-1, out) | Some offset \<Rightarrow> (0, offset)))"

text \<open>
  The loop of \<^verbatim>\<open>memfrs_get_mem_struct_content\<close> for virtual memory. The first character of a name says whether the
  field is a pointer, which is followed before the next field. The result is the address of the last field.
\<close>

primrec struct_path ::
  "type_db \<Rightarrow> x86_cpu \<Rightarrow> phys_mem \<Rightarrow> u64 \<Rightarrow> fields option \<Rightarrow> bool \<Rightarrow> u64 \<Rightarrow> string list \<Rightarrow> u64 option" where
  "struct_path db cpu m cr3 struct_type pointer struct_addr [] = Some struct_addr"
| "struct_path db cpu m cr3 struct_type pointer struct_addr (f # fs) =
     (let (errcode, addr) =
        (if pointer
         then let (r, buf) = memfrs_get_virmem_content cpu m cr3 struct_addr 8 (map (\<lambda>i. ucast (drop_bit (8 * i) struct_addr)) [0..<8])
              in (r, le_word buf)
         else (0, struct_addr)) in
      if errcode = -1 then None
      else case memfrs_q_field struct_type (tl f) of None \<Rightarrow> None
      | Some info \<Rightarrow>
          struct_path db cpu m cr3 (field_type db info) (hd f = CHR ''*'') (addr + word_of_int (fi_offset info)) fs)"

definition memfrs_get_mem_struct_content ::
  "type_db \<Rightarrow> x86_cpu \<Rightarrow> phys_mem \<Rightarrow> u64 \<Rightarrow> u8 list \<Rightarrow> u64 \<Rightarrow> string \<Rightarrow> string list \<Rightarrow> int \<times> u8 list" where
  "memfrs_get_mem_struct_content db cpu m cr3 buffer struct_addr struct_type_name fs =
     (case memfrs_q_struct db struct_type_name of None \<Rightarrow> (-1, buffer)
      | Some s \<Rightarrow> (case struct_path db cpu m cr3 (Some s) False struct_addr fs of None \<Rightarrow> (-1, buffer)
        | Some a \<Rightarrow> memfrs_get_virmem_content cpu m cr3 a (of_nat (length buffer)) buffer))"

text \<open>
  The branch for a structure in physical memory, which only its first field is read from: that field always holds a
  virtual address. Pointers are followed behind a field here, except behind the last one. A first field that is not
  found is a null pointer.
\<close>

primrec phys_path :: "type_db \<Rightarrow> x86_cpu \<Rightarrow> phys_mem \<Rightarrow> u64 \<Rightarrow> fields option \<Rightarrow> u64 \<Rightarrow> string list \<Rightarrow> u64 option" where
  "phys_path db cpu m cr3 struct_type struct_addr [] = Some struct_addr"
| "phys_path db cpu m cr3 struct_type struct_addr (f # fs) =
     (case memfrs_q_field struct_type (tl f) of None \<Rightarrow> None
      | Some info \<Rightarrow>
          (let a = struct_addr + word_of_int (fi_offset info) in
           if fs \<noteq> [] \<and> hd f = CHR ''*''
           then let (errcode, buf) = memfrs_get_virmem_content cpu m cr3 a 8 (map (\<lambda>i. ucast (drop_bit (8 * i) a)) [0..<8]) in
             if errcode = -1 then None else phys_path db cpu m cr3 (field_type db info) (le_word buf) fs
           else phys_path db cpu m cr3 (field_type db info) a fs))"

definition get_phys_struct_content ::
  "type_db \<Rightarrow> x86_cpu \<Rightarrow> phys_mem \<Rightarrow> u64 \<Rightarrow> u8 list \<Rightarrow> u64 \<Rightarrow> string \<Rightarrow> string list \<Rightarrow> (int \<times> u8 list) option" where
  "get_phys_struct_content db cpu m cr3 buffer struct_addr struct_type_name fs =
     (case memfrs_q_struct db struct_type_name of None \<Rightarrow> Some (-1, buffer)
      | Some s \<Rightarrow> (case fs of [] \<Rightarrow> None
        | f # fs' \<Rightarrow> (case memfrs_q_field (Some s) (tl f) of None \<Rightarrow> None
          | Some info \<Rightarrow>
              (let a = struct_addr + word_of_int (fi_offset info) in
               if fs' = [] then Some (0, phys_bytes m a (length buffer))
               else case phys_path db cpu m cr3 (field_type db info) (ldq_phys m a) fs' of None \<Rightarrow> Some (-1, buffer)
               | Some b \<Rightarrow> Some (memfrs_get_virmem_content cpu m cr3 b (of_nat (length buffer)) buffer)))))"

section \<open>Variables\<close>

text \<open>Reading a variable from the guest, and what it holds before.\<close>

definition read_var :: "x86_cpu \<Rightarrow> phys_mem \<Rightarrow> u64 \<Rightarrow> u8 list \<Rightarrow> u8 list" where
  "read_var cpu m a v = snd (snd (cpu_memory_rw_debug cpu m a v (int (length v)) False))"

definition uninit :: "(nat \<Rightarrow> u8) \<Rightarrow> nat \<Rightarrow> nat \<Rightarrow> u8 list" where
  "uninit stack k n = map (\<lambda>i. stack (k + i)) [0..<n]"

section \<open>Unicode strings\<close>

text \<open>\<^verbatim>\<open>for(i=0; i<max_length;i+=2) str[i/2] = buf[i];\<close>\<close>

function unicode_loop :: "nat \<Rightarrow> nat \<Rightarrow> u8 list \<Rightarrow> u8 list \<Rightarrow> (nat \<times> u8 list) option" where
  "unicode_loop i max_length buf str =
     (if i < max_length
      then if i div 2 < length str \<and> i < length buf
        then unicode_loop (i + 2) max_length buf (str[i div 2 := buf ! i]) else None
      else Some (i, str))"
  by pat_completeness auto
termination by (relation "measure (\<lambda>(i, max_length, _, _). max_length - i)") auto

declare unicode_loop.simps [simp del]

text \<open>The end of the string is set at \<^verbatim>\<open>i\<close>, the counter of the source bytes.\<close>

definition unicode_bytes :: "nat \<Rightarrow> u8 list \<Rightarrow> u8 list option" where
  "unicode_bytes max_length buf =
     do { (i, str) \<leftarrow> unicode_loop 0 max_length buf (replicate (max_length + 1) 0);
          if i < length str then Some (str[i := 0]) else None }"

definition parse_unicode_strptr :: "type_db \<Rightarrow> x86_cpu \<Rightarrow> phys_mem \<Rightarrow> (nat \<Rightarrow> u8) \<Rightarrow> u64 \<Rightarrow> u8 list option option" where
  "parse_unicode_strptr db cpu m stack ustr_ptr =
     do { let ustr = memfrs_q_struct db ''_UNICODE_STRING'';
          o1 \<leftarrow> q_offset ustr ''MaximumLength'';
          let max_length = unat (le_word (read_var cpu m (ustr_ptr + o1) (uninit stack 0 2)) :: u16);
          o2 \<leftarrow> q_offset ustr ''Length'';
          let length = unat (le_word (read_var cpu m (ustr_ptr + o2) (uninit stack 2 2)) :: u16);
          if length = 0 \<or> 256 < length \<or> max_length = 0 \<or> 256 < max_length then Some None
          else do {
            o3 \<leftarrow> q_offset ustr ''Buffer'';
            let buf_ptr = (le_word (read_var cpu m (ustr_ptr + o3) (uninit stack 4 8)) :: u64);
            let buf = read_var cpu m buf_ptr (uninit stack 12 max_length) @ uninit stack (12 + max_length) 2;
            str \<leftarrow> unicode_bytes max_length buf;
            Some (Some str) } }"

section \<open>Virtual address descriptors\<close>

record vad_node =
  start_viraddr :: u64
  end_viraddr :: u64
  vad_type :: int
  vad_protection :: int
  vad_filename :: "u8 list option"

definition VadImageMap :: int where "VadImageMap = 2"

definition vad_range_start :: "u32 \<Rightarrow> u8 \<Rightarrow> u64" where
  "vad_range_start vpn high = push_bit 12 (push_bit 32 (ucast high) + ucast vpn)"

definition parse_mmvad_node :: "type_db \<Rightarrow> x86_cpu \<Rightarrow> phys_mem \<Rightarrow> (nat \<Rightarrow> u8) \<Rightarrow> u64 \<Rightarrow> vad_node option" where
  "parse_mmvad_node db cpu m stack mmvad_ptr =
     do { let jmmvad = memfrs_q_struct db ''_MMVAD_SHORT'';
          o1 \<leftarrow> q_offset jmmvad ''StartingVpn'';
          let starting_vpn = (le_word (read_var cpu m (mmvad_ptr + o1) (uninit stack 0 4)) :: u32);
          o2 \<leftarrow> q_offset jmmvad ''EndingVpn'';
          let ending_vpn = (le_word (read_var cpu m (mmvad_ptr + o2) (uninit stack 4 4)) :: u32);
          o3 \<leftarrow> q_offset jmmvad ''StartingVpnHigh'';
          let starting_vpn_high = (le_word (read_var cpu m (mmvad_ptr + o3) (uninit stack 8 1)) :: u8);
          o4 \<leftarrow> q_offset jmmvad ''EndingVpnHigh'';
          let ending_vpn_high = (le_word (read_var cpu m (mmvad_ptr + o4) (uninit stack 9 1)) :: u8);
          o5 \<leftarrow> q_offset jmmvad ''u'';
          let u = (le_word (read_var cpu m (mmvad_ptr + o5) (uninit stack 10 4)) :: u32);
          let vad = \<lparr>start_viraddr = vad_range_start starting_vpn starting_vpn_high,
                     end_viraddr = vad_range_start ending_vpn ending_vpn_high + 0xfff,
                     vad_type = uint (u AND 7), vad_protection = uint (drop_bit 3 u AND 31), vad_filename = None\<rparr>;
          if vad_type vad \<noteq> VadImageMap then Some vad
          else do {
            f1 \<leftarrow> memfrs_q_field (memfrs_q_struct db ''_MMVAD'') ''Subsection'';
            let subsection_ptr = (le_word (read_var cpu m (mmvad_ptr + word_of_int (fi_offset f1)) (uninit stack 16 8)) :: u64);
            f2 \<leftarrow> memfrs_q_field (field_type db f1) ''ControlArea'';
            let control_area_ptr = (le_word (read_var cpu m (subsection_ptr + word_of_int (fi_offset f2)) (uninit stack 24 8)) :: u64);
            f3 \<leftarrow> memfrs_q_field (field_type db f2) ''FilePointer'';
            let file_pointer_ptr = (le_word (read_var cpu m (control_area_ptr + word_of_int (fi_offset f3)) (uninit stack 32 8)) :: u64)
              AND 0xfffffffffffffff0;
            if file_pointer_ptr = 0 then Some vad
            else do {
              o6 \<leftarrow> q_offset (memfrs_q_struct db ''_FILE_OBJECT'') ''FileName'';
              filename \<leftarrow> parse_unicode_strptr db cpu m (\<lambda>i. stack (i + 64)) (file_pointer_ptr + o6);
              Some (vad\<lparr>vad_filename := filename\<rparr>) } } }"

text \<open>
  The loop of \<^verbatim>\<open>memfrs_traverse_vad_tree\<close>: the array \<^verbatim>\<open>vad_adr_queue\<close> is used as a stack. \<^verbatim>\<open>left\<close> and \<^verbatim>\<open>right\<close>
  live outside the loop: a read that fails leaves the child of an earlier node.
\<close>

partial_function (option) vad_loop ::
  "type_db \<Rightarrow> x86_cpu \<Rightarrow> phys_mem \<Rightarrow> (nat \<Rightarrow> u8) \<Rightarrow> u64 \<Rightarrow> u64 \<Rightarrow> u64 list \<Rightarrow> u8 list \<Rightarrow> u8 list \<Rightarrow> vad_node list \<Rightarrow> vad_node list option" where
  "vad_loop db cpu m stack off_l off_r queue lft rgt nodes =
     (if queue = [] then Some nodes
      else Option.bind (parse_mmvad_node db cpu m stack (last queue)) (\<lambda>vad.
        let lft = read_var cpu m (last queue + off_l) lft;
            rgt = read_var cpu m (last queue + off_r) rgt in
        vad_loop db cpu m stack off_l off_r
          (butlast queue @ (if le_word lft \<noteq> (0 :: u64) then [le_word lft] else []) @
           (if le_word rgt \<noteq> (0 :: u64) then [le_word rgt] else []))
          lft rgt (nodes @ [vad])))"

declare vad_loop.simps [code]

definition memfrs_traverse_vad_tree ::
  "type_db \<Rightarrow> x86_cpu \<Rightarrow> phys_mem \<Rightarrow> (nat \<Rightarrow> u8) \<Rightarrow> u64 \<Rightarrow> vad_node list option option" where
  "memfrs_traverse_vad_tree db cpu m stack eprocess_ptr =
     (if \<not> memfrs_check_struct_info db then Some None
      else do {
        o1 \<leftarrow> q_offset (memfrs_q_struct db ''_EPROCESS'') ''VadRoot'';
        off_l \<leftarrow> q_offset (memfrs_q_struct db ''_RTL_BALANCED_NODE'') ''Left'';
        off_r \<leftarrow> q_offset (memfrs_q_struct db ''_RTL_BALANCED_NODE'') ''Right'';
        let vad_root = (le_word (read_var cpu m (eprocess_ptr + o1) (uninit stack 0 8)) :: u64);
        nodes \<leftarrow> vad_loop db cpu m (\<lambda>i. stack (i + 24)) off_l off_r (if vad_root \<noteq> 0 then [vad_root] else [])
                   (uninit stack 8 8) (uninit stack 16 8) [];
        Some (Some nodes) })"

section \<open>The two walks along a path agree\<close>

text \<open>
  Following a pointer behind its field, unless it is the last, is following it before the next field: from the address
  that the first field holds on, the walk for physical memory is the one for virtual memory.
\<close>

lemma struct_path_pointer:
  "struct_path db cpu m cr3 ty True a (f # fs) =
     (let (errcode, buf) = memfrs_get_virmem_content cpu m cr3 a 8 (map (\<lambda>i. ucast (drop_bit (8 * i) a)) [0..<8]) in
      if errcode = -1 then None else struct_path db cpu m cr3 ty False (le_word buf) (f # fs))"
  by (simp add: Let_def split_beta)

lemma phys_path_eq: "phys_path db cpu m cr3 ty a fs = struct_path db cpu m cr3 ty False a fs"
proof (induction fs arbitrary: ty a)
  case (Cons f fs)
  show ?case
  proof (cases fs)
    case Nil
    then show ?thesis by (simp add: Let_def split: option.splits)
  next
    case c: (Cons g gs)
    show ?thesis
    proof (cases "hd f = CHR ''*''")
      case True
      have "struct_path db cpu m cr3 ty False a (f # fs) = (case memfrs_q_field ty (tl f) of None \<Rightarrow> None
          | Some info \<Rightarrow> struct_path db cpu m cr3 (field_type db info) True (a + word_of_int (fi_offset info)) (g # gs))"
        using True by (simp add: c split: option.splits)
      then show ?thesis using True Cons.IH unfolding struct_path_pointer by (simp add: c Let_def split_beta split: option.splits)
    qed (use Cons.IH in \<open>simp split: option.splits\<close>)
  qed
qed simp

lemma get_phys_struct_content_eq:
  assumes "memfrs_q_struct db ty = Some s" "memfrs_q_field (Some s) (tl f) = Some info" "fs \<noteq> []"
    "a = ldq_phys m (struct_addr + word_of_int (fi_offset info))"
  shows "get_phys_struct_content db cpu m cr3 buffer struct_addr ty (f # fs) = Some
    (case struct_path db cpu m cr3 (field_type db info) False a fs of None \<Rightarrow> (-1, buffer)
     | Some b \<Rightarrow> memfrs_get_virmem_content cpu m cr3 b (of_nat (length buffer)) buffer)"
  using assms by (simp add: get_phys_struct_content_def phys_path_eq Let_def split: option.splits)

section \<open>Reads that succeed\<close>

text \<open>The value of a variable in the guest, if all its bytes are mapped.\<close>

definition guest_var :: "x86_cpu \<Rightarrow> phys_mem \<Rightarrow> u64 \<Rightarrow> nat \<Rightarrow> u8 list option" where
  "guest_var cpu m a n = those (guest_bytes cpu m a n)"

lemma those_takeWhile: "those vs = Some xs \<Longrightarrow> takeWhile (\<lambda>v. v \<noteq> None) vs = vs \<and> map the vs = xs"
  by (induction vs arbitrary: xs) (auto split: option.splits)

lemma read_var_eq:
  assumes "guest_var cpu m a (length v) = Some bs"
  shows "read_var cpu m a v = bs"
proof -
  let ?vs = "guest_bytes cpu m a (length v)"
  have t: "takeWhile (\<lambda>v. v \<noteq> None) ?vs = ?vs" "map the ?vs = bs"
    using those_takeWhile [of ?vs bs] assms unfolding guest_var_def by blast+
  have "length ?vs = length v" by (simp add: guest_bytes_def)
  then show ?thesis
    using read_eq [of "int (length v)" v ?vs cpu m a, unfolded nat_int, OF order_refl t(1) [symmetric]] t(2) by (simp add: read_var_def)
qed

lemma guest_var_length: "guest_var cpu m a n = Some bs \<Longrightarrow> length bs = n"
proof -
  have "those vs = Some xs \<Longrightarrow> length xs = length vs" for vs :: "u8 option list" and xs
    by (induction vs arbitrary: xs) (auto split: option.splits)
  then show "guest_var cpu m a n = Some bs \<Longrightarrow> length bs = n" by (simp add: guest_var_def guest_bytes_def)
qed

section \<open>The string is copied within its buffer exactly for even lengths\<close>

lemma unicode_loop_eq:
  assumes "even i" "i \<le> n" "n \<le> length buf" "length str = n + 1"
  shows "unicode_loop i n buf str =
    Some (n + n mod 2, take (i div 2) str @ map (\<lambda>k. buf ! (2 * k)) [i div 2..<(n + 1) div 2] @ drop ((n + 1) div 2) str)"
  using assms
proof (induction i n buf str rule: unicode_loop.induct)
  case H: (1 i n buf str)
  show ?case
  proof (cases "i < n")
    case False
    then have "i = n" using H.prems by simp
    then have "(n + 1) div 2 = n div 2" using H.prems(1) by (auto elim: evenE)
    then show ?thesis using \<open>i = n\<close> H.prems(1) by (simp add: unicode_loop.simps [of n n])
  next
    case True
    have b: "i div 2 < length str" "i < length buf" using True H.prems by auto
    let ?s = "str[i div 2 := buf ! i]"
    show ?thesis
    proof (cases "i + 2 \<le> n")
      case le: True
      have "unicode_loop (i + 2) n buf ?s = Some (n + n mod 2, take (i div 2 + 1) ?s @
          map (\<lambda>k. buf ! (2 * k)) [i div 2 + 1..<(n + 1) div 2] @ drop ((n + 1) div 2) ?s)"
        using H.IH [OF True] b H.prems le by simp
      moreover have "take (i div 2 + 1) ?s = take (i div 2) str @ [buf ! (2 * (i div 2))]"
        using b(1) H.prems(1) by (simp add: take_Suc_conv_app_nth)
      moreover have "[i div 2..<(n + 1) div 2] = i div 2 # [i div 2 + 1..<(n + 1) div 2]" using True by (simp add: upt_conv_Cons)
      moreover have "drop ((n + 1) div 2) ?s = drop ((n + 1) div 2) str" using True by (simp add: drop_update_cancel)
      ultimately show ?thesis using True b by (simp add: unicode_loop.simps [of i])
    next
      case False
      then have n: "n = i + 1" using True by simp
      then have "unicode_loop (i + 2) n buf ?s = Some (i + 2, ?s)" by (subst unicode_loop.simps) simp
      moreover have "n mod 2 = 1" "(n + 1) div 2 = i div 2 + 1" using n H.prems(1) by presburger+
      moreover have "?s = take (i div 2) str @ buf ! (2 * (i div 2)) # drop (i div 2 + 1) str"
        using b(1) H.prems(1) by (simp add: upd_conv_take_nth_drop)
      ultimately show ?thesis using True b n by (simp add: unicode_loop.simps [of i])
    qed
  qed
qed

lemma unicode_bytes_eq:
  assumes "n \<le> length buf"
  shows "unicode_bytes n buf =
    (if even n then Some (map (\<lambda>k. buf ! (2 * k)) [0..<n div 2] @ replicate (n div 2 + 1) 0) else None)"
proof -
  let ?z = "replicate (n + 1) (0 :: u8)" and ?s = "map (\<lambda>k. buf ! (2 * k)) [0..<(n + 1) div 2]"
  have l: "unicode_loop 0 n buf ?z = Some (n + n mod 2, ?s @ replicate (n + 1 - (n + 1) div 2) 0)"
    using unicode_loop_eq [of 0 n buf ?z] assms by (simp del: replicate_Suc)
  show ?thesis
  proof (cases "even n")
    case True
    then obtain k where k: "n = 2 * k" by (elim evenE)
    then have "(?s @ replicate (n + 1 - (n + 1) div 2) 0)[n := 0] = map (\<lambda>k. buf ! (2 * k)) [0..<k] @ replicate (k + 1) 0"
      by (simp add: list_update_append list_update_same_conv del: replicate_Suc)
    then show ?thesis using l k by (simp add: unicode_bytes_def del: replicate_Suc)
  next
    case False
    then have "n mod 2 = 1" by presburger
    then show ?thesis using l False by (simp add: unicode_bytes_def del: replicate_Suc)
  qed
qed

lemma uninit_length [simp]: "length (uninit stack k n) = n"
  by (simp add: uninit_def)

text \<open>C33: A string of the guest is copied faithfully and within its buffer exactly when its capacity is even. With the
  descriptor and the characters mapped, the result is no string for a length or a capacity of 0 or more than 256 bytes;
  otherwise, for an even capacity, the low byte of every character, followed by zeros up to the end of the buffer; for an
  odd capacity the terminator is written one byte behind the buffer.
\<close>

theorem unicode_string_copied:
  assumes "q_offset (memfrs_q_struct db ''_UNICODE_STRING'') ''MaximumLength'' = Some o1"
    "q_offset (memfrs_q_struct db ''_UNICODE_STRING'') ''Length'' = Some o2"
    "q_offset (memfrs_q_struct db ''_UNICODE_STRING'') ''Buffer'' = Some o3"
    "guest_var cpu m (p + o1) 2 = Some cap" "guest_var cpu m (p + o2) 2 = Some len" "guest_var cpu m (p + o3) 8 = Some ptr"
    "n = unat (le_word cap :: u16)" "k = unat (le_word len :: u16)" "guest_var cpu m (le_word ptr) n = Some chars"
  shows "parse_unicode_strptr db cpu m stack p =
    (if k = 0 \<or> 256 < k \<or> n = 0 \<or> 256 < n then Some None
     else if even n then Some (Some (map (\<lambda>k. chars ! (2 * k)) [0..<n div 2] @ replicate (n div 2 + 1) 0))
     else None)"
proof -
  have r: "read_var cpu m (p + o1) (uninit stack 0 2) = cap" "read_var cpu m (p + o2) (uninit stack 2 2) = len"
    "read_var cpu m (p + o3) (uninit stack 4 8) = ptr" "read_var cpu m (le_word ptr) (uninit stack 12 n) = chars"
    using assms by (simp_all add: read_var_eq)
  have l: "length chars = n" by (rule guest_var_length [OF assms(9)])
  have "map (\<lambda>k. (chars @ x) ! (2 * k)) [0..<n div 2] = map (\<lambda>k. chars ! (2 * k)) [0..<n div 2]" for x
    using l by (auto simp: nth_append)
  then have "unicode_bytes n (chars @ uninit stack (12 + n) 2) =
      (if even n then Some (map (\<lambda>k. chars ! (2 * k)) [0..<n div 2] @ replicate (n div 2 + 1) 0) else None)"
    using unicode_bytes_eq [of n "chars @ uninit stack (12 + n) 2"] l by simp
  then show ?thesis using r assms(1-3)
    by (simp add: parse_unicode_strptr_def Let_def assms(7,8) [symmetric] del: replicate_Suc unsigned_eq_0_iff)
qed

section \<open>The descriptors of a process\<close>

definition guest_ptr :: "x86_cpu \<Rightarrow> phys_mem \<Rightarrow> u64 \<Rightarrow> u64 option" where
  "guest_ptr cpu m a = map_option le_word (guest_var cpu m a 8)"

text \<open>The guest holds the tree at an address.\<close>

fun vad_tree :: "x86_cpu \<Rightarrow> phys_mem \<Rightarrow> u64 \<Rightarrow> u64 \<Rightarrow> u64 \<Rightarrow> u64 tree \<Rightarrow> bool" where
  "vad_tree cpu m off_l off_r p Leaf \<longleftrightarrow> p = 0"
| "vad_tree cpu m off_l off_r p (Node l a r) \<longleftrightarrow> p = a \<and> p \<noteq> 0 \<and>
     (case guest_ptr cpu m (p + off_l) of None \<Rightarrow> False | Some pl \<Rightarrow> vad_tree cpu m off_l off_r pl l) \<and>
     (case guest_ptr cpu m (p + off_r) of None \<Rightarrow> False | Some pr \<Rightarrow> vad_tree cpu m off_l off_r pr r)"

lemma guest_ptr_read:
  assumes "guest_ptr cpu m a = Some p" "length v = 8"
  shows "le_word (read_var cpu m a v) = p" "length (read_var cpu m a v) = 8"
  using assms read_var_eq [of cpu m a v] guest_var_length by (auto simp: guest_ptr_def)

lemma vad_tree_zero: "vad_tree cpu m off_l off_r p t \<Longrightarrow> p = 0 \<longleftrightarrow> t = Leaf"
  by (cases t) auto

lemma vad_loop_trees:
  assumes "list_all2 (\<lambda>p t. vad_tree cpu m off_l off_r p t \<and> t \<noteq> Leaf) queue ts"
    "\<forall>t \<in> set ts. \<forall>p \<in> set_tree t. parse_mmvad_node db cpu m stack p \<noteq> None" "length lft = 8" "length rgt = 8"
  shows "vad_loop db cpu m stack off_l off_r queue lft rgt nodes =
    Some (nodes @ map (\<lambda>p. the (parse_mmvad_node db cpu m stack p)) (concat (map (\<lambda>t. preorder (mirror t)) (rev ts))))"
  using assms
proof (induction "sum_list (map size ts)" arbitrary: queue ts lft rgt nodes rule: less_induct)
  case less
  show ?case
  proof (cases ts rule: rev_cases)
    case Nil
    then show ?thesis using less.prems(1) by (simp add: vad_loop.simps)
  next
    case (snoc us t)
    obtain qs p where q: "queue = qs @ [p]" "list_all2 (\<lambda>p t. vad_tree cpu m off_l off_r p t \<and> t \<noteq> Leaf) qs us"
      "vad_tree cpu m off_l off_r p t" "t \<noteq> Leaf"
      using less.prems(1) unfolding snoc list_all2_append2 by (auto simp: list_all2_Cons2)
    obtain l r where t: "t = Node l p r" using q(3,4) by (cases t) auto
    obtain pl pr where c: "guest_ptr cpu m (p + off_l) = Some pl" "vad_tree cpu m off_l off_r pl l"
      "guest_ptr cpu m (p + off_r) = Some pr" "vad_tree cpu m off_l off_r pr r"
      using q(3) by (auto simp: t split: option.splits)
    let ?l = "read_var cpu m (p + off_l) lft" and ?r = "read_var cpu m (p + off_r) rgt"
    let ?q = "qs @ (if pl \<noteq> 0 then [pl] else []) @ (if pr \<noteq> 0 then [pr] else [])"
    let ?t = "us @ (if pl \<noteq> 0 then [l] else []) @ (if pr \<noteq> 0 then [r] else [])"
    obtain vad where v: "parse_mmvad_node db cpu m stack p = Some vad" using less.prems(2) by (auto simp: snoc t)
    have w: "le_word ?l = pl" "length ?l = 8" "le_word ?r = pr" "length ?r = 8"
      using guest_ptr_read [OF c(1) less.prems(3)] guest_ptr_read [OF c(3) less.prems(4)] by simp_all
    have s: "sum_list (map size ?t) < sum_list (map size ts)" by (simp add: snoc t)
    have a: "list_all2 (\<lambda>p t. vad_tree cpu m off_l off_r p t \<and> t \<noteq> Leaf) ?q ?t"
      using q(2) c(2,4) vad_tree_zero [OF c(2)] vad_tree_zero [OF c(4)] by (auto intro!: list_all2_appendI)
    have b: "\<forall>t \<in> set ?t. \<forall>p \<in> set_tree t. parse_mmvad_node db cpu m stack p \<noteq> None"
      using less.prems(2) by (auto simp: snoc t)
    have "vad_loop db cpu m stack off_l off_r queue lft rgt nodes =
        vad_loop db cpu m stack off_l off_r ?q ?l ?r (nodes @ [vad])"
      unfolding q(1) by (subst vad_loop.simps) (simp add: v w Let_def)
    also note less.hyps [OF s a b w(2,4)]
    finally show ?thesis
      using v vad_tree_zero [OF c(2)] vad_tree_zero [OF c(4)] by (auto simp: snoc t)
  qed
qed

text \<open>C14: The descriptors of a process are enumerated completely. When the guest holds a tree of descriptors at the root
  of the process, all its links mapped, and every descriptor can be parsed, the traversal ends and returns every
  descriptor of the tree exactly once, each before its descendants and those at the right before those at the left.
  What the variables of the traversal held before is irrelevant.
\<close>

theorem vad_traversal:
  assumes "db \<noteq> None" "q_offset (memfrs_q_struct db ''_EPROCESS'') ''VadRoot'' = Some o1"
    "q_offset (memfrs_q_struct db ''_RTL_BALANCED_NODE'') ''Left'' = Some off_l"
    "q_offset (memfrs_q_struct db ''_RTL_BALANCED_NODE'') ''Right'' = Some off_r"
    "guest_ptr cpu m (eprocess_ptr + o1) = Some root" "vad_tree cpu m off_l off_r root t"
    "parse = parse_mmvad_node db cpu m (\<lambda>i. stack (i + 24))" "\<forall>p \<in> set_tree t. parse p \<noteq> None"
  shows "memfrs_traverse_vad_tree db cpu m stack eprocess_ptr = Some (Some (map (\<lambda>p. the (parse p)) (preorder (mirror t))))"
proof -
  have r: "le_word (read_var cpu m (eprocess_ptr + o1) (uninit stack 0 8)) = root"
    using guest_ptr_read [OF assms(5)] by simp
  have "vad_loop db cpu m (\<lambda>i. stack (i + 24)) off_l off_r (if root \<noteq> 0 then [root] else []) (uninit stack 8 8) (uninit stack 16 8) [] =
      Some (map (\<lambda>p. the (parse p)) (preorder (mirror t)))"
    using vad_loop_trees [of cpu m off_l off_r "if root \<noteq> 0 then [root] else []" "if root \<noteq> 0 then [t] else []"
        db "\<lambda>i. stack (i + 24)" "uninit stack 8 8" "uninit stack 16 8" "[]"] assms(6-8) vad_tree_zero [OF assms(6)]
    by (auto split: if_splits)
  then show ?thesis using assms(1-4) r
    by (cases "root = 0") (simp_all add: memfrs_traverse_vad_tree_def memfrs_check_struct_info_def Let_def)
qed

section \<open>Examples\<close>

definition example_field :: "int \<Rightarrow> field_info" where
  "example_field n = \<lparr>fi_offset = n, fi_type_name = ''void'', fi_is_pointer = False\<rparr>"

definition example_db :: type_db where
  "example_db = Some (map_of [
     (''_UNICODE_STRING'', map_of [(''Length'', example_field 0), (''MaximumLength'', example_field 2), (''Buffer'', example_field 8)]),
     (''_EPROCESS'', map_of [(''VadRoot'', example_field 0x10)]),
     (''_RTL_BALANCED_NODE'', map_of [(''Left'', example_field 0), (''Right'', example_field 8)]),
     (''_MMVAD_SHORT'', map_of [(''StartingVpn'', example_field 0x18), (''EndingVpn'', example_field 0x1c),
        (''StartingVpnHigh'', example_field 0x20), (''EndingVpnHigh'', example_field 0x21), (''u'', example_field 0x28)])])"

text \<open>
  A process at \<open>0x1000\<close> with a descriptor at \<open>0x2000\<close> and its left child at \<open>0x2100\<close>; and the string \<open>Hi\<close> at
  \<open>0x3000\<close>.
\<close>

definition example_mem :: phys_mem where
  "example_mem = (\<lambda>a. case map_of [(0x1011, 0x20), (0x2001, 0x21), (0x2018, 5), (0x201c, 6), (0x2118, 3), (0x211c, 3),
     (0x3000, 4), (0x3002, 4), (0x3009, 0x40), (0x4000, 72), (0x4002, 105)] a of Some b \<Rightarrow> b | None \<Rightarrow> 0)"

text \<open>Without paging a byte is where its address says.\<close>

lemma real_byte:
  assumes "take_bit 52 a = a"
  shows "guest_byte real_cpu m a = Some (m a)"
proof -
  have k: "(0xfff :: u64) = mask 12" "PG_ADDRESS_MASK = mask 52 AND NOT (mask 12)"
    by (simp_all add: mask_eq_exp_minus_1 PG_ADDRESS_MASK_def)
  have "(a AND PAGE_MASK) AND (PG_ADDRESS_MASK AND PAGE_MASK) = take_bit 52 a AND PAGE_MASK"
    unfolding k PAGE_MASK_def by (auto simp: bit_eq_iff bit_simps)
  then have p: "x86_cpu_get_phys_page_debug real_cpu m (a AND PAGE_MASK) = a AND PAGE_MASK"
    using assms by (simp add: x86_cpu_get_phys_page_debug_def real_cpu_def page_frame_def a20_def CR0_PG_MASK_def PAGE_MASK_def)
  have "\<not> bit (a AND PAGE_MASK) 0" by (simp add: PAGE_MASK_def bit_simps)
  then have "a AND PAGE_MASK \<noteq> -1" by (metis bit_minus_1_iff possible_bit_word zero_less_iff_neq_zero len_gt_0)
  then show ?thesis using p page_split [of a] by (simp add: guest_byte_def addr_offset Let_def)
qed

lemmas example_offsets = q_offset_def memfrs_q_struct_def memfrs_q_field_def example_db_def example_field_def

lemma example_string:
  "guest_var real_cpu example_mem 0x3002 2 = Some [4, 0]"
  "guest_var real_cpu example_mem 0x3000 2 = Some [4, 0]"
  "guest_var real_cpu example_mem 0x3008 8 = Some [0, 0x40, 0, 0, 0, 0, 0, 0]"
  "guest_var real_cpu example_mem 0x4000 4 = Some [72, 0, 105, 0]"
  by (simp_all add: guest_var_def guest_bytes_def upt_rec real_byte example_mem_def)

theorem unicode_string_copied_witness:
  "parse_unicode_strptr example_db real_cpu example_mem (\<lambda>_. 9) 0x3000 = Some (Some [72, 105, 0, 0, 0])"
proof -
  have "q_offset (memfrs_q_struct example_db ''_UNICODE_STRING'') ''MaximumLength'' = Some 2"
    "q_offset (memfrs_q_struct example_db ''_UNICODE_STRING'') ''Length'' = Some 0"
    "q_offset (memfrs_q_struct example_db ''_UNICODE_STRING'') ''Buffer'' = Some 8"
    by (simp_all add: example_offsets)
  note o = this
  have g: "guest_var real_cpu example_mem (0x3000 + 2) 2 = Some [4, 0]"
    "guest_var real_cpu example_mem (0x3000 + 0) 2 = Some [4, 0]"
    "guest_var real_cpu example_mem (0x3000 + 8) 8 = Some [0, 0x40, 0, 0, 0, 0, 0, 0]"
    "guest_var real_cpu example_mem (le_word [0, 0x40, 0, 0, 0, 0, 0, 0]) 4 = Some [72, 0, 105, 0]"
    by (simp_all add: example_string)
  have w: "4 = unat (le_word [4, 0] :: u16)" by simp
  have "[0..<2] = [0, 1 :: nat]" "replicate 3 (0 :: u8) = [0, 0, 0]" by (simp_all add: upt_rec numeral_eq_Suc)
  then show ?thesis using unicode_string_copied [OF o g(1-3) w w g(4), of "\<lambda>_. 9"] by simp
qed

lemma read_uninit: "guest_var cpu m a n = Some bs \<Longrightarrow> read_var cpu m a (uninit stack k n) = bs"
  by (simp add: read_var_eq)

lemma example_links:
  "guest_ptr real_cpu example_mem 0x1010 = Some 0x2000"
  "guest_ptr real_cpu example_mem 0x2000 = Some 0x2100" "guest_ptr real_cpu example_mem 0x2008 = Some 0"
  "guest_ptr real_cpu example_mem 0x2100 = Some 0" "guest_ptr real_cpu example_mem 0x2108 = Some 0"
  by (simp_all add: guest_ptr_def guest_var_def guest_bytes_def upt_rec real_byte example_mem_def)

lemma example_ranges:
  "guest_var real_cpu example_mem 0x2018 4 = Some [5, 0, 0, 0]" "guest_var real_cpu example_mem 0x201c 4 = Some [6, 0, 0, 0]"
  "guest_var real_cpu example_mem 0x2020 1 = Some [0]" "guest_var real_cpu example_mem 0x2021 1 = Some [0]"
  "guest_var real_cpu example_mem 0x2028 4 = Some [0, 0, 0, 0]"
  "guest_var real_cpu example_mem 0x2118 4 = Some [3, 0, 0, 0]" "guest_var real_cpu example_mem 0x211c 4 = Some [3, 0, 0, 0]"
  "guest_var real_cpu example_mem 0x2120 1 = Some [0]" "guest_var real_cpu example_mem 0x2121 1 = Some [0]"
  "guest_var real_cpu example_mem 0x2128 4 = Some [0, 0, 0, 0]"
  by (simp_all add: guest_var_def guest_bytes_def upt_rec real_byte example_mem_def)

lemma example_parse:
  "parse_mmvad_node example_db real_cpu example_mem stack 0x2000 = Some
     \<lparr>start_viraddr = 0x5000, end_viraddr = 0x6fff, vad_type = 0, vad_protection = 0, vad_filename = None\<rparr>"
  "parse_mmvad_node example_db real_cpu example_mem stack 0x2100 = Some
     \<lparr>start_viraddr = 0x3000, end_viraddr = 0x3fff, vad_type = 0, vad_protection = 0, vad_filename = None\<rparr>"
  by (simp_all add: parse_mmvad_node_def example_offsets example_ranges [THEN read_uninit] vad_range_start_def VadImageMap_def
      del: One_nat_def) simp_all

theorem vad_traversal_witness:
  "memfrs_traverse_vad_tree example_db real_cpu example_mem (\<lambda>_. 9) 0x1000 = Some (Some
     [\<lparr>start_viraddr = 0x5000, end_viraddr = 0x6fff, vad_type = 0, vad_protection = 0, vad_filename = None\<rparr>,
      \<lparr>start_viraddr = 0x3000, end_viraddr = 0x3fff, vad_type = 0, vad_protection = 0, vad_filename = None\<rparr>])"
proof -
  have "example_db \<noteq> None" "q_offset (memfrs_q_struct example_db ''_EPROCESS'') ''VadRoot'' = Some 0x10"
    "q_offset (memfrs_q_struct example_db ''_RTL_BALANCED_NODE'') ''Left'' = Some 0"
    "q_offset (memfrs_q_struct example_db ''_RTL_BALANCED_NODE'') ''Right'' = Some 8"
    by (simp_all add: example_offsets)
  from vad_traversal [OF this, of real_cpu example_mem "0x1000" "0x2000" "Node (Node Leaf 0x2100 Leaf) 0x2000 Leaf" _ "\<lambda>_. 9"]
  show ?thesis by (simp add: example_links example_parse)
qed

end
