(* ===== verification/ProcessList.thy ===== *)
theory ProcessList
imports Memfrs
begin

text \<open>
  The list of processes of the guest (\<^verbatim>\<open>ext/memfrs/process.c\<close>), enumerated along the links of the kernel's
  \<^verbatim>\<open>_EPROCESS\<close> structures. The local variables of \<^verbatim>\<open>memfrs_enum_proc_list\<close> are a record of the bytes they hold:
  they live across the iterations and a read that fails leaves what an earlier process put there. Leaving an array is
  \<^const>\<open>None\<close>.
\<close>

section \<open>Data\<close>

datatype MEMFRS_ERRNO =
  MEMFRS_ERR_NOT_LOADED_GLOBAL_STRUCTURE | MEMFRS_ERR_NOT_LOADED_STRUCTURE | MEMFRS_ERR_NOT_FOUND_KPCR
| MEMFRS_ERR_NOT_FOUND_GLOBAL_STRUCTURE | MEMFRS_ERR_NOT_FOUND_KERNEL_BASE | MEMFRS_ERR_MEMORY_READ_FAILED
| MEMFRS_ERR_INVALID_CPU

record process_list_st =
  pl_eprocess :: u64
  pl_CR3 :: u64
  pl_pid :: u64
  pl_full_file_path :: "u8 list"

record proc_vars =
  v_eprocess_ptr :: "u8 list"
  v_buf_ptr :: "u8 list"
  v_cr3 :: "u8 list"
  v_processid :: "u8 list"
  v_file_name_buf :: "u8 list"
  v_file_path_buf :: "u8 list"
  v_length :: "u8 list"
  v_offset_entry_list :: int

section \<open>Operations\<close>

text \<open>The loop that takes every other byte of the path.\<close>

function path_loop :: "nat \<Rightarrow> nat \<Rightarrow> u8 list \<Rightarrow> u8 list \<Rightarrow> u8 list option" where
  "path_loop i len buf path =
     (if i < len
      then if i mod 2 = 0
        then if i div 2 < length path \<and> i < length buf then path_loop (i + 1) len buf (path[i div 2 := buf ! i]) else None
        else path_loop (i + 1) len buf path
      else Some path)"
  by pat_completeness auto
termination by (relation "measure (\<lambda>(i, len, _, _). len - i)") auto

declare path_loop.simps [simp del]

definition copy_path :: "(nat \<Rightarrow> u8) \<Rightarrow> nat \<Rightarrow> u8 list \<Rightarrow> u8 list option" where
  "copy_path stack len buf =
     do { path \<leftarrow> path_loop 0 len buf (uninit stack 0 (len div 2 + 1));
          Some (path[len div 2 := 0]) }"

text \<open>\<^verbatim>\<open>sprintf\<close> of the name into 32 bytes: the name must end within its buffer and the text must fit.\<close>

definition print_name :: "u8 list \<Rightarrow> u8 list option" where
  "print_name buf =
     (let name = takeWhile (\<lambda>c. c \<noteq> 0) buf;
          text = map of_char ''[Process Name] '' @ name @ replicate (15 - length name) 0x20 @ [0] in
      if length name < length buf \<and> length text \<le> 32 then Some text else None)"

definition proc_field :: "type_db \<Rightarrow> x86_cpu \<Rightarrow> phys_mem \<Rightarrow> u64 \<Rightarrow> u64 \<Rightarrow> u8 list \<Rightarrow> string list \<Rightarrow> int \<times> u8 list" where
  "proc_field db cpu m cr3 eprocess_ptr buffer fs = memfrs_get_mem_struct_content db cpu m cr3 buffer eprocess_ptr ''_EPROCESS'' fs"

definition or_zero :: "int \<times> u8 list \<Rightarrow> u8 list" where
  "or_zero r = (if fst r = -1 then replicate (length (snd r)) 0 else snd r)"

text \<open>One iteration up to the entry of the list.\<close>

definition enum_entry ::
  "type_db \<Rightarrow> x86_cpu \<Rightarrow> phys_mem \<Rightarrow> (nat \<Rightarrow> u8) \<Rightarrow> proc_vars \<Rightarrow> (process_list_st \<times> proc_vars) option" where
  "enum_entry db cpu m stack v =
     (let p = le_word (v_eprocess_ptr v);
          v = v\<lparr>v_cr3 := snd (proc_field db cpu m 0 p (v_cr3 v) [''#Pcb'', ''#DirectoryTableBase''])\<rparr>;
          v = v\<lparr>v_processid := snd (proc_field db cpu m 0 p (v_processid v) [''#UniqueProcessId''])\<rparr>;
          v = v\<lparr>v_file_name_buf := snd (proc_field db cpu m 0 p (v_file_name_buf v) [''#ImageFileName''])\<rparr>;
          cr3 = le_word (v_cr3 v);
          v = (if cr3 \<noteq> 0
               then v\<lparr>v_length := or_zero (proc_field db cpu m cr3 p (v_length v)
                        [''*Peb'', ''*ProcessParameters'', ''#ImagePathName'', ''#Length'']),
                      v_buf_ptr := or_zero (proc_field db cpu m cr3 p (v_buf_ptr v)
                        [''*Peb'', ''*ProcessParameters'', ''#ImagePathName'', ''*Buffer''])\<rparr>
               else v);
          (r, buf) = memfrs_get_virmem_content cpu m cr3 (le_word (v_buf_ptr v)) 256 (v_file_path_buf v);
          v = v\<lparr>v_file_path_buf := buf\<rparr> in
      do { full_file_path \<leftarrow> (if r \<noteq> -1 then copy_path stack (unat (le_word (v_length v) :: u16)) buf
                             else print_name (v_file_name_buf v));
           Some (\<lparr>pl_eprocess = p, pl_CR3 = cr3, pl_pid = le_word (v_processid v), pl_full_file_path = full_file_path\<rparr>, v) })"

text \<open>The step to the next process.\<close>

definition enum_next :: "type_db \<Rightarrow> x86_cpu \<Rightarrow> phys_mem \<Rightarrow> proc_vars \<Rightarrow> proc_vars" where
  "enum_next db cpu m v =
     (let link = snd (proc_field db cpu m 0 (le_word (v_eprocess_ptr v)) (v_eprocess_ptr v) [''#ActiveProcessLinks'', ''*Blink'']);
          off = snd (memfrs_get_nested_field_offset db (v_offset_entry_list v) ''_EPROCESS'' [''ActiveProcessLinks'']);
          p = (le_word link :: u64) - word_of_int off in
      v\<lparr>v_eprocess_ptr := map (\<lambda>i. ucast (drop_bit (8 * i) p)) [0..<8], v_offset_entry_list := off\<rparr>)"

function enum_loop ::
  "type_db \<Rightarrow> x86_cpu \<Rightarrow> phys_mem \<Rightarrow> (nat \<Rightarrow> u8) \<Rightarrow> u64 \<Rightarrow> nat \<Rightarrow> proc_vars \<Rightarrow> process_list_st list \<Rightarrow> process_list_st list option" where
  "enum_loop db cpu m stack eprocess_ptr_init count v list =
     (case enum_entry db cpu m stack v of None \<Rightarrow> None
      | Some (proc_list, v) \<Rightarrow>
          if 1000 < count + 1 then Some (list @ [proc_list])
          else let v = enum_next db cpu m v in
            if le_word (v_eprocess_ptr v) \<noteq> eprocess_ptr_init
            then enum_loop db cpu m stack eprocess_ptr_init (count + 1) v (list @ [proc_list])
            else Some (list @ [proc_list]))"
  by pat_completeness auto
termination by (relation "measure (\<lambda>(_, _, _, _, _, count, _, _). 1000 - count)") auto

declare enum_loop.simps [simp del]

text \<open>The variables before they are assigned.\<close>

definition enum_vars :: "(nat \<Rightarrow> u8) \<Rightarrow> u8 list \<Rightarrow> proc_vars" where
  "enum_vars stack eprocess_ptr =
     \<lparr>v_eprocess_ptr = eprocess_ptr, v_buf_ptr = uninit stack 16 8, v_cr3 = uninit stack 24 8, v_processid = uninit stack 32 8,
      v_file_name_buf = uninit stack 40 32, v_file_path_buf = uninit stack 72 256, v_length = uninit stack 328 2,
      v_offset_entry_list = 0\<rparr>"

definition memfrs_enum_proc_list ::
  "type_db \<Rightarrow> x86_cpu option \<Rightarrow> phys_mem \<Rightarrow> (nat \<Rightarrow> u8) \<Rightarrow> u64 \<Rightarrow> (MEMFRS_ERRNO + process_list_st list) option" where
  "memfrs_enum_proc_list db cpu m stack kpcr_ptr =
     (if \<not> memfrs_check_struct_info db then Some (Inl MEMFRS_ERR_NOT_LOADED_GLOBAL_STRUCTURE)
      else if kpcr_ptr = 0 then Some (Inl MEMFRS_ERR_NOT_FOUND_KPCR)
      else case cpu of None \<Rightarrow> Some (Inl MEMFRS_ERR_INVALID_CPU)
      | Some cpu \<Rightarrow>
          let kthread_ptr = snd (memfrs_get_mem_struct_content db cpu m 0 (uninit stack 0 8) kpcr_ptr ''_KPCR'' [''#Prcb'', ''#CurrentThread'']);
              eprocess_ptr = snd (memfrs_get_mem_struct_content db cpu m 0 (uninit stack 8 8) (le_word kthread_ptr) ''_KTHREAD'' [''#Process'']) in
          map_option Inr
            (enum_loop db cpu m (\<lambda>i. stack (i + 330)) (le_word eprocess_ptr) 0 (enum_vars stack eprocess_ptr) []))"

section \<open>What the guest holds\<close>

text \<open>The bytes of a field of a structure, if the path to it and all its bytes are mapped.\<close>

definition guest_field :: "type_db \<Rightarrow> x86_cpu \<Rightarrow> phys_mem \<Rightarrow> u64 \<Rightarrow> u64 \<Rightarrow> string \<Rightarrow> string list \<Rightarrow> nat \<Rightarrow> u8 list option" where
  "guest_field db cpu m cr3 p ty fs n =
     (case memfrs_q_struct db ty of None \<Rightarrow> None
      | Some s \<Rightarrow> (case struct_path db cpu m cr3 (Some s) False p fs of None \<Rightarrow> None
        | Some a \<Rightarrow> guest_var (if cr3 = 0 then cpu else cpu\<lparr>cpu_cr3 := cr3\<rparr>) m a n))"

text \<open>The entry of a process: its path if that is mapped, its name otherwise.\<close>

definition process_entry :: "type_db \<Rightarrow> x86_cpu \<Rightarrow> phys_mem \<Rightarrow> u64 \<Rightarrow> process_list_st option" where
  "process_entry db cpu m p =
     do { cr3 \<leftarrow> map_option le_word (guest_field db cpu m 0 p ''_EPROCESS'' [''#Pcb'', ''#DirectoryTableBase''] 8);
          pid \<leftarrow> map_option le_word (guest_field db cpu m 0 p ''_EPROCESS'' [''#UniqueProcessId''] 8);
          name \<leftarrow> guest_field db cpu m 0 p ''_EPROCESS'' [''#ImageFileName''] 32;
          let len = (case guest_field db cpu m cr3 p ''_EPROCESS'' [''*Peb'', ''*ProcessParameters'', ''#ImagePathName'', ''#Length''] 2
            of None \<Rightarrow> 0 | Some l \<Rightarrow> unat (le_word l :: u16));
          let buf = (case guest_field db cpu m cr3 p ''_EPROCESS'' [''*Peb'', ''*ProcessParameters'', ''#ImagePathName'', ''*Buffer''] 8
            of None \<Rightarrow> 0 | Some b \<Rightarrow> le_word b);
          path \<leftarrow> (if cr3 = 0 then None
                  else case guest_var (cpu\<lparr>cpu_cr3 := cr3\<rparr>) m buf 256 of
                    Some bs \<Rightarrow> if len \<le> 256 then Some (map (\<lambda>k. bs ! (2 * k)) [0..<len div 2] @ [0]) else None
                  | None \<Rightarrow> print_name name);
          Some \<lparr>pl_eprocess = p, pl_CR3 = cr3, pl_pid = pid, pl_full_file_path = path\<rparr> }"

definition next_process :: "type_db \<Rightarrow> x86_cpu \<Rightarrow> phys_mem \<Rightarrow> u64 \<Rightarrow> u64 option" where
  "next_process db cpu m p =
     do { link \<leftarrow> map_option le_word (guest_field db cpu m 0 p ''_EPROCESS'' [''#ActiveProcessLinks'', ''*Blink''] 8);
          off \<leftarrow> nested_offset db (memfrs_q_struct db ''_EPROCESS'') 0 [''ActiveProcessLinks''];
          Some (link - word_of_int off) }"

text \<open>A ring of processes along the links.\<close>

definition process_ring :: "type_db \<Rightarrow> x86_cpu \<Rightarrow> phys_mem \<Rightarrow> u64 list \<Rightarrow> bool" where
  "process_ring db cpu m ps \<longleftrightarrow> ps \<noteq> [] \<and> distinct ps \<and>
     (\<forall>i \<in> set [0..<length ps]. next_process db cpu m (ps ! i) = Some (ps ! (Suc i mod length ps)))"

section \<open>Reading fields\<close>

lemma those_some: "those vs \<noteq> None \<longleftrightarrow> (\<forall>v \<in> set vs. v \<noteq> None)"
  by (induction vs) (auto split: option.splits)

lemma virmem_read:
  assumes "length buf = n" "n \<le> 256"
  shows "guest_var (if cr3 = 0 then cpu else cpu\<lparr>cpu_cr3 := cr3\<rparr>) m a n = Some bs \<Longrightarrow>
      memfrs_get_virmem_content cpu m cr3 a (of_nat n) buf = (0, bs)"
    "guest_var (if cr3 = 0 then cpu else cpu\<lparr>cpu_cr3 := cr3\<rparr>) m a n = None \<Longrightarrow>
      \<exists>b. memfrs_get_virmem_content cpu m cr3 a (of_nat n) buf = (-1, b) \<and> length b = n"
proof -
  define c where "c = (if cr3 = 0 then cpu else cpu\<lparr>cpu_cr3 := cr3\<rparr>)"
  define g where "g = guest_bytes c m a n"
  define vs where "vs = takeWhile (\<lambda>v. v \<noteq> None) g"
  have "uint (of_nat n :: u64) = int n" using assms(2) by (simp add: unsigned_of_nat take_bit_nat_eq_self)
  then have "sint (ucast (of_nat n :: u64) :: u32) = int n" using narrow [of "of_nat n"] assms(2) by simp
  then have r: "memfrs_get_virmem_content cpu m cr3 a (of_nat n) buf = (if length vs = n then 0 else -1, map the vs @ drop (length vs) buf)"
    using read_eq [of "int n" buf vs c m a] assms(1) unfolding vs_def g_def c_def
    by (cases "cr3 = 0") (simp_all add: memfrs_get_virmem_content_def Let_def)
  have l: "length g = n" by (simp add: g_def guest_bytes_def)
  have "memfrs_get_virmem_content cpu m cr3 a (of_nat n) buf = (0, bs)" if "guest_var c m a n = Some bs"
  proof -
    have "vs = g" "map the g = bs" using those_takeWhile [of g bs] that unfolding guest_var_def g_def vs_def by blast+
    then show ?thesis using r l assms(1) by simp
  qed
  moreover have "\<exists>b. memfrs_get_virmem_content cpu m cr3 a (of_nat n) buf = (-1, b) \<and> length b = n" if "guest_var c m a n = None"
  proof -
    have "vs \<noteq> g" using that those_some [of g] unfolding guest_var_def g_def [symmetric] vs_def takeWhile_eq_all_conv by blast
    then have "length vs \<noteq> n" using l unfolding vs_def by (metis take_all takeWhile_eq_take order_refl)
    moreover have "length vs \<le> n" using l length_takeWhile_le [of "\<lambda>v. v \<noteq> None" g] by (simp add: vs_def)
    ultimately show ?thesis using r assms(1) by simp
  qed
  ultimately show "guest_var (if cr3 = 0 then cpu else cpu\<lparr>cpu_cr3 := cr3\<rparr>) m a n = Some bs \<Longrightarrow>
      memfrs_get_virmem_content cpu m cr3 a (of_nat n) buf = (0, bs)"
    "guest_var (if cr3 = 0 then cpu else cpu\<lparr>cpu_cr3 := cr3\<rparr>) m a n = None \<Longrightarrow>
      \<exists>b. memfrs_get_virmem_content cpu m cr3 a (of_nat n) buf = (-1, b) \<and> length b = n"
    unfolding c_def by blast+
qed

lemma field_read:
  assumes "length buf = n" "n \<le> 256"
  shows "guest_field db cpu m cr3 p ty fs n = Some bs \<Longrightarrow>
      memfrs_get_mem_struct_content db cpu m cr3 buf p ty fs = (0, bs) \<and> length bs = n"
    "guest_field db cpu m cr3 p ty fs n = None \<Longrightarrow>
      \<exists>b. memfrs_get_mem_struct_content db cpu m cr3 buf p ty fs = (-1, b) \<and> length b = n"
  using assms virmem_read [OF assms] guest_var_length
  unfolding guest_field_def memfrs_get_mem_struct_content_def by (auto split: option.splits)

lemma le_word_bytes: "le_word (map (\<lambda>i. ucast (drop_bit (8 * i) p)) [0..<n]) = take_bit (8 * n) p" for p :: u64
proof (induction n arbitrary: p)
  case (Suc n)
  have "map (\<lambda>i. ucast (drop_bit (8 * i) p) :: u8) [0..<Suc n] = ucast p # map (\<lambda>i. ucast (drop_bit (8 * i) (drop_bit 8 p))) [0..<n]"
    by (simp add: upt_conv_Cons map_Suc_upt [symmetric] add.commute del: upt_Suc)
  then have "le_word (map (\<lambda>i. ucast (drop_bit (8 * i) p)) [0..<Suc n]) = ucast (ucast p :: u8) OR push_bit 8 (take_bit (8 * n) (drop_bit 8 p))"
    using Suc.IH [of "drop_bit 8 p"] by (simp only: le_word.simps)
  also have "\<dots> = take_bit (8 * Suc n) p" by (auto simp: bit_eq_iff bit_simps)
  finally show ?case .
qed simp

section \<open>One process\<close>

lemma path_loop_eq:
  assumes "i \<le> len" "len \<le> length buf" "length path = len div 2 + 1"
  shows "\<exists>path'. path_loop i len buf path = Some path' \<and> length path' = len div 2 + 1 \<and>
    (\<forall>k < len div 2. path' ! k = (if i \<le> 2 * k then buf ! (2 * k) else path ! k))"
  using assms
proof (induction i len buf path rule: path_loop.induct)
  case H: (1 i len buf path)
  show ?case
  proof (cases "i < len")
    case False
    then show ?thesis using H.prems by (subst path_loop.simps) auto
  next
    case True
    show ?thesis
    proof (cases "i mod 2 = 0")
      case even: True
      have b: "i div 2 < length path \<and> i < length buf" using True H.prems by (auto simp: div_le_mono less_Suc_eq_le)
      obtain path' where p: "path_loop (i + 1) len buf (path[i div 2 := buf ! i]) = Some path'" "length path' = len div 2 + 1"
        "\<forall>k < len div 2. path' ! k = (if i + 1 \<le> 2 * k then buf ! (2 * k) else path[i div 2 := buf ! i] ! k)"
        using H.IH(1) [OF True even b] True H.prems by auto
      have "path' ! k = (if i \<le> 2 * k then buf ! (2 * k) else path ! k)" if "k < len div 2" for k
      proof (cases "2 * k = i")
        case True
        then show ?thesis using p(3) that b by auto
      next
        case False
        then have "k \<noteq> i div 2" "i + 1 \<le> 2 * k \<longleftrightarrow> i \<le> 2 * k" using even by presburger+
        then show ?thesis using p(3) that by simp
      qed
      then show ?thesis using p(1,2) True even b by (subst path_loop.simps) simp
    next
      case odd: False
      obtain path' where p: "path_loop (i + 1) len buf path = Some path'" "length path' = len div 2 + 1"
        "\<forall>k < len div 2. path' ! k = (if i + 1 \<le> 2 * k then buf ! (2 * k) else path ! k)"
        using H.IH(2) [OF True odd] True H.prems by auto
      have "i + 1 \<le> 2 * k \<longleftrightarrow> i \<le> 2 * k" for k using odd by presburger
      then show ?thesis using p True odd by (subst path_loop.simps) simp
    qed
  qed
qed

lemma copy_path_eq: "len \<le> length buf \<Longrightarrow> copy_path stack len buf = Some (map (\<lambda>k. buf ! (2 * k)) [0..<len div 2] @ [0])"
proof -
  assume "len \<le> length buf"
  then obtain path where p: "path_loop 0 len buf (uninit stack 0 (len div 2 + 1)) = Some path" "length path = len div 2 + 1"
    "\<forall>k < len div 2. path ! k = buf ! (2 * k)"
    using path_loop_eq [of 0 len buf "uninit stack 0 (len div 2 + 1)"] by auto
  have "path[len div 2 := 0] = map (\<lambda>k. buf ! (2 * k)) [0..<len div 2] @ [0]"
    using p(2,3) by (intro nth_equalityI) (auto simp: nth_append nth_list_update)
  then show ?thesis using p(1) by (simp add: copy_path_def)
qed

lemma le_word_zeros: "le_word (replicate n 0) = 0"
  by (induction n) simp_all

lemma or_zero_read:
  assumes "length buf = n" "n \<le> 256"
  shows "or_zero (memfrs_get_mem_struct_content db cpu m cr3 buf p ty fs) =
      (case guest_field db cpu m cr3 p ty fs n of Some bs \<Rightarrow> bs | None \<Rightarrow> replicate n 0)"
    "length (case guest_field db cpu m cr3 p ty fs n of Some bs \<Rightarrow> bs | None \<Rightarrow> replicate n 0) = n"
proof -
  note f = field_read [OF assms, of db cpu m cr3 p ty fs]
  show "or_zero (memfrs_get_mem_struct_content db cpu m cr3 buf p ty fs) =
      (case guest_field db cpu m cr3 p ty fs n of Some bs \<Rightarrow> bs | None \<Rightarrow> replicate n 0)"
    using f by (cases "guest_field db cpu m cr3 p ty fs n") (auto simp: or_zero_def)
  show "length (case guest_field db cpu m cr3 p ty fs n of Some bs \<Rightarrow> bs | None \<Rightarrow> replicate n 0) = n"
    using f by (cases "guest_field db cpu m cr3 p ty fs n") auto
qed

text \<open>The sizes of the variables.\<close>

definition wf_vars :: "proc_vars \<Rightarrow> bool" where
  "wf_vars v \<longleftrightarrow> length (v_eprocess_ptr v) = 8 \<and> length (v_buf_ptr v) = 8 \<and> length (v_cr3 v) = 8 \<and>
     length (v_processid v) = 8 \<and> length (v_file_name_buf v) = 32 \<and> length (v_file_path_buf v) = 256 \<and> length (v_length v) = 2"

abbreviation (input) path_field :: "string \<Rightarrow> string list" where
  "path_field f \<equiv> [''*Peb'', ''*ProcessParameters'', ''#ImagePathName'', f]"

lemma path_read:
  assumes "length buf = 256" "cr3 \<noteq> 0" "g = guest_var (cpu\<lparr>cpu_cr3 := cr3\<rparr>) m a 256"
    "path = (case g of Some bs \<Rightarrow> if len \<le> 256 then Some (map (\<lambda>k. bs ! (2 * k)) [0..<len div 2] @ [0]) else None
      | None \<Rightarrow> print_name name)" "path \<noteq> None"
  obtains r b where "memfrs_get_virmem_content cpu m cr3 a 256 buf = (r, b)" "length b = 256"
    "(if r \<noteq> -1 then copy_path stack len b else print_name name) = path"
proof (cases g)
  case None
  then show ?thesis using virmem_read(2) [OF assms(1), of cr3 cpu m a] assms(2-4) that by auto
next
  case (Some bs)
  then have "length bs = 256" "len \<le> 256" using guest_var_length assms(3-5) by (auto split: if_splits)
  then show ?thesis
    using virmem_read(1) [OF assms(1), of cr3 cpu m a bs] assms(2,4) assms(3) [symmetric] Some that [of 0 bs] copy_path_eq [of len bs] by simp
qed

lemma enum_entry_ok:
  assumes "wf_vars v" "le_word (v_eprocess_ptr v) = p" "process_entry db cpu m p = Some e"
  obtains v' where "enum_entry db cpu m stack v = Some (e, v')" "wf_vars v'" "v_eprocess_ptr v' = v_eprocess_ptr v"
proof -
  obtain c i name where f: "guest_field db cpu m 0 p ''_EPROCESS'' [''#Pcb'', ''#DirectoryTableBase''] 8 = Some c"
    "guest_field db cpu m 0 p ''_EPROCESS'' [''#UniqueProcessId''] 8 = Some i"
    "guest_field db cpu m 0 p ''_EPROCESS'' [''#ImageFileName''] 32 = Some name"
    using assms(3) by (auto simp: process_entry_def bind_eq_Some_conv)
  define cr3 :: u64 where "cr3 = le_word c"
  define lb where "lb = (case guest_field db cpu m cr3 p ''_EPROCESS'' (path_field ''#Length'') 2 of Some bs \<Rightarrow> bs | None \<Rightarrow> replicate 2 0)"
  define bb where "bb = (case guest_field db cpu m cr3 p ''_EPROCESS'' (path_field ''*Buffer'') 8 of Some bs \<Rightarrow> bs | None \<Rightarrow> replicate 8 0)"
  define len where "len = unat (le_word lb :: u16)"
  define g where "g = guest_var (cpu\<lparr>cpu_cr3 := cr3\<rparr>) m (le_word bb) 256"
  have len: "(case guest_field db cpu m cr3 p ''_EPROCESS'' (path_field ''#Length'') 2 of None \<Rightarrow> 0 | Some l \<Rightarrow> unat (le_word l :: u16)) = len"
    unfolding len_def lb_def by (auto split: option.splits simp: le_word_zeros)
  have buf: "(case guest_field db cpu m cr3 p ''_EPROCESS'' (path_field ''*Buffer'') 8 of None \<Rightarrow> 0 | Some b \<Rightarrow> le_word b) = (le_word bb :: u64)"
    unfolding bb_def by (auto split: option.splits simp: le_word_zeros)
  define path where "path = (case g of Some bs \<Rightarrow> if len \<le> 256 then Some (map (\<lambda>k. bs ! (2 * k)) [0..<len div 2] @ [0]) else None
    | None \<Rightarrow> print_name name)"
  have e: "cr3 \<noteq> 0" "path \<noteq> None" "e = \<lparr>pl_eprocess = p, pl_CR3 = cr3, pl_pid = le_word i, pl_full_file_path = the path\<rparr>"
    using assms(3) unfolding process_entry_def f option.map bind.bind_lunit cr3_def [symmetric] len buf Let_def g_def [symmetric]
      path_def [symmetric] by (auto split: if_splits simp: bind_eq_Some_conv)
  have w: "length (v_cr3 v) = 8" "length (v_processid v) = 8" "length (v_file_name_buf v) = 32" "length (v_length v) = 2"
    "length (v_buf_ptr v) = 8" "length (v_file_path_buf v) = 256" "length (v_eprocess_ptr v) = 8"
    using assms(1) by (simp_all add: wf_vars_def)
  have r: "proc_field db cpu m 0 p (v_cr3 v) [''#Pcb'', ''#DirectoryTableBase''] = (0, c)" "length c = 8"
    "proc_field db cpu m 0 p (v_processid v) [''#UniqueProcessId''] = (0, i)" "length i = 8"
    "proc_field db cpu m 0 p (v_file_name_buf v) [''#ImageFileName''] = (0, name)" "length name = 32"
    using field_read(1) [OF w(1) _ f(1)] field_read(1) [OF w(2) _ f(2)] field_read(1) [OF w(3) _ f(3)] by (simp_all add: proc_field_def)
  have z: "or_zero (proc_field db cpu m cr3 p (v_length v) (path_field ''#Length'')) = lb" "length lb = 2"
    "or_zero (proc_field db cpu m cr3 p (v_buf_ptr v) (path_field ''*Buffer'')) = bb" "length bb = 8"
    unfolding proc_field_def lb_def bb_def using or_zero_read [OF w(4)] or_zero_read [OF w(5)] by simp_all
  obtain r b where m: "memfrs_get_virmem_content cpu m cr3 (le_word bb) 256 (v_file_path_buf v) = (r, b)" "length b = 256"
    "(if r \<noteq> -1 then copy_path stack len b else print_name name) = path"
    using path_read [OF w(6) e(1) g_def path_def e(2)] by blast
  let ?v = "v\<lparr>v_cr3 := c, v_processid := i, v_file_name_buf := name, v_length := lb, v_buf_ptr := bb, v_file_path_buf := b\<rparr>"
  have "enum_entry db cpu m stack v = Some (e, ?v)"
    using e(1,2) m(3) by (auto simp: enum_entry_def Let_def assms(2) r z m(1) e(3) cr3_def [symmetric] len_def [symmetric])
  moreover have "wf_vars ?v" using r(2,4,6) z(2,4) m(2) w(7) by (simp add: wf_vars_def)
  ultimately show thesis using that [of ?v] by simp
qed

section \<open>The ring\<close>

lemma enum_next_ok:
  assumes "wf_vars v" "next_process db cpu m (le_word (v_eprocess_ptr v)) = Some q"
  shows "le_word (v_eprocess_ptr (enum_next db cpu m v)) = q" "wf_vars (enum_next db cpu m v)"
proof -
  obtain link off where f: "guest_field db cpu m 0 (le_word (v_eprocess_ptr v)) ''_EPROCESS'' [''#ActiveProcessLinks'', ''*Blink''] 8 = Some link"
    "nested_offset db (memfrs_q_struct db ''_EPROCESS'') 0 [''ActiveProcessLinks''] = Some off" "q = le_word link - word_of_int off"
    using assms(2) unfolding next_process_def bind_eq_Some_conv map_option_eq_Some by blast
  obtain s where s: "memfrs_q_struct db ''_EPROCESS'' = Some s"
    using f(1) by (cases "memfrs_q_struct db ''_EPROCESS''") (simp_all add: guest_field_def)
  have "proc_field db cpu m 0 (le_word (v_eprocess_ptr v)) (v_eprocess_ptr v) [''#ActiveProcessLinks'', ''*Blink''] = (0, link)"
    using field_read(1) [OF _ _ f(1)] assms(1) by (simp add: proc_field_def wf_vars_def)
  then have "v_eprocess_ptr (enum_next db cpu m v) = map (\<lambda>i. ucast (drop_bit (8 * i) q)) [0..<8]"
    using f(2,3) s by (simp add: enum_next_def Let_def memfrs_get_nested_field_offset_def del: nested_offset.simps)
  then show "le_word (v_eprocess_ptr (enum_next db cpu m v)) = q" using le_word_bytes [of q 8] by (simp add: take_bit_word_eq_self)
  show "wf_vars (enum_next db cpu m v)" using assms(1) by (simp add: enum_next_def Let_def wf_vars_def)
qed

lemma enum_loop_ring:
  assumes "process_ring db cpu m ps" "\<forall>p \<in> set ps. process_entry db cpu m p \<noteq> None" "i < length ps" "i \<le> 1000"
    "wf_vars v" "le_word (v_eprocess_ptr v) = ps ! i"
  shows "enum_loop db cpu m stack (ps ! 0) i v list =
    Some (list @ map (\<lambda>p. the (process_entry db cpu m p)) (take (1001 - i) (drop i ps)))"
  using assms(3-6)
proof (induction "length ps - i" arbitrary: i v list)
  case 0
  then show ?case by simp
next
  case (Suc n)
  let ?e = "\<lambda>p. the (process_entry db cpu m p)"
  have "process_entry db cpu m (ps ! i) = Some (?e (ps ! i))" using assms(2) Suc.prems(1) by auto
  then obtain v' where e: "enum_entry db cpu m stack v = Some (?e (ps ! i), v')" "wf_vars v'" "v_eprocess_ptr v' = v_eprocess_ptr v"
    using enum_entry_ok [OF Suc.prems(3,4)] by blast
  have d: "map ?e (take (1001 - i) (drop i ps)) = ?e (ps ! i) # map ?e (take (1001 - Suc i) (drop (Suc i) ps))"
    using Suc.prems(1,2) by (simp add: Cons_nth_drop_Suc [symmetric] Suc_diff_le [of i 1000, simplified])
  have q: "next_process db cpu m (ps ! i) = Some (ps ! (Suc i mod length ps))"
    using assms(1) Suc.prems(1) by (simp add: process_ring_def)
  note n = enum_next_ok [OF e(2), of db cpu m "ps ! (Suc i mod length ps)", unfolded e(3) Suc.prems(4), OF q]
  consider "i = 1000" | "i < 1000" "Suc i = length ps" | "i < 1000" "Suc i < length ps" using Suc.prems(1,2) by linarith
  then show ?case
  proof cases
    case 1
    then show ?thesis using e(1) d by (subst enum_loop.simps) simp
  next
    case 2
    then show ?thesis using e(1) d n by (subst enum_loop.simps) (simp add: Let_def)
  next
    case 3
    then have "ps ! Suc i \<noteq> ps ! 0" using assms(1) by (simp add: process_ring_def nth_eq_iff_index_eq)
    moreover have "enum_loop db cpu m stack (ps ! 0) (Suc i) (enum_next db cpu m v') (list @ [?e (ps ! i)]) =
        Some ((list @ [?e (ps ! i)]) @ map ?e (take (1001 - Suc i) (drop (Suc i) ps)))"
      using Suc.hyps(1) [of "Suc i"] Suc.hyps(2) 3 n by simp
    ultimately show ?thesis using e(1) d n 3 by (subst enum_loop.simps) (simp add: Let_def)
  qed
qed

text \<open>C15: The processes of the guest are enumerated completely. When the current process, found through the control
  region of the processor, is the first of a ring of processes along the kernel's links and the entry of each can be
  read, the enumeration ends and lists the processes of the ring in order, each exactly once, up to a limit of 1001;
  each entry holds the address, the page tables, the identifier and the path of the process (its name if the path is not
  mapped). What the variables held before is irrelevant.
\<close>

theorem process_list_complete:
  assumes "db \<noteq> None" "kpcr_ptr \<noteq> 0"
    "guest_field db cpu m 0 kpcr_ptr ''_KPCR'' [''#Prcb'', ''#CurrentThread''] 8 = Some kthread"
    "guest_field db cpu m 0 (le_word kthread) ''_KTHREAD'' [''#Process''] 8 = Some current"
    "process_ring db cpu m ps" "ps ! 0 = le_word current" "\<forall>p \<in> set ps. process_entry db cpu m p \<noteq> None"
  shows "memfrs_enum_proc_list db (Some cpu) m stack kpcr_ptr =
      Some (Inr (map (\<lambda>p. the (process_entry db cpu m p)) (take 1001 ps)))"
proof -
  have r: "memfrs_get_mem_struct_content db cpu m 0 (uninit stack 0 8) kpcr_ptr ''_KPCR'' [''#Prcb'', ''#CurrentThread''] = (0, kthread)"
    "memfrs_get_mem_struct_content db cpu m 0 (uninit stack 8 8) (le_word kthread) ''_KTHREAD'' [''#Process''] = (0, current)"
    "length current = 8"
    using field_read(1) [OF _ _ assms(3)] field_read(1) [OF uninit_length _ assms(4)] by simp_all
  have "wf_vars (enum_vars stack current)" using r(3) by (simp add: wf_vars_def enum_vars_def)
  then have "enum_loop db cpu m (\<lambda>i. stack (i + 330)) (le_word current) 0 (enum_vars stack current) [] =
      Some (map (\<lambda>p. the (process_entry db cpu m p)) (take 1001 ps))"
    using enum_loop_ring [OF assms(5,7), of 0 "enum_vars stack current"] assms(5) unfolding assms(6)
    by (simp add: process_ring_def enum_vars_def)
  then show ?thesis
    using assms(1,2) r by (simp add: memfrs_enum_proc_list_def memfrs_check_struct_info_def Let_def)
qed

section \<open>An example\<close>

definition typed_field :: "int \<Rightarrow> string \<Rightarrow> field_info" where
  "typed_field n ty = \<lparr>fi_offset = n, fi_type_name = ty, fi_is_pointer = False\<rparr>"

definition ring_db :: type_db where
  "ring_db = Some (map_of [
     (''_KPCR'', map_of [(''Prcb'', typed_field 0 ''_KPRCB'')]), (''_KPRCB'', map_of [(''CurrentThread'', typed_field 8 ''void'')]),
     (''_KTHREAD'', map_of [(''Process'', typed_field 0 ''void'')]),
     (''_EPROCESS'', map_of [(''Pcb'', typed_field 0 ''_KPROCESS''), (''UniqueProcessId'', typed_field 8 ''void''),
        (''Peb'', typed_field 0x10 ''_PEB''), (''ActiveProcessLinks'', typed_field 0x20 ''_LIST_ENTRY''),
        (''ImageFileName'', typed_field 0x30 ''char'')]),
     (''_KPROCESS'', map_of [(''DirectoryTableBase'', typed_field 0 ''void'')]),
     (''_LIST_ENTRY'', map_of [(''Flink'', typed_field 0 ''_LIST_ENTRY''), (''Blink'', typed_field 8 ''_LIST_ENTRY'')]),
     (''_PEB'', map_of [(''ProcessParameters'', typed_field 0 ''_PARAMETERS'')]),
     (''_PARAMETERS'', map_of [(''ImagePathName'', typed_field 0 ''_UNICODE_STRING'')]),
     (''_UNICODE_STRING'', map_of [(''Length'', typed_field 0 ''short''), (''Buffer'', typed_field 8 ''short'')])])"

text \<open>
  Two processes, at \<open>0x1000\<close> with the path \<open>Hi\<close> and at \<open>0x1100\<close> with an empty path; the control region at \<open>0x5000\<close>
  and the current thread at \<open>0x6000\<close>.
\<close>

definition ring_mem :: phys_mem where
  "ring_mem = (\<lambda>a. case map_of [(0x1000, 1), (0x1008, 7), (0x1011, 0x20), (0x1028, 0x20), (0x1029, 0x11),
     (0x1100, 2), (0x1108, 9), (0x1128, 0x20), (0x1129, 0x10), (0x2001, 0x21), (0x2100, 4), (0x2109, 0x40),
     (0x4000, 72), (0x4002, 105), (0x5009, 0x60), (0x6001, 0x10)] a of Some b \<Rightarrow> b | None \<Rightarrow> 0)"

lemma real_cr3: "guest_byte (real_cpu\<lparr>cpu_cr3 := c\<rparr>) m a = guest_byte real_cpu m a"
  by (simp add: guest_byte_def x86_cpu_get_phys_page_debug_def real_cpu_def a20_def CR0_PG_MASK_def)

lemma those_map_Some: "those (map (\<lambda>i. Some (f i)) xs) = Some (map f xs)"
  by (induction xs) simp_all

lemma real_var:
  assumes "unat a + n \<le> 2 ^ 52"
  shows "guest_var (real_cpu\<lparr>cpu_cr3 := c\<rparr>) m a n = Some (map (\<lambda>i. m (a + of_nat i)) [0..<n])"
    "guest_var real_cpu m a n = Some (map (\<lambda>i. m (a + of_nat i)) [0..<n])"
proof -
  have "take_bit 52 (a + of_nat i) = a + of_nat i" if "i < n" for i
  proof -
    have "unat (a + of_nat i) = unat a + i" using assms that by (simp add: unat_word_ariths unat_of_nat)
    then have "unat (a + of_nat i) < 2 ^ 52" using assms that by simp
    then show ?thesis by (metis unsigned_take_bit_eq take_bit_nat_eq_self word_unat_eq_iff)
  qed
  then have "guest_bytes real_cpu m a n = map (\<lambda>i. Some (m (a + of_nat i))) [0..<n]"
    by (simp add: guest_bytes_def real_byte)
  moreover have "guest_bytes (real_cpu\<lparr>cpu_cr3 := c\<rparr>) m a n = guest_bytes real_cpu m a n" by (simp add: guest_bytes_def real_cr3)
  ultimately show "guest_var (real_cpu\<lparr>cpu_cr3 := c\<rparr>) m a n = Some (map (\<lambda>i. m (a + of_nat i)) [0..<n])"
    "guest_var real_cpu m a n = Some (map (\<lambda>i. m (a + of_nat i)) [0..<n])"
    by (simp_all add: guest_var_def those_map_Some)
qed

lemma real_virmem:
  "length v = 8 \<Longrightarrow> unat a + 8 \<le> 2 ^ 52 \<Longrightarrow>
    memfrs_get_virmem_content real_cpu m c a 8 v = (0, map (\<lambda>i. m (a + of_nat i)) [0..<8])"
  using virmem_read(1) [of v 8 c real_cpu m a] real_var [of a 8] by simp

lemma upt_8: "[0..<8] = [0, 1, 2, 3, 4, 5, 6, 7 :: nat]" "[0..<2] = [0, 1 :: nat]"
  by (simp_all add: upt_rec)

lemmas ring_paths = guest_field_def memfrs_q_struct_def memfrs_q_field_def field_type_def ring_db_def typed_field_def

text \<open>The addresses that the paths lead to.\<close>

lemma ring_struct_paths:
  "guest_field ring_db real_cpu ring_mem 0 p ''_EPROCESS'' [''#Pcb'', ''#DirectoryTableBase''] n = guest_var real_cpu ring_mem p n"
  "guest_field ring_db real_cpu ring_mem 0 p ''_EPROCESS'' [''#UniqueProcessId''] n = guest_var real_cpu ring_mem (p + 8) n"
  "guest_field ring_db real_cpu ring_mem 0 p ''_EPROCESS'' [''#ImageFileName''] n = guest_var real_cpu ring_mem (p + 0x30) n"
  "guest_field ring_db real_cpu ring_mem 0 p ''_EPROCESS'' [''#ActiveProcessLinks'', ''*Blink''] n = guest_var real_cpu ring_mem (p + 0x28) n"
  "guest_field ring_db real_cpu ring_mem 0 p ''_KPCR'' [''#Prcb'', ''#CurrentThread''] n = guest_var real_cpu ring_mem (p + 8) n"
  "guest_field ring_db real_cpu ring_mem 0 p ''_KTHREAD'' [''#Process''] n = guest_var real_cpu ring_mem p n"
  "nested_offset ring_db (memfrs_q_struct ring_db ''_EPROCESS'') 0 [''ActiveProcessLinks''] = Some 0x20"
  by (simp_all add: ring_paths add.commute add_int_def)

lemma ring_bytes:
  "map (\<lambda>i. ring_mem (0x1010 + of_nat i)) [0..<8] = [0, 0x20, 0, 0, 0, 0, 0, 0]"
  "map (\<lambda>i. ring_mem (0x2000 + of_nat i)) [0..<8] = [0, 0x21, 0, 0, 0, 0, 0, 0]"
  "map (\<lambda>i. ring_mem (0x1110 + of_nat i)) [0..<8] = [0, 0, 0, 0, 0, 0, 0, 0]"
  "map (\<lambda>i. ring_mem (0 + of_nat i)) [0..<8] = [0, 0, 0, 0, 0, 0, 0, 0]"
  "map (\<lambda>i. ring_mem (0x1000 + of_nat i)) [0..<8] = [1, 0, 0, 0, 0, 0, 0, 0]"
  "map (\<lambda>i. ring_mem (0x1008 + of_nat i)) [0..<8] = [7, 0, 0, 0, 0, 0, 0, 0]"
  "map (\<lambda>i. ring_mem (0x1100 + of_nat i)) [0..<8] = [2, 0, 0, 0, 0, 0, 0, 0]"
  "map (\<lambda>i. ring_mem (0x1108 + of_nat i)) [0..<8] = [9, 0, 0, 0, 0, 0, 0, 0]"
  "map (\<lambda>i. ring_mem (0x1028 + of_nat i)) [0..<8] = [0x20, 0x11, 0, 0, 0, 0, 0, 0]"
  "map (\<lambda>i. ring_mem (0x1128 + of_nat i)) [0..<8] = [0x20, 0x10, 0, 0, 0, 0, 0, 0]"
  "map (\<lambda>i. ring_mem (0x5008 + of_nat i)) [0..<8] = [0, 0x60, 0, 0, 0, 0, 0, 0]"
  "map (\<lambda>i. ring_mem (0x6000 + of_nat i)) [0..<8] = [0, 0x10, 0, 0, 0, 0, 0, 0]"
  "map (\<lambda>i. ring_mem (0x2108 + of_nat i)) [0..<8] = [0, 0x40, 0, 0, 0, 0, 0, 0]"
  "map (\<lambda>i. ring_mem (0x8 + of_nat i)) [0..<8] = [0, 0, 0, 0, 0, 0, 0, 0]"
  "map (\<lambda>i. ring_mem (0x2100 + of_nat i)) [0..<2] = [4, 0]"
  "map (\<lambda>i. ring_mem (0 + of_nat i)) [0..<2] = [0, 0]"
  by (simp_all add: upt_8 ring_mem_def)

lemma ring_path_fields:
  "c \<noteq> 0 \<Longrightarrow> guest_field ring_db real_cpu ring_mem c 0x1000 ''_EPROCESS'' (path_field ''#Length'') 2 = Some [4, 0]"
  "c \<noteq> 0 \<Longrightarrow> guest_field ring_db real_cpu ring_mem c 0x1000 ''_EPROCESS'' (path_field ''*Buffer'') 8 = Some [0, 0x40, 0, 0, 0, 0, 0, 0]"
  "c \<noteq> 0 \<Longrightarrow> guest_field ring_db real_cpu ring_mem c 0x1100 ''_EPROCESS'' (path_field ''#Length'') 2 = Some [0, 0]"
  "c \<noteq> 0 \<Longrightarrow> guest_field ring_db real_cpu ring_mem c 0x1100 ''_EPROCESS'' (path_field ''*Buffer'') 8 = Some [0, 0, 0, 0, 0, 0, 0, 0]"
  by (simp_all add: ring_paths real_virmem real_var ring_bytes ring_bytes [simplified])

lemma ring_path: "ring_mem 0x4000 = 72" "ring_mem 0x4002 = 105"
  by (simp_all add: ring_mem_def)

lemma ring_entries:
  "process_entry ring_db real_cpu ring_mem 0x1000 =
     Some \<lparr>pl_eprocess = 0x1000, pl_CR3 = 1, pl_pid = 7, pl_full_file_path = [72, 105, 0]\<rparr>"
  "process_entry ring_db real_cpu ring_mem 0x1100 =
     Some \<lparr>pl_eprocess = 0x1100, pl_CR3 = 2, pl_pid = 9, pl_full_file_path = [0]\<rparr>"
  by (simp_all add: process_entry_def ring_struct_paths ring_path_fields real_var ring_bytes ring_bytes [simplified] upt_8(2) ring_path)

lemma ring_ring: "process_ring ring_db real_cpu ring_mem [0x1000, 0x1100]"
  by (simp add: process_ring_def next_process_def ring_struct_paths real_var ring_bytes upt_8(2) del: nested_offset.simps)

theorem process_list_complete_witness:
  "memfrs_enum_proc_list ring_db (Some real_cpu) ring_mem (\<lambda>_. 9) 0x5000 = Some (Inr
     [\<lparr>pl_eprocess = 0x1000, pl_CR3 = 1, pl_pid = 7, pl_full_file_path = [72, 105, 0]\<rparr>,
      \<lparr>pl_eprocess = 0x1100, pl_CR3 = 2, pl_pid = 9, pl_full_file_path = [0]\<rparr>])"
proof -
  have k: "ring_db \<noteq> None" "(0x5000 :: u64) \<noteq> 0" by (simp_all add: ring_db_def)
  have "guest_field ring_db real_cpu ring_mem 0 0x5000 ''_KPCR'' [''#Prcb'', ''#CurrentThread''] 8 = Some [0, 0x60, 0, 0, 0, 0, 0, 0]"
    "guest_field ring_db real_cpu ring_mem 0 (le_word [0, 0x60, 0, 0, 0, 0, 0, 0]) ''_KTHREAD'' [''#Process''] 8 = Some [0, 0x10, 0, 0, 0, 0, 0, 0]"
    by (simp_all add: ring_struct_paths real_var ring_bytes)
  from process_list_complete [OF k this ring_ring, of "\<lambda>_. 9"] show ?thesis by (simp add: ring_entries)
qed

end
