(* ===== verification/Spec2Isabelle.thy ===== *)
theory Spec2Isabelle
  imports DiftSystem DiftApi Obhook Tracer Systrace ProcessList
begin

text \<open>
  MBA is a malware analyser built into QEMU: it runs a Windows guest and watches it from outside. This development
  models the parts MBA adds, from the sources under \<^verbatim>\<open>ext/\<close> and the places of QEMU they hook into, and proves what
  the parts promise to each other and to their user.

  \<^bold>\<open>The parts and how they interact.\<close>

  \<^item> The dynamic information flow tracker (\<^verbatim>\<open>ext/dift\<close>) marks bytes of registers, memory and disk with tags and
    follows them through execution. While a guest block is translated, \<^verbatim>\<open>gen_dift_*\<close> of
    \<^verbatim>\<open>target-i386/translate.c\<close> turns each operation into a record in a code buffer; when the block runs, the operations
    of \<^verbatim>\<open>tcg/i386/tcg-target.c\<close> push addresses and the part of the buffer that was executed into a queue
    (\<^verbatim>\<open>dift_rec_enqueue\<close>). A second thread (\<^verbatim>\<open>analysis_mainloop\<close>) takes the words out and runs for every record the
    handler of \<^verbatim>\<open>dift-policy.h\<close> that its case number selects. Disk transfers (\<^verbatim>\<open>bdrv_co_do_rw\<close> of \<^verbatim>\<open>block/io.c\<close>) go the
    same way. \<^verbatim>\<open>dift_sync\<close> waits until the second thread has caught up.
  \<^item> Out-of-box hooks (\<^verbatim>\<open>ext/obhook\<close>), the execution tracer (\<^verbatim>\<open>ext/tracer\<close>) and the system-call tracer
    (\<^verbatim>\<open>ext/systrace\<close>) keep callbacks in linked lists and hash tables (\<^verbatim>\<open>include/utlist.h\<close>, \<^verbatim>\<open>include/uthash.h\<close>) and run
    them at addresses, instructions, blocks, and at system calls and their returns.
  \<^item> Memory forensics (\<^verbatim>\<open>ext/memfrs\<close>) reads the structures of the guest's kernel through the guest's page tables
    (\<^verbatim>\<open>cpu_memory_rw_debug\<close> of \<^verbatim>\<open>exec.c\<close>, \<^verbatim>\<open>x86_cpu_get_phys_page_debug\<close> of \<^verbatim>\<open>target-i386/helper.c\<close>).

  \<^bold>\<open>Conventions.\<close> Definitions carry the names of the source. Machine integers are words of their width, except where
  a value cannot reach its bound. Operations pass their state explicitly. \<^const>\<open>None\<close> stands for leaving the behaviour
  that C defines (an index outside an array, a null or freed pointer), for \<^verbatim>\<open>exit\<close>, and for a loop that does not end;
  theorems about results are stated as \<open>= Some ...\<close>, so they include that the code returns. Arrays that are updated are
  functions with the bound of the allocation; heap records live in stores from addresses to records, the links of lists
  in a store of their own. Callbacks, the allocator, and what is not under \<^verbatim>\<open>src/\<close> are parameters.

  \<^bold>\<open>The theories.\<close>

  \<^item> \<open>Prelude\<close>: words, n-byte accesses to tables, and the rules for fallible computations.
  \<^item> \<open>DiftRecord\<close> (\<^verbatim>\<open>dift.h\<close>, \<^verbatim>\<open>case_list\<close>): records and their packed image; every case number is the one of its
    name.
  \<^item> \<open>DiftContext\<close>, \<open>DiftStore\<close> (\<^verbatim>\<open>dift.c\<close>): the taint tables and the operations on them; the loops touch exactly their
    range, copies between memory and disk move exactly the tags of the bytes.
  \<^item> \<open>DiftPolicy\<close> (\<^verbatim>\<open>dift-policy.h\<close>, \<^verbatim>\<open>dift-policy-head.h\<close>): every handler and the jump table. \<open>DiftTaint\<close>: no handler
    creates a tag bit, contaminations excepted. \<open>DiftSafe\<close>: no handler leaves its tables and each takes its own
    addresses. \<open>DiftRefine\<close>: each handler implements the operation its case number stands for.
  \<^item> \<open>DiftInterp\<close> (\<^verbatim>\<open>interpret_dift_codes\<close>, \<^verbatim>\<open>analysis_mainloop\<close>): the analysis thread executes the records of a block
    and leaves the code buffer as it was.
  \<^item> \<open>DiftGen\<close>, \<open>DiftFlow\<close>, \<open>DiftBlock\<close> (\<^verbatim>\<open>translate.c\<close>, \<^verbatim>\<open>tcg-target.c\<close>): what the translator reports is the operation of
    the instruction, and what a running block pushes makes the analysis thread execute exactly the records it completed.
  \<^item> \<open>DiftQueue\<close>, \<open>DiftChannel\<close>: the queue as a transition system of two threads; words arrive in order, nobody is stuck,
    the threads own disjoint chunks, \<^verbatim>\<open>dift_sync\<close> is a barrier. This holds in every interleaving in which the analysis
    thread makes its first step before the emulation thread has taken all chunks of the ring; a later first step breaks
    the protocol, which is a theorem as well.
  \<^item> \<open>DiftSystem\<close> (\<^verbatim>\<open>dift_sync\<close>, \<^verbatim>\<open>bdrv_co_do_rw\<close>) and this theory: the parts composed, from guest execution to taint.
  \<^item> \<open>DiftApi\<close> (\<^verbatim>\<open>dift.c\<close>, \<^verbatim>\<open>dift-commands.c\<close>, \<^verbatim>\<open>translate-all.c\<close>): marking and reading back taint, and that the code
    locations handed to blocks stay in the code buffer and are used again only after \<^verbatim>\<open>dift_sync\<close>.
  \<^item> \<open>UtHash\<close>, \<open>UtList\<close>: the tables and lists, with the contracts that \<open>Obhook\<close>, \<open>Tracer\<close> and \<open>Systrace\<close> rely on.
    These show that the registries implement plain lists of hooks and tracers, which callbacks an event runs, and that
    calls and returns of the guest are paired.
  \<^item> \<open>GuestMemory\<close>: the walk of the page tables is a lookup in a radix tree, and access page by page is access byte by
    byte. \<open>Memfrs\<close>: fields along a path of structures, strings, the tree of address descriptors. \<open>ProcessList\<close>: the
    ring of processes. The enumerations end and are complete when the guest holds a tree or a ring.

  \<^bold>\<open>Interfaces.\<close> The locales state what one part relies on in another: \<open>taint_medium\<close> (memory and disk as carriers of
  tags), \<open>tag_domain\<close> (a property of the tables that handlers keep), \<open>fifo_channel\<close> (the queue), \<open>keyed_table\<close> (the
  hash table) and \<open>record_lists\<close> (the linked lists). Each is interpreted on the definitions of the model.

  \<^bold>\<open>Bounds.\<close> There is no fuel in the statements. Loops are structural, or recursive with a measure (the walk over a
  request decreases its length, the list of processes counts to 1000 as the code does), or partial functions whose
  result is shown to exist: the walk along a linked list when the store holds a list, the traversal of descriptors when
  the guest holds a tree. Waiting for the other thread is a step that is not enabled; progress is a theorem about the
  steps. The sizes of the code (chunks, code buffer, descriptor and tracer tables, labels) are those of the source.

  \<^bold>\<open>Assumptions of the model.\<close> The two threads of the tracker run under sequential consistency. The addresses a block
  pushes do not look like the two marks in the stream, and fewer than 4096 words are pushed between two blocks; both are
  hypotheses of the theorems about whole runs. Read-write locks are
  left out: an operation on a registry is one step, while callbacks may change the registry they are called from. The
  memory behind the guest's physical addresses is plain bytes.

  \<^bold>\<open>Not modelled.\<close> QEMU itself beyond the functions named above (memory regions, devices, the block layer, the
  translation of instructions other than their reports to the tracker): it is the platform of MBA. Of the translator's
  reports, \<^verbatim>\<open>gen_op\<close> is modelled; the remaining instructions of \<^verbatim>\<open>disas_insn\<close> call the same functions. The routines
  \<^verbatim>\<open>gen_rt_*\<close> of \<^verbatim>\<open>dift.c\<close>, which write the code that translated blocks call to push words as x86 instructions: the model
  takes that code to do what \<^verbatim>\<open>dift_rec_enqueue\<close> does. Starting the analysis
  thread and its log file; the sleeping of idle threads. The printed text of the monitor commands. The further
  enumerations of \<^verbatim>\<open>ext/memfrs\<close> (handles, sockets, kernel modules, system services, the kernel's base and version), which
  follow undocumented structures with the access functions modelled here and state no contract of their own; the
  programs that generate type information, which is a parameter. The network monitor
  (\<^verbatim>\<open>ext/nettramon\<close>), the guest agent (\<^verbatim>\<open>ext/agent\<close>) and the file system access (\<^verbatim>\<open>ext/tsk\<close>): input, output and calls into
  libpcap, sockets, The Sleuth Kit and libregf.
\<close>

section \<open>The tracker end to end\<close>

text \<open>C1: From guest execution to taint, through all parts. The emulation thread runs translated blocks, each up to any
  point where its counter is synchronised, leaves blocks by exceptions that make the translator go through the block again,
  finishes disk transfers, and calls \<^verbatim>\<open>dift_sync\<close> at any places and at the end. The conditions are these.
  \<^item> Blocks (\<^verbatim>\<open>event_ok\<close>): each is the result of a translation, with its templates in the code buffer; its records name
    registers that exist, with the addresses its accesses find; and it pushes fewer than 4096 words, none of which looks
    like one of the two marks in the stream.
  \<^item> Disk transfers (\<^verbatim>\<open>event_ok\<close>): each part is in RAM or shorter than a page, and no address or length looks like a mark.
  \<^item> Load (\<^verbatim>\<open>load_ok\<close>): between two blocks or synchronisations the words of the transfers, together with those of the
    block before, are fewer than 4096, the size of \<^verbatim>\<open>q_addrs\<close>.
  \<^item> Start: the analysis thread makes its first step before the emulation thread has taken all 4096 chunks of the ring;
    from then on the two interleave in any way (\<^verbatim>\<open>queue_reach\<close>).

  Then, while the emulation thread waits in that last \<^verbatim>\<open>dift_sync\<close>, the analysis thread by its own steps gets all words,
  raises the signal, and its main loop turns them into exactly the effect of the executed records, in order, each with the
  addresses found by the accesses of its block or given by the transfer.\<close>

theorem dift_sync_completes_analysis:
  assumes "wf_globals g" and "list_all (event_ok g (an_buf st)) evs" and "load_ok 0 evs" and "an_buf st \<noteq> []"
    and "q_addrs st = []" and "deqptr (an_dc st) = None"
    and "queue_reach s" and "started s \<or> chunks_taken s < Q_CHUNKS_SIZE" and "ppc s = PRun" and "todo s = [WaitOk]"
    and "sent s = rt_out (run_events g (evs @ [Sync]) run_init)"
  shows "\<exists>s' itss dc'. cstep\<^sup>*\<^sup>* s s' \<and> got s' = sent s \<and> ok_signal s' \<and> list_all2 (event_items g) evs itss \<and>
    exec_items g (concat itss) (an_dc st) = Some dc' \<and>
    analysis_mainloop g st (got s') = Some (st\<lparr>an_dc := dc', dift_thread_ok_signal := True\<rparr>, [])"
proof -
  obtain s' where "cstep\<^sup>*\<^sup>* s s'" "got s' = sent s" "ok_signal s'"
    using waits_end [OF assms(7)] assms(8-10) by (auto simp: safe_start_iff)
  moreover obtain itss dc' where "list_all2 (event_items g) evs itss" "exec_items g (concat itss) (an_dc st) = Some dc'"
    "analysis_mainloop g st (sent s) = Some (st\<lparr>an_dc := dc', dift_thread_ok_signal := True\<rparr>, [])"
    using synced_run_analysed [OF assms(1-6)] assms(11) by auto
  ultimately show ?thesis by (intro exI [of _ s'] exI [of _ itss] exI [of _ dc']) simp
qed

definition demo_events :: "event list" where
  "demo_events = [Run (demo_calls, demo_exec), Disk (demo_request 2)]"

definition demo_analysis :: analysis_state where
  "demo_analysis = \<lparr>an_dc = demo_tainted, an_buf = dift_code_buffer demo_translated, q_addrs = [],
     dift_thread_ok_signal = False\<rparr>"

lemma demo_items:
  "transfer_items (demo_request 2) =
     [(DIFT_REC_EMPTY\<lparr>case_nb := MEM_HD\<rparr>, [0x200, 0x1000, 512]), (DIFT_REC_EMPTY\<lparr>case_nb := MEM_HD\<rparr>, [0x200, 0x1200, 512])]"
proof -
  have "replicate 2 e = [e, e]" for e :: ScatterGatherEntry by (simp add: numeral_2_eq_2)
  then show ?thesis by (simp add: transfer_items_def demo_request_def transfer_rec_def BDRV_SECTOR_SIZE_def)
qed

lemma demo_events_ok: "list_all (event_ok demo_globals (an_buf demo_analysis)) demo_events" "load_ok 0 demo_events"
proof -
  have "list_all (item_ok demo_globals) (transfer_items (demo_request 2))"
    by (simp add: demo_items item_ok_def shape_tbl_def case_nb_defs sink_room_def demo_globals_def)
  then show "list_all (event_ok demo_globals (an_buf demo_analysis)) demo_events"
    using demo_block_in demo_block_safe demo_request_plain [of 2] by (simp add: demo_events_def demo_analysis_def)
  show "load_ok 0 demo_events"
    by (simp add: demo_events_def demo_items demo_calls_def words_of_def Q_ADDRS_SIZE_def)
qed

lemma demo_words:
  "rt_out (run_events demo_globals (demo_events @ [Sync]) run_init) =
     ([MARK_WORD, 0, 0x40] @ inline_words (transfer_items (demo_request 2))) @ [MARK_WORD, sync_word 0 3, SYNC_WORD]"
  by (simp add: run_events_def demo_events_def bdrv_co_do_rw_eq demo_exec_def run_init_def rt_enqueue_def dift_sync_eq
      block_word_def MARK_WORD_def CONFIG_IF_CODES_PER_TB_def demo_globals_def Let_def)

theorem dift_sync_completes_analysis_witness:
  "\<exists>s s' dc'. queue_reach s \<and> cstep\<^sup>*\<^sup>* s s' \<and> got s' = rt_out (run_events demo_globals (demo_events @ [Sync]) run_init) \<and>
     analysis_mainloop demo_globals demo_analysis (got s') =
       Some (demo_analysis\<lparr>an_dc := dc', dift_thread_ok_signal := True\<rparr>, [])"
proof -
  let ?ws = "[MARK_WORD, 0, 0x40] @ inline_words (transfer_items (demo_request 2))"
  have "SYNC_WORD \<notin> set ?ws" "length ?ws < 509"
    by (simp_all add: demo_items inline_words_def SYNC_WORD_def MARK_WORD_def DIFT_REC_EMPTY_def u64_of_rec_def
        u64_of_bytes_def case_nb_defs)
  with sync_word_plain obtain s where s: "queue_reach s" "chunks_taken s < Q_CHUNKS_SIZE" "ppc s = PRun" "todo s = [WaitOk]"
    "sent s = ?ws @ [MARK_WORD, sync_word 0 3, SYNC_WORD]"
    using reach_after_sync by blast
  have st: "an_buf demo_analysis \<noteq> []" "q_addrs demo_analysis = []" "deqptr (an_dc demo_analysis) = None"
    by (simp_all add: demo_analysis_def demo_translated_def demo_tainted_def demo_context_def)
  have "sent s = rt_out (run_events demo_globals (demo_events @ [Sync]) run_init)" using s(5) demo_words by simp
  from dift_sync_completes_analysis [OF wf_demo_globals demo_events_ok st s(1) disjI2 [OF s(2)] s(3,4) this] this s(1) show ?thesis
    by metis
qed

end
